(* ===== verification/Edf_Prelude.thy ===== *)
theory Edf_Prelude
  imports Main "HOL-Library.Word" "HOL-Library.Monad_Syntax"
begin

text \<open>
  Shared vocabulary of the development: the option monad used for code that may
  dereference a bad pointer or loop for ever (\<open>None\<close> stands for both), C strings in
  character buffers, and doubly linked lists given by two pointer fields of a heap.
  Lemma collections: \<open>ptr_simps\<close> evaluates pointer-field reads after heap updates,
  \<open>frame_simps\<close> says which parts of a state an operation leaves alone.
\<close>

unbundle bit_operations_syntax

named_theorems ptr_simps
named_theorems frame_simps

type_synonym addr = nat
type_synonym u32 = "32 word"
type_synonym u64 = "64 word"

section \<open>The option monad\<close>

lemma bind_eq_SomeE:
  assumes "Option.bind m f = Some y"
  obtains x where "m = Some x" and "f x = Some y"
  using assms by (cases m) auto

lemma bind_SomeI: "m = Some x \<Longrightarrow> f x = Some y \<Longrightarrow> Option.bind m f = Some y"
  by simp

lemma bind_Some_map: "Option.bind m (\<lambda>x. Some (f x)) = map_option f m"
  by (cases m) auto

lemma bind_Some_map_prod: "Option.bind m (\<lambda>(x, y). Some (f x y)) = map_option (\<lambda>(x, y). f x y) m"
  by (cases m) auto

section \<open>C strings in character buffers\<close>

definition c_str :: "char list \<Rightarrow> char list" where
  "c_str buf = takeWhile (\<lambda>c. c \<noteq> CHR 0x00) buf"

definition c_strlen :: "char list \<Rightarrow> nat" where
  "c_strlen buf = length (c_str buf)"

definition c_terminated :: "char list \<Rightarrow> bool" where
  "c_terminated buf \<longleftrightarrow> CHR 0x00 \<in> set buf"

lemma c_strlen_le: "c_strlen buf \<le> length buf"
  by (simp add: c_strlen_def c_str_def length_takeWhile_le)

lemma take_c_strlen: "take (c_strlen buf) buf = c_str buf"
  unfolding c_strlen_def c_str_def by (rule takeWhile_eq_take[symmetric])

lemma c_strlen_Cons [simp]:
  "c_strlen [] = 0" "c_strlen (c # cs) = (if c = CHR 0x00 then 0 else Suc (c_strlen cs))"
  by (simp_all add: c_strlen_def c_str_def)

lemma c_strlen_nth: "i < c_strlen buf \<Longrightarrow> buf ! i \<noteq> CHR 0x00"
  by (induction buf arbitrary: i) (auto simp: nth_Cons split: if_splits nat.splits)

lemma c_terminated_strlen: "c_terminated buf \<Longrightarrow> c_strlen buf < length buf"
  by (induction buf) (auto simp: c_terminated_def)

lemma c_terminated_nth: "c_terminated buf \<Longrightarrow> buf ! c_strlen buf = CHR 0x00"
  by (induction buf) (auto simp: c_terminated_def)

section \<open>Doubly linked lists\<close>

text \<open>
  \<open>dlist nx pv p x as q\<close>: following \<open>nx\<close> from the pointer \<open>x\<close> visits exactly the
  nodes \<open>as\<close> and arrives at \<open>q\<close>; the back pointers are \<open>pv\<close>, the first of them \<open>p\<close>.
\<close>

primrec dlist :: "(addr \<Rightarrow> addr option) \<Rightarrow> (addr \<Rightarrow> addr option) \<Rightarrow> addr option \<Rightarrow>
    addr option \<Rightarrow> addr list \<Rightarrow> addr option \<Rightarrow> bool" where
  "dlist nx pv p x [] q \<longleftrightarrow> x = q"
| "dlist nx pv p x (a # as) q \<longleftrightarrow> x = Some a \<and> pv a = p \<and> dlist nx pv (Some a) (nx a) as q"

definition last_ptr :: "addr option \<Rightarrow> addr list \<Rightarrow> addr option" where
  "last_ptr p as = (if as = [] then p else Some (last as))"

definition first_ptr :: "addr list \<Rightarrow> addr option \<Rightarrow> addr option" where
  "first_ptr as q = (case as of [] \<Rightarrow> q | a # _ \<Rightarrow> Some a)"

lemma last_ptr_simps [simp]:
  "last_ptr p [] = p" "last_ptr p (a # as) = last_ptr (Some a) as"
  "last_ptr p (as @ [b]) = Some b"
  by (auto simp: last_ptr_def)

lemma first_ptr_simps [simp]: "first_ptr [] q = q" "first_ptr (a # as) q = Some a"
  by (auto simp: first_ptr_def)

lemma last_ptr_in: "last_ptr None as = Some p \<Longrightarrow> p \<in> set as"
  by (auto simp: last_ptr_def split: if_splits)

lemma first_ptr_in: "first_ptr as None = Some p \<Longrightarrow> p \<in> set as"
  by (cases as) auto

lemma first_ptr_append: "first_ptr (as @ bs) q = first_ptr as (first_ptr bs q)"
  by (cases as) auto

lemma dlist_first: "dlist nx pv p x as q \<Longrightarrow> x = first_ptr as q"
  by (cases as) auto

lemma dlist_append:
  "dlist nx pv p x (as @ bs) q \<longleftrightarrow>
     dlist nx pv p x as (first_ptr bs q) \<and> dlist nx pv (last_ptr p as) (first_ptr bs q) bs q"
  by (induction as arbitrary: p x) (auto dest: dlist_first)

lemma dlist_nx_upd: "a \<notin> set as \<Longrightarrow> dlist (nx(a := v)) pv p x as q = dlist nx pv p x as q"
  by (induction as arbitrary: p x) auto

lemma dlist_pv_upd: "a \<notin> set as \<Longrightarrow> dlist nx (pv(a := v)) p x as q = dlist nx pv p x as q"
  by (induction as arbitrary: p x) auto

lemmas dlist_upd [simp] = dlist_nx_upd dlist_pv_upd

lemma dlist_cong:
  assumes "\<And>a. a \<in> set as \<Longrightarrow> nx a = nx' a" and "\<And>a. a \<in> set as \<Longrightarrow> pv a = pv' a"
  shows "dlist nx pv p x as q = dlist nx' pv' p x as q"
  using assms by (induction as arbitrary: p x) auto

lemma dlist_snoc:
  assumes "dlist nx pv p x as None" and "b \<notin> set as" and "distinct as"
  shows "dlist ((case last_ptr None as of None \<Rightarrow> nx | Some t \<Rightarrow> nx(t := Some b))(b := None))
      (pv(b := last_ptr p as)) p (first_ptr (as @ [b]) None) (as @ [b]) None"
proof (cases as rule: rev_cases)
  case Nil
  then show ?thesis by simp
next
  case (snoc bs t)
  have t: "last_ptr None as = Some t" and d: "t \<notin> set bs" "b \<noteq> t" "b \<notin> set bs"
    using assms snoc by auto
  have "dlist nx pv p x bs (Some t)" and "pv t = last_ptr p bs"
    using assms(1) snoc by (auto simp: dlist_append)
  then show ?thesis
    using snoc d assms(1) by (auto simp: dlist_append first_ptr_append dest: dlist_first)
qed

text \<open>Unlinking a node: the predecessor's \<open>nx\<close> and the successor's \<open>pv\<close> are patched.\<close>

lemma dlist_unlink:
  assumes "dlist nx pv None x (as @ a # bs) None" and "distinct (as @ a # bs)"
  shows "dlist (case pv a of None \<Rightarrow> nx | Some b \<Rightarrow> nx(b := nx a))
      (case nx a of None \<Rightarrow> pv | Some b \<Rightarrow> pv(b := pv a)) None
      (first_ptr (as @ bs) None) (as @ bs) None"
    and "pv a = last_ptr None as" and "nx a = first_ptr bs None"
proof -
  have l: "dlist nx pv None x as (Some a)" "pv a = last_ptr None as"
    "dlist nx pv (Some a) (nx a) bs None"
    using assms(1) by (auto simp: dlist_append)
  then have n: "nx a = first_ptr bs None" by (auto dest: dlist_first)
  show "pv a = last_ptr None as" "nx a = first_ptr bs None" by (fact l n)+
  have front: "dlist (case pv a of None \<Rightarrow> nx | Some b \<Rightarrow> nx(b := nx a)) pv None
      (first_ptr as (nx a)) as (nx a)"
  proof (cases as rule: rev_cases)
    case Nil
    then show ?thesis by simp
  next
    case (snoc cs c)
    have "c \<notin> set cs" using assms(2) snoc by auto
    then show ?thesis
      using l snoc by (auto simp: dlist_append first_ptr_append dest: dlist_first)
  qed
  have rear: "dlist nx (case nx a of None \<Rightarrow> pv | Some b \<Rightarrow> pv(b := pv a)) (pv a)
      (nx a) bs None"
    using l(3) n assms(2) by (cases bs) auto
  show "dlist (case pv a of None \<Rightarrow> nx | Some b \<Rightarrow> nx(b := nx a))
      (case nx a of None \<Rightarrow> pv | Some b \<Rightarrow> pv(b := pv a)) None
      (first_ptr (as @ bs) None) (as @ bs) None"
  proof -
    have A: "last as \<notin> set bs \<or> as = []"
      using assms(2) by (cases as rule: rev_cases) auto
    have B: "bs = [] \<or> hd bs \<notin> set as"
      using assms(2) by (cases bs) auto
    have "dlist (case pv a of None \<Rightarrow> nx | Some b \<Rightarrow> nx(b := nx a))
        (case nx a of None \<Rightarrow> pv | Some b \<Rightarrow> pv(b := pv a)) None (first_ptr as (nx a)) as (nx a)"
      using front B n by (cases bs) auto
    moreover have "dlist (case pv a of None \<Rightarrow> nx | Some b \<Rightarrow> nx(b := nx a))
        (case nx a of None \<Rightarrow> pv | Some b \<Rightarrow> pv(b := pv a)) (pv a) (nx a) bs None"
      using rear A l(2) by (cases as rule: rev_cases) auto
    ultimately show ?thesis
      using l(2) n by (simp add: dlist_append first_ptr_append)
  qed
qed

text \<open>A null-terminated list with the back pointers ignored.\<close>

primrec npath :: "(addr \<Rightarrow> addr option) \<Rightarrow> addr option \<Rightarrow> addr list \<Rightarrow> bool" where
  "npath nx x [] \<longleftrightarrow> x = None"
| "npath nx x (a # as) \<longleftrightarrow> x = Some a \<and> npath nx (nx a) as"

lemma dlist_npath: "dlist nx pv p x as None \<Longrightarrow> npath nx x as"
  by (induction as arbitrary: p x) auto

lemma npath_cong: "(\<And>a. a \<in> set as \<Longrightarrow> nx a = nx' a) \<Longrightarrow> npath nx x as = npath nx' x as"
  by (induction as arbitrary: x) auto

section \<open>Lists of lists\<close>

lemma distinct_concat_index:
  assumes "\<And>i. i < length xss \<Longrightarrow> distinct (xss ! i) \<and> (\<forall>a\<in>set (xss ! i). f a = (k + i :: nat))"
  shows "distinct (concat xss)"
  using assms
proof (induction xss arbitrary: k)
  case Nil
  then show ?case by simp
next
  case (Cons xs xss)
  have tl: "distinct (xss ! i) \<and> (\<forall>a\<in>set (xss ! i). f a = Suc k + i)" if "i < length xss" for i
    using Cons.prems [of "Suc i"] that by simp
  have "f a = k" if "a \<in> set xs" for a using Cons.prems [of 0] that by simp
  moreover have "f a \<noteq> k" if "a \<in> set (concat xss)" for a
  proof -
    from that obtain i where "i < length xss" "a \<in> set (xss ! i)"
      by (auto simp: in_set_conv_nth [of _ xss])
    then show ?thesis using tl [of i] by auto
  qed
  ultimately show ?case using Cons.IH [OF tl] Cons.prems [of 0] by auto
qed

lemma set_concat_nth: "set (concat xss) = (\<Union>i<length xss. set (xss ! i))"
  by (induction xss) (auto simp: lessThan_Suc_eq_insert_0)

text \<open>Searching two lists that agree on the elements searched for.\<close>

lemma find_eq_None: "find P xs = None \<longleftrightarrow> (\<forall>x\<in>set xs. \<not> P x)"
  by (induction xs) auto

lemma find_eq_Some: "find P xs = Some x \<Longrightarrow> x \<in> set xs \<and> P x"
  by (induction xs) (auto split: if_splits)

lemma find_unique:
  assumes "x \<in> set xs" and "P x" and "\<And>y. y \<in> set xs \<Longrightarrow> P y \<Longrightarrow> y = x"
  shows "find P xs = Some x"
proof (cases "find P xs")
  case None
  then show ?thesis using assms(1,2) by (auto simp: find_eq_None)
next
  case (Some y)
  then show ?thesis using find_eq_Some [OF Some] assms(3) by auto
qed

lemma find_same:
  assumes "{x \<in> set xs. P x} = {x \<in> set ys. P x}"
    and "\<And>x y. x \<in> set ys \<Longrightarrow> y \<in> set ys \<Longrightarrow> P x \<Longrightarrow> P y \<Longrightarrow> x = y"
  shows "find P xs = find P ys"
proof (cases "find P ys")
  case None
  then have "{x \<in> set ys. P x} = {}" by (auto simp: find_eq_None)
  then have "find P xs = None" unfolding find_eq_None using assms(1) by blast
  with None show ?thesis by simp
next
  case (Some y)
  then have y: "y \<in> set ys" "P y" using find_eq_Some by force+
  then have "find P xs = Some y" using assms by (intro find_unique) blast+
  with Some show ?thesis by simp
qed

section \<open>Arithmetic of 64-bit words\<close>

lemma unat_mult_no_wrap:
  fixes a b :: "'a::len word"
  shows "unat a * unat b < 2 ^ LENGTH('a) \<Longrightarrow> unat (a * b) = unat a * unat b"
  by (simp add: unat_word_ariths)

lemma word_unat_eqI: "unat v = unat w \<Longrightarrow> v = (w :: 'a::len word)"
  by (rule unsigned_word_eqI)

lemma unat_drop_bit: "unat (drop_bit n (w :: 'a::len word)) = unat w div 2 ^ n"
  by (simp add: unat_drop_bit_eq flip: drop_bit_eq_div)

lemma unat_ucast_down:
  "unat (w :: u64) < 2 ^ 32 \<Longrightarrow> unat (ucast w :: u32) = unat w"
  by (simp add: unsigned_ucast_eq take_bit_nat_eq_self)

lemma unat_ucast_up: "unat (ucast (w :: u32) :: u64) = unat w"
proof -
  have "unat w < 2 ^ 32" using unsigned_less [of w] by simp
  then have "unat w < 2 ^ 64" by simp
  then show ?thesis by (simp add: unsigned_ucast_eq take_bit_nat_eq_self)
qed

lemma unat_high: "unat (ucast (drop_bit 32 (w :: u64)) :: u32) = unat w div 2 ^ 32"
proof -
  have "unat w < 2 ^ 64" using unsigned_less [of w] by simp
  then have "unat (drop_bit 32 w) < 2 ^ 32"
    by (simp add: unat_drop_bit less_mult_imp_div_less)
  then show ?thesis by (simp add: unat_ucast_down unat_drop_bit)
qed

end
