(* ===== verification/Edf_Types.thy ===== *)
theory Edf_Types
  imports Edf_Prelude
begin

text \<open>
  The data model: the constants, enumerations and structures of edfomai-data.h and
  edfomai-drv-data.h, and the interface to the code that is not part of the repository
  (the Xenomai native and RTDM skins and the Linux kernel library).

  The external code is a parameter. A record \<open>rtos\<close> holds one function per external
  routine whose answer the program uses. Every answer may depend on the whole history of
  external calls made so far, so two successive readings of the timer, or two inquiries
  about the same task, may differ. The history is a list of \<open>rt_call\<close>, the oldest first,
  kept in the program's state; it is also the record of what the program did to the
  outside world.
\<close>

section \<open>Constants and enumerations\<close>

definition TNAME_LEN :: nat where "TNAME_LEN = 24"

definition DEADLINENOTSET :: u64 where "DEADLINENOTSET = -1"

definition MAXPRIO :: u32 where "MAXPRIO = 50"

definition MINPRIO :: u32 where "MINPRIO = 0"

datatype EDFCommand =
  CREATE_TASK | START_TASK | RESET_DEADLINE | SET_DEADLINE | STOP_WATCHD | GOING_WAITP

fun EDFCommand_val :: "EDFCommand \<Rightarrow> int" where
  "EDFCommand_val CREATE_TASK = 0"
| "EDFCommand_val START_TASK = 1"
| "EDFCommand_val RESET_DEADLINE = 2"
| "EDFCommand_val SET_DEADLINE = 3"
| "EDFCommand_val STOP_WATCHD = 4"
| "EDFCommand_val GOING_WAITP = 5"

datatype TaskState = RUNNING | WAITING_PERIOD

fun TaskState_val :: "TaskState \<Rightarrow> int" where
  "TaskState_val RUNNING = 0"
| "TaskState_val WAITING_PERIOD = 1"

datatype DeadlineState = OK | MISSED

section \<open>Structures\<close>

text \<open>
  The command of a message comes from user space, so it is an integer, not an
  enumerator. The \<open>state\<close> field of a deadline task is an integer too: the code stores
  enumerators of two different enumerations in it.
\<close>

record EDFMessage =
  command :: int
  msg_task :: "char list"
  msg_deadline :: u64

type_synonym RT_TASK = nat

record RT_TASK_INFO =
  ti_name :: "char list"
  ti_cprio :: u32

record RT_DEADLINE_TASK =
  deadline :: u64
  remain :: u64
  relative_deadline :: u64
  status :: DeadlineState
  state :: int
  task :: "RT_TASK option"
  watchd :: "addr option"
  task_info :: RT_TASK_INFO

section \<open>The external world\<close>

datatype rt_call =
    Timer_read
  | Task_inquire RT_TASK
  | Set_priority RT_TASK u32
  | Queue_write "char list"
  | Malloc addr
  | Malloc_failed
  | Free addr
  | Lock_get
  | Lock_put

type_synonym history = "rt_call list"

text \<open>
  \<open>fls\<close> and \<open>do_div\<close> of the Linux kernel: the position of the highest bit set, counted
  from 1, and the quotient of a 64-bit by a 32-bit number (\<open>None\<close>: the division traps).
\<close>

record klib =
  fls :: "u32 \<Rightarrow> nat"
  do_div :: "u64 \<Rightarrow> u32 \<Rightarrow> u64 option"

text \<open>
  The Xenomai side. \<open>rtdm_malloc\<close> returns \<open>None\<close> for NULL; \<open>rt_task_inquire\<close> returns an
  error number, and then leaves the caller's structure alone, or the information it fills
  in; \<open>rname\<close> is the name stored in a task's descriptor; the last two are what
  uninitialised memory holds: a fresh \<open>RT_TASK_INFO\<close>, and the message buffer on the stack
  of \<open>deadline_missed\<close>.
\<close>

record rtos = klib +
  rt_timer_read :: "history \<Rightarrow> u64"
  rt_task_inquire :: "history \<Rightarrow> RT_TASK \<Rightarrow> int + RT_TASK_INFO"
  rtdm_malloc :: "history \<Rightarrow> addr option"
  rname :: "RT_TASK \<Rightarrow> char list"
  raw_info :: "history \<Rightarrow> RT_TASK_INFO"
  raw_message :: "history \<Rightarrow> char list"

text \<open>The blocks that a history has allocated and not freed.\<close>

fun live_from :: "addr list \<Rightarrow> history \<Rightarrow> addr list" where
  "live_from bs [] = bs"
| "live_from bs (Malloc a # h) = live_from (a # bs) h"
| "live_from bs (Free a # h) = live_from (remove1 a bs) h"
| "live_from bs (_ # h) = live_from bs h"

definition live :: "history \<Rightarrow> addr list" where
  "live h = live_from [] h"

section \<open>What the program relies on\<close>

text \<open>The documented behaviour of the kernel library.\<close>

definition klib_ok :: "'m klib_scheme \<Rightarrow> bool" where
  "klib_ok env \<longleftrightarrow>
     (\<forall>x. x \<noteq> 0 \<longrightarrow> fls env x \<noteq> 0 \<and> 2 ^ (fls env x - 1) \<le> unat x \<and> unat x < 2 ^ fls env x) \<and>
     (\<forall>n d. d \<noteq> 0 \<longrightarrow> do_div env n d = Some (n div ucast d))"


section \<open>A kernel library that behaves as documented\<close>

text \<open>
  A concrete instance, by repeated halving. The properties hold for every library that
  satisfies \<open>klib_ok\<close>; this one shows that the requirement can be met, and is what the
  witnesses run on.
\<close>

fun bit_length :: "nat \<Rightarrow> nat" where
  "bit_length n = (if n = 0 then 0 else Suc (bit_length (n div 2)))"

declare bit_length.simps [simp del]

lemma bit_length_bounds: "n \<noteq> 0 \<Longrightarrow> bit_length n \<noteq> 0 \<and> 2 ^ (bit_length n - 1) \<le> n \<and> n < 2 ^ bit_length n"
proof (induction n rule: bit_length.induct)
  case (1 n)
  show ?case
  proof (cases "n div 2 = 0")
    case True
    then have "n = 1" using "1.prems" by linarith
    then show ?thesis by (simp add: bit_length.simps)
  next
    case False
    define m where "m = bit_length (n div 2)"
    have "m \<noteq> 0" "2 ^ (m - 1) \<le> n div 2" "n div 2 < 2 ^ m"
      using "1.IH" "1.prems" False by (simp_all add: m_def)
    moreover obtain k where "m = Suc k" using \<open>m \<noteq> 0\<close> not0_implies_Suc by blast
    moreover have "bit_length n = Suc m"
      using "1.prems" by (subst bit_length.simps) (simp add: m_def)
    ultimately show ?thesis by auto
  qed
qed

definition demo_fls :: "u32 \<Rightarrow> nat" where
  "demo_fls x = bit_length (unat x)"

definition demo_do_div :: "u64 \<Rightarrow> u32 \<Rightarrow> u64 option" where
  "demo_do_div n d = (if d = 0 then None else Some (n div ucast d))"

definition demo_klib :: klib where
  "demo_klib = \<lparr>fls = demo_fls, do_div = demo_do_div\<rparr>"

lemma klib_okI:
  assumes "fls env = demo_fls" and "do_div env = demo_do_div"
  shows "klib_ok env"
proof -
  have "demo_fls x \<noteq> 0 \<and> 2 ^ (demo_fls x - 1) \<le> unat x \<and> unat x < 2 ^ demo_fls x" if "x \<noteq> 0" for x
  proof -
    from that have "unat x \<noteq> 0" using unat_gt_0 by blast
    then show ?thesis unfolding demo_fls_def by (rule bit_length_bounds)
  qed
  then show ?thesis using assms by (simp add: klib_ok_def demo_do_div_def)
qed

lemma demo_klib_ok: "klib_ok demo_klib"
  by (rule klib_okI) (simp_all add: demo_klib_def)

lemmas demo_simps = demo_fls_def demo_do_div_def demo_klib_def bit_length.simps

end
