(* ===== verification/Edf_Prio.thy ===== *)
theory Edf_Prio
  imports Edf_Types
begin

text \<open>
  The priority arithmetic of edfomai-drv-data.c: the approximate 64-bit division
  \<open>div64_64\<close> and the map \<open>_calculate_prio\<close> from a remaining time to a priority.
  The lemmas bound the error of the division and show when the map is a correct EDF
  assignment: total, inside [MINPRIO, MAXPRIO], and antitone in the remaining time.
\<close>

section \<open>The code\<close>

definition div64_64 :: "'m klib_scheme \<Rightarrow> u64 \<Rightarrow> u64 \<Rightarrow> u64 option" where
  "div64_64 env dividend divisor =
     (let high = (ucast (drop_bit 32 divisor) :: u32)
      in if high \<noteq> 0
         then let shift = fls env high;
                  d = (ucast (drop_bit shift divisor) :: u32);
                  dividend = drop_bit shift dividend
              in do_div env dividend d
         else let d = (ucast divisor :: u32)
              in do_div env dividend d)"

definition calculate_prio :: "'m klib_scheme \<Rightarrow> u64 \<Rightarrow> u64 \<Rightarrow> u64 \<Rightarrow> u32 option" where
  "calculate_prio env rem min_rem max_rem =
     (let a = (rem - min_rem) * ucast (MAXPRIO - MINPRIO);
          b = (if max_rem - min_rem = 0 then (if rem \<noteq> 0 then rem else 1)
               else max_rem - min_rem)
      in do { r \<leftarrow> div64_64 env a b;
              Some (MAXPRIO - ucast r) })"

section \<open>The division\<close>

text \<open>Shifting divisor and dividend right until the divisor fits 32 bits.\<close>

lemma shift_slack:
  fixes n d e r s :: nat
  assumes n: "n < 2 ^ 64" and lo: "2 ^ (31 + s) \<le> d" and s: "s \<noteq> 0"
    and r: "r < 2 ^ s" and e: "2 ^ 31 * 2 ^ s \<le> e"
  shows "Suc (n div d) * r \<le> e"
proof -
  define q where "q = n div d"
  have "q * (2 ^ 31 * 2 ^ s) \<le> q * d" using lo by (simp add: power_add)
  also have "q * d \<le> n" by (simp add: q_def)
  finally have "q * 2 ^ s * 2 ^ 31 < 2 ^ 33 * 2 ^ 31" using n by (simp add: mult.assoc mult.commute)
  then have qs: "q * 2 ^ s < 2 ^ 33" by simp
  show ?thesis
  proof (cases "q = 0")
    case True
    then show ?thesis using r e by (simp add: q_def)
  next
    case False
    then have "2 ^ s \<le> q * 2 ^ s" by simp
    then have "(2::nat) ^ s < 2 ^ 33" using qs by (rule le_less_trans)
    then have "s < 33" by (rule power_less_imp_less_exp [rotated]) simp
    then have "(2::nat) ^ 33 = 2 ^ (33 - s) * 2 ^ s" by (simp flip: power_add)
    then have "q * 2 ^ s < 2 ^ (33 - s) * 2 ^ s" using qs by linarith
    then have "Suc q \<le> 2 ^ (33 - s)" by simp
    then have "Suc q * 2 ^ s \<le> 2 ^ (33 - s) * 2 ^ s" by (rule mult_le_mono1)
    then have qs': "Suc q * 2 ^ s \<le> 2 ^ 33" using \<open>(2::nat) ^ 33 = _\<close> by linarith
    have rs: "Suc q * r \<le> Suc q * (2 ^ s - 1)" using r by (intro mult_le_mono2) simp
    show ?thesis
    proof (cases "s = 1")
      case True
      then show ?thesis using rs qs' e by (simp add: q_def)
    next
      case False
      then obtain k where "s = Suc (Suc k)"
        using s by (metis One_nat_def not0_implies_Suc)
      then have "(2::nat) ^ 33 \<le> 2 ^ 31 * 2 ^ s" by simp
      moreover have "Suc q * (2 ^ s - 1) \<le> Suc q * 2 ^ s" by (intro mult_le_mono2) simp
      ultimately show ?thesis using rs qs' e unfolding q_def by linarith
    qed
  qed
qed

lemma shifted_quotient:
  fixes n d :: nat
  assumes n: "n < 2 ^ 64" and lo: "2 ^ (31 + s) \<le> d" and s: "s \<noteq> 0"
  shows "n div d \<le> (n div 2 ^ s) div (d div 2 ^ s)"
    and "(n div 2 ^ s) div (d div 2 ^ s) \<le> Suc (n div d)"
    and "n \<le> 50 * d \<Longrightarrow> (n div 2 ^ s) div (d div 2 ^ s) \<le> 50"
proof -
  define e r where "e = 2 ^ s * (d div 2 ^ s)" and "r = d mod 2 ^ s"
  have d: "d = e + r" by (simp add: e_def r_def)
  have r: "r < 2 ^ s" by (simp add: r_def)
  have q: "(n div 2 ^ s) div (d div 2 ^ s) = n div e"
    by (simp add: e_def div_mult2_eq)
  have "2 ^ 31 \<le> d div 2 ^ s"
    using div_le_mono [OF lo, of "2 ^ s"] by (simp add: power_add)
  then have e: "2 ^ 31 * 2 ^ s \<le> e"
    unfolding e_def by (metis mult.commute mult_le_mono2)
  then have e0: "0 < e" by (metis gr0I le_zero_eq mult_is_0 power_not_zero zero_neq_numeral)
  show "n div d \<le> (n div 2 ^ s) div (d div 2 ^ s)"
    unfolding q using e0 d by (intro div_le_mono2) auto
  show "(n div 2 ^ s) div (d div 2 ^ s) \<le> 50" if "n \<le> 50 * d"
  proof -
    have "50 * r < 2 ^ 31 * 2 ^ s" using r by simp
    then have "n < 51 * e" using that d e by simp
    then have "n div e < 51" using e0 by (simp add: less_mult_imp_div_less)
    then show ?thesis unfolding q by simp
  qed
  have slack: "Suc (n div d) * r \<le> e" by (rule shift_slack [OF n lo s r e])
  have "n < d + (n div d) * d"
    using dividend_less_div_times [of d n] e0 d by simp
  then have "n < Suc (n div d) * e + Suc (n div d) * r"
    using d by (simp add: algebra_simps)
  with slack have "n < Suc (Suc (n div d)) * e" by simp
  then have "n div e < Suc (Suc (n div d))" using e0 by (simp add: less_mult_imp_div_less)
  then show "(n div 2 ^ s) div (d div 2 ^ s) \<le> Suc (n div d)" unfolding q by simp
qed


text \<open>
  The result is a quotient of shifted operands; the shift is 0 when the divisor fits
  32 bits, and otherwise leaves at least 32 significant bits in it.
\<close>

definition div_shift :: "'m klib_scheme \<Rightarrow> u64 \<Rightarrow> nat" where
  "div_shift env divisor =
     (let high = (ucast (drop_bit 32 divisor) :: u32) in if high \<noteq> 0 then fls env high else 0)"

lemma div64_64_shift:
  assumes k: "klib_ok env" and d: "divisor \<noteq> 0"
  obtains q where "div64_64 env dividend divisor = Some q"
    and "unat q = (unat dividend div 2 ^ div_shift env divisor)
           div (unat divisor div 2 ^ div_shift env divisor)"
    and "div_shift env divisor = 0 \<longleftrightarrow> unat divisor < 2 ^ 32"
    and "div_shift env divisor \<noteq> 0 \<Longrightarrow> 2 ^ (31 + div_shift env divisor) \<le> unat divisor"
proof (cases "unat divisor < 2 ^ 32")
  case True
  then have h: "(ucast (drop_bit 32 divisor) :: u32) = 0"
    by (metis div_less unat_eq_zero unat_high)
  have u: "unat (ucast divisor :: u32) = unat divisor" using True by (rule unat_ucast_down)
  then have "(ucast divisor :: u32) \<noteq> 0" using d by (metis unat_eq_zero)
  then have "div64_64 env dividend divisor = Some (dividend div ucast (ucast divisor :: u32))"
    using k h by (simp add: div64_64_def klib_ok_def)
  moreover have "unat (dividend div ucast (ucast divisor :: u32)) = unat dividend div unat divisor"
    using u by (simp add: unat_div unat_ucast_up)
  ultimately show ?thesis using that True h by (simp add: div_shift_def)
next
  case False
  define h where "h = (ucast (drop_bit 32 divisor) :: u32)"
  define s where "s = fls env h"
  have uh: "unat h = unat divisor div 2 ^ 32" by (simp add: h_def unat_high)
  then have "unat h \<noteq> 0" using False by (simp add: div_eq_0_iff)
  then have "h \<noteq> 0" by auto
  with k have f: "s \<noteq> 0" "2 ^ (s - 1) \<le> unat h" "unat h < 2 ^ s"
    by (auto simp: klib_ok_def s_def)
  obtain t where t: "s = Suc t" using f(1) not0_implies_Suc by blast
  have "2 ^ t * 2 ^ 32 \<le> (unat divisor div 2 ^ 32) * 2 ^ 32"
    using f(2) t uh by simp
  also have "\<dots> \<le> unat divisor" by simp
  finally have lo: "2 ^ (31 + s) \<le> unat divisor" using t by (simp add: power_add)
  have "unat divisor < 2 ^ 32 * 2 ^ s"
    using f(3) uh by (simp add: div_less_iff_less_mult mult.commute)
  then have "unat (drop_bit s divisor) < 2 ^ 32"
    by (simp add: unat_drop_bit less_mult_imp_div_less)
  then have u: "unat (ucast (drop_bit s divisor) :: u32) = unat divisor div 2 ^ s"
    by (simp add: unat_ucast_down unat_drop_bit)
  have "0 < unat divisor div 2 ^ s"
    using lo by (simp add: div_greater_zero_iff power_add)
  then have "(ucast (drop_bit s divisor) :: u32) \<noteq> 0" using u by auto
  then have "div64_64 env dividend divisor =
      Some (drop_bit s dividend div ucast (ucast (drop_bit s divisor) :: u32))"
    using k \<open>h \<noteq> 0\<close> by (simp add: div64_64_def klib_ok_def h_def s_def Let_def)
  moreover have "unat (drop_bit s dividend div ucast (ucast (drop_bit s divisor) :: u32)) =
      (unat dividend div 2 ^ s) div (unat divisor div 2 ^ s)"
    using u by (simp add: unat_div unat_ucast_up unat_drop_bit)
  moreover have "div_shift env divisor = s"
    using \<open>h \<noteq> 0\<close> unfolding div_shift_def h_def s_def by simp
  ultimately show ?thesis using that False f(1) lo by simp
qed


section \<open>The priority map\<close>

text \<open>The scaled distance does not exceed 64 bits: the map's arithmetic cannot wrap.\<close>

definition prio_span_ok :: "u64 \<Rightarrow> u64 \<Rightarrow> bool" where
  "prio_span_ok min_rem max_rem \<longleftrightarrow> 50 * (unat max_rem - unat min_rem) < 2 ^ 64"

lemma ucast_prio_range: "(ucast (MAXPRIO - MINPRIO) :: u64) = 50"
  by (simp add: MAXPRIO_def MINPRIO_def)

text \<open>The divisor chosen by the code is never 0.\<close>

definition prio_divisor :: "u64 \<Rightarrow> u64 \<Rightarrow> u64 \<Rightarrow> u64" where
  "prio_divisor rem min_rem max_rem =
     (if max_rem - min_rem = 0 then (if rem \<noteq> 0 then rem else 1) else max_rem - min_rem)"

lemma prio_divisor_nonzero: "prio_divisor rem min_rem max_rem \<noteq> 0"
  by (simp add: prio_divisor_def)

lemma calculate_prio_div64:
  "calculate_prio env rem min_rem max_rem =
     map_option (\<lambda>r. MAXPRIO - ucast r)
       (div64_64 env ((rem - min_rem) * ucast (MAXPRIO - MINPRIO)) (prio_divisor rem min_rem max_rem))"
  by (simp only: calculate_prio_def prio_divisor_def Let_def bind_Some_map)

lemma calculate_prio_total:
  assumes "klib_ok env"
  shows "\<exists>p. calculate_prio env rem min_rem max_rem = Some p"
  using div64_64_shift [OF assms prio_divisor_nonzero]
  by (metis calculate_prio_div64 option.simps(9))

text \<open>The shift and the divisor of the map, as numbers.\<close>

definition prio_shift :: "'m klib_scheme \<Rightarrow> u64 \<Rightarrow> u64 \<Rightarrow> nat" where
  "prio_shift env min_rem max_rem = div_shift env (max_rem - min_rem)"

definition prio_quot :: "'m klib_scheme \<Rightarrow> u64 \<Rightarrow> u64 \<Rightarrow> u64 \<Rightarrow> nat" where
  "prio_quot env rem min_rem max_rem =
     (50 * (unat rem - unat min_rem)) div 2 ^ prio_shift env min_rem max_rem
       div ((unat max_rem - unat min_rem) div 2 ^ prio_shift env min_rem max_rem)"

lemma unat_scaled:
  assumes "min_rem \<le> rem" and "rem \<le> max_rem" and "prio_span_ok min_rem max_rem"
  shows "unat ((rem - min_rem) * ucast (MAXPRIO - MINPRIO)) = 50 * (unat rem - unat min_rem)"
proof -
  have "unat (rem - min_rem) = unat rem - unat min_rem"
    using assms(1) by (simp add: unat_sub)
  moreover have "50 * (unat rem - unat min_rem) < 2 ^ 64"
    using assms(2,3) by (simp add: prio_span_ok_def word_le_nat_alt)
  ultimately show ?thesis
    unfolding ucast_prio_range by (subst unat_mult_no_wrap) (simp_all add: mult.commute)
qed

lemma calculate_prio_quot:
  assumes k: "klib_ok env" and le: "min_rem \<le> rem" "rem \<le> max_rem"
    and span: "prio_span_ok min_rem max_rem"
  obtains p where "calculate_prio env rem min_rem max_rem = Some p"
    and "unat p = 50 - prio_quot env rem min_rem max_rem"
    and "prio_quot env rem min_rem max_rem \<le> 50"
proof (cases "max_rem = min_rem")
  case True
  then have rem: "rem = min_rem" using le by simp
  obtain q where q: "div64_64 env 0 (prio_divisor rem min_rem max_rem) = Some q" "unat q = 0"
    by (metis div64_64_shift [OF k prio_divisor_nonzero] div_0 unat_0)
  moreover have "q = 0" using q(2) by (intro word_unat_eqI) simp
  ultimately have "calculate_prio env rem min_rem max_rem = Some MAXPRIO"
    using rem by (simp add: calculate_prio_div64)
  then show ?thesis using that rem by (simp add: prio_quot_def MAXPRIO_def)
next
  case False
  let ?b = "max_rem - min_rem" and ?a = "(rem - min_rem) * ucast (MAXPRIO - MINPRIO)"
  have b: "?b \<noteq> 0" using False by simp
  have ub: "unat ?b = unat max_rem - unat min_rem" using le by (simp add: unat_sub)
  obtain q where q: "div64_64 env ?a ?b = Some q"
    "unat q = (unat ?a div 2 ^ div_shift env ?b) div (unat ?b div 2 ^ div_shift env ?b)"
    "div_shift env ?b \<noteq> 0 \<Longrightarrow> 2 ^ (31 + div_shift env ?b) \<le> unat ?b"
    using div64_64_shift [OF k b, of ?a] by metis
  have ua: "unat ?a = 50 * (unat rem - unat min_rem)"
    using le span by (rule unat_scaled)
  have a64: "unat ?a < 2 ^ 64" using unsigned_less [of ?a, where 'a = nat] by simp
  have q_eq: "unat q = prio_quot env rem min_rem max_rem"
    using q(2) by (simp add: prio_quot_def prio_shift_def ua ub)
  have le50: "unat ?a \<le> 50 * unat ?b"
    using le by (simp add: ua ub word_le_nat_alt)
  have q50: "unat q \<le> 50"
  proof (cases "div_shift env ?b = 0")
    case True
    have "unat ?b > 0" using b by (simp add: unat_gt_0)
    then have "unat ?a div unat ?b < 51"
      using le50 by (intro less_mult_imp_div_less) simp
    then show ?thesis using q(2) True by simp
  next
    case False
    then show ?thesis using shifted_quotient(3) [OF a64 q(3) _ le50] q(2) by simp
  qed
  have "unat (ucast q :: u32) = unat q" using q50 by (intro unat_ucast_down) simp
  then have "unat (MAXPRIO - ucast q) = 50 - unat q"
    using q50 by (simp add: MAXPRIO_def unat_sub word_le_nat_alt)
  then show ?thesis using that q(1) b q50 q_eq by (simp add: calculate_prio_div64 prio_divisor_def)
qed


lemma prio_quot_mono:
  "r \<le> r' \<Longrightarrow> prio_quot env r min_rem max_rem \<le> prio_quot env r' min_rem max_rem"
  unfolding prio_quot_def by (intro div_le_mono mult_le_mono2 diff_le_mono) (simp add: word_le_nat_alt)

lemma prio_quot_max:
  assumes k: "klib_ok env" and lt: "min_rem < max_rem"
  shows "50 \<le> prio_quot env max_rem min_rem max_rem"
proof -
  define s where "s = prio_shift env min_rem max_rem"
  define d where "d = unat max_rem - unat min_rem"
  have d: "0 < d" using lt by (simp add: d_def word_less_nat_alt)
  have nz: "max_rem - min_rem \<noteq> 0" using lt by simp
  have ub: "unat (max_rem - min_rem) = d" using lt by (simp add: d_def unat_sub)
  have "0 < d div 2 ^ s"
  proof (cases "s = 0")
    case False
    then have "2 ^ (31 + s) \<le> d"
      using div64_64_shift [OF k nz] ub unfolding s_def prio_shift_def by metis
    then show ?thesis by (simp add: div_greater_zero_iff power_add)
  qed (use d in simp)
  moreover have "50 * (d div 2 ^ s) \<le> 50 * d div 2 ^ s"
  proof -
    have "50 * (d div 2 ^ s) * 2 ^ s \<le> 50 * d" by simp
    then show ?thesis by (simp add: less_eq_div_iff_mult_less_eq)
  qed
  ultimately show ?thesis
    unfolding prio_quot_def s_def [symmetric] d_def [symmetric]
    by (simp add: less_eq_div_iff_mult_less_eq)
qed

text \<open>For a power of two the shifted division is exact.\<close>

lemma div64_64_2_63:
  assumes "klib_ok env"
  shows "div64_64 env n (2 ^ 63) = Some (n div 2 ^ 63)"
proof -
  define s where "s = div_shift env (2 ^ 63)"
  have u: "unat (2 ^ 63 :: u64) = 2 ^ 63" by simp
  have nz: "(2 ^ 63 :: u64) \<noteq> 0" by simp
  obtain q where q: "div64_64 env n (2 ^ 63) = Some q"
    "unat q = (unat n div 2 ^ s) div (2 ^ 63 div 2 ^ s)" "s \<noteq> 0" "2 ^ (31 + s) \<le> (2 :: nat) ^ 63"
    using div64_64_shift [OF assms nz, of n] unfolding s_def [symmetric] u by auto
  then have "31 + s \<le> 63" by (metis power_le_imp_le_exp one_less_numeral_iff semiring_norm(76))
  then have p: "(2::nat) ^ 63 = 2 ^ s * 2 ^ (63 - s)" by (simp flip: power_add)
  have "(2::nat) ^ 63 div 2 ^ s = 2 ^ (63 - s)" unfolding p by simp
  then have "unat q = unat n div (2 ^ s * 2 ^ (63 - s))"
    unfolding q(2) by (simp add: div_mult2_eq)
  then have "unat q = unat (n div 2 ^ 63)" unfolding p [symmetric] by (simp add: unat_div)
  then have "q = n div 2 ^ 63" by (rule word_unat_eqI)
  with q(1) show ?thesis by simp
qed

section \<open>The contract of the priority map\<close>

text \<open>
  What the scheduler needs of a map from remaining times to priorities: on the spans it
  is correct for, it answers with a priority between the extremes, never gives the later
  task the higher priority, and gives the extremes to the most and the least urgent task.
\<close>

locale edf_priority_map =
  fixes prio :: "'e \<Rightarrow> u64 \<Rightarrow> u64 \<Rightarrow> u64 \<Rightarrow> u32 option"
    and span :: "'e \<Rightarrow> u64 \<Rightarrow> u64 \<Rightarrow> bool"
  assumes prio_bounds: "span env mn mx \<Longrightarrow> mn \<le> r \<Longrightarrow> r \<le> mx \<Longrightarrow>
      \<exists>p. prio env r mn mx = Some p \<and> MINPRIO \<le> p \<and> p \<le> MAXPRIO"
    and prio_antitone: "span env mn mx \<Longrightarrow> mn \<le> r \<Longrightarrow> r \<le> r' \<Longrightarrow> r' \<le> mx \<Longrightarrow>
      prio env r mn mx = Some p \<Longrightarrow> prio env r' mn mx = Some p' \<Longrightarrow> p' \<le> p"
    and prio_most_urgent: "span env mn mx \<Longrightarrow> mn \<le> mx \<Longrightarrow> prio env mn mn mx = Some MAXPRIO"
    and prio_least_urgent: "span env mn mx \<Longrightarrow> mn < mx \<Longrightarrow> prio env mx mn mx = Some MINPRIO"
begin

lemma prio_inverts:
  assumes "span env mn mx" and "mn \<le> r" "r \<le> mx" "mn \<le> r'" "r' \<le> mx"
    and "prio env r mn mx = Some p" and "prio env r' mn mx = Some p'" and "p' < p"
  shows "r < r'"
  using prio_antitone [OF assms(1,4) _ assms(3) assms(7,6)] assms(8) by force

lemma prio_returns:
  assumes "span env mn mx" and "mn \<le> r" "r \<le> mx"
  obtains p where "prio env r mn mx = Some p" and "p \<le> MAXPRIO"
  using prio_bounds [OF assms] by blast

end

interpretation cp: edf_priority_map calculate_prio
  "\<lambda>env mn mx. klib_ok env \<and> prio_span_ok mn mx"
proof unfold_locales
  fix env :: "'a klib_scheme" and mn mx r :: u64
  assume "klib_ok env \<and> prio_span_ok mn mx" "mn \<le> r" "r \<le> mx"
  then obtain p where "calculate_prio env r mn mx = Some p" "unat p \<le> 50"
    by (metis calculate_prio_quot diff_le_self)
  then show "\<exists>p. calculate_prio env r mn mx = Some p \<and> MINPRIO \<le> p \<and> p \<le> MAXPRIO"
    by (simp add: MINPRIO_def MAXPRIO_def word_le_nat_alt)
next
  fix env :: "'a klib_scheme" and mn mx r r' :: u64 and p p' :: u32
  assume a: "klib_ok env \<and> prio_span_ok mn mx" "mn \<le> r" "r \<le> r'" "r' \<le> mx"
    and p: "calculate_prio env r mn mx = Some p" "calculate_prio env r' mn mx = Some p'"
  have "unat p = 50 - prio_quot env r mn mx" "unat p' = 50 - prio_quot env r' mn mx"
    using a p calculate_prio_quot [of env mn r mx] calculate_prio_quot [of env mn r' mx]
    by (metis order_trans option.inject)+
  then show "p' \<le> p"
    using prio_quot_mono [OF a(3), of env mn mx] by (simp add: word_le_nat_alt)
next
  fix env :: "'a klib_scheme" and mn mx :: u64
  assume "klib_ok env \<and> prio_span_ok mn mx" "mn \<le> mx"
  then obtain p where p: "calculate_prio env mn mn mx = Some p" "unat p = 50 - prio_quot env mn mn mx"
    by (metis calculate_prio_quot order_refl)
  then have "p = MAXPRIO"
    by (intro word_unat_eqI) (simp add: prio_quot_def MAXPRIO_def)
  with p show "calculate_prio env mn mn mx = Some MAXPRIO" by simp
next
  fix env :: "'a klib_scheme" and mn mx :: u64
  assume a: "klib_ok env \<and> prio_span_ok mn mx" "mn < mx"
  then obtain p where "calculate_prio env mx mn mx = Some p" "unat p = 50 - prio_quot env mx mn mx"
    by (metis calculate_prio_quot order_refl less_imp_le)
  moreover have "p = MINPRIO"
    using prio_quot_max [of env mn mx] a calculation by (intro word_unat_eqI) (simp add: MINPRIO_def)
  ultimately show "calculate_prio env mx mn mx = Some MINPRIO" by simp
qed


section \<open>Properties\<close>

text \<open>\<open>div64_64\<close> never traps on a nonzero divisor. Its result is exact for divisors
  below 2^32; for larger ones it is the true quotient or one more, never less.\<close>

theorem div64_64_accuracy:
  assumes "klib_ok env" and "divisor \<noteq> 0"
  shows "\<exists>q. div64_64 env dividend divisor = Some q \<and>
     unat dividend div unat divisor \<le> unat q \<and> unat q \<le> Suc (unat dividend div unat divisor) \<and>
     (unat divisor < 2 ^ 32 \<longrightarrow> unat q = unat dividend div unat divisor)"
proof -
  obtain q where q: "div64_64 env dividend divisor = Some q"
    "unat q = (unat dividend div 2 ^ div_shift env divisor) div (unat divisor div 2 ^ div_shift env divisor)"
    "div_shift env divisor = 0 \<longleftrightarrow> unat divisor < 2 ^ 32"
    "div_shift env divisor \<noteq> 0 \<Longrightarrow> 2 ^ (31 + div_shift env divisor) \<le> unat divisor"
    using div64_64_shift [OF assms] by metis
  have n: "unat dividend < 2 ^ 64" using unsigned_less [of dividend, where 'a = nat] by simp
  show ?thesis
  proof (cases "div_shift env divisor = 0")
    case True
    then show ?thesis using q by simp
  next
    case False
    then show ?thesis using q shifted_quotient(1,2) [OF n q(4) False] by simp
  qed
qed

theorem div64_64_accuracy_witness:
  "div64_64 demo_klib 18446744071562067967 8589934591 = Some 2147483648 \<and>
   unat (18446744071562067967 :: u64) div unat (8589934591 :: u64) = 2147483647"
proof -
  obtain q where "div64_64 demo_klib 18446744071562067967 8589934591 = Some q"
    using div64_64_accuracy [OF demo_klib_ok, of 8589934591 18446744071562067967] by auto
  then show ?thesis by (simp add: div64_64_def demo_simps)
qed

text \<open>The priority of a remaining time between the extremes is a number between
  MINPRIO and MAXPRIO; the most urgent task gets MAXPRIO and the least urgent MINPRIO.\<close>

theorem calculate_prio_range:
  assumes "klib_ok env" and "prio_span_ok mn mx" and "mn \<le> r" and "r \<le> mx"
  shows "\<exists>p. calculate_prio env r mn mx = Some p \<and> MINPRIO \<le> p \<and> p \<le> MAXPRIO \<and>
     (r = mn \<longrightarrow> p = MAXPRIO) \<and> (r = mx \<and> mn < mx \<longrightarrow> p = MINPRIO)"
  using cp.prio_bounds [of env mn mx r] cp.prio_most_urgent [of env mn mx]
    cp.prio_least_urgent [of env mn mx] assms by auto

theorem calculate_prio_range_witness:
  "calculate_prio demo_klib 9999992734 3998734206 9999992734 = Some 0"
proof -
  have "prio_span_ok 3998734206 9999992734" by (simp add: prio_span_ok_def)
  from calculate_prio_range [OF demo_klib_ok this, of 9999992734]
  show ?thesis by (auto simp: MINPRIO_def)
qed



text \<open>C36: Beyond the span the 64-bit product wraps and the map is no EDF assignment: with
  remaining times from 0 to 2^63 there is a later task that gets the maximal priority while
  an earlier one does not.\<close>

theorem calculate_prio_wraps:
  assumes "klib_ok env"
  shows "\<exists>r r' p. (0 :: u64) < r \<and> r < r' \<and> r' < 2 ^ 63 \<and> \<not> prio_span_ok 0 (2 ^ 63) \<and>
     calculate_prio env r 0 (2 ^ 63) = Some p \<and> p < MAXPRIO \<and>
     calculate_prio env r' 0 (2 ^ 63) = Some MAXPRIO"
proof (intro exI conjI)
  show "calculate_prio env 368934881474191032 0 (2 ^ 63) = Some 49"
    using div64_64_2_63 [OF assms, of 18446744073709551600]
    by (simp add: calculate_prio_def MAXPRIO_def MINPRIO_def)
  show "calculate_prio env 368934881474191033 0 (2 ^ 63) = Some MAXPRIO"
    using div64_64_2_63 [OF assms, of 18446744073709551650] by (simp add: calculate_prio_def MAXPRIO_def MINPRIO_def)
qed (simp_all add: prio_span_ok_def MAXPRIO_def)

theorem calculate_prio_wraps_witness:
  "\<exists>r r' p. (0 :: u64) < r \<and> r < r' \<and> r' < 2 ^ 63 \<and> \<not> prio_span_ok 0 (2 ^ 63) \<and>
     calculate_prio demo_klib r 0 (2 ^ 63) = Some p \<and> p < MAXPRIO \<and>
     calculate_prio demo_klib r' 0 (2 ^ 63) = Some MAXPRIO"
  by (rule calculate_prio_wraps [OF demo_klib_ok])

end
