(* ===== verification/Uthash_Jen.thy ===== *)
theory Uthash_Jen
  imports Edf_Prelude
begin

text \<open>
  The hash function of datastructures/uthash.h that the driver is built with
  (\<open>HASH_FCN\<close> is \<open>HASH_JEN\<close>), on 32-bit words with their wrap-around. The key is a C
  character array; \<open>char\<close> is signed on the target, so a character is sign-extended when
  it becomes an \<open>unsigned\<close>. The lemmas show that the hash depends on nothing but the
  first \<open>keylen\<close> characters, and that the bucket number is in range and is the hash
  reduced modulo the number of buckets, a power of two.
\<close>

section \<open>The code\<close>

definition hj_char :: "char list \<Rightarrow> nat \<Rightarrow> u32" where
  "hj_char key n = scast (of_char (key ! n) :: 8 word)"

definition HASH_JEN_MIX :: "u32 \<Rightarrow> u32 \<Rightarrow> u32 \<Rightarrow> u32 \<times> u32 \<times> u32" where
  "HASH_JEN_MIX a b c =
     (let a = a - b; a = a - c; a = a XOR drop_bit 13 c;
          b = b - c; b = b - a; b = b XOR push_bit 8 a;
          c = c - a; c = c - b; c = c XOR drop_bit 13 b;
          a = a - b; a = a - c; a = a XOR drop_bit 12 c;
          b = b - c; b = b - a; b = b XOR push_bit 16 a;
          c = c - a; c = c - b; c = c XOR drop_bit 5 b;
          a = a - b; a = a - c; a = a XOR drop_bit 3 c;
          b = b - c; b = b - a; b = b XOR push_bit 10 a;
          c = c - a; c = c - b; c = c XOR drop_bit 15 b
      in (a, b, c))"

definition hj_block :: "char list \<Rightarrow> nat \<Rightarrow> u32" where
  "hj_block key n = hj_char key n + push_bit 8 (hj_char key (n + 1))
     + push_bit 16 (hj_char key (n + 2)) + push_bit 24 (hj_char key (n + 3))"

fun HASH_JEN_while :: "u32 \<Rightarrow> u32 \<Rightarrow> u32 \<Rightarrow> char list \<Rightarrow> nat \<Rightarrow>
    u32 \<times> u32 \<times> u32 \<times> char list \<times> nat" where
  "HASH_JEN_while i j h key k =
     (if 12 \<le> k
      then let i = i + hj_block key 0; j = j + hj_block key 4; h = h + hj_block key 8;
               (i, j, h) = HASH_JEN_MIX i j h
           in HASH_JEN_while i j h (drop 12 key) (k - 12)
      else (i, j, h, key, k))"

declare HASH_JEN_while.simps [simp del]

text \<open>The \<open>switch\<close> falls through: case \<open>n\<close> runs when the rest has at least \<open>n\<close> characters.\<close>

definition HASH_JEN_switch :: "u32 \<Rightarrow> u32 \<Rightarrow> u32 \<Rightarrow> char list \<Rightarrow> nat \<Rightarrow> u32 \<times> u32 \<times> u32" where
  "HASH_JEN_switch i j h key k =
     (let h = (if 11 \<le> k then h + push_bit 24 (hj_char key 10) else h);
          h = (if 10 \<le> k then h + push_bit 16 (hj_char key 9) else h);
          h = (if 9 \<le> k then h + push_bit 8 (hj_char key 8) else h);
          j = (if 8 \<le> k then j + push_bit 24 (hj_char key 7) else j);
          j = (if 7 \<le> k then j + push_bit 16 (hj_char key 6) else j);
          j = (if 6 \<le> k then j + push_bit 8 (hj_char key 5) else j);
          j = (if 5 \<le> k then j + hj_char key 4 else j);
          i = (if 4 \<le> k then i + push_bit 24 (hj_char key 3) else i);
          i = (if 3 \<le> k then i + push_bit 16 (hj_char key 2) else i);
          i = (if 2 \<le> k then i + push_bit 8 (hj_char key 1) else i);
          i = (if 1 \<le> k then i + hj_char key 0 else i)
      in (i, j, h))"

definition HASH_JEN :: "char list \<Rightarrow> nat \<Rightarrow> u32" where
  "HASH_JEN key keylen =
     (let (i, j, h, rest, k) = HASH_JEN_while 0x9e3779b9 0x9e3779b9 0xfeedbeef key keylen;
          h = h + of_nat keylen;
          (i, j, h) = HASH_JEN_switch i j h rest k;
          (i, j, h) = HASH_JEN_MIX i j h
      in h)"

definition HASH_TO_BKT :: "u32 \<Rightarrow> nat \<Rightarrow> nat" where
  "HASH_TO_BKT hashv num_bkts = unat (hashv AND of_nat (num_bkts - 1))"

section \<open>The hash of a key prefix\<close>

lemma hj_char_take: "n < k \<Longrightarrow> hj_char (take k key) n = hj_char key n"
  by (simp add: hj_char_def)

lemma hj_block_take: "n + 3 < k \<Longrightarrow> hj_block (take k key) n = hj_block key n"
  by (simp add: hj_block_def hj_char_take)

lemma HASH_JEN_while_take:
  "HASH_JEN_while i j h (take k key) k =
     (let (i', j', h', rest, k') = HASH_JEN_while i j h key k in (i', j', h', take k' rest, k'))"
proof (induction i j h key k rule: HASH_JEN_while.induct)
  case (1 i j h key k)
  show ?case
  proof (cases "12 \<le> k")
    case True
    obtain a b c where m: "HASH_JEN_MIX (i + hj_block key 0) (j + hj_block key 4) (h + hj_block key 8) = (a, b, c)"
      by (metis prod_cases3)
    have "HASH_JEN_while i j h (take k key) k = HASH_JEN_while a b c (drop 12 (take k key)) (k - 12)"
      using True m by (subst HASH_JEN_while.simps) (simp add: hj_block_take)
    also have "drop 12 (take k key) = take (k - 12) (drop 12 key)" by (simp add: drop_take)
    also have "HASH_JEN_while a b c (take (k - 12) (drop 12 key)) (k - 12) =
        (let (i', j', h', rest, k') = HASH_JEN_while a b c (drop 12 key) (k - 12)
         in (i', j', h', take k' rest, k'))"
      using "1.IH" [OF True refl refl refl] m by simp
    also have "HASH_JEN_while a b c (drop 12 key) (k - 12) = HASH_JEN_while i j h key k"
      using True m by (subst (2) HASH_JEN_while.simps) simp
    finally show ?thesis .
  next
    case False
    then show ?thesis by (simp add: HASH_JEN_while.simps)
  qed
qed

lemma HASH_JEN_switch_take:
  "HASH_JEN_switch i j h (take k key) k = HASH_JEN_switch i j h key k"
  unfolding HASH_JEN_switch_def by (simp add: hj_char_take cong: if_cong)

lemma HASH_JEN_take: "HASH_JEN (take k key) k = HASH_JEN key k"
  unfolding HASH_JEN_def HASH_JEN_while_take
  by (simp add: Let_def case_prod_unfold HASH_JEN_switch_take)

lemma HASH_JEN_prefix: "take k key = take k key' \<Longrightarrow> HASH_JEN key k = HASH_JEN key' k"
  by (metis HASH_JEN_take)

section \<open>The bucket number\<close>

lemma HASH_TO_BKT_mod: "HASH_TO_BKT hashv (2 ^ n) = unat hashv mod 2 ^ n"
proof -
  have "of_nat (2 ^ n - 1) = (mask n :: u32)"
    by (simp add: mask_eq_exp_minus_1)
  then have "HASH_TO_BKT hashv (2 ^ n) = unat (take_bit n hashv)"
    by (simp add: HASH_TO_BKT_def take_bit_eq_mask)
  also have "\<dots> = take_bit n (unat hashv)" by (rule unsigned_take_bit_eq)
  finally show ?thesis by (simp only: take_bit_eq_mod)
qed

lemma HASH_TO_BKT_less: "HASH_TO_BKT hashv (2 ^ n) < 2 ^ n"
  by (simp add: HASH_TO_BKT_mod)

end
