(* ===== verification/Uthash.thy ===== *)
theory Uthash
  imports Uthash_Jen
begin

text \<open>
  The hash table of datastructures/uthash.h, at the level of its pointers: the macros the
  driver uses, on an explicit heap. An element is a structure with an embedded handle
  \<open>hh\<close>; since a handle lies at a fixed offset in its element, one address names both. A
  handle's \<open>key\<close> pointer always points to the key field of its own element, given to the
  macros as \<open>fieldname\<close> and to the functions below as an accessor \<open>kf\<close>; a lookup therefore
  reads the key that is in the element now. All handles of a table share its \<open>tbl\<close>
  pointer; the table is the field \<open>tbl\<close> of the state, \<open>None\<close> when it has not been
  allocated or has been freed. \<open>None\<close> as a result means that the code would dereference
  NULL or a freed element, index the bucket array out of bounds, divide by zero, or loop
  for ever. The counters are natural numbers: reaching 2^32 items or buckets needs more
  memory than a 32-bit kernel addresses. Allocation is taken to succeed in this theory.
\<close>

section \<open>Structures\<close>

record UT_hash_handle =
  el_prev :: "addr option"
  el_next :: "addr option"
  hh_prev :: "addr option"
  hh_next :: "addr option"
  keylen :: nat
  hashv :: u32

record 'e node =
  elt :: 'e
  hh :: UT_hash_handle

record UT_hash_bucket =
  hh_head :: "addr option"
  bkt_count :: nat
  expand_mult :: nat

record UT_hash_table =
  buckets :: "UT_hash_bucket list"
  num_buckets :: nat
  log2_num_buckets :: nat
  num_items :: nat
  tail :: addr
  ideal_chain_maxlen :: nat
  nonideal_items :: nat
  ineff_expands :: nat
  noexpand :: nat

record 'e ut =
  heap :: "addr \<Rightarrow> 'e node option"
  head :: "addr option"
  tbl :: "UT_hash_table option"

definition HASH_BKT_CAPACITY_THRESH :: nat where "HASH_BKT_CAPACITY_THRESH = 10"

definition HASH_INITIAL_NUM_BUCKETS :: nat where "HASH_INITIAL_NUM_BUCKETS = 32"

definition HASH_INITIAL_NUM_BUCKETS_LOG2 :: nat where "HASH_INITIAL_NUM_BUCKETS_LOG2 = 5"

section \<open>Memory accesses\<close>

definition hh_write :: "addr \<Rightarrow> (UT_hash_handle \<Rightarrow> UT_hash_handle) \<Rightarrow> ('e, 'm) ut_scheme \<Rightarrow>
    ('e, 'm) ut_scheme option" where
  "hh_write a f s = (case heap s a of None \<Rightarrow> None
     | Some n \<Rightarrow> Some (s\<lparr>heap := (heap s)(a \<mapsto> n\<lparr>hh := f (hh n)\<rparr>)\<rparr>))"

definition elt_write :: "addr \<Rightarrow> ('e \<Rightarrow> 'e) \<Rightarrow> ('e, 'm) ut_scheme \<Rightarrow> ('e, 'm) ut_scheme option" where
  "elt_write a f s = (case heap s a of None \<Rightarrow> None
     | Some n \<Rightarrow> Some (s\<lparr>heap := (heap s)(a \<mapsto> n\<lparr>elt := f (elt n)\<rparr>)\<rparr>))"

definition elt_read :: "addr \<Rightarrow> ('e, 'm) ut_scheme \<Rightarrow> 'e option" where
  "elt_read a s = map_option elt (heap s a)"

text \<open>\<open>(head)->hh.tbl\<close>\<close>

definition head_tbl :: "('e, 'm) ut_scheme \<Rightarrow> UT_hash_table option" where
  "head_tbl s = (case head s of None \<Rightarrow> None
     | Some h \<Rightarrow> (case heap s h of None \<Rightarrow> None | Some _ \<Rightarrow> tbl s))"

definition bucket_at :: "UT_hash_bucket list \<Rightarrow> nat \<Rightarrow> UT_hash_bucket option" where
  "bucket_at bs i = (if i < length bs then Some (bs ! i) else None)"

section \<open>Lookup\<close>

partial_function (option) HASH_FIND_IN_BKT ::
    "('e \<Rightarrow> char list) \<Rightarrow> char list \<Rightarrow> nat \<Rightarrow> ('e, 'm) ut_scheme \<Rightarrow> addr option \<Rightarrow> addr option option" where
  "HASH_FIND_IN_BKT kf key klen s out = (case out of None \<Rightarrow> Some None
     | Some a \<Rightarrow> (case heap s a of None \<Rightarrow> None
         | Some n \<Rightarrow>
             if keylen (hh n) = klen \<and> take klen (kf (elt n)) = take klen key then Some (Some a)
             else HASH_FIND_IN_BKT kf key klen s (hh_next (hh n))))"

definition HASH_FIND :: "('e \<Rightarrow> char list) \<Rightarrow> char list \<Rightarrow> nat \<Rightarrow> ('e, 'm) ut_scheme \<Rightarrow> addr option option" where
  "HASH_FIND kf key klen s = (case head s of None \<Rightarrow> Some None
     | Some _ \<Rightarrow> do {
         t \<leftarrow> head_tbl s;
         b \<leftarrow> bucket_at (buckets t) (HASH_TO_BKT (HASH_JEN key klen) (num_buckets t));
         HASH_FIND_IN_BKT kf key klen s (hh_head b) })"

definition HASH_FIND_STR :: "('e \<Rightarrow> char list) \<Rightarrow> char list \<Rightarrow> ('e, 'm) ut_scheme \<Rightarrow> addr option option" where
  "HASH_FIND_STR kf findstr s = HASH_FIND kf findstr (c_strlen findstr) s"

definition HASH_COUNT :: "('e, 'm) ut_scheme \<Rightarrow> nat option" where
  "HASH_COUNT s = (case head s of None \<Rightarrow> Some 0 | Some _ \<Rightarrow> map_option num_items (head_tbl s))"

section \<open>Insertion and bucket expansion\<close>

definition empty_bucket :: UT_hash_bucket where
  "empty_bucket = \<lparr>hh_head = None, bkt_count = 0, expand_mult = 0\<rparr>"

definition HASH_MAKE_TABLE :: "addr \<Rightarrow> UT_hash_table" where
  "HASH_MAKE_TABLE a = \<lparr>buckets = replicate HASH_INITIAL_NUM_BUCKETS empty_bucket,
     num_buckets = HASH_INITIAL_NUM_BUCKETS, log2_num_buckets = HASH_INITIAL_NUM_BUCKETS_LOG2,
     num_items = 0, tail = a, ideal_chain_maxlen = 0, nonideal_items = 0,
     ineff_expands = 0, noexpand = 0\<rparr>"

text \<open>Linking a handle in front of a bucket's chain, as insertion and expansion both do.\<close>

definition bkt_push :: "addr \<Rightarrow> addr option \<Rightarrow> ('e, 'm) ut_scheme \<Rightarrow> ('e, 'm) ut_scheme option" where
  "bkt_push a old s = do {
     s \<leftarrow> hh_write a (\<lambda>h. h\<lparr>hh_next := old, hh_prev := None\<rparr>) s;
     case old of None \<Rightarrow> Some s | Some b \<Rightarrow> hh_write b (\<lambda>h. h\<lparr>hh_prev := Some a\<rparr>) s }"

text \<open>Counting one more item of a new bucket, against the ideal chain length.\<close>

definition HASH_EXPAND_count :: "nat \<Rightarrow> UT_hash_bucket \<Rightarrow> nat \<Rightarrow> (UT_hash_bucket \<times> nat) option" where
  "HASH_EXPAND_count ideal b nonideal =
     (let b = b\<lparr>bkt_count := bkt_count b + 1\<rparr>
      in if ideal < bkt_count b
         then if ideal = 0 then None
              else Some (b\<lparr>expand_mult := bkt_count b div ideal\<rparr>, nonideal + 1)
         else Some (b, nonideal))"

partial_function (option) HASH_EXPAND_while ::
    "nat \<Rightarrow> nat \<Rightarrow> addr option \<Rightarrow> UT_hash_bucket list \<Rightarrow> nat \<Rightarrow> ('e, 'm) ut_scheme \<Rightarrow>
      (UT_hash_bucket list \<times> nat \<times> ('e, 'm) ut_scheme) option" where
  "HASH_EXPAND_while ideal nb thh new nonideal s = (case thh of None \<Rightarrow> Some (new, nonideal, s)
     | Some a \<Rightarrow> (case heap s a of None \<Rightarrow> None
         | Some n \<Rightarrow> (case bucket_at new (HASH_TO_BKT (hashv (hh n)) nb) of None \<Rightarrow> None
             | Some b \<Rightarrow> (case HASH_EXPAND_count ideal b nonideal of None \<Rightarrow> None
                 | Some (b', nonideal') \<Rightarrow> (case bkt_push a (hh_head b') s of None \<Rightarrow> None
                     | Some s' \<Rightarrow> HASH_EXPAND_while ideal nb (hh_next (hh n))
                         (new[HASH_TO_BKT (hashv (hh n)) nb := b'\<lparr>hh_head := Some a\<rparr>]) nonideal' s')))))"

fun HASH_EXPAND_for :: "nat \<Rightarrow> nat \<Rightarrow> UT_hash_bucket list \<Rightarrow> UT_hash_bucket list \<Rightarrow> nat \<Rightarrow>
    ('e, 'm) ut_scheme \<Rightarrow> (UT_hash_bucket list \<times> nat \<times> ('e, 'm) ut_scheme) option" where
  "HASH_EXPAND_for ideal nb [] new nonideal s = Some (new, nonideal, s)"
| "HASH_EXPAND_for ideal nb (b # bs) new nonideal s =
     (case HASH_EXPAND_while ideal nb (hh_head b) new nonideal s of None \<Rightarrow> None
      | Some (new', nonideal', s') \<Rightarrow> HASH_EXPAND_for ideal nb bs new' nonideal' s')"

definition ideal_maxlen :: "nat \<Rightarrow> nat \<Rightarrow> nat \<Rightarrow> nat" where
  "ideal_maxlen items log2 nbkts =
     drop_bit (log2 + 1) items + (if items AND (nbkts * 2 - 1) \<noteq> 0 then 1 else 0)"

definition HASH_EXPAND_finish :: "UT_hash_table \<Rightarrow> nat \<Rightarrow> UT_hash_bucket list \<Rightarrow> nat \<Rightarrow> UT_hash_table" where
  "HASH_EXPAND_finish t ideal new nonideal =
     (let t = t\<lparr>ideal_chain_maxlen := ideal, nonideal_items := nonideal,
                num_buckets := num_buckets t * 2, log2_num_buckets := log2_num_buckets t + 1,
                buckets := new\<rparr>;
          t = t\<lparr>ineff_expands :=
                (if drop_bit 1 (num_items t) < nonideal_items t then ineff_expands t + 1 else 0)\<rparr>
      in if 1 < ineff_expands t then t\<lparr>noexpand := 1\<rparr> else t)"

definition HASH_EXPAND_BUCKETS :: "('e, 'm) ut_scheme \<Rightarrow> ('e, 'm) ut_scheme option" where
  "HASH_EXPAND_BUCKETS s = do {
     t \<leftarrow> tbl s;
     let ideal = ideal_maxlen (num_items t) (log2_num_buckets t) (num_buckets t);
     (new, nonideal, s) \<leftarrow> HASH_EXPAND_for ideal (num_buckets t * 2) (buckets t)
        (replicate (2 * num_buckets t) empty_bucket) 0 s;
     Some (s\<lparr>tbl := Some (HASH_EXPAND_finish t ideal new nonideal)\<rparr>) }"

definition HASH_ADD_TO_BKT :: "nat \<Rightarrow> addr \<Rightarrow> ('e, 'm) ut_scheme \<Rightarrow> ('e, 'm) ut_scheme option" where
  "HASH_ADD_TO_BKT i a s = do {
     t \<leftarrow> tbl s;
     b \<leftarrow> bucket_at (buckets t) i;
     s \<leftarrow> bkt_push a (hh_head b) s;
     let b = b\<lparr>bkt_count := bkt_count b + 1, hh_head := Some a\<rparr>;
     let s = s\<lparr>tbl := Some (t\<lparr>buckets := (buckets t)[i := b]\<rparr>)\<rparr>;
     if (expand_mult b + 1) * HASH_BKT_CAPACITY_THRESH \<le> bkt_count b \<and> noexpand t \<noteq> 1
     then HASH_EXPAND_BUCKETS s
     else Some s }"

definition HASH_ADD_KEYPTR :: "char list \<Rightarrow> nat \<Rightarrow> addr \<Rightarrow> ('e, 'm) ut_scheme \<Rightarrow> ('e, 'm) ut_scheme option" where
  "HASH_ADD_KEYPTR key klen a s = do {
     s \<leftarrow> hh_write a (\<lambda>h. h\<lparr>el_next := None, keylen := klen\<rparr>) s;
     s \<leftarrow> (case head s of
         None \<Rightarrow> do {
           s \<leftarrow> hh_write a (\<lambda>h. h\<lparr>el_prev := None\<rparr>) (s\<lparr>head := Some a\<rparr>);
           Some (s\<lparr>tbl := Some (HASH_MAKE_TABLE a)\<rparr>) }
       | Some _ \<Rightarrow> do {
           t \<leftarrow> head_tbl s;
           s \<leftarrow> hh_write (tail t) (\<lambda>h. h\<lparr>el_next := Some a\<rparr>) s;
           s \<leftarrow> hh_write a (\<lambda>h. h\<lparr>el_prev := Some (tail t)\<rparr>) s;
           Some (s\<lparr>tbl := Some (t\<lparr>tail := a\<rparr>)\<rparr>) });
     t \<leftarrow> head_tbl s;
     let s = s\<lparr>tbl := Some (t\<lparr>num_items := num_items t + 1\<rparr>)\<rparr>;
     let hv = HASH_JEN key klen;
     s \<leftarrow> hh_write a (\<lambda>h. h\<lparr>hashv := hv\<rparr>) s;
     HASH_ADD_TO_BKT (HASH_TO_BKT hv (num_buckets t)) a s }"

definition HASH_ADD_STR :: "('e \<Rightarrow> char list) \<Rightarrow> addr \<Rightarrow> ('e, 'm) ut_scheme \<Rightarrow> ('e, 'm) ut_scheme option" where
  "HASH_ADD_STR kf a s = do {
     n \<leftarrow> heap s a;
     HASH_ADD_KEYPTR (kf (elt n)) (c_strlen (kf (elt n))) a s }"

section \<open>Deletion\<close>

definition HASH_DEL_IN_BKT :: "nat \<Rightarrow> addr \<Rightarrow> ('e, 'm) ut_scheme \<Rightarrow> ('e, 'm) ut_scheme option" where
  "HASH_DEL_IN_BKT i del s = do {
     t \<leftarrow> tbl s;
     b \<leftarrow> bucket_at (buckets t) i;
     d \<leftarrow> heap s del;
     let b = b\<lparr>bkt_count := bkt_count b - 1\<rparr>;
     let b = (if hh_head b = Some del then b\<lparr>hh_head := hh_next (hh d)\<rparr> else b);
     let s = s\<lparr>tbl := Some (t\<lparr>buckets := (buckets t)[i := b]\<rparr>)\<rparr>;
     s \<leftarrow> (case hh_prev (hh d) of None \<Rightarrow> Some s
          | Some p \<Rightarrow> hh_write p (\<lambda>h. h\<lparr>hh_next := hh_next (hh d)\<rparr>) s);
     d \<leftarrow> heap s del;
     (case hh_next (hh d) of None \<Rightarrow> Some s
      | Some n \<Rightarrow> hh_write n (\<lambda>h. h\<lparr>hh_prev := hh_prev (hh d)\<rparr>) s) }"

definition HASH_DELETE :: "addr \<Rightarrow> ('e, 'm) ut_scheme \<Rightarrow> ('e, 'm) ut_scheme option" where
  "HASH_DELETE del s = do {
     d \<leftarrow> heap s del;
     t \<leftarrow> head_tbl s;
     if el_prev (hh d) = None \<and> el_next (hh d) = None
     then Some (s\<lparr>head := None, tbl := None\<rparr>)
     else do {
       s \<leftarrow> (if del = tail t
            then (case el_prev (hh d) of None \<Rightarrow> None
                  | Some p \<Rightarrow> Some (s\<lparr>tbl := Some (t\<lparr>tail := p\<rparr>)\<rparr>))
            else Some s);
       s \<leftarrow> (case el_prev (hh d) of
           Some p \<Rightarrow> hh_write p (\<lambda>h. h\<lparr>el_next := el_next (hh d)\<rparr>) s
         | None \<Rightarrow> Some (s\<lparr>head := el_next (hh d)\<rparr>));
       d \<leftarrow> heap s del;
       s \<leftarrow> (case el_next (hh d) of
           Some n \<Rightarrow> hh_write n (\<lambda>h. h\<lparr>el_prev := el_prev (hh d)\<rparr>) s
         | None \<Rightarrow> Some s);
       t \<leftarrow> head_tbl s;
       d \<leftarrow> heap s del;
       s \<leftarrow> HASH_DEL_IN_BKT (HASH_TO_BKT (hashv (hh d)) (num_buckets t)) del s;
       t \<leftarrow> head_tbl s;
       Some (s\<lparr>tbl := Some (t\<lparr>num_items := num_items t - 1\<rparr>)\<rparr>) } }"

section \<open>Traversal\<close>

text \<open>
  \<open>HASH_ITER\<close> is the head of a \<open>for\<close> loop over a cursor \<open>el\<close> and its successor \<open>tmp\<close>,
  fetched before the body runs; the loop's body is the argument.
\<close>

definition iter_next :: "addr option \<Rightarrow> ('e, 'm) ut_scheme \<Rightarrow> addr option option" where
  "iter_next tmp s = (case tmp of None \<Rightarrow> Some None | Some a \<Rightarrow> map_option (\<lambda>n. el_next (hh n)) (heap s a))"

partial_function (option) iter_loop ::
    "(addr \<Rightarrow> 'a \<Rightarrow> ('e, 'm) ut_scheme \<Rightarrow> ('a \<times> ('e, 'm) ut_scheme) option) \<Rightarrow>
      addr option \<Rightarrow> addr option \<Rightarrow> 'a \<Rightarrow> ('e, 'm) ut_scheme \<Rightarrow> ('a \<times> ('e, 'm) ut_scheme) option" where
  "iter_loop body el tmp acc s = (case el of None \<Rightarrow> Some (acc, s)
     | Some a \<Rightarrow> (case body a acc s of None \<Rightarrow> None
         | Some (acc', s') \<Rightarrow> (case iter_next tmp s' of None \<Rightarrow> None
             | Some nxt \<Rightarrow> iter_loop body tmp nxt acc' s')))"

definition HASH_ITER :: "(addr \<Rightarrow> 'a \<Rightarrow> ('e, 'm) ut_scheme \<Rightarrow> ('a \<times> ('e, 'm) ut_scheme) option) \<Rightarrow>
    'a \<Rightarrow> ('e, 'm) ut_scheme \<Rightarrow> ('a \<times> ('e, 'm) ut_scheme) option" where
  "HASH_ITER body acc s = do {
     tmp \<leftarrow> iter_next (head s) s;
     iter_loop body (head s) tmp acc s }"

end
