(* ===== verification/Uthash_Inv.thy ===== *)
theory Uthash_Inv
  imports Uthash
begin

text \<open>
  The representation invariant of the hash table and the effect of expansion. A table
  over the elements \<open>es\<close> (in insertion order) has: the application-order list through
  \<open>prev\<close>/\<open>next\<close>, with \<open>tail\<close> its last element; for every bucket a chain through
  \<open>hh_prev\<close>/\<open>hh_next\<close> holding exactly the elements that hash to it, with the right count;
  in every element the length and the hash of its own key.
\<close>

section \<open>Pointer fields of a heap\<close>

definition ptr :: "(UT_hash_handle \<Rightarrow> addr option) \<Rightarrow> (addr \<Rightarrow> 'e node option) \<Rightarrow> addr \<Rightarrow> addr option" where
  "ptr f h a = (case h a of None \<Rightarrow> None | Some n \<Rightarrow> f (hh n))"

definition hash_of :: "(addr \<Rightarrow> 'e node option) \<Rightarrow> addr \<Rightarrow> u32" where
  "hash_of h a = (case h a of None \<Rightarrow> 0 | Some n \<Rightarrow> hashv (hh n))"

lemma ptr_upd [ptr_simps]: "ptr f (h(a \<mapsto> n)) = (ptr f h)(a := f (hh n))"
  by (auto simp: ptr_def)

lemma ptr_Some: "h a = Some n \<Longrightarrow> ptr f h a = f (hh n)"
  by (simp add: ptr_def)

lemma hash_of_Some: "h a = Some n \<Longrightarrow> hash_of h a = hashv (hh n)"
  by (simp add: hash_of_def)

lemma hash_of_upd [ptr_simps]: "hash_of (h(a \<mapsto> n)) = (hash_of h)(a := hashv (hh n))"
  by (auto simp: hash_of_def)

lemma fun_upd_self: "f a = v \<Longrightarrow> f(a := v) = f"
  by auto

text \<open>Heaps that differ in chain pointers only, and heaps that differ in handles only.\<close>

definition node_core :: "'e node \<Rightarrow> 'e \<times> addr option \<times> addr option \<times> nat \<times> u32" where
  "node_core n = (elt n, el_prev (hh n), el_next (hh n), keylen (hh n), hashv (hh n))"

definition chain_frame :: "(addr \<Rightarrow> 'e node option) \<Rightarrow> (addr \<Rightarrow> 'e node option) \<Rightarrow> bool" where
  "chain_frame h h' \<longleftrightarrow> (\<forall>a. map_option node_core (h' a) = map_option node_core (h a))"

lemma chain_frame_refl [frame_simps]: "chain_frame h h"
  by (simp add: chain_frame_def)

lemma chain_frame_trans: "chain_frame h h' \<Longrightarrow> chain_frame h' h'' \<Longrightarrow> chain_frame h h''"
  by (simp add: chain_frame_def)

lemma chain_frameD:
  assumes "chain_frame h h'"
  shows "h' a = None \<longleftrightarrow> h a = None"
    and "h a = Some n \<Longrightarrow> \<exists>n'. h' a = Some n' \<and> node_core n' = node_core n"
  using assms unfolding chain_frame_def by (metis map_option_is_None, metis map_option_eq_Some)

lemma chain_frame_same:
  assumes "chain_frame h h'"
  shows "ptr el_next h' = ptr el_next h" "ptr el_prev h' = ptr el_prev h" "hash_of h' = hash_of h"
    "dom h' = dom h" "map_option elt (h' a) = map_option elt (h a)"
proof -
  show "dom h' = dom h" using chain_frameD(1) [OF assms] by (auto simp: dom_def)
  have pw: "ptr el_next h' a = ptr el_next h a \<and> ptr el_prev h' a = ptr el_prev h a \<and>
      hash_of h' a = hash_of h a \<and> map_option elt (h' a) = map_option elt (h a)" for a
    using chain_frameD [OF assms, of a] by (cases "h a") (auto simp: ptr_def hash_of_def node_core_def)
  then show "ptr el_next h' = ptr el_next h" "ptr el_prev h' = ptr el_prev h" "hash_of h' = hash_of h"
    by (simp_all add: fun_eq_iff)
  from pw show "map_option elt (h' a) = map_option elt (h a)" by blast
qed

section \<open>Pushing a handle onto a chain\<close>

lemma dlist_push:
  assumes "dlist nx pv None x xs None" and "a \<notin> set xs" and "distinct xs"
  shows "dlist (nx(a := x)) (case x of None \<Rightarrow> pv(a := None) | Some b \<Rightarrow> pv(a := None, b := Some a))
      None (Some a) (a # xs) None"
  using assms by (cases xs) auto

lemma bkt_push_effect:
  assumes "heap s a = Some n" and "\<And>b. old = Some b \<Longrightarrow> b \<noteq> a \<and> b \<in> dom (heap s)"
  obtains h' where "bkt_push a old s = Some (s\<lparr>heap := h'\<rparr>)" and "chain_frame (heap s) h'"
    and "ptr hh_next h' = (ptr hh_next (heap s))(a := old)"
    and "ptr hh_prev h' = (case old of None \<Rightarrow> (ptr hh_prev (heap s))(a := None)
           | Some b \<Rightarrow> (ptr hh_prev (heap s))(a := None, b := Some a))"
proof (cases old)
  case None
  then show ?thesis
    using assms that [of "(heap s)(a \<mapsto> n\<lparr>hh := (hh n)\<lparr>hh_next := None, hh_prev := None\<rparr>\<rparr>)"]
    by (auto simp: bkt_push_def hh_write_def ptr_simps chain_frame_def node_core_def)
next
  case (Some b)
  with assms(2) obtain m where b: "b \<noteq> a" "heap s b = Some m" by auto
  let ?h = "(heap s)(a \<mapsto> n\<lparr>hh := (hh n)\<lparr>hh_next := Some b, hh_prev := None\<rparr>\<rparr>,
      b \<mapsto> m\<lparr>hh := (hh m)\<lparr>hh_prev := Some a\<rparr>\<rparr>)"
  have "bkt_push a old s = Some (s\<lparr>heap := ?h\<rparr>)"
    using assms(1) b Some by (simp add: bkt_push_def hh_write_def)
  moreover have "chain_frame (heap s) ?h"
    using assms(1) b by (auto simp: chain_frame_def node_core_def)
  moreover have "ptr hh_next ?h = (ptr hh_next (heap s))(a := old)"
    using b Some by (auto simp: ptr_simps ptr_Some fun_eq_iff)
  ultimately show ?thesis using that [of ?h] Some by (simp add: ptr_simps)
qed

section \<open>The buckets\<close>

definition chain_ok :: "(addr \<Rightarrow> 'e node option) \<Rightarrow> UT_hash_bucket \<Rightarrow> addr list \<Rightarrow> bool" where
  "chain_ok h b xs \<longleftrightarrow> dlist (ptr hh_next h) (ptr hh_prev h) None (hh_head b) xs None \<and>
     bkt_count b = length xs \<and> distinct xs"

definition bkts_ok :: "(addr \<Rightarrow> 'e node option) \<Rightarrow> addr set \<Rightarrow> nat \<Rightarrow> UT_hash_bucket list \<Rightarrow>
    addr list list \<Rightarrow> bool" where
  "bkts_ok h M nb bs bks \<longleftrightarrow> length bs = nb \<and> length bks = nb \<and>
     (\<forall>i<nb. chain_ok h (bs ! i) (bks ! i) \<and> set (bks ! i) = {a \<in> M. HASH_TO_BKT (hash_of h a) nb = i})"

lemma chain_ok_head: "chain_ok h b xs \<Longrightarrow> hh_head b = Some a \<Longrightarrow> a \<in> set xs"
  by (cases xs) (auto simp: chain_ok_def)

lemma chain_ok_push:
  assumes "chain_ok h b xs" and "a \<notin> set xs"
    and "ptr hh_next h' = (ptr hh_next h)(a := hh_head b)"
    and "ptr hh_prev h' = (case hh_head b of None \<Rightarrow> (ptr hh_prev h)(a := None)
           | Some c \<Rightarrow> (ptr hh_prev h)(a := None, c := Some a))"
    and "hh_head b' = Some a" and "bkt_count b' = bkt_count b + 1"
  shows "chain_ok h' b' (a # xs)"
  using assms dlist_push [of "ptr hh_next h" "ptr hh_prev h" "hh_head b" xs a]
  unfolding chain_ok_def by simp

lemma chain_ok_other:
  assumes "chain_ok h b xs" and "a \<notin> set xs" and "\<And>c. x = Some c \<Longrightarrow> c \<notin> set xs"
    and "ptr hh_next h' = (ptr hh_next h)(a := x)"
    and "ptr hh_prev h' = (case x of None \<Rightarrow> (ptr hh_prev h)(a := None)
           | Some c \<Rightarrow> (ptr hh_prev h)(a := None, c := Some a))"
  shows "chain_ok h' b xs"
  using assms unfolding chain_ok_def by (auto split: option.splits)

text \<open>Pushing an element onto the bucket it hashes to.\<close>

lemma bkts_ok_push:
  assumes ok: "bkts_ok h M nb bs bks" and a: "a \<notin> M" and i: "i = HASH_TO_BKT (hash_of h a) nb" "i < nb"
    and f: "chain_frame h h'"
    and nx: "ptr hh_next h' = (ptr hh_next h)(a := hh_head (bs ! i))"
    and pv: "ptr hh_prev h' = (case hh_head (bs ! i) of None \<Rightarrow> (ptr hh_prev h)(a := None)
           | Some c \<Rightarrow> (ptr hh_prev h)(a := None, c := Some a))"
    and b': "hh_head b' = Some a" "bkt_count b' = bkt_count (bs ! i) + 1"
  shows "bkts_ok h' (insert a M) nb (bs[i := b']) (bks[i := a # bks ! i])"
  unfolding bkts_ok_def
proof (intro conjI allI impI)
  show "length (bs[i := b']) = nb" "length (bks[i := a # bks ! i]) = nb"
    using ok by (simp_all add: bkts_ok_def)
  fix j assume j: "j < nb"
  have cj: "chain_ok h (bs ! j) (bks ! j)" "set (bks ! j) = {a \<in> M. HASH_TO_BKT (hash_of h a) nb = j}"
    and ci: "chain_ok h (bs ! i) (bks ! i)" "set (bks ! i) = {a \<in> M. HASH_TO_BKT (hash_of h a) nb = i}"
    and len: "length bs = nb" "length bks = nb"
    using ok j i(2) by (auto simp: bkts_ok_def)
  have hash: "hash_of h' = hash_of h" using f by (rule chain_frame_same(3))
  show "chain_ok h' (bs[i := b'] ! j) (bks[i := a # bks ! i] ! j)"
  proof (cases "i = j")
    case True
    moreover have "chain_ok h' b' (a # bks ! i)"
      using ci(1) _ nx pv b' by (rule chain_ok_push) (use ci a in auto)
    ultimately show ?thesis using len i(2) by simp
  next
    case False
    moreover have "chain_ok h' (bs ! j) (bks ! j)"
      using cj(1) _ _ nx pv
    proof (rule chain_ok_other)
      show "a \<notin> set (bks ! j)" using cj(2) a by auto
      show "c \<notin> set (bks ! j)" if "hh_head (bs ! i) = Some c" for c
        using chain_ok_head [OF ci(1) that] ci(2) cj(2) False by auto
    qed
    ultimately show ?thesis by simp
  qed
  show "set (bks[i := a # bks ! i] ! j) = {c \<in> insert a M. HASH_TO_BKT (hash_of h' c) nb = j}"
    using len i ci(2) cj(2) j hash by (cases "i = j") auto
qed


section \<open>Expansion\<close>

lemma HASH_EXPAND_count_effect:
  assumes "ideal \<noteq> 0"
  obtains b' nonideal' where "HASH_EXPAND_count ideal b nonideal = Some (b', nonideal')"
    and "hh_head b' = hh_head b" and "bkt_count b' = bkt_count b + 1"
proof (cases "ideal < bkt_count b + 1")
  case True
  then show ?thesis
    using assms that by (simp add: HASH_EXPAND_count_def Let_def)
next
  case False
  then show ?thesis using that by (simp add: HASH_EXPAND_count_def Let_def)
qed

lemma HASH_EXPAND_while_effect:
  fixes s :: "('e, 'm) ut_scheme"
  assumes "bkts_ok (heap s) M nb new nbks" and "npath (ptr hh_next (heap s)) x xs"
    and "distinct xs" and "set xs \<inter> M = {}" and "set xs \<union> M \<subseteq> dom (heap s)"
    and "nb = 2 ^ k" and "ideal \<noteq> 0"
  shows "\<exists>new' nonideal' h' nbks'.
     HASH_EXPAND_while ideal nb x new nonideal s = Some (new', nonideal', s\<lparr>heap := h'\<rparr>) \<and>
     bkts_ok h' (M \<union> set xs) nb new' nbks' \<and> chain_frame (heap s) h' \<and>
     (\<forall>b. b \<notin> M \<union> set xs \<longrightarrow> ptr hh_next h' b = ptr hh_next (heap s) b)"
  using assms
proof (induction xs arbitrary: x new nonideal s M nbks)
  case Nil
  then show ?case
    by (intro exI [of _ new] exI [of _ nonideal] exI [of _ "heap s"] exI [of _ nbks])
      (simp add: HASH_EXPAND_while.simps chain_frame_refl)
next
  case (Cons a xs)
  obtain n where n: "heap s a = Some n" using Cons.prems(5) by auto
  define i where "i = HASH_TO_BKT (hashv (hh n)) nb"
  have i: "i = HASH_TO_BKT (hash_of (heap s) a) nb" "i < nb"
    using n Cons.prems(6) by (simp_all add: i_def hash_of_def HASH_TO_BKT_less)
  have ba: "bucket_at new i = Some (new ! i)" and ci: "chain_ok (heap s) (new ! i) (nbks ! i)"
    and mi: "set (nbks ! i) \<subseteq> M"
    using Cons.prems(1) i by (auto simp: bkts_ok_def bucket_at_def)
  obtain b' non' where b': "HASH_EXPAND_count ideal (new ! i) nonideal = Some (b', non')"
    "hh_head b' = hh_head (new ! i)" "bkt_count b' = bkt_count (new ! i) + 1"
    using HASH_EXPAND_count_effect [OF Cons.prems(7)] by blast
  have "b \<noteq> a \<and> b \<in> dom (heap s)" if "hh_head (new ! i) = Some b" for b
    using chain_ok_head [OF ci that] mi Cons.prems(4,5) by auto
  then obtain h1 where h1: "bkt_push a (hh_head b') s = Some (s\<lparr>heap := h1\<rparr>)" "chain_frame (heap s) h1"
    "ptr hh_next h1 = (ptr hh_next (heap s))(a := hh_head (new ! i))"
    "ptr hh_prev h1 = (case hh_head (new ! i) of None \<Rightarrow> (ptr hh_prev (heap s))(a := None)
           | Some c \<Rightarrow> (ptr hh_prev (heap s))(a := None, c := Some a))"
    using bkt_push_effect [OF n, of "hh_head (new ! i)"] b'(2) by auto
  define new1 where "new1 = new[i := b'\<lparr>hh_head := Some a\<rparr>]"
  have ok1: "bkts_ok h1 (insert a M) nb new1 (nbks[i := a # nbks ! i])"
    unfolding new1_def
    by (rule bkts_ok_push [OF Cons.prems(1) _ i h1(2-4)]) (use Cons.prems(4) b' in auto)
  have x: "x = Some a" "npath (ptr hh_next (heap s)) (hh_next (hh n)) xs"
    using Cons.prems(2) n by (simp_all add: ptr_Some)
  have path1: "npath (ptr hh_next h1) (hh_next (hh n)) xs"
    using x(2) h1(3) Cons.prems(3) by (subst npath_cong [of _ _ "ptr hh_next (heap s)"]) auto
  have "\<exists>new' nonideal' h' nbks'.
     HASH_EXPAND_while ideal nb (hh_next (hh n)) new1 non' (s\<lparr>heap := h1\<rparr>) =
       Some (new', nonideal', s\<lparr>heap := h1\<rparr>\<lparr>heap := h'\<rparr>) \<and>
     bkts_ok h' (insert a M \<union> set xs) nb new' nbks' \<and> chain_frame h1 h' \<and>
     (\<forall>b. b \<notin> insert a M \<union> set xs \<longrightarrow> ptr hh_next h' b = ptr hh_next h1 b)"
    using Cons.IH [of "s\<lparr>heap := h1\<rparr>" "insert a M" new1 "nbks[i := a # nbks ! i]" "hh_next (hh n)" non']
      ok1 path1 Cons.prems(3-7) chain_frame_same(4) [OF h1(2)] by auto
  moreover have "HASH_EXPAND_while ideal nb x new nonideal s =
      HASH_EXPAND_while ideal nb (hh_next (hh n)) new1 non' (s\<lparr>heap := h1\<rparr>)"
    using n ba b'(1) h1(1) x(1) by (subst HASH_EXPAND_while.simps) (simp add: new1_def i_def)
  ultimately show ?case
    using h1(3) chain_frame_trans [OF h1(2)] by fastforce
qed

lemma HASH_EXPAND_for_effect:
  fixes s :: "('e, 'm) ut_scheme"
  assumes "bkts_ok (heap s) M nb new nbks"
    and "list_all2 (\<lambda>b xs. npath (ptr hh_next (heap s)) (hh_head b) xs) bs xss"
    and "distinct (concat xss)" and "set (concat xss) \<inter> M = {}"
    and "set (concat xss) \<union> M \<subseteq> dom (heap s)" and "nb = 2 ^ k" and "ideal \<noteq> 0"
  shows "\<exists>new' nonideal' h' nbks'.
     HASH_EXPAND_for ideal nb bs new nonideal s = Some (new', nonideal', s\<lparr>heap := h'\<rparr>) \<and>
     bkts_ok h' (M \<union> set (concat xss)) nb new' nbks' \<and> chain_frame (heap s) h'"
  using assms
proof (induction bs arbitrary: xss new nonideal s M nbks)
  case Nil
  then show ?case
    by (intro exI [of _ new] exI [of _ nonideal] exI [of _ "heap s"] exI [of _ nbks])
      (simp add: chain_frame_refl)
next
  case (Cons b bs)
  then obtain xs xss' where xss: "xss = xs # xss'" "npath (ptr hh_next (heap s)) (hh_head b) xs"
    "list_all2 (\<lambda>b xs. npath (ptr hh_next (heap s)) (hh_head b) xs) bs xss'"
    by (auto simp: list_all2_Cons1)
  have xs: "distinct xs" "set xs \<inter> M = {}" "set xs \<union> M \<subseteq> dom (heap s)"
    using Cons.prems(3-5) xss(1) by auto
  obtain new1 non1 h1 nbks1 where w:
    "HASH_EXPAND_while ideal nb (hh_head b) new nonideal s = Some (new1, non1, s\<lparr>heap := h1\<rparr>)"
    "bkts_ok h1 (M \<union> set xs) nb new1 nbks1" "chain_frame (heap s) h1"
    "\<forall>b. b \<notin> M \<union> set xs \<longrightarrow> ptr hh_next h1 b = ptr hh_next (heap s) b"
    using HASH_EXPAND_while_effect [OF Cons.prems(1) xss(2) xs Cons.prems(6,7), of nonideal] by blast
  have "list_all2 (\<lambda>b xs. npath (ptr hh_next h1) (hh_head b) xs) bs xss'"
    using xss(3)
  proof (rule list.rel_mono_strong)
    fix b' ys assume "b' \<in> set bs" "ys \<in> set xss'" "npath (ptr hh_next (heap s)) (hh_head b') ys"
    moreover from this(2) have "set ys \<inter> (M \<union> set xs) = {}"
      using Cons.prems(3,4) xss(1) by auto
    ultimately show "npath (ptr hh_next h1) (hh_head b') ys"
      using w(4) by (subst npath_cong [of _ _ "ptr hh_next (heap s)"]) auto
  qed
  moreover have "distinct (concat xss')" "set (concat xss') \<inter> (M \<union> set xs) = {}"
    "set (concat xss') \<union> (M \<union> set xs) \<subseteq> dom h1"
    using Cons.prems(3-5) xss(1) chain_frame_same(4) [OF w(3)] by auto
  moreover have hp: "heap (s\<lparr>heap := h1\<rparr>) = h1" by simp
  note IH = Cons.IH [of "s\<lparr>heap := h1\<rparr>", unfolded hp]
  ultimately obtain new' non' h' nbks' where
    "HASH_EXPAND_for ideal nb bs new1 non1 (s\<lparr>heap := h1\<rparr>) = Some (new', non', s\<lparr>heap := h1, heap := h'\<rparr>)"
    "bkts_ok h' (M \<union> set xs \<union> set (concat xss')) nb new' nbks'" "chain_frame h1 h'"
    using IH [OF w(2) _ _ _ _ Cons.prems(6,7), of xss' non1] by blast
  then show ?case
    using w(1) xss(1) chain_frame_trans [OF w(3)] by (simp add: Un_assoc) blast
qed


text \<open>The ideal chain length is the rounded-up quotient of items and new buckets.\<close>

lemma ideal_maxlen_ceil:
  "ideal_maxlen n k (2 ^ k) = (n + (2 ^ (k + 1) - 1)) div 2 ^ (k + 1)"
proof -
  define m :: nat where "m = 2 ^ (k + 1)"
  have m: "0 < m" by (simp add: m_def)
  have "n AND (2 ^ k * 2 - 1) = n mod m"
    unfolding m_def by (metis and_exp_eq_0_iff_not_bit mask_eq_exp_minus_1 power_add power_one_right
        take_bit_eq_mask take_bit_eq_mod)
  moreover have "drop_bit (k + 1) n = n div m" by (simp only: m_def drop_bit_eq_div)
  ultimately have "ideal_maxlen n k (2 ^ k) = n div m + (if n mod m \<noteq> 0 then 1 else 0)"
    by (simp only: ideal_maxlen_def)
  also have "\<dots> = (n + (m - 1)) div m"
  proof -
    have "n + (m - 1) = (n mod m + (m - 1)) + m * (n div m)"
      by (metis add.assoc add.commute mult_div_mod_eq)
    then have "(n + (m - 1)) div m = n div m + (n mod m + (m - 1)) div m"
      using m by (simp only: div_mult_self2)
    moreover have "(n mod m + (m - 1)) div m = (if n mod m \<noteq> 0 then 1 else 0)"
    proof (cases "n mod m")
      case 0
      then show ?thesis using m by simp
    next
      case (Suc r)
      then have "r < m" using m by (metis Suc_lessD mod_less_divisor)
      moreover have "n mod m + (m - 1) = r + m" unfolding Suc using m by simp
      ultimately show ?thesis using Suc m by (simp add: div_add_self2)
    qed
    ultimately show ?thesis by simp
  qed
  finally show ?thesis by (simp add: m_def)
qed

lemma ideal_maxlen_pos: "0 < n \<Longrightarrow> ideal_maxlen n k (2 ^ k) \<noteq> 0"
  unfolding ideal_maxlen_ceil by (simp add: div_eq_0_iff)

section \<open>The table\<close>

definition tbl_ok :: "(addr \<Rightarrow> 'e node option) \<Rightarrow> addr set \<Rightarrow> UT_hash_table \<Rightarrow> bool" where
  "tbl_ok h M t \<longleftrightarrow> num_buckets t = 2 ^ log2_num_buckets t \<and> M \<subseteq> dom h \<and>
     (\<exists>bks. bkts_ok h M (num_buckets t) (buckets t) bks)"

lemma bkts_ok_empty: "bkts_ok h {} nb (replicate nb empty_bucket) (replicate nb [])"
  by (simp add: bkts_ok_def chain_ok_def empty_bucket_def)

lemma bkts_ok_concat:
  assumes "bkts_ok h M nb bs bks" and "\<And>a. HASH_TO_BKT (hash_of h a) nb < nb"
  shows "set (concat bks) = M" and "distinct (concat bks)"
proof -
  have l: "length bks = nb" and s: "\<And>i. i < nb \<Longrightarrow> set (bks ! i) = {a \<in> M. HASH_TO_BKT (hash_of h a) nb = i}"
    and d: "\<And>i. i < nb \<Longrightarrow> distinct (bks ! i)"
    using assms(1) by (auto simp: bkts_ok_def chain_ok_def)
  show "set (concat bks) = M" unfolding set_concat_nth using l s assms(2) by auto
  show "distinct (concat bks)"
    using l s d by (intro distinct_concat_index [of _ "\<lambda>a. HASH_TO_BKT (hash_of h a) nb" 0]) auto
qed


lemma tbl_ok_index:
  "tbl_ok h M t \<Longrightarrow> HASH_TO_BKT v (num_buckets t) < num_buckets t"
  unfolding tbl_ok_def by (metis HASH_TO_BKT_less)

lemma HASH_EXPAND_finish_simps [simp]:
  "num_buckets (HASH_EXPAND_finish t ideal new nonideal) = num_buckets t * 2"
  "log2_num_buckets (HASH_EXPAND_finish t ideal new nonideal) = log2_num_buckets t + 1"
  "buckets (HASH_EXPAND_finish t ideal new nonideal) = new"
  "num_items (HASH_EXPAND_finish t ideal new nonideal) = num_items t"
  "tail (HASH_EXPAND_finish t ideal new nonideal) = tail t"
  by (simp_all add: HASH_EXPAND_finish_def Let_def)

lemma HASH_EXPAND_BUCKETS_effect:
  assumes t: "tbl s = Some t" and ok: "tbl_ok (heap s) M t" and n: "0 < num_items t"
  obtains h' t' where "HASH_EXPAND_BUCKETS s = Some (s\<lparr>heap := h', tbl := Some t'\<rparr>)"
    and "tbl_ok h' M t'" and "chain_frame (heap s) h'"
    and "num_items t' = num_items t" and "tail t' = tail t"
proof -
  define nb where "nb = num_buckets t * 2"
  define ideal where "ideal = ideal_maxlen (num_items t) (log2_num_buckets t) (num_buckets t)"
  obtain bks where bks: "bkts_ok (heap s) M (num_buckets t) (buckets t) bks"
    and pow: "num_buckets t = 2 ^ log2_num_buckets t" and M: "M \<subseteq> dom (heap s)"
    using ok by (auto simp: tbl_ok_def)
  have nb: "nb = 2 ^ (log2_num_buckets t + 1)" by (simp add: nb_def pow)
  have ideal: "ideal \<noteq> 0" unfolding ideal_def pow using n by (rule ideal_maxlen_pos)
  have paths: "list_all2 (\<lambda>b xs. npath (ptr hh_next (heap s)) (hh_head b) xs) (buckets t) bks"
    using bks by (auto simp: list_all2_conv_all_nth bkts_ok_def chain_ok_def intro: dlist_npath)
  have set: "set (concat bks) = M" and dist: "distinct (concat bks)"
    using bkts_ok_concat [OF bks tbl_ok_index [OF ok]] by auto
  have disj: "set (concat bks) \<inter> {} = {}" and dom: "set (concat bks) \<union> {} \<subseteq> dom (heap s)"
    unfolding set using M by auto
  obtain new non h' nbks where e:
    "HASH_EXPAND_for ideal nb (buckets t) (replicate nb empty_bucket) 0 s = Some (new, non, s\<lparr>heap := h'\<rparr>)"
    "bkts_ok h' ({} \<union> set (concat bks)) nb new nbks" "chain_frame (heap s) h'"
    using HASH_EXPAND_for_effect [OF bkts_ok_empty paths dist disj dom nb ideal] by blast
  let ?t = "HASH_EXPAND_finish t ideal new non"
  have "HASH_EXPAND_BUCKETS s = Some (s\<lparr>heap := h', tbl := Some ?t\<rparr>)"
    using e(1) t by (simp add: HASH_EXPAND_BUCKETS_def Let_def nb_def ideal_def mult.commute)
  moreover have "tbl_ok h' M ?t"
    using e(2) set M chain_frame_same(4) [OF e(3)] nb by (auto simp: tbl_ok_def nb_def)
  ultimately show ?thesis using that e(3) by simp
qed

lemma HASH_ADD_TO_BKT_effect:
  assumes t: "tbl s = Some t" and ok: "tbl_ok (heap s) M t" and n: "0 < num_items t"
    and a: "a \<notin> M" "a \<in> dom (heap s)" and i: "i = HASH_TO_BKT (hash_of (heap s) a) (num_buckets t)"
  obtains h' t' where "HASH_ADD_TO_BKT i a s = Some (s\<lparr>heap := h', tbl := Some t'\<rparr>)"
    and "tbl_ok h' (insert a M) t'" and "chain_frame (heap s) h'"
    and "num_items t' = num_items t" and "tail t' = tail t"
proof -
  obtain nd where nd: "heap s a = Some nd" using a(2) by auto
  obtain bks where bks: "bkts_ok (heap s) M (num_buckets t) (buckets t) bks"
    and pow: "num_buckets t = 2 ^ log2_num_buckets t" and M: "M \<subseteq> dom (heap s)"
    using ok by (auto simp: tbl_ok_def)
  have i': "i < num_buckets t" unfolding i by (rule tbl_ok_index [OF ok])
  define b where "b = buckets t ! i"
  have ba: "bucket_at (buckets t) i = Some b" and ci: "chain_ok (heap s) b (bks ! i)"
    and mi: "set (bks ! i) \<subseteq> M"
    using bks i' by (auto simp: bkts_ok_def bucket_at_def b_def)
  have "c \<noteq> a \<and> c \<in> dom (heap s)" if "hh_head b = Some c" for c
    using chain_ok_head [OF ci that] mi M a by auto
  then obtain h1 where h1: "bkt_push a (hh_head b) s = Some (s\<lparr>heap := h1\<rparr>)" "chain_frame (heap s) h1"
    "ptr hh_next h1 = (ptr hh_next (heap s))(a := hh_head b)"
    "ptr hh_prev h1 = (case hh_head b of None \<Rightarrow> (ptr hh_prev (heap s))(a := None)
           | Some c \<Rightarrow> (ptr hh_prev (heap s))(a := None, c := Some a))"
    using bkt_push_effect [OF nd, of "hh_head b"] by metis
  define b' where "b' = b\<lparr>bkt_count := bkt_count b + 1, hh_head := Some a\<rparr>"
  define t1 where "t1 = t\<lparr>buckets := (buckets t)[i := b']\<rparr>"
  define s1 where "s1 = s\<lparr>heap := h1, tbl := Some t1\<rparr>"
  have "bkts_ok h1 (insert a M) (num_buckets t) ((buckets t)[i := b']) (bks[i := a # bks ! i])"
    by (rule bkts_ok_push [OF bks a(1) i i' h1(2)]) (use h1(3,4) in \<open>simp_all add: b_def b'_def\<close>)
  then have ok1: "tbl_ok h1 (insert a M) t1"
    using M a(2) pow chain_frame_same(4) [OF h1(2)] by (auto simp: tbl_ok_def t1_def)
  have run: "HASH_ADD_TO_BKT i a s =
      (if (expand_mult b' + 1) * HASH_BKT_CAPACITY_THRESH \<le> bkt_count b' \<and> noexpand t \<noteq> 1
       then HASH_EXPAND_BUCKETS s1 else Some s1)"
    using t ba h1(1) by (simp add: HASH_ADD_TO_BKT_def Let_def b'_def t1_def s1_def)
  show ?thesis
  proof (cases "(expand_mult b' + 1) * HASH_BKT_CAPACITY_THRESH \<le> bkt_count b' \<and> noexpand t \<noteq> 1")
    case True
    have "tbl s1 = Some t1" "tbl_ok (heap s1) (insert a M) t1" "0 < num_items t1"
      using ok1 n by (simp_all add: s1_def t1_def)
    then obtain h' t' where "HASH_EXPAND_BUCKETS s1 = Some (s1\<lparr>heap := h', tbl := Some t'\<rparr>)"
      "tbl_ok h' (insert a M) t'" "chain_frame (heap s1) h'" "num_items t' = num_items t1" "tail t' = tail t1"
      using HASH_EXPAND_BUCKETS_effect by blast
    then show ?thesis
      using that [of t' h'] True run chain_frame_trans [OF h1(2)] by (auto simp: s1_def t1_def)
  next
    case False
    then show ?thesis using that [of t1 h1] run ok1 h1(2) by (auto simp: s1_def t1_def)
  qed
qed

end
