(* ===== verification/Uthash_Correct.thy ===== *)
theory Uthash_Correct
  imports Uthash_Inv
begin

text \<open>
  Correctness of the table operations: under the invariant, lookup, insertion, deletion
  and traversal never fault and always return; lookup is a search by key, insertion
  appends to the application order, deletion removes from it, and traversal visits it in
  order. None of them changes what the elements hold.
\<close>

section \<open>A normal form of state updates\<close>

lemma ut_order:
  "s\<lparr>head := x, heap := h\<rparr> = s\<lparr>heap := h, head := x\<rparr>"
  "s\<lparr>tbl := t, heap := h\<rparr> = s\<lparr>heap := h, tbl := t\<rparr>"
  "s\<lparr>tbl := t, head := x\<rparr> = s\<lparr>head := x, tbl := t\<rparr>"
  by simp_all

lemma ut_head_same: "s\<lparr>heap := h, head := head s, tbl := t\<rparr> = s\<lparr>heap := h, tbl := t\<rparr>"
  by (cases s) simp

section \<open>Writing through a pointer that may be NULL\<close>

definition upd_at :: "(addr \<Rightarrow> 'e node option) \<Rightarrow> addr option \<Rightarrow>
    (UT_hash_handle \<Rightarrow> UT_hash_handle) \<Rightarrow> addr \<Rightarrow> 'e node option" where
  "upd_at h q f = (case q of None \<Rightarrow> h
     | Some p \<Rightarrow> (case h p of None \<Rightarrow> h | Some n \<Rightarrow> h(p \<mapsto> n\<lparr>hh := f (hh n)\<rparr>)))"

lemma hh_write_eq:
  "a \<in> dom (heap s) \<Longrightarrow> hh_write a f s = Some (s\<lparr>heap := upd_at (heap s) (Some a) f\<rparr>)"
  by (auto simp: hh_write_def upd_at_def)

lemma hh_write_opt:
  assumes "\<And>p. q = Some p \<Longrightarrow> p \<in> dom (heap s)"
  shows "(case q of None \<Rightarrow> Some s | Some p \<Rightarrow> hh_write p f s) = Some (s\<lparr>heap := upd_at (heap s) q f\<rparr>)"
  using assms by (cases q) (auto simp: hh_write_eq, simp add: upd_at_def)

lemma upd_at_other: "q \<noteq> Some a \<Longrightarrow> upd_at h q f a = h a"
  by (auto simp: upd_at_def split: option.splits)

lemma upd_at_dom [simp]: "dom (upd_at h q f) = dom h"
  by (auto simp: upd_at_def split: option.splits)

lemma upd_at_elt [simp]: "map_option elt (upd_at h q f a) = map_option elt (h a)"
  by (auto simp: upd_at_def split: option.splits)

lemma ptr_upd_at_same: "(\<And>h. g (f h) = g h) \<Longrightarrow> ptr g (upd_at h q f) = ptr g h"
  by (auto simp: upd_at_def ptr_def fun_eq_iff split: option.splits)

lemma ptr_upd_at:
  assumes "\<And>p. q = Some p \<Longrightarrow> p \<in> dom h"
  shows "(\<And>h. g (f h) = v) \<Longrightarrow>
     ptr g (upd_at h q f) = (case q of None \<Rightarrow> ptr g h | Some p \<Rightarrow> (ptr g h)(p := v))"
  using assms by (auto simp: upd_at_def ptr_def fun_eq_iff split: option.splits)

lemma hash_of_upd_at: "(\<And>h. hashv (f h) = hashv h) \<Longrightarrow> hash_of (upd_at h q f) = hash_of h"
  by (auto simp: upd_at_def hash_of_def fun_eq_iff split: option.splits)

lemma chain_frame_upd_at:
  assumes "\<And>h. el_prev (f h) = el_prev h" "\<And>h. el_next (f h) = el_next h"
    "\<And>h. keylen (f h) = keylen h" "\<And>h. hashv (f h) = hashv h"
  shows "chain_frame h (upd_at h q f)"
  using assms by (auto simp: chain_frame_def node_core_def upd_at_def split: option.splits)

section \<open>The invariant\<close>

definition keyed :: "('e \<Rightarrow> char list) \<Rightarrow> (addr \<Rightarrow> 'e node option) \<Rightarrow> addr \<Rightarrow> bool" where
  "keyed kf h a \<longleftrightarrow> (case h a of None \<Rightarrow> False
     | Some n \<Rightarrow> keylen (hh n) = c_strlen (kf (elt n)) \<and>
         hashv (hh n) = HASH_JEN (kf (elt n)) (c_strlen (kf (elt n))))"

definition key_at :: "('e \<Rightarrow> char list) \<Rightarrow> (addr \<Rightarrow> 'e node option) \<Rightarrow> addr \<Rightarrow> char list" where
  "key_at kf h a = (case h a of None \<Rightarrow> [] | Some n \<Rightarrow> c_str (kf (elt n)))"

definition ut_inv :: "('e \<Rightarrow> char list) \<Rightarrow> ('e, 'm) ut_scheme \<Rightarrow> addr list \<Rightarrow> bool" where
  "ut_inv kf s es \<longleftrightarrow> distinct es \<and> (\<forall>a\<in>set es. keyed kf (heap s) a) \<and>
     (if es = [] then head s = None \<and> tbl s = None
      else dlist (ptr el_next (heap s)) (ptr el_prev (heap s)) None (head s) es None \<and>
        (\<exists>t. tbl s = Some t \<and> tail t = last es \<and> num_items t = length es \<and>
             tbl_ok (heap s) (set es) t))"

text \<open>What the operations leave alone: the contents of the elements, and everything of the
  state beyond the table.\<close>

definition ut_frame :: "('e, 'm) ut_scheme \<Rightarrow> ('e, 'm) ut_scheme \<Rightarrow> bool" where
  "ut_frame s s' \<longleftrightarrow> s' = s\<lparr>heap := heap s', head := head s', tbl := tbl s'\<rparr> \<and>
     (\<forall>a. elt_read a s' = elt_read a s)"

lemma ut_frame_refl [frame_simps]: "ut_frame s s"
  by (simp add: ut_frame_def)

lemma ut_frame_trans: "ut_frame s s' \<Longrightarrow> ut_frame s' s'' \<Longrightarrow> ut_frame s s''"
  by (cases s; cases s'; cases s'') (simp add: ut_frame_def elt_read_def)

lemma ut_frame_more: "ut_frame s s' \<Longrightarrow> ut.more s' = ut.more s"
  by (cases s; cases s') (simp add: ut_frame_def)

lemma ut_frame_heap: "ut_frame s s' \<Longrightarrow> heap s' a = None \<longleftrightarrow> heap s a = None"
  unfolding ut_frame_def elt_read_def by (metis map_option_is_None)

lemma ut_frame_dom: "ut_frame s s' \<Longrightarrow> dom (heap s') = dom (heap s)"
  by (simp add: dom_def ut_frame_heap)

lemma ut_inv_dom: "ut_inv kf s es \<Longrightarrow> set es \<subseteq> dom (heap s)"
  by (auto simp: ut_inv_def keyed_def split: option.splits)

lemma ut_inv_distinct: "ut_inv kf s es \<Longrightarrow> distinct es"
  by (simp add: ut_inv_def)

lemma ut_inv_head: "ut_inv kf s es \<Longrightarrow> head s = first_ptr es None"
  by (cases es) (auto simp: ut_inv_def)

lemma ut_inv_head_tbl:
  assumes "ut_inv kf s es" and "es \<noteq> []"
  obtains t where "head_tbl s = Some t" and "tbl s = Some t" and "tail t = last es"
    and "num_items t = length es" and "tbl_ok (heap s) (set es) t"
proof -
  have "head s = Some (hd es)" using ut_inv_head [OF assms(1)] assms(2) by (cases es) auto
  moreover have "hd es \<in> dom (heap s)"
    using ut_inv_dom [OF assms(1)] hd_in_set [OF assms(2)] by blast
  ultimately have "head_tbl s = tbl s" by (auto simp: head_tbl_def)
  then show ?thesis using that assms by (auto simp: ut_inv_def)
qed

lemma HASH_COUNT_eq: "ut_inv kf s es \<Longrightarrow> HASH_COUNT s = Some (length es)"
  by (cases "es = []") (auto simp: HASH_COUNT_def ut_inv_head first_ptr_def
      elim!: ut_inv_head_tbl split: list.splits)

lemma tbl_ok_cong:
  assumes "tbl_ok h M t" and "ptr hh_next h' = ptr hh_next h" and "ptr hh_prev h' = ptr hh_prev h"
    and "\<And>a. a \<in> M \<Longrightarrow> hash_of h' a = hash_of h a" and "M \<subseteq> dom h'"
    and "buckets t' = buckets t" and "num_buckets t' = num_buckets t"
    and "log2_num_buckets t' = log2_num_buckets t"
  shows "tbl_ok h' M t'"
proof -
  have "chain_ok h' b xs \<longleftrightarrow> chain_ok h b xs" for b xs
    using assms(2,3) by (simp add: chain_ok_def)
  moreover have "{a \<in> M. HASH_TO_BKT (hash_of h' a) nb = i} = {a \<in> M. HASH_TO_BKT (hash_of h a) nb = i}" for nb i
    using assms(4) by auto
  ultimately have "bkts_ok h' M nb bs bks \<longleftrightarrow> bkts_ok h M nb bs bks" for nb bs bks
    by (simp only: bkts_ok_def)
  then show ?thesis using assms(1,5-8) unfolding tbl_ok_def by metis
qed

lemma tbl_ok_num_items: "tbl_ok h M (t\<lparr>num_items := n\<rparr>) = tbl_ok h M t"
  by (simp add: tbl_ok_def)

section \<open>Insertion\<close>

lemma keyed_chain_frame: "chain_frame h h' \<Longrightarrow> keyed kf h' a = keyed kf h a"
  using chain_frameD [of h h' a]
  by (cases "h a") (auto simp: keyed_def node_core_def split: option.splits)

lemma HASH_MAKE_TABLE_ok: "buckets t = buckets (HASH_MAKE_TABLE a) \<Longrightarrow>
    num_buckets t = num_buckets (HASH_MAKE_TABLE a) \<Longrightarrow>
    log2_num_buckets t = log2_num_buckets (HASH_MAKE_TABLE a) \<Longrightarrow> tbl_ok h {} t"
  unfolding tbl_ok_def HASH_MAKE_TABLE_def HASH_INITIAL_NUM_BUCKETS_def HASH_INITIAL_NUM_BUCKETS_LOG2_def
  using bkts_ok_empty [of h 32] by auto

text \<open>The part of the insertion before the bucket: the application-order list.\<close>

definition add_node :: "char list \<Rightarrow> nat \<Rightarrow> addr list \<Rightarrow> 'e node \<Rightarrow> 'e node" where
  "add_node key klen es n = n\<lparr>hh := (hh n)\<lparr>el_next := None, keylen := klen,
     el_prev := last_ptr None es, hashv := HASH_JEN key klen\<rparr>\<rparr>"

lemma HASH_ADD_KEYPTR_run:
  assumes inv: "ut_inv kf s es" and n: "heap s a = Some n" and a: "a \<notin> set es"
  obtains h t where
    "HASH_ADD_KEYPTR key klen a s = HASH_ADD_TO_BKT (HASH_TO_BKT (HASH_JEN key klen) (num_buckets t)) a
       (s\<lparr>heap := h, head := first_ptr (es @ [a]) None, tbl := Some t\<rparr>)"
    and "h = upd_at ((heap s)(a \<mapsto> add_node key klen es n)) (last_ptr None es) (\<lambda>h. h\<lparr>el_next := Some a\<rparr>)"
    and "tbl_ok h (set es) t" and "tail t = a" and "num_items t = length es + 1"
proof (cases "es = []")
  case True
  let ?h = "(heap s)(a \<mapsto> add_node key klen es n)"
  let ?t = "(HASH_MAKE_TABLE a)\<lparr>num_items := 1\<rparr>"
  have "head s = None" using inv True by (simp add: ut_inv_def)
  then have "HASH_ADD_KEYPTR key klen a s = HASH_ADD_TO_BKT (HASH_TO_BKT (HASH_JEN key klen) (num_buckets ?t)) a
       (s\<lparr>heap := ?h, head := first_ptr (es @ [a]) None, tbl := Some ?t\<rparr>)"
    using n True by (simp add: HASH_ADD_KEYPTR_def hh_write_def head_tbl_def Let_def add_node_def HASH_MAKE_TABLE_def ut_order)
  moreover have "tbl_ok ?h (set es) ?t" using True HASH_MAKE_TABLE_ok [of ?t a ?h] by simp
  moreover have "?h = upd_at ?h (last_ptr None es) (\<lambda>h. h\<lparr>el_next := Some a\<rparr>)"
    using True by (simp add: upd_at_def)
  ultimately show ?thesis using that [of ?t ?h] True by (simp add: HASH_MAKE_TABLE_def)
next
  case False
  define z where "z = last es"
  obtain t where t: "head_tbl s = Some t" "tbl s = Some t" "tail t = z" "num_items t = length es"
    "tbl_ok (heap s) (set es) t"
    using ut_inv_head_tbl [OF inv False] by (metis z_def)
  have z: "z \<in> set es" "z \<noteq> a" using False a by (auto simp: z_def)
  obtain m where m: "heap s z = Some m" using z ut_inv_dom [OF inv] by auto
  have hd: "head s = Some (hd es)" "hd es \<in> set es"
    using ut_inv_head [OF inv] False by (cases es; simp)+
  obtain w where w: "heap s (hd es) = Some w" using hd ut_inv_dom [OF inv] by auto
  let ?h = "(heap s)(a \<mapsto> add_node key klen es n, z \<mapsto> m\<lparr>hh := (hh m)\<lparr>el_next := Some a\<rparr>\<rparr>)"
  let ?t = "t\<lparr>tail := a, num_items := num_items t + 1\<rparr>"
  have lp: "last_ptr None es = Some z" using False by (simp add: last_ptr_def z_def)
  have u: "?h = upd_at ((heap s)(a \<mapsto> add_node key klen es n)) (last_ptr None es) (\<lambda>h. h\<lparr>el_next := Some a\<rparr>)"
    using m z by (simp add: upd_at_def lp)
  have tw: "?h = (heap s)(z \<mapsto> m\<lparr>hh := (hh m)\<lparr>el_next := Some a\<rparr>\<rparr>, a \<mapsto> add_node key klen es n)"
    using z by (simp add: fun_upd_twist)
  have fp: "first_ptr (es @ [a]) None = head s" using ut_inv_head [OF inv] False by (cases es) auto
  have "HASH_ADD_KEYPTR key klen a s = HASH_ADD_TO_BKT (HASH_TO_BKT (HASH_JEN key klen) (num_buckets ?t)) a
       (s\<lparr>heap := ?h, head := first_ptr (es @ [a]) None, tbl := Some ?t\<rparr>)"
    unfolding tw fp ut_head_same using n t m z hd w a lp
    by (auto simp: HASH_ADD_KEYPTR_def hh_write_def head_tbl_def Let_def add_node_def ut_order)
  moreover have "tbl_ok ?h (set es) ?t"
    using t(5)
  proof (rule tbl_ok_cong)
    show "ptr hh_next ?h = ptr hh_next (heap s)" "ptr hh_prev ?h = ptr hh_prev (heap s)"
      using n m z by (auto simp: ptr_def add_node_def fun_eq_iff)
    show "hash_of ?h b = hash_of (heap s) b" if "b \<in> set es" for b
      using that a m by (auto simp: hash_of_def)
    show "set es \<subseteq> dom ?h" using ut_inv_dom [OF inv] by auto
  qed simp_all
  ultimately show ?thesis using that [of ?t ?h] u t(4) by simp
qed


lemma keyed_upd_at:
  "(\<And>h. keylen (f h) = keylen h) \<Longrightarrow> (\<And>h. hashv (f h) = hashv h) \<Longrightarrow>
     keyed kf (upd_at h q f) a = keyed kf h a"
  by (auto simp: keyed_def upd_at_def split: option.splits)

lemma ut_inv_snocI:
  assumes inv: "ut_inv kf s es" and a: "a \<notin> set es" and n: "heap s a = Some n"
    and h: "h = upd_at ((heap s)(a \<mapsto> add_node key klen es n)) (last_ptr None es) (\<lambda>h. h\<lparr>el_next := Some a\<rparr>)"
    and key: "key = kf (elt n)" "klen = c_strlen (kf (elt n))"
    and t': "tbl_ok h' (insert a (set es)) t'" "chain_frame h h'" "num_items t' = length es + 1" "tail t' = a"
  shows "ut_inv kf (s\<lparr>heap := h', head := first_ptr (es @ [a]) None, tbl := Some t'\<rparr>) (es @ [a])"
proof -
  have dst: "distinct es" using inv by (rule ut_inv_distinct)
  have lp: "p \<in> set es \<and> p \<noteq> a" if "last_ptr None es = Some p" for p
    using that a by (auto simp: last_ptr_def split: if_splits)
  have lpd: "p \<in> dom ((heap s)(a \<mapsto> add_node key klen es n))" if "last_ptr None es = Some p" for p
    using lp [OF that] ut_inv_dom [OF inv] by auto
  have dl: "dlist (ptr el_next (heap s)) (ptr el_prev (heap s)) None (head s) es None"
    using inv by (cases "es = []") (auto simp: ut_inv_def)
  have nx: "ptr el_next h = (case last_ptr None es of None \<Rightarrow> ptr el_next (heap s)
      | Some p \<Rightarrow> (ptr el_next (heap s))(p := Some a))(a := None)"
    unfolding h using lp by (subst ptr_upd_at [OF lpd])
      (auto simp: ptr_upd add_node_def fun_upd_twist split: option.splits)
  have pv: "ptr el_prev h = (ptr el_prev (heap s))(a := last_ptr None es)"
    unfolding h by (subst ptr_upd_at_same) (auto simp: ptr_upd add_node_def)
  have "dlist (ptr el_next h) (ptr el_prev h) None (first_ptr (es @ [a]) None) (es @ [a]) None"
    unfolding nx pv using dl a dst by (rule dlist_snoc)
  then have dl': "dlist (ptr el_next h') (ptr el_prev h') None (first_ptr (es @ [a]) None) (es @ [a]) None"
    using chain_frame_same(1,2) [OF t'(2)] by simp
  have "keyed kf h b" if "b \<in> set (es @ [a])" for b
  proof -
    have "keyed kf ((heap s)(a \<mapsto> add_node key klen es n)) b"
      using that inv key by (cases "b = a") (auto simp: keyed_def add_node_def ut_inv_def)
    then show ?thesis unfolding h by (subst keyed_upd_at) simp_all
  qed
  then have "\<forall>b\<in>set (es @ [a]). keyed kf h' b" using keyed_chain_frame [OF t'(2)] by blast
  with dl' show ?thesis using t' dst a by (simp add: ut_inv_def)
qed

theorem HASH_ADD_STR_effect:
  assumes inv: "ut_inv kf s es" and n: "heap s a = Some n" and a: "a \<notin> set es"
  obtains s' where "HASH_ADD_STR kf a s = Some s'" and "ut_inv kf s' (es @ [a])" and "ut_frame s s'"
proof -
  define key where "key = kf (elt n)"
  define klen where "klen = c_strlen (kf (elt n))"
  obtain h t where r: "HASH_ADD_KEYPTR key klen a s =
        HASH_ADD_TO_BKT (HASH_TO_BKT (HASH_JEN key klen) (num_buckets t)) a
          (s\<lparr>heap := h, head := first_ptr (es @ [a]) None, tbl := Some t\<rparr>)"
    "h = upd_at ((heap s)(a \<mapsto> add_node key klen es n)) (last_ptr None es) (\<lambda>h. h\<lparr>el_next := Some a\<rparr>)"
    "tbl_ok h (set es) t" "tail t = a" "num_items t = length es + 1"
    using HASH_ADD_KEYPTR_run [OF inv n a] by blast
  define s1 where "s1 = s\<lparr>heap := h, head := first_ptr (es @ [a]) None, tbl := Some t\<rparr>"
  have "last_ptr None es \<noteq> Some a" using a by (auto simp: last_ptr_def split: if_splits)
  then have ha: "h a = Some (add_node key klen es n)" unfolding r(2) by (simp add: upd_at_other)
  then have i: "HASH_TO_BKT (HASH_JEN key klen) (num_buckets t) =
      HASH_TO_BKT (hash_of (heap s1) a) (num_buckets t)" and d: "a \<in> dom (heap s1)"
    by (auto simp: s1_def hash_of_def add_node_def)
  obtain h' t' where e: "HASH_ADD_TO_BKT (HASH_TO_BKT (HASH_JEN key klen) (num_buckets t)) a s1 =
        Some (s1\<lparr>heap := h', tbl := Some t'\<rparr>)"
    "tbl_ok h' (insert a (set es)) t'" "chain_frame (heap s1) h'"
    "num_items t' = num_items t" "tail t' = tail t"
    by (rule HASH_ADD_TO_BKT_effect [of s1 t "set es" a, OF _ _ _ a d i])
      (use r(3,5) in \<open>auto simp: s1_def\<close>)
  define s' where "s' = s\<lparr>heap := h', head := first_ptr (es @ [a]) None, tbl := Some t'\<rparr>"
  have "HASH_ADD_STR kf a s = Some s'"
    using n r(1) e(1) by (simp add: HASH_ADD_STR_def key_def klen_def s1_def s'_def ut_order)
  moreover have "ut_inv kf s' (es @ [a])"
    unfolding s'_def using e r(4,5)
    by (intro ut_inv_snocI [OF inv a n r(2) key_def klen_def]) (simp_all add: s1_def)
  moreover have "map_option elt (h' b) = map_option elt (heap s b)" for b
    using chain_frame_same(5) [OF e(3), of b] n by (simp add: s1_def r(2) add_node_def)
  then have "ut_frame s s'" by (simp add: ut_frame_def s'_def elt_read_def)
  ultimately show ?thesis using that by blast
qed


section \<open>Lookup\<close>

lemma HASH_FIND_IN_BKT_effect:
  assumes "npath (ptr hh_next (heap s)) x xs" and "\<forall>a\<in>set xs. keyed kf (heap s) a"
  shows "HASH_FIND_IN_BKT kf key (c_strlen key) s x =
     Some (find (\<lambda>a. key_at kf (heap s) a = c_str key) xs)"
  using assms
proof (induction xs arbitrary: x)
  case Nil
  then show ?case by (simp add: HASH_FIND_IN_BKT.simps)
next
  case (Cons a xs)
  from Cons.prems(2) obtain n where n: "heap s a = Some n" "keylen (hh n) = c_strlen (kf (elt n))"
    by (auto simp: keyed_def split: option.splits)
  have "keylen (hh n) = c_strlen key \<and> take (c_strlen key) (kf (elt n)) = take (c_strlen key) key \<longleftrightarrow>
      key_at kf (heap s) a = c_str key"
    using n by (simp add: key_at_def) (metis c_strlen_def take_c_strlen)
  moreover have "npath (ptr hh_next (heap s)) (hh_next (hh n)) xs" "x = Some a"
    using Cons.prems(1) n by (simp_all add: ptr_Some)
  ultimately show ?case
    using Cons n by (simp add: HASH_FIND_IN_BKT.simps [of kf key "c_strlen key" s "Some a"])
qed

lemma keyed_hash:
  assumes "keyed kf h a" and "key_at kf h a = c_str key"
  shows "hash_of h a = HASH_JEN key (c_strlen key)"
proof -
  obtain n where n: "h a = Some n" "hashv (hh n) = HASH_JEN (kf (elt n)) (c_strlen (kf (elt n)))"
    using assms(1) by (auto simp: keyed_def split: option.splits)
  then have "c_str (kf (elt n)) = c_str key" using assms(2) by (simp add: key_at_def)
  then have "c_strlen (kf (elt n)) = c_strlen key" "take (c_strlen key) (kf (elt n)) = take (c_strlen key) key"
    by (metis c_strlen_def, metis c_strlen_def take_c_strlen)
  then show ?thesis using n HASH_JEN_prefix by (metis hash_of_Some)
qed

text \<open>Lookup searches the one chain that can hold the key.\<close>

theorem HASH_FIND_STR_chain:
  assumes inv: "ut_inv kf s es"
  obtains xs where "HASH_FIND_STR kf key s = Some (find (\<lambda>a. key_at kf (heap s) a = c_str key) xs)"
    and "{a \<in> set xs. key_at kf (heap s) a = c_str key} = {a \<in> set es. key_at kf (heap s) a = c_str key}"
proof (cases "es = []")
  case True
  then have "HASH_FIND_STR kf key s = Some None"
    using inv by (simp add: HASH_FIND_STR_def HASH_FIND_def ut_inv_def)
  then show ?thesis using that [of "[]"] True by simp
next
  case False
  obtain t where t: "head_tbl s = Some t" "tbl_ok (heap s) (set es) t"
    using ut_inv_head_tbl [OF inv False] by metis
  obtain bks where bks: "bkts_ok (heap s) (set es) (num_buckets t) (buckets t) bks"
    using t(2) by (auto simp: tbl_ok_def)
  define i where "i = HASH_TO_BKT (HASH_JEN key (c_strlen key)) (num_buckets t)"
  have i: "i < num_buckets t" unfolding i_def by (rule tbl_ok_index [OF t(2)])
  have b: "bucket_at (buckets t) i = Some (buckets t ! i)"
    and path: "npath (ptr hh_next (heap s)) (hh_head (buckets t ! i)) (bks ! i)"
    and set: "set (bks ! i) = {a \<in> set es. HASH_TO_BKT (hash_of (heap s) a) (num_buckets t) = i}"
    using bks i by (auto simp: bkts_ok_def bucket_at_def chain_ok_def intro: dlist_npath)
  have k: "\<forall>a\<in>set es. keyed kf (heap s) a" using inv by (simp add: ut_inv_def)
  have "head s \<noteq> None" using ut_inv_head [OF inv] False by (cases es) auto
  then have "HASH_FIND_STR kf key s = HASH_FIND_IN_BKT kf key (c_strlen key) s (hh_head (buckets t ! i))"
    using t(1) b by (auto simp: HASH_FIND_STR_def HASH_FIND_def i_def)
  also have "\<dots> = Some (find (\<lambda>a. key_at kf (heap s) a = c_str key) (bks ! i))"
    using path k set by (intro HASH_FIND_IN_BKT_effect) auto
  finally show ?thesis
  proof (rule that)
    show "{a \<in> set (bks ! i). key_at kf (heap s) a = c_str key} = {a \<in> set es. key_at kf (heap s) a = c_str key}"
      using set k keyed_hash [of kf "heap s" _ key] by (auto simp: i_def)
  qed
qed

theorem HASH_FIND_STR_effect:
  assumes "ut_inv kf s es" and "distinct (map (key_at kf (heap s)) es)"
  shows "HASH_FIND_STR kf key s = Some (find (\<lambda>a. key_at kf (heap s) a = c_str key) es)"
proof -
  obtain xs where xs: "HASH_FIND_STR kf key s = Some (find (\<lambda>a. key_at kf (heap s) a = c_str key) xs)"
    "{a \<in> set xs. key_at kf (heap s) a = c_str key} = {a \<in> set es. key_at kf (heap s) a = c_str key}"
    using HASH_FIND_STR_chain [OF assms(1)] by blast
  have "find (\<lambda>a. key_at kf (heap s) a = c_str key) xs = find (\<lambda>a. key_at kf (heap s) a = c_str key) es"
    using xs(2)
  proof (rule find_same)
    fix a b assume "a \<in> set es" "b \<in> set es" "key_at kf (heap s) a = c_str key" "key_at kf (heap s) b = c_str key"
    then show "a = b" using assms(2) by (metis distinct_map inj_onD)
  qed
  with xs(1) show ?thesis by simp
qed

section \<open>Deletion\<close>

text \<open>One bucket loses a handle; the pointers of the other buckets' handles stay as they are.\<close>

lemma bkts_ok_drop:
  assumes bks: "bkts_ok h M nb bs bks" and i: "i = HASH_TO_BKT (hash_of h a) nb" "i < nb"
    and xs: "bks ! i = cs @ a # ds" and hash: "hash_of h' = hash_of h"
    and new: "chain_ok h' b' (cs @ ds)"
    and old: "\<And>c ys. chain_ok h c ys \<Longrightarrow> set ys \<inter> set (bks ! i) = {} \<Longrightarrow> chain_ok h' c ys"
  shows "bkts_ok h' (M - {a}) nb (bs[i := b']) (bks[i := cs @ ds])"
  unfolding bkts_ok_def
proof (intro conjI allI impI)
  show "length (bs[i := b']) = nb" "length (bks[i := cs @ ds]) = nb" using bks by (simp_all add: bkts_ok_def)
  fix j assume j: "j < nb"
  have cj: "chain_ok h (bs ! j) (bks ! j)" "set (bks ! j) = {c \<in> M. HASH_TO_BKT (hash_of h c) nb = j}"
    and ci: "chain_ok h (bs ! i) (bks ! i)" "set (bks ! i) = {c \<in> M. HASH_TO_BKT (hash_of h c) nb = i}"
    and len: "length bs = nb" "length bks = nb"
    using bks j i(2) by (auto simp: bkts_ok_def)
  show "chain_ok h' (bs[i := b'] ! j) (bks[i := cs @ ds] ! j)"
    using new old [OF cj(1)] cj(2) ci(2) len i(2) by (cases "j = i") auto
  show "set (bks[i := cs @ ds] ! j) = {c \<in> M - {a}. HASH_TO_BKT (hash_of h' c) nb = j}"
  proof (cases "j = i")
    case True
    have "set (cs @ ds) = set (bks ! i) - {a}" using xs ci(1) by (auto simp: chain_ok_def)
    then show ?thesis using True len i(2) ci(2) hash by auto
  qed (use cj(2) hash i(1) in auto)
qed

lemma HASH_DEL_IN_BKT_effect:
  assumes t: "tbl s = Some t" and ok: "tbl_ok (heap s) M t" and a: "a \<in> M"
    and i: "i = HASH_TO_BKT (hash_of (heap s) a) (num_buckets t)"
  obtains h' t' where "HASH_DEL_IN_BKT i a s = Some (s\<lparr>heap := h', tbl := Some t'\<rparr>)"
    and "tbl_ok h' (M - {a}) t'" and "chain_frame (heap s) h'"
    and "num_items t' = num_items t" and "tail t' = tail t"
proof -
  obtain bks where bks: "bkts_ok (heap s) M (num_buckets t) (buckets t) bks"
    and pow: "num_buckets t = 2 ^ log2_num_buckets t" and M: "M \<subseteq> dom (heap s)"
    using ok by (auto simp: tbl_ok_def)
  obtain d where d: "heap s a = Some d" using M a by auto
  have i': "i < num_buckets t" unfolding i by (rule tbl_ok_index [OF ok])
  define b where "b = buckets t ! i"
  have ba: "bucket_at (buckets t) i = Some b" and ci: "chain_ok (heap s) b (bks ! i)"
    and si: "set (bks ! i) = {c \<in> M. HASH_TO_BKT (hash_of (heap s) c) (num_buckets t) = i}"
    using bks i' by (auto simp: bkts_ok_def bucket_at_def b_def)
  have "a \<in> set (bks ! i)" using si a i by simp
  then obtain cs ds where xs: "bks ! i = cs @ a # ds" by (meson split_list)
  have dst: "distinct (cs @ a # ds)" and dl: "dlist (ptr hh_next (heap s)) (ptr hh_prev (heap s)) None (hh_head b) (cs @ a # ds) None"
    using ci xs by (auto simp: chain_ok_def)
  have pv: "hh_prev (hh d) = last_ptr None cs" and nx: "hh_next (hh d) = first_ptr ds None"
    using dlist_unlink(2,3) [OF dl dst] d by (simp_all add: ptr_Some)
  have in_M: "set cs \<union> set ds \<subseteq> M" using si xs by auto
  have pd: "p \<in> dom (heap s) \<and> p \<noteq> a \<and> p \<in> set cs" if "hh_prev (hh d) = Some p" for p
    using last_ptr_in [of cs p] that pv in_M M dst by auto
  have nd: "n \<in> dom (heap s) \<and> n \<noteq> a \<and> n \<in> set ds" if "hh_next (hh d) = Some n" for n
    using first_ptr_in [of ds n] that nx in_M M dst by auto
  define h1 where "h1 = upd_at (heap s) (hh_prev (hh d)) (\<lambda>h. h\<lparr>hh_next := hh_next (hh d)\<rparr>)"
  define h2 where "h2 = upd_at h1 (hh_next (hh d)) (\<lambda>h. h\<lparr>hh_prev := hh_prev (hh d)\<rparr>)"
  define b' where "b' = (if hh_head b = Some a then b\<lparr>bkt_count := bkt_count b - 1, hh_head := hh_next (hh d)\<rparr>
      else b\<lparr>bkt_count := bkt_count b - 1\<rparr>)"
  define t' where "t' = t\<lparr>buckets := (buckets t)[i := b']\<rparr>"
  have f1: "chain_frame (heap s) h1" "chain_frame h1 h2"
    unfolding h1_def h2_def by (rule chain_frame_upd_at; simp)+
  have "hh_prev (hh d) \<noteq> Some a" using pd by blast
  then have h1a: "h1 a = Some d" using d by (simp add: h1_def upd_at_other)
  have hd1: "dom h1 = dom (heap s)" by (simp add: h1_def)
  define s1 where "s1 = s\<lparr>tbl := Some t'\<rparr>"
  have w1: "(case hh_prev (hh d) of None \<Rightarrow> Some s1
      | Some p \<Rightarrow> hh_write p (\<lambda>h. h\<lparr>hh_next := hh_next (hh d)\<rparr>) s1) = Some (s1\<lparr>heap := h1\<rparr>)"
    using pd by (subst hh_write_opt) (auto simp: s1_def h1_def)
  have w2: "(case hh_next (hh d) of None \<Rightarrow> Some (s1\<lparr>heap := h1\<rparr>)
      | Some n \<Rightarrow> hh_write n (\<lambda>h. h\<lparr>hh_prev := hh_prev (hh d)\<rparr>) (s1\<lparr>heap := h1\<rparr>)) =
      Some (s1\<lparr>heap := h2\<rparr>)"
    using nd hd1 by (subst hh_write_opt) (auto simp: h2_def)
  have "HASH_DEL_IN_BKT i a s = Option.bind
      (case hh_prev (hh d) of None \<Rightarrow> Some s1
       | Some p \<Rightarrow> hh_write p (\<lambda>h. h\<lparr>hh_next := hh_next (hh d)\<rparr>) s1)
      (\<lambda>s. Option.bind (heap s a) (\<lambda>d. case hh_next (hh d) of None \<Rightarrow> Some s
         | Some n \<Rightarrow> hh_write n (\<lambda>h. h\<lparr>hh_prev := hh_prev (hh d)\<rparr>) s))"
    using t ba d unfolding HASH_DEL_IN_BKT_def Let_def s1_def t'_def b'_def
    by (cases "hh_head b = Some a") simp_all
  also have "\<dots> = Some (s1\<lparr>heap := h2\<rparr>)" unfolding w1 using w2 h1a by simp
  finally have run: "HASH_DEL_IN_BKT i a s = Some (s\<lparr>heap := h2, tbl := Some t'\<rparr>)"
    by (simp add: s1_def ut_order)
  have nx2: "ptr hh_next h2 = (case hh_prev (hh d) of None \<Rightarrow> ptr hh_next (heap s)
      | Some p \<Rightarrow> (ptr hh_next (heap s))(p := hh_next (hh d)))"
    unfolding h2_def h1_def by (subst ptr_upd_at_same, simp, subst ptr_upd_at) (use pd in auto)
  have pv2: "ptr hh_prev h2 = (case hh_next (hh d) of None \<Rightarrow> ptr hh_prev (heap s)
      | Some p \<Rightarrow> (ptr hh_prev (heap s))(p := hh_prev (hh d)))"
  proof -
    have "ptr hh_prev h1 = ptr hh_prev (heap s)" unfolding h1_def by (rule ptr_upd_at_same) simp
    then show ?thesis unfolding h2_def by (subst ptr_upd_at) (use nd hd1 in \<open>auto split: option.splits\<close>)
  qed
  have hash: "hash_of h2 = hash_of (heap s)"
    using chain_frame_same(3) f1 by metis
  have new: "chain_ok h2 b' (cs @ ds)"
  proof -
    have "dlist (ptr hh_next h2) (ptr hh_prev h2) None (first_ptr (cs @ ds) None) (cs @ ds) None"
      using dlist_unlink(1) [OF dl dst] unfolding nx2 pv2 ptr_Some [of "heap s" a d, OF d] .
    moreover have "hh_head b' = first_ptr (cs @ ds) None"
      using dlist_first [OF dl] dst nx by (cases cs) (auto simp: b'_def)
    moreover have "bkt_count b' = length (cs @ ds)" using ci xs by (auto simp: b'_def chain_ok_def)
    ultimately show ?thesis using dst by (simp add: chain_ok_def)
  qed
  have old: "chain_ok h2 c ys" if "chain_ok (heap s) c ys" "set ys \<inter> set (bks ! i) = {}" for c ys
  proof -
    have "p \<notin> set ys" if "hh_prev (hh d) = Some p" for p using pd [OF that] xs \<open>set ys \<inter> _ = {}\<close> by auto
    moreover have "n \<notin> set ys" if "hh_next (hh d) = Some n" for n using nd [OF that] xs \<open>set ys \<inter> _ = {}\<close> by auto
    ultimately show ?thesis using that(1) unfolding chain_ok_def nx2 pv2 by (auto split: option.splits)
  qed
  have "bkts_ok h2 (M - {a}) (num_buckets t) ((buckets t)[i := b']) (bks[i := cs @ ds])"
    by (rule bkts_ok_drop [OF bks i i' xs hash new old])
  then have "tbl_ok h2 (M - {a}) t'"
    using pow M hd1 by (auto simp: tbl_ok_def t'_def h2_def)
  then show ?thesis
    using that [of t' h2] run chain_frame_trans [OF f1] by (simp add: t'_def)
qed


text \<open>Unlinking an element from the application-order list of a table with other elements.\<close>

definition del_heap :: "addr \<Rightarrow> 'e node \<Rightarrow> (addr \<Rightarrow> 'e node option) \<Rightarrow> addr \<Rightarrow> 'e node option" where
  "del_heap a d h = upd_at (upd_at h (el_prev (hh d)) (\<lambda>h. h\<lparr>el_next := el_next (hh d)\<rparr>))
     (el_next (hh d)) (\<lambda>h. h\<lparr>el_prev := el_prev (hh d)\<rparr>)"

definition del_table :: "addr list \<Rightarrow> addr list \<Rightarrow> UT_hash_table \<Rightarrow> UT_hash_table" where
  "del_table as bs t = (if bs = [] then t\<lparr>tail := last as\<rparr> else t)"

lemma del_links:
  assumes inv: "ut_inv kf s (as @ a # bs)" and d: "heap s a = Some d"
  shows "el_prev (hh d) = last_ptr None as" and "el_next (hh d) = first_ptr bs None"
    and "el_prev (hh d) = Some p \<Longrightarrow> p \<in> set as \<and> p \<noteq> a \<and> p \<in> dom (heap s)"
    and "el_next (hh d) = Some n \<Longrightarrow> n \<in> set bs \<and> n \<noteq> a \<and> n \<in> dom (heap s)"
proof -
  have dst: "distinct (as @ a # bs)" using inv by (rule ut_inv_distinct)
  have "dlist (ptr el_next (heap s)) (ptr el_prev (heap s)) None (head s) (as @ a # bs) None"
    using inv by (simp add: ut_inv_def)
  from dlist_unlink(2,3) [OF this dst]
  show pv: "el_prev (hh d) = last_ptr None as" and nx: "el_next (hh d) = first_ptr bs None"
    using d by (simp_all add: ptr_Some)
  show "el_prev (hh d) = Some p \<Longrightarrow> p \<in> set as \<and> p \<noteq> a \<and> p \<in> dom (heap s)"
    using last_ptr_in [of as p] pv dst ut_inv_dom [OF inv] by auto
  show "el_next (hh d) = Some n \<Longrightarrow> n \<in> set bs \<and> n \<noteq> a \<and> n \<in> dom (heap s)"
    using first_ptr_in [of bs n] nx dst ut_inv_dom [OF inv] by auto
qed

lemma del_heap_facts:
  assumes inv: "ut_inv kf s (as @ a # bs)" and d: "heap s a = Some d"
  shows "del_heap a d (heap s) a = Some d" and "dom (del_heap a d (heap s)) = dom (heap s)"
    and "map_option elt (del_heap a d (heap s) b) = map_option elt (heap s b)"
    and "keyed kf (del_heap a d (heap s)) b = keyed kf (heap s) b"
    and "hash_of (del_heap a d (heap s)) = hash_of (heap s)"
    and "ptr hh_next (del_heap a d (heap s)) = ptr hh_next (heap s)"
    and "ptr hh_prev (del_heap a d (heap s)) = ptr hh_prev (heap s)"
    and "dlist (ptr el_next (del_heap a d (heap s))) (ptr el_prev (del_heap a d (heap s))) None
           (first_ptr (as @ bs) None) (as @ bs) None"
proof -
  note l = del_links [OF inv d]
  have "el_prev (hh d) \<noteq> Some a" "el_next (hh d) \<noteq> Some a" using l(3) [of a] l(4) [of a] by auto
  then show "del_heap a d (heap s) a = Some d" using d by (simp add: del_heap_def upd_at_other)
  show "dom (del_heap a d (heap s)) = dom (heap s)"
    "map_option elt (del_heap a d (heap s) b) = map_option elt (heap s b)"
    by (simp_all add: del_heap_def)
  show "keyed kf (del_heap a d (heap s)) b = keyed kf (heap s) b"
    "hash_of (del_heap a d (heap s)) = hash_of (heap s)"
    "ptr hh_next (del_heap a d (heap s)) = ptr hh_next (heap s)"
    "ptr hh_prev (del_heap a d (heap s)) = ptr hh_prev (heap s)"
    by (simp_all add: del_heap_def keyed_upd_at hash_of_upd_at ptr_upd_at_same)
  have nx: "ptr el_next (del_heap a d (heap s)) = (case el_prev (hh d) of None \<Rightarrow> ptr el_next (heap s)
      | Some p \<Rightarrow> (ptr el_next (heap s))(p := el_next (hh d)))"
    unfolding del_heap_def by (subst ptr_upd_at_same, simp, subst ptr_upd_at) (use l(3) in auto)
  have pv0: "ptr el_prev (upd_at (heap s) (el_prev (hh d)) (\<lambda>h. h\<lparr>el_next := el_next (hh d)\<rparr>)) =
      ptr el_prev (heap s)"
    by (rule ptr_upd_at_same) simp
  have pv: "ptr el_prev (del_heap a d (heap s)) = (case el_next (hh d) of None \<Rightarrow> ptr el_prev (heap s)
      | Some p \<Rightarrow> (ptr el_prev (heap s))(p := el_prev (hh d)))"
    unfolding del_heap_def
    by (subst ptr_upd_at) (use l(4) pv0 in \<open>auto split: option.splits\<close>)
  show "dlist (ptr el_next (del_heap a d (heap s))) (ptr el_prev (del_heap a d (heap s))) None
           (first_ptr (as @ bs) None) (as @ bs) None"
    using inv dlist_unlink(1) [of "ptr el_next (heap s)" "ptr el_prev (heap s)" "head s" as a bs]
    unfolding nx pv ptr_Some [of "heap s" a d, OF d] by (simp add: ut_inv_def)
qed

lemma HASH_DELETE_run:
  assumes inv: "ut_inv kf s (as @ a # bs)" and ne: "as @ bs \<noteq> []" and d: "heap s a = Some d"
    and t: "tbl s = Some t" "tail t = last (as @ a # bs)"
  shows "HASH_DELETE a s = (
     let s3 = s\<lparr>heap := del_heap a d (heap s), head := first_ptr (as @ bs) None, tbl := Some (del_table as bs t)\<rparr>
     in do { s \<leftarrow> HASH_DEL_IN_BKT (HASH_TO_BKT (hashv (hh d)) (num_buckets t)) a s3;
             t \<leftarrow> head_tbl s;
             Some (s\<lparr>tbl := Some (t\<lparr>num_items := num_items t - 1\<rparr>)\<rparr>) })"
proof -
  note l = del_links [OF inv d]
  define T where "T = del_table as bs t"
  define h1 where "h1 = upd_at (heap s) (el_prev (hh d)) (\<lambda>h. h\<lparr>el_next := el_next (hh d)\<rparr>)"
  define s1 where "s1 = s\<lparr>tbl := Some T\<rparr>"
  define s2 where "s2 = s\<lparr>heap := h1, head := first_ptr (as @ bs) None, tbl := Some T\<rparr>"
  define s3 where "s3 = s\<lparr>heap := del_heap a d (heap s), head := first_ptr (as @ bs) None, tbl := Some T\<rparr>"
  have dst: "distinct (as @ a # bs)" using inv by (rule ut_inv_distinct)
  have hd: "head s = first_ptr (as @ a # bs) None" using inv by (rule ut_inv_head)
  have nn: "\<not> (el_prev (hh d) = None \<and> el_next (hh d) = None)"
    using ne l(1,2) by (auto simp: last_ptr_def first_ptr_def split: list.splits)
  have ht: "head_tbl s = Some t" using ut_inv_head_tbl [OF inv] t(1) by (metis option.inject Nil_is_append_conv list.distinct(1))
  have A: "(if a = tail t then (case el_prev (hh d) of None \<Rightarrow> None
      | Some p \<Rightarrow> Some (s\<lparr>tbl := Some (t\<lparr>tail := p\<rparr>)\<rparr>)) else Some s) = Some s1"
  proof (cases "bs = []")
    case True
    then show ?thesis using t(2) ne l(1) by (simp add: s1_def T_def del_table_def last_ptr_def)
  next
    case False
    then have "a \<noteq> tail t" using t(2) dst by auto
    moreover have "s = s1" using t(1) False by (cases s) (simp add: s1_def T_def del_table_def)
    ultimately show ?thesis by simp
  qed
  have B: "(case el_prev (hh d) of None \<Rightarrow> Some (s1\<lparr>head := el_next (hh d)\<rparr>)
      | Some p \<Rightarrow> hh_write p (\<lambda>h. h\<lparr>el_next := el_next (hh d)\<rparr>) s1) = Some s2"
  proof (cases "el_prev (hh d)")
    case None
    then have "as = []" using l(1) by (auto simp: last_ptr_def split: if_splits)
    then show ?thesis using None l(2)
      by (simp add: s1_def s2_def h1_def upd_at_def ut_order)
  next
    case (Some p)
    then have "as \<noteq> []" and p: "p \<in> dom (heap s1)" using l(1,3) by (auto simp: s1_def)
    then have "first_ptr (as @ bs) None = head s" using hd by (cases as) auto
    then show ?thesis using Some hh_write_eq [OF p]
      by (simp add: s1_def s2_def h1_def ut_order ut_head_same)
  qed
  have ha: "h1 a = Some d" using d l(3) [of a] unfolding h1_def by (subst upd_at_other) auto
  have C: "heap s2 a = Some d" by (simp add: s2_def ha)
  have D: "(case el_next (hh d) of None \<Rightarrow> Some s2
      | Some n \<Rightarrow> hh_write n (\<lambda>h. h\<lparr>el_prev := el_prev (hh d)\<rparr>) s2) = Some s3"
    by (subst hh_write_opt) (use l(4) in \<open>auto simp: s2_def s3_def h1_def del_heap_def ut_order\<close>)
  have E: "heap s3 a = Some d" using del_heap_facts(1) [OF inv d] by (simp add: s3_def)
  have F: "head_tbl s3 = Some T"
  proof -
    obtain h0 where h0: "first_ptr (as @ bs) None = Some h0" "h0 \<in> set (as @ bs)"
      using ne by (cases "as @ bs") auto
    then have "h0 \<in> dom (del_heap a d (heap s))"
      unfolding del_heap_facts(2) [OF inv d] using ut_inv_dom [OF inv] by auto
    then show ?thesis using h0(1) by (auto simp: head_tbl_def s3_def)
  qed
  have G: "num_buckets T = num_buckets t" by (simp add: T_def del_table_def)
  show ?thesis
    unfolding HASH_DELETE_def d ht Option.bind.simps nn A B C D E F G if_False
      T_def [symmetric] s3_def [symmetric] Let_def using nn by auto
qed


theorem HASH_DELETE_effect:
  assumes inv: "ut_inv kf s es" and a: "a \<in> set es"
  obtains s' where "HASH_DELETE a s = Some s'" and "ut_inv kf s' (remove1 a es)" and "ut_frame s s'"
proof -
  obtain as bs where es: "es = as @ a # bs" using a by (meson split_list)
  have inv': "ut_inv kf s (as @ a # bs)" using inv by (simp add: es)
  have dst: "distinct (as @ a # bs)" using inv' by (rule ut_inv_distinct)
  have r1: "remove1 a es = as @ bs" using dst by (simp add: es remove1_append)
  obtain d where d: "heap s a = Some d" using ut_inv_dom [OF inv] a by auto
  obtain t where t: "head_tbl s = Some t" "tbl s = Some t" "tail t = last es" "num_items t = length es"
    "tbl_ok (heap s) (set es) t"
    using ut_inv_head_tbl [OF inv] a by (metis empty_iff empty_set)
  show ?thesis
  proof (cases "as @ bs = []")
    case True
    then have "el_prev (hh d) = None" "el_next (hh d) = None" using del_links(1,2) [OF inv' d] by simp_all
    then have "HASH_DELETE a s = Some (s\<lparr>head := None, tbl := None\<rparr>)"
      using d t(1) by (simp add: HASH_DELETE_def)
    moreover have "ut_frame s (s\<lparr>head := None, tbl := None\<rparr>)"
      by (cases s) (simp add: ut_frame_def elt_read_def)
    ultimately show ?thesis using that r1 True by (simp add: ut_inv_def)
  next
    case False
    define h where "h = del_heap a d (heap s)"
    define T where "T = del_table as bs t"
    define s3 where "s3 = s\<lparr>heap := h, head := first_ptr (as @ bs) None, tbl := Some T\<rparr>"
    note hf = del_heap_facts [OF inv' d, folded h_def]
    have tl: "tail T = last (as @ bs)" "num_items T = length es" "num_buckets T = num_buckets t"
      using t(3,4) False by (auto simp: T_def del_table_def es)
    have ok: "tbl_ok h (set es) T"
      using t(5) by (rule tbl_ok_cong) (use hf ut_inv_dom [OF inv] in \<open>auto simp: T_def del_table_def\<close>)
    have i: "HASH_TO_BKT (hashv (hh d)) (num_buckets t) = HASH_TO_BKT (hash_of (heap s3) a) (num_buckets T)"
      using hf(1) tl(3) by (simp add: s3_def hash_of_def)
    obtain h' t' where e: "HASH_DEL_IN_BKT (HASH_TO_BKT (hashv (hh d)) (num_buckets t)) a s3 =
          Some (s3\<lparr>heap := h', tbl := Some t'\<rparr>)"
      "tbl_ok h' (set es - {a}) t'" "chain_frame (heap s3) h'" "num_items t' = num_items T" "tail t' = tail T"
      by (rule HASH_DEL_IN_BKT_effect [of s3 T "set es" a, OF _ _ a i]) (use ok in \<open>simp_all add: s3_def\<close>)
    have cf: "chain_frame h h'" using e(3) by (simp add: s3_def)
    have set: "set es - {a} = set (as @ bs)" using dst by (auto simp: es)
    define t2 where "t2 = t'\<lparr>num_items := num_items t' - 1\<rparr>"
    define s' where "s' = s\<lparr>heap := h', head := first_ptr (as @ bs) None, tbl := Some t2\<rparr>"
    obtain h0 where h0: "first_ptr (as @ bs) None = Some h0" "h0 \<in> dom h'"
      using e(2) False unfolding set tbl_ok_def by (cases "as @ bs") auto
    have "head_tbl (s3\<lparr>heap := h', tbl := Some t'\<rparr>) = Some t'"
      using h0 by (auto simp: head_tbl_def s3_def)
    then have "HASH_DELETE a s = Some s'"
      using HASH_DELETE_run [OF inv' False d t(2)] t(3) e(1)
      by (simp add: es s3_def h_def T_def s'_def t2_def Let_def ut_order)
    moreover have "ut_inv kf s' (as @ bs)"
      unfolding ut_inv_def
    proof (intro conjI)
      show "distinct (as @ bs)" using dst by simp
      show "\<forall>b\<in>set (as @ bs). keyed kf (heap s') b"
        using inv hf(4) keyed_chain_frame [OF cf] by (auto simp: s'_def ut_inv_def es)
      have "tbl_ok h' (set (as @ bs)) t2" using e(2) unfolding set t2_def tbl_ok_num_items .
      then show "if as @ bs = [] then head s' = None \<and> tbl s' = None
          else dlist (ptr el_next (heap s')) (ptr el_prev (heap s')) None (head s') (as @ bs) None \<and>
            (\<exists>t. tbl s' = Some t \<and> tail t = last (as @ bs) \<and> num_items t = length (as @ bs) \<and>
                 tbl_ok (heap s') (set (as @ bs)) t)"
        using False hf(8) chain_frame_same(1,2) [OF cf] e(4,5) tl by (simp add: s'_def t2_def es)
    qed
    moreover have "ut_frame s s'"
      using hf(3) chain_frame_same(5) [OF cf] by (simp add: ut_frame_def s'_def elt_read_def)
    ultimately show ?thesis using that r1 by simp
  qed
qed

end
