(* ===== verification/Uthash_Dict.thy ===== *)
theory Uthash_Dict
  imports Uthash_Correct
begin

text \<open>
  The hash table as the driver sees it: a dictionary of elements under string keys that
  remembers the order of insertion, whose elements are updated in place through the
  pointer a lookup returns. The interface is the locale \<open>ordered_dict\<close>; the table of
  uthash.h is shown to provide it. The rule for \<open>HASH_ITER\<close> is here too.
\<close>

section \<open>The interface\<close>

text \<open>
  \<open>inv s es\<close>: the dictionary in state \<open>s\<close> holds the elements at the addresses \<open>es\<close>, in
  order of insertion; \<open>contents a s\<close> is what the element at \<open>a\<close> holds; \<open>outside s\<close> is the
  rest of the state, which no operation touches.
\<close>

locale ordered_dict =
  fixes inv :: "'s \<Rightarrow> addr list \<Rightarrow> bool"
    and contents :: "addr \<Rightarrow> 's \<Rightarrow> 'e option"
    and outside :: "'s \<Rightarrow> 'm"
    and key :: "'e \<Rightarrow> char list"
    and lookup :: "char list \<Rightarrow> 's \<Rightarrow> addr option option"
    and size_of :: "'s \<Rightarrow> nat option"
    and insert_at :: "addr \<Rightarrow> 's \<Rightarrow> 's option"
    and delete_at :: "addr \<Rightarrow> 's \<Rightarrow> 's option"
    and write_at :: "addr \<Rightarrow> ('e \<Rightarrow> 'e) \<Rightarrow> 's \<Rightarrow> 's option"
  assumes inv_distinct: "inv s es \<Longrightarrow> distinct es"
    and inv_contents: "inv s es \<Longrightarrow> a \<in> set es \<Longrightarrow> \<exists>e. contents a s = Some e"
    and inv_keys: "inv s es \<Longrightarrow> a \<in> set es \<Longrightarrow> b \<in> set es \<Longrightarrow> contents a s = Some e \<Longrightarrow>
      contents b s = Some e' \<Longrightarrow> key e = key e' \<Longrightarrow> a = b"
    and lookup_law: "inv s es \<Longrightarrow>
      lookup buf s = Some (find (\<lambda>a. map_option key (contents a s) = Some (c_str buf)) es)"
    and size_law: "inv s es \<Longrightarrow> size_of s = Some (length es)"
    and insert_law: "inv s es \<Longrightarrow> a \<notin> set es \<Longrightarrow> contents a s = Some e \<Longrightarrow>
      (\<And>b. b \<in> set es \<Longrightarrow> map_option key (contents b s) \<noteq> Some (key e)) \<Longrightarrow>
      \<exists>s'. insert_at a s = Some s' \<and> inv s' (es @ [a]) \<and> (\<forall>b. contents b s' = contents b s) \<and>
        outside s' = outside s"
    and delete_law: "inv s es \<Longrightarrow> a \<in> set es \<Longrightarrow>
      \<exists>s'. delete_at a s = Some s' \<and> inv s' (remove1 a es) \<and> (\<forall>b. contents b s' = contents b s) \<and>
        outside s' = outside s"
    and write_law: "inv s es \<Longrightarrow> contents a s = Some e \<Longrightarrow> key (f e) = key e \<Longrightarrow>
      \<exists>s'. write_at a f s = Some s' \<and> inv s' es \<and> contents a s' = Some (f e) \<and>
        (\<forall>b. b \<noteq> a \<longrightarrow> contents b s' = contents b s) \<and> outside s' = outside s"
begin

lemma lookup_found:
  assumes "inv s es" and "a \<in> set es" and "contents a s = Some e" and "key e = c_str buf"
  shows "lookup buf s = Some (Some a)"
proof -
  have "find (\<lambda>a. map_option key (contents a s) = Some (c_str buf)) es = Some a"
  proof (rule find_unique)
    fix b assume "b \<in> set es" "map_option key (contents b s) = Some (c_str buf)"
    then show "b = a" using inv_keys [OF assms(1)] assms(2-4) by fastforce
  qed (use assms in auto)
  then show ?thesis using lookup_law [OF assms(1)] by simp
qed

lemma lookup_missing:
  assumes "inv s es" and "\<And>a e. a \<in> set es \<Longrightarrow> contents a s = Some e \<Longrightarrow> key e \<noteq> c_str buf"
  shows "lookup buf s = Some None"
  unfolding lookup_law [OF assms(1)] using assms(2) by (auto simp: find_eq_None)

lemma lookup_cases:
  assumes "inv s es"
  obtains (found) a e where "lookup buf s = Some (Some a)" and "a \<in> set es"
      and "contents a s = Some e" and "key e = c_str buf"
    | (missing) "lookup buf s = Some None"
      and "\<And>a e. a \<in> set es \<Longrightarrow> contents a s = Some e \<Longrightarrow> key e \<noteq> c_str buf"
proof (cases "find (\<lambda>a. map_option key (contents a s) = Some (c_str buf)) es")
  case None
  then have "key e \<noteq> c_str buf" if "a \<in> set es" "contents a s = Some e" for a e
    using that by (auto simp: find_eq_None)
  then show ?thesis using missing None lookup_law [OF assms] by simp
next
  case (Some a)
  from find_eq_Some [OF Some] obtain e where "a \<in> set es" "contents a s = Some e" "key e = c_str buf"
    by auto
  then show ?thesis using found Some lookup_law [OF assms] by simp
qed

text \<open>A lookup after an update of the dictionary.\<close>

lemma lookup_insert:
  assumes "inv s es" and "a \<notin> set es" and "contents a s = Some e"
    and "lookup buf s = Some None" and "key e = c_str buf"
  shows "\<exists>s'. insert_at a s = Some s' \<and> inv s' (es @ [a]) \<and> lookup buf s' = Some (Some a)"
proof -
  have "map_option key (contents b s) \<noteq> Some (key e)" if "b \<in> set es" for b
    using assms(4,5) that lookup_law [OF assms(1), of buf] by (simp add: find_eq_None)
  then obtain s' where s': "insert_at a s = Some s'" "inv s' (es @ [a])" "contents a s' = Some e"
    using insert_law [OF assms(1-3)] assms(3) by auto
  then show ?thesis using lookup_found [OF s'(2), of a e buf] assms(5) by auto
qed

lemma lookup_delete:
  assumes "inv s es" and "lookup buf s = Some (Some a)"
  shows "\<exists>s'. delete_at a s = Some s' \<and> inv s' (remove1 a es) \<and> lookup buf s' = Some None"
proof -
  have "find (\<lambda>a. map_option key (contents a s) = Some (c_str buf)) es = Some a"
    using assms(2) lookup_law [OF assms(1)] by simp
  from find_eq_Some [OF this] obtain z
    where a: "a \<in> set es" "contents a s = Some z" "key z = c_str buf" by auto
  obtain s' where s': "delete_at a s = Some s'" "inv s' (remove1 a es)" "\<forall>b. contents b s' = contents b s"
    using delete_law [OF assms(1) a(1)] by blast
  have "lookup buf s' = Some None"
    using s'(2)
  proof (rule lookup_missing)
    fix b e assume "b \<in> set (remove1 a es)" "contents b s' = Some e"
    then show "key e \<noteq> c_str buf"
      using inv_keys [OF assms(1) a(1) _ a(2), of b e] a(3) inv_distinct [OF assms(1)] s'(3) by auto
  qed
  then show ?thesis using s' by blast
qed

end

section \<open>Writing an element in place\<close>

lemma elt_write_eq:
  "heap s a = Some n \<Longrightarrow> elt_write a f s = Some (s\<lparr>heap := (heap s)(a \<mapsto> n\<lparr>elt := f (elt n)\<rparr>)\<rparr>)"
  by (simp add: elt_write_def)

lemma ptr_elt_write:
  "h a = Some n \<Longrightarrow> ptr g (h(a \<mapsto> n\<lparr>elt := e\<rparr>)) = ptr g h"
  by (auto simp: ptr_def fun_eq_iff)

lemma hash_of_elt_write:
  "h a = Some n \<Longrightarrow> hash_of (h(a \<mapsto> n\<lparr>elt := e\<rparr>)) = hash_of h"
  by (auto simp: hash_of_def fun_eq_iff)

lemma keyed_elt_write:
  assumes "h a = Some n" and "c_str (kf e) = c_str (kf (elt n))"
  shows "keyed kf (h(a \<mapsto> n\<lparr>elt := e\<rparr>)) b = keyed kf h b"
proof -
  have "c_strlen (kf e) = c_strlen (kf (elt n))" using assms(2) by (simp add: c_strlen_def)
  moreover from this have "HASH_JEN (kf e) (c_strlen (kf (elt n))) = HASH_JEN (kf (elt n)) (c_strlen (kf (elt n)))"
    using assms(2) by (intro HASH_JEN_prefix) (metis take_c_strlen)
  ultimately show ?thesis using assms(1) by (auto simp: keyed_def)
qed

lemma ut_inv_elt_write:
  assumes "ut_inv kf s es" and "heap s a = Some n" and "c_str (kf e) = c_str (kf (elt n))"
  shows "ut_inv kf (s\<lparr>heap := (heap s)(a \<mapsto> n\<lparr>elt := e\<rparr>)\<rparr>) es"
proof -
  have "tbl_ok ((heap s)(a \<mapsto> n\<lparr>elt := e\<rparr>)) M t \<longleftrightarrow> tbl_ok (heap s) M t" if "M \<subseteq> dom (heap s)" for M t
    using that assms(2) by (auto simp: tbl_ok_def bkts_ok_def chain_ok_def ptr_elt_write hash_of_elt_write)
  then show ?thesis
    using assms ut_inv_dom [OF assms(1)]
    by (simp add: ut_inv_def keyed_elt_write ptr_elt_write cong: if_cong)
qed

text \<open>Memory outside the table is free to change.\<close>

lemma tbl_ok_heap_cong:
  assumes "tbl_ok h M t" and "\<And>a. a \<in> M \<Longrightarrow> h' a = h a"
  shows "tbl_ok h' M t"
proof -
  have p: "ptr g h' a = ptr g h a" "hash_of h' a = hash_of h a" if "a \<in> M" for a g
    using assms(2) [OF that] by (simp_all add: ptr_def hash_of_def)
  obtain bks where bks: "bkts_ok h M (num_buckets t) (buckets t) bks"
    using assms(1) by (auto simp: tbl_ok_def)
  have idx: "{a \<in> M. HASH_TO_BKT (hash_of h' a) nb = i} = {a \<in> M. HASH_TO_BKT (hash_of h a) nb = i}" for nb i
    using p(2) by auto
  have chain: "chain_ok h' b xs" if "chain_ok h b xs" "set xs \<subseteq> M" for b xs
  proof -
    have "dlist (ptr hh_next h') (ptr hh_prev h') None (hh_head b) xs None =
        dlist (ptr hh_next h) (ptr hh_prev h) None (hh_head b) xs None"
      using that(2) p(1) by (intro dlist_cong) auto
    then show ?thesis using that(1) by (simp add: chain_ok_def)
  qed
  have "bkts_ok h' M (num_buckets t) (buckets t) bks"
    using bks unfolding bkts_ok_def idx by (auto intro!: chain)
  moreover have "M \<subseteq> dom h'" using assms by (auto simp: tbl_ok_def dom_def)
  ultimately show ?thesis using assms(1) by (auto simp: tbl_ok_def)
qed

lemma ut_inv_heap_cong:
  assumes "ut_inv kf s es" and "\<And>a. a \<in> set es \<Longrightarrow> h' a = heap s a"
  shows "ut_inv kf (s\<lparr>heap := h'\<rparr>) es"
proof -
  have "keyed kf h' a = keyed kf (heap s) a" if "a \<in> set es" for a
    using assms(2) [OF that] by (simp add: keyed_def)
  moreover have "dlist (ptr el_next h') (ptr el_prev h') None (head s) es None =
      dlist (ptr el_next (heap s)) (ptr el_prev (heap s)) None (head s) es None"
    using assms(2) by (intro dlist_cong) (simp_all add: ptr_def)
  ultimately show ?thesis
    using assms tbl_ok_heap_cong [of "heap s" "set es" _ h'] by (auto simp: ut_inv_def)
qed

section \<open>The table is a dictionary\<close>

definition dict_inv :: "('e \<Rightarrow> char list) \<Rightarrow> ('e, 'm) ut_scheme \<Rightarrow> addr list \<Rightarrow> bool" where
  "dict_inv kf s es \<longleftrightarrow> ut_inv kf s es \<and> distinct (map (key_at kf (heap s)) es)"

lemma dict_inv_heap_cong:
  assumes "dict_inv kf s es" and "\<And>a. a \<in> set es \<Longrightarrow> h' a = heap s a"
  shows "dict_inv kf (s\<lparr>heap := h'\<rparr>) es"
proof -
  have "map (key_at kf h') es = map (key_at kf (heap s)) es"
    using assms(2) by (auto simp: key_at_def)
  then have "distinct (map (key_at kf h') es)" using assms(1) by (simp only: dict_inv_def)
  then show ?thesis using assms by (simp add: dict_inv_def ut_inv_heap_cong)
qed

lemma dict_inv_Nil: "head s = None \<Longrightarrow> tbl s = None \<Longrightarrow> dict_inv kf s []"
  by (simp add: dict_inv_def ut_inv_def)

lemma key_at_read: "a \<in> dom (heap s) \<Longrightarrow>
    map_option (\<lambda>e. c_str (kf e)) (elt_read a s) = Some (key_at kf (heap s) a)"
  by (auto simp: elt_read_def key_at_def)

lemma key_at_cong: "elt_read a s' = elt_read a s \<Longrightarrow> key_at kf (heap s') a = key_at kf (heap s) a"
  by (auto simp: elt_read_def key_at_def split: option.splits)

interpretation ut: ordered_dict "dict_inv kf" elt_read ut.more "\<lambda>e. c_str (kf e)"
  "HASH_FIND_STR kf" HASH_COUNT "HASH_ADD_STR kf" HASH_DELETE elt_write for kf
proof unfold_locales
  fix s :: "('a, 'b) ut_scheme" and es assume inv: "dict_inv kf s es"
  then have u: "ut_inv kf s es" and k: "distinct (map (key_at kf (heap s)) es)"
    by (simp_all add: dict_inv_def)
  have dom: "set es \<subseteq> dom (heap s)" using u by (rule ut_inv_dom)
  show "distinct es" using u by (rule ut_inv_distinct)
  show "\<exists>e. elt_read a s = Some e" if "a \<in> set es" for a
    using that dom by (auto simp: elt_read_def)
  show "a = b" if "a \<in> set es" "b \<in> set es" "elt_read a s = Some e" "elt_read b s = Some e'"
    "c_str (kf e) = c_str (kf e')" for a b e e'
  proof -
    have "key_at kf (heap s) a = key_at kf (heap s) b"
      using that by (auto simp: elt_read_def key_at_def)
    then show "a = b" using that(1,2) k by (simp add: distinct_map inj_on_def)
  qed
  show "HASH_COUNT s = Some (length es)" using u by (rule HASH_COUNT_eq)
  have "find (\<lambda>a. key_at kf (heap s) a = c_str buf) es =
      find (\<lambda>a. map_option (\<lambda>e. c_str (kf e)) (elt_read a s) = Some (c_str buf)) es" for buf
    using dom by (intro find_cong) (auto simp: elt_read_def key_at_def)
  then show "HASH_FIND_STR kf buf s =
      Some (find (\<lambda>a. map_option (\<lambda>e. c_str (kf e)) (elt_read a s) = Some (c_str buf)) es)" for buf
    using HASH_FIND_STR_effect [OF u k, of buf] by simp
  show "\<exists>s'. HASH_ADD_STR kf a s = Some s' \<and> dict_inv kf s' (es @ [a]) \<and>
      (\<forall>b. elt_read b s' = elt_read b s) \<and> ut.more s' = ut.more s"
    if a: "a \<notin> set es" "elt_read a s = Some e"
      and new: "\<And>b. b \<in> set es \<Longrightarrow> map_option (\<lambda>e. c_str (kf e)) (elt_read b s) \<noteq> Some (c_str (kf e))" for a e
  proof -
    obtain n where n: "heap s a = Some n" using a(2) by (auto simp: elt_read_def)
    obtain s' where s': "HASH_ADD_STR kf a s = Some s'" "ut_inv kf s' (es @ [a])" "ut_frame s s'"
      using HASH_ADD_STR_effect [OF u n a(1)] by blast
    have rd: "elt_read b s' = elt_read b s" for b using s'(3) by (simp add: ut_frame_def)
    have "key_at kf (heap s) b \<noteq> key_at kf (heap s) a" if "b \<in> set es" for b
      using new [OF that] key_at_read [of b s kf] that dom a(2) n by (auto simp: key_at_def elt_read_def)
    then have "key_at kf (heap s) a \<notin> key_at kf (heap s) ` set es" by (metis imageE)
    then have "distinct (map (key_at kf (heap s')) (es @ [a]))"
      using k key_at_cong [OF rd] by (simp cong: map_cong)
    then show ?thesis using s' rd ut_frame_more [OF s'(3)] by (auto simp: dict_inv_def)
  qed
  show "\<exists>s'. HASH_DELETE a s = Some s' \<and> dict_inv kf s' (remove1 a es) \<and>
      (\<forall>b. elt_read b s' = elt_read b s) \<and> ut.more s' = ut.more s" if a: "a \<in> set es" for a
  proof -
    obtain s' where s': "HASH_DELETE a s = Some s'" "ut_inv kf s' (remove1 a es)" "ut_frame s s'"
      using HASH_DELETE_effect [OF u a] by blast
    have rd: "elt_read b s' = elt_read b s" for b using s'(3) by (simp add: ut_frame_def)
    have "distinct (map (key_at kf (heap s)) (remove1 a es))"
      using k set_remove1_subset [of a es] distinct_remove1 [of es a] unfolding distinct_map
      by (meson inj_on_subset)
    then have "distinct (map (key_at kf (heap s')) (remove1 a es))"
      using key_at_cong [OF rd] by (simp cong: map_cong)
    then show ?thesis using s' rd ut_frame_more [OF s'(3)] by (auto simp: dict_inv_def)
  qed
  show "\<exists>s'. elt_write a f s = Some s' \<and> dict_inv kf s' es \<and> elt_read a s' = Some (f e) \<and>
      (\<forall>b. b \<noteq> a \<longrightarrow> elt_read b s' = elt_read b s) \<and> ut.more s' = ut.more s"
    if a: "elt_read a s = Some e" "c_str (kf (f e)) = c_str (kf e)" for a e f
  proof -
    obtain n where n: "heap s a = Some n" "elt n = e" using a(1) by (auto simp: elt_read_def)
    let ?s = "s\<lparr>heap := (heap s)(a \<mapsto> n\<lparr>elt := f (elt n)\<rparr>)\<rparr>"
    have "ut_inv kf ?s es" using u n(1) by (rule ut_inv_elt_write) (simp add: n(2) a(2))
    moreover have "key_at kf (heap ?s) b = key_at kf (heap s) b" for b
      using n a(2) by (auto simp: key_at_def)
    ultimately show ?thesis using k elt_write_eq [OF n(1), of f] n
      by (auto simp: dict_inv_def elt_read_def cong: map_cong)
  qed
qed

section \<open>Traversal\<close>

text \<open>
  A loop over the table keeps \<open>P\<close> of the elements still to visit. What makes the traversal
  itself safe is that the elements to visit stay linked to each other; the element being
  visited may be deleted.
\<close>

lemma iter_loop_rule:
  assumes "P as acc s" and "\<And>as acc s. P as acc s \<Longrightarrow> npath (ptr el_next (heap s)) (first_ptr as None) as"
    and "\<And>as acc s. P as acc s \<Longrightarrow> set as \<subseteq> dom (heap s)"
    and "\<And>a as acc s. P (a # as) acc s \<Longrightarrow> \<exists>acc' s'. body a acc s = Some (acc', s') \<and> P as acc' s'"
  shows "\<exists>acc' s'. iter_loop body (first_ptr as None) (first_ptr (tl as) None) acc s = Some (acc', s') \<and>
     P [] acc' s'"
  using assms(1)
proof (induction as arbitrary: acc s)
  case Nil
  then show ?case by (simp add: iter_loop.simps)
next
  case (Cons a as)
  obtain acc1 s1 where b: "body a acc s = Some (acc1, s1)" "P as acc1 s1"
    using assms(4) [OF Cons.prems] by blast
  have "iter_next (first_ptr as None) s1 = Some (first_ptr (tl as) None)"
  proof (cases as)
    case (Cons c cs)
    obtain n where "heap s1 c = Some n" using assms(3) [OF b(2)] Cons by auto
    moreover from this have "el_next (hh n) = first_ptr cs None"
      using assms(2) [OF b(2)] Cons by (cases cs) (auto simp: ptr_Some)
    ultimately show ?thesis using Cons by (simp add: iter_next_def)
  qed (simp add: iter_next_def)
  then show ?case using b Cons.IH [OF b(2)] by (simp add: iter_loop.simps [of body "Some a"])
qed

theorem HASH_ITER_rule:
  assumes "P es acc s" and "head s = first_ptr es None"
    and "\<And>as acc s. P as acc s \<Longrightarrow> npath (ptr el_next (heap s)) (first_ptr as None) as"
    and "\<And>as acc s. P as acc s \<Longrightarrow> set as \<subseteq> dom (heap s)"
    and "\<And>a as acc s. P (a # as) acc s \<Longrightarrow> \<exists>acc' s'. body a acc s = Some (acc', s') \<and> P as acc' s'"
  shows "\<exists>acc' s'. HASH_ITER body acc s = Some (acc', s') \<and> P [] acc' s'"
proof -
  have "iter_next (head s) s = Some (first_ptr (tl es) None)"
  proof (cases es)
    case (Cons c cs)
    obtain n where "heap s c = Some n" using assms(4) [OF assms(1)] Cons by auto
    moreover from this have "el_next (hh n) = first_ptr cs None"
      using assms(3) [OF assms(1)] Cons by (cases cs) (auto simp: ptr_Some)
    ultimately show ?thesis using Cons assms(2) by (simp add: iter_next_def)
  qed (simp add: iter_next_def assms(2))
  then show ?thesis
    using iter_loop_rule [of P es acc s body] assms by (simp add: HASH_ITER_def)
qed

text \<open>A traversal whose body updates elements in place.\<close>

lemma HASH_ITER_dict:
  assumes inv: "dict_inv kf s es" and Q: "Q [] acc s"
    and body: "\<And>done a as acc s. es = done @ a # as \<Longrightarrow> dict_inv kf s es \<Longrightarrow> Q done acc s \<Longrightarrow>
      \<exists>acc' s'. body a acc s = Some (acc', s') \<and> dict_inv kf s' es \<and> Q (done @ [a]) acc' s'"
  shows "\<exists>acc' s'. HASH_ITER body acc s = Some (acc', s') \<and> dict_inv kf s' es \<and> Q es acc' s'"
proof -
  define P where "P as acc s \<longleftrightarrow> (\<exists>done. es = done @ as \<and> dict_inv kf s es \<and> Q done acc s)" for as acc s
  have "\<exists>acc' s'. HASH_ITER body acc s = Some (acc', s') \<and> P [] acc' s'"
  proof (rule HASH_ITER_rule)
    show "P es acc s" using inv Q by (auto simp: P_def)
    show "head s = first_ptr es None" using inv by (auto simp: dict_inv_def intro: ut_inv_head)
    fix as acc and s :: "('a, 'b) ut_scheme" assume "P as acc s"
    then obtain don where d: "es = don @ as" "ut_inv kf s es" by (auto simp: P_def dict_inv_def)
    show "set as \<subseteq> dom (heap s)" using ut_inv_dom [OF d(2)] d(1) by auto
    have "as \<noteq> [] \<Longrightarrow> dlist (ptr el_next (heap s)) (ptr el_prev (heap s)) (last_ptr None don)
        (first_ptr as None) as None"
      using d by (auto simp: ut_inv_def dlist_append)
    then show "npath (ptr el_next (heap s)) (first_ptr as None) as"
      by (cases "as = []") (auto intro: dlist_npath)
  next
    fix a as acc and s :: "('a, 'b) ut_scheme" assume "P (a # as) acc s"
    then obtain don where d: "es = don @ a # as" "dict_inv kf s es" "Q don acc s"
      by (auto simp: P_def)
    then obtain acc' s' where "body a acc s = Some (acc', s')" "dict_inv kf s' es" "Q (don @ [a]) acc' s'"
      using body [OF d] by blast
    then show "\<exists>acc' s'. body a acc s = Some (acc', s') \<and> P as acc' s'"
      using d(1) by (auto simp: P_def intro!: exI [of _ "don @ [a]"])
  qed
  then show ?thesis by (auto simp: P_def)
qed

end
