(* ===== verification/Edf_Dtask.thy ===== *)
theory Edf_Dtask
  imports Edf_Types Edf_Prio Uthash_Dict
begin

text \<open>
  The deadline tasks of edfomai-drv-data.c, over the hash table of uthash.h, and the
  handler \<open>deadline_missed\<close> of edfomai-drv.c that the priority recalculation calls. The
  state is the table \<open>dtask_map\<close> and the history of external calls. \<open>None\<close> means that the
  code goes wrong: it dereferences NULL or freed memory, frees a block that is not
  allocated, writes or reads outside an array, or divides by zero. A return code is an
  \<open>int\<close>. The \<open>DEBUG\<close> blocks print and count, and are left out.
\<close>

section \<open>State\<close>

record edf = "RT_DEADLINE_TASK ut" +
  calls :: history

text \<open>
  The external world of \<open>Edf_Types\<close>, with the contents of a freshly allocated \<open>RT_DTASK\<close>:
  a deadline task and its handle.
\<close>

record xeno = rtos +
  raw_node :: "history \<Rightarrow> RT_DEADLINE_TASK node"

definition emit :: "rt_call \<Rightarrow> 'm edf_scheme \<Rightarrow> 'm edf_scheme" where
  "emit c s = s\<lparr>calls := calls s @ [c]\<rparr>"

text \<open>The key field of the table, \<open>dtask.task_info.name\<close>.\<close>

definition dname :: "RT_DEADLINE_TASK \<Rightarrow> char list" where
  "dname d = ti_name (task_info d)"

section \<open>External calls\<close>

definition timer_read :: "'x xeno_scheme \<Rightarrow> 'm edf_scheme \<Rightarrow> u64 \<times> 'm edf_scheme" where
  "timer_read env s = (rt_timer_read env (calls s), emit Timer_read s)"

definition kmalloc :: "'x xeno_scheme \<Rightarrow> 'm edf_scheme \<Rightarrow> addr option \<times> 'm edf_scheme" where
  "kmalloc env s = (case rtdm_malloc env (calls s) of
       None \<Rightarrow> (None, emit Malloc_failed s)
     | Some a \<Rightarrow> (Some a, emit (Malloc a) s))"

text \<open>Freeing NULL does nothing; freeing a block makes an element in it inaccessible.\<close>

definition kfree :: "addr option \<Rightarrow> 'm edf_scheme \<Rightarrow> 'm edf_scheme option" where
  "kfree p s = (case p of None \<Rightarrow> Some s
     | Some a \<Rightarrow> if a \<in> set (live (calls s))
                 then Some (emit (Free a) (s\<lparr>heap := (heap s)(a := None)\<rparr>))
                 else None)"

text \<open>
  \<open>rt_task_inquire\<close> into a local structure, and into the element at \<open>a\<close>. The first result
  is the return code.
\<close>

definition inquire :: "'x xeno_scheme \<Rightarrow> RT_TASK \<Rightarrow> RT_TASK_INFO \<Rightarrow> 'm edf_scheme \<Rightarrow>
    int \<times> RT_TASK_INFO \<times> 'm edf_scheme" where
  "inquire env t info s = (case rt_task_inquire env (calls s) t of
       Inl err \<Rightarrow> (err, info, emit (Task_inquire t) s)
     | Inr i \<Rightarrow> (0, i, emit (Task_inquire t) s))"

definition inquire_into :: "'x xeno_scheme \<Rightarrow> addr \<Rightarrow> RT_TASK \<Rightarrow> 'm edf_scheme \<Rightarrow>
    (int \<times> 'm edf_scheme) option" where
  "inquire_into env a t s = do {
     d \<leftarrow> elt_read a s;
     let (ret, info, s) = inquire env t (task_info d) s;
     s \<leftarrow> elt_write a (\<lambda>d. d\<lparr>task_info := info\<rparr>) s;
     Some (ret, s) }"

text \<open>
  The four lines that open most operations: a block for an \<open>RT_TASK_INFO\<close>, and an inquiry
  about the task that fills it. The block is not checked for NULL before it is written.
\<close>

definition info_of :: "'x xeno_scheme \<Rightarrow> RT_TASK \<Rightarrow> 'm edf_scheme \<Rightarrow>
    (addr \<times> RT_TASK_INFO \<times> 'm edf_scheme) option" where
  "info_of env t s = do {
     let raw = raw_info env (calls s);
     let (p, s) = kmalloc env s;
     b \<leftarrow> p;
     let (_, info, s) = inquire env t raw s;
     Some (b, info, s) }"

section \<open>Missed deadlines\<close>

function copy_rname :: "char list \<Rightarrow> char list \<Rightarrow> nat \<Rightarrow> (char list \<times> nat) option" where
  "copy_rname nm msg i =
     (if i < TNAME_LEN
      then if i < length nm
           then if nm ! i \<noteq> CHR 0x00 then copy_rname nm (msg[i := nm ! i]) (i + 1)
                else Some (msg, i)
           else None
      else Some (msg, i))"
  by pat_completeness auto
termination by (relation "measure (\<lambda>(nm, msg, i). TNAME_LEN - i)") auto

declare copy_rname.simps [simp del]

definition deadline_missed :: "'x xeno_scheme \<Rightarrow> RT_TASK \<Rightarrow> 'm edf_scheme \<Rightarrow> 'm edf_scheme option" where
  "deadline_missed env t s = do {
     (msg, i) \<leftarrow> copy_rname (rname env t) (raw_message env (calls s)) 0;
     let j = (if i < TNAME_LEN then i else TNAME_LEN);
     if j < TNAME_LEN then Some (emit (Queue_write (msg[j := CHR 0x00])) s) else None }"

section \<open>Recalculation of the priorities\<close>

definition recalc_remain :: "'x xeno_scheme \<Rightarrow> u64 \<Rightarrow> addr \<Rightarrow> u64 \<times> u64 \<Rightarrow> 'm edf_scheme \<Rightarrow>
    ((u64 \<times> u64) \<times> 'm edf_scheme) option" where
  "recalc_remain env curr_time a acc s = do {
     d \<leftarrow> elt_read a s;
     if relative_deadline d \<noteq> DEADLINENOTSET \<and> state d = TaskState_val RUNNING then do {
       let r = (if curr_time < deadline d then deadline d - curr_time else 0);
       s \<leftarrow> elt_write a (\<lambda>d. d\<lparr>remain := r\<rparr>) s;
       let min_remain = (if r < fst acc then r else fst acc);
       let max_remain = (if snd acc < r then r else snd acc);
       t \<leftarrow> task d;
       let s = emit (Task_inquire t) s;
       (_, s) \<leftarrow> inquire_into env a t s;
       Some ((min_remain, max_remain), s) }
     else Some (acc, s) }"

definition recalc_prio :: "'x xeno_scheme \<Rightarrow> u64 \<Rightarrow> u64 \<Rightarrow> addr \<Rightarrow> unit \<Rightarrow> 'm edf_scheme \<Rightarrow>
    (unit \<times> 'm edf_scheme) option" where
  "recalc_prio env min_remain max_remain a acc s = do {
     d \<leftarrow> elt_read a s;
     if relative_deadline d \<noteq> DEADLINENOTSET \<and> status d = OK \<and> state d = TaskState_val RUNNING then do {
       t \<leftarrow> task d;
       s \<leftarrow> (if remain d = 0 then do {
               s \<leftarrow> elt_write a (\<lambda>d. d\<lparr>status := MISSED\<rparr>) s;
               deadline_missed env t s }
             else Some s);
       newprio \<leftarrow> calculate_prio env (remain d) min_remain max_remain;
       Some ((), if newprio \<noteq> ti_cprio (task_info d) then emit (Set_priority t newprio) s else s) }
     else Some ((), s) }"

definition rt_dtask_recalculateprio :: "'x xeno_scheme \<Rightarrow> 'm edf_scheme \<Rightarrow> (int \<times> 'm edf_scheme) option" where
  "rt_dtask_recalculateprio env s = do {
     count \<leftarrow> HASH_COUNT s;
     if count = 0 then Some (0, s)
     else do {
       let (curr_time, s) = timer_read env s;
       ((min_remain, max_remain), s) \<leftarrow> HASH_ITER (recalc_remain env curr_time) (0xffffffffffffffff, 0) s;
       (_, s) \<leftarrow> HASH_ITER (recalc_prio env min_remain max_remain) () s;
       Some (0, s) } }"

section \<open>Operations on one task\<close>

definition rt_dtask_goingwaitp :: "'x xeno_scheme \<Rightarrow> RT_TASK \<Rightarrow> 'm edf_scheme \<Rightarrow>
    (int \<times> 'm edf_scheme) option" where
  "rt_dtask_goingwaitp env t s = do {
     (b, info, s) \<leftarrow> info_of env t s;
     rtdtask \<leftarrow> HASH_FIND_STR dname (ti_name info) s;
     (ret, s) \<leftarrow> (case rtdtask of None \<Rightarrow> Some (-1, s)
        | Some a \<Rightarrow> do {
            s \<leftarrow> elt_write a (\<lambda>d. d\<lparr>state := EDFCommand_val GOING_WAITP\<rparr>) s;
            Some (0, s) });
     s \<leftarrow> kfree (Some b) s;
     Some (ret, s) }"

definition rt_dtask_stopwatchdog :: "'x xeno_scheme \<Rightarrow> RT_TASK \<Rightarrow> 'm edf_scheme \<Rightarrow>
    (int \<times> 'm edf_scheme) option" where
  "rt_dtask_stopwatchdog env t s = do {
     (b, info, s) \<leftarrow> info_of env t s;
     rtdtask \<leftarrow> HASH_FIND_STR dname (ti_name info) s;
     (ret, s) \<leftarrow> (case rtdtask of None \<Rightarrow> Some (-1, s)
        | Some a \<Rightarrow> do {
            d \<leftarrow> elt_read a s;
            t' \<leftarrow> task d;
            (_, s) \<leftarrow> rt_dtask_goingwaitp env t' s;
            Some (0, s) });
     s \<leftarrow> kfree (Some b) s;
     Some (ret, s) }"

definition rt_dtask_updateinfo :: "'x xeno_scheme \<Rightarrow> RT_TASK \<Rightarrow> 'm edf_scheme \<Rightarrow>
    (int \<times> 'm edf_scheme) option" where
  "rt_dtask_updateinfo env t s = do {
     (b, info, s) \<leftarrow> info_of env t s;
     rtdtask \<leftarrow> HASH_FIND_STR dname (ti_name info) s;
     (ret, s) \<leftarrow> (case rtdtask of None \<Rightarrow> Some (-1, s)
        | Some a \<Rightarrow> do {
            d \<leftarrow> elt_read a s;
            t' \<leftarrow> task d;
            inquire_into env a t' s });
     s \<leftarrow> kfree (Some b) s;
     Some (ret, s) }"

definition rt_dtask_resetdeadline :: "'x xeno_scheme \<Rightarrow> RT_TASK \<Rightarrow> 'm edf_scheme \<Rightarrow>
    (int \<times> 'm edf_scheme) option" where
  "rt_dtask_resetdeadline env t s = do {
     (b, info, s) \<leftarrow> info_of env t s;
     rtdtask \<leftarrow> HASH_FIND_STR dname (ti_name info) s;
     (ret, s) \<leftarrow> (case rtdtask of None \<Rightarrow> Some (-1, s)
        | Some a \<Rightarrow> do {
            let (now, s) = timer_read env s;
            s \<leftarrow> elt_write a (\<lambda>d. d\<lparr>deadline := now + relative_deadline d,
                                  remain := relative_deadline d,
                                  status := OK, state := TaskState_val RUNNING\<rparr>) s;
            (_, s) \<leftarrow> rt_dtask_recalculateprio env s;
            Some (0, s) });
     s \<leftarrow> kfree (Some b) s;
     Some (ret, s) }"

text \<open>The only operation that does not free its \<open>RT_TASK_INFO\<close>.\<close>

definition rt_dtask_setdeadline :: "'x xeno_scheme \<Rightarrow> RT_TASK \<Rightarrow> u64 \<Rightarrow> 'm edf_scheme \<Rightarrow>
    (int \<times> 'm edf_scheme) option" where
  "rt_dtask_setdeadline env t newdeadline s = do {
     (_, info, s) \<leftarrow> info_of env t s;
     rtdtask \<leftarrow> HASH_FIND_STR dname (ti_name info) s;
     case rtdtask of None \<Rightarrow> Some (-1, s)
     | Some a \<Rightarrow> do {
         s \<leftarrow> elt_write a (\<lambda>d. d\<lparr>relative_deadline := newdeadline\<rparr>) s;
         let (now, s) = timer_read env s;
         s \<leftarrow> elt_write a (\<lambda>d. d\<lparr>deadline := now + relative_deadline d,
                               remain := relative_deadline d,
                               status := OK, state := TaskState_val RUNNING\<rparr>) s;
         (_, s) \<leftarrow> rt_dtask_recalculateprio env s;
         Some (0, s) } }"

section \<open>Creation and deletion\<close>

text \<open>The macros \<open>init_dtask\<close> and \<open>clear_dtask\<close>, on the element at \<open>a\<close>.\<close>

definition init_dtask :: "'x xeno_scheme \<Rightarrow> addr \<Rightarrow> 'm edf_scheme \<Rightarrow> 'm edf_scheme option" where
  "init_dtask env a s = do {
     s \<leftarrow> elt_write a (\<lambda>d. d\<lparr>deadline := DEADLINENOTSET, remain := DEADLINENOTSET,
            relative_deadline := DEADLINENOTSET, status := OK, task := None,
            state := TaskState_val RUNNING\<rparr>) s;
     let (w, s) = kmalloc env s;
     elt_write a (\<lambda>d. d\<lparr>watchd := w\<rparr>) s }"

definition clear_dtask :: "addr \<Rightarrow> 'm edf_scheme \<Rightarrow> 'm edf_scheme option" where
  "clear_dtask a s = do {
     d \<leftarrow> elt_read a s;
     kfree (watchd d) s }"

definition alloc_dtask :: "'x xeno_scheme \<Rightarrow> 'm edf_scheme \<Rightarrow> (addr \<times> 'm edf_scheme) option" where
  "alloc_dtask env s = do {
     let raw = raw_node env (calls s);
     let (p, s) = kmalloc env s;
     a \<leftarrow> p;
     Some (a, s\<lparr>heap := (heap s)(a \<mapsto> raw)\<rparr>) }"

text \<open>The first half of the creation: the new element, up to the inquiry about its task.\<close>

definition create_node :: "'x xeno_scheme \<Rightarrow> RT_TASK \<Rightarrow> u64 \<Rightarrow> 'm edf_scheme \<Rightarrow>
    (addr \<times> 'm edf_scheme) option" where
  "create_node env t dl s = do {
     (a, s) \<leftarrow> alloc_dtask env s;
     s \<leftarrow> init_dtask env a s;
     s \<leftarrow> elt_write a (\<lambda>d. d\<lparr>task := Some t, relative_deadline := dl\<rparr>) s;
     let (now, s) = timer_read env s;
     s \<leftarrow> elt_write a (\<lambda>d. d\<lparr>deadline := now + relative_deadline d,
                           remain := relative_deadline d\<rparr>) s;
     (_, s) \<leftarrow> inquire_into env a t s;
     Some (a, s) }"

definition rt_dtask_create :: "'x xeno_scheme \<Rightarrow> RT_TASK \<Rightarrow> u64 \<Rightarrow> 'm edf_scheme \<Rightarrow>
    (int \<times> 'm edf_scheme) option" where
  "rt_dtask_create env t dl s = do {
     (a, s) \<leftarrow> create_node env t dl s;
     d \<leftarrow> elt_read a s;
     tmp \<leftarrow> HASH_FIND_STR dname (ti_name (task_info d)) s;
     (res, s) \<leftarrow> (case tmp of
          None \<Rightarrow> do { s \<leftarrow> HASH_ADD_STR dname a s; Some (0, s) }
        | Some _ \<Rightarrow> do { s \<leftarrow> kfree (Some a) s; Some (-1, s) });
     (_, s) \<leftarrow> rt_dtask_recalculateprio env s;
     Some (res, s) }"

definition rt_dtask_delete :: "'x xeno_scheme \<Rightarrow> RT_TASK \<Rightarrow> 'm edf_scheme \<Rightarrow>
    (int \<times> 'm edf_scheme) option" where
  "rt_dtask_delete env t s = do {
     (b, info, s) \<leftarrow> info_of env t s;
     rtdtask \<leftarrow> HASH_FIND_STR dname (ti_name info) s;
     (ret, s) \<leftarrow> (case rtdtask of None \<Rightarrow> Some (-1, s)
        | Some a \<Rightarrow> do {
            s \<leftarrow> HASH_DELETE a s;
            s \<leftarrow> clear_dtask a s;
            s \<leftarrow> kfree (Some a) s;
            Some (0, s) });
     s \<leftarrow> kfree (Some b) s;
     Some (ret, s) }"

text \<open>
  \<open>dtask_map = NULL\<close>: a table is reached through its first element only, so there is no
  table any more.
\<close>

definition rt_dtask_init :: "'m edf_scheme \<Rightarrow> int \<times> 'm edf_scheme" where
  "rt_dtask_init s = (0, s\<lparr>head := None, tbl := None\<rparr>)"

definition dispose_one :: "addr \<Rightarrow> unit \<Rightarrow> 'm edf_scheme \<Rightarrow> (unit \<times> 'm edf_scheme) option" where
  "dispose_one a acc s = do {
     s \<leftarrow> HASH_DELETE a s;
     s \<leftarrow> clear_dtask a s;
     s \<leftarrow> kfree (Some a) s;
     Some ((), s) }"

definition rt_dtask_dispose :: "'m edf_scheme \<Rightarrow> (int \<times> 'm edf_scheme) option" where
  "rt_dtask_dispose s = do {
     (_, s) \<leftarrow> HASH_ITER dispose_one () s;
     Some (0, s) }"

end
