(* ===== verification/Edf_Spec.thy ===== *)
theory Edf_Spec
  imports Edf_Dtask
begin

text \<open>
  What the operations of edfomai-drv-data.c promise, over a list of deadline tasks in order
  of creation instead of a hash table in memory. Every operation is a total function on
  the list and the history. The representation predicate \<open>rep\<close> connects the two levels.
\<close>

section \<open>The abstract state\<close>

type_synonym tasks = "(addr \<times> RT_DEADLINE_TASK) list"

definition upd :: "addr \<Rightarrow> (RT_DEADLINE_TASK \<Rightarrow> RT_DEADLINE_TASK) \<Rightarrow> tasks \<Rightarrow> tasks" where
  "upd a f ts = map (\<lambda>(b, d). (b, if b = a then f d else d)) ts"

definition drop_task :: "addr \<Rightarrow> tasks \<Rightarrow> tasks" where
  "drop_task a ts = filter (\<lambda>(b, d). b \<noteq> a) ts"

definition find_task :: "char list \<Rightarrow> tasks \<Rightarrow> addr option" where
  "find_task k ts = map_option fst (find (\<lambda>(a, d). c_str (dname d) = k) ts)"

section \<open>Ranking\<close>

text \<open>A task takes part in the recalculation when it is active, and is ranked if in time.\<close>

definition active :: "RT_DEADLINE_TASK \<Rightarrow> bool" where
  "active d \<longleftrightarrow> relative_deadline d \<noteq> DEADLINENOTSET \<and> state d = TaskState_val RUNNING"

definition ranked :: "RT_DEADLINE_TASK \<Rightarrow> bool" where
  "ranked d \<longleftrightarrow> active d \<and> status d = OK"

text \<open>The time left, and the answer to the inquiry, at history \<open>h\<close>.\<close>

definition remaining :: "u64 \<Rightarrow> RT_DEADLINE_TASK \<Rightarrow> u64" where
  "remaining now d = (if now < deadline d then deadline d - now else 0)"

definition info_at :: "'x rtos_scheme \<Rightarrow> history \<Rightarrow> RT_TASK \<Rightarrow> RT_TASK_INFO \<Rightarrow> RT_TASK_INFO" where
  "info_at env h t old = (case rt_task_inquire env h t of Inl _ \<Rightarrow> old | Inr i \<Rightarrow> i)"

definition refresh :: "'x rtos_scheme \<Rightarrow> u64 \<Rightarrow> history \<Rightarrow> RT_DEADLINE_TASK \<Rightarrow> RT_DEADLINE_TASK" where
  "refresh env now h d = d\<lparr>remain := remaining now d,
     task_info := info_at env (h @ [Task_inquire (the (task d))]) (the (task d)) (task_info d)\<rparr>"

fun refresh_all :: "'x rtos_scheme \<Rightarrow> u64 \<Rightarrow> history \<Rightarrow> tasks \<Rightarrow> tasks" where
  "refresh_all env now h [] = []"
| "refresh_all env now h ((a, d) # ts) =
     (if active d
      then (a, refresh env now h d) #
             refresh_all env now (h @ [Task_inquire (the (task d)), Task_inquire (the (task d))]) ts
      else (a, d) # refresh_all env now h ts)"

definition inquiries :: "tasks \<Rightarrow> history" where
  "inquiries ts = concat (map (\<lambda>(a, d). if active d then [Task_inquire (the (task d)), Task_inquire (the (task d))] else []) ts)"

text \<open>The least and the greatest time left of the active tasks.\<close>

definition least :: "tasks \<Rightarrow> u64" where
  "least ts = foldl (\<lambda>m (a, d). if active d then min m (remain d) else m) (-1) ts"

definition greatest :: "tasks \<Rightarrow> u64" where
  "greatest ts = foldl (\<lambda>m (a, d). if active d then max m (remain d) else m) 0 ts"

definition prio_of :: "'x klib_scheme \<Rightarrow> u64 \<Rightarrow> u64 \<Rightarrow> RT_DEADLINE_TASK \<Rightarrow> u32" where
  "prio_of env mn mx d = the (calculate_prio env (remain d) mn mx)"

definition settle :: "RT_DEADLINE_TASK \<Rightarrow> RT_DEADLINE_TASK" where
  "settle d = (if ranked d \<and> remain d = 0 then d\<lparr>status := MISSED\<rparr> else d)"

text \<open>The message about a missed deadline: the task's name, then what was on the stack.\<close>

definition notice :: "'x rtos_scheme \<Rightarrow> history \<Rightarrow> RT_TASK \<Rightarrow> char list" where
  "notice env h t = c_str (rname env t) @ CHR 0x00 # drop (Suc (c_strlen (rname env t))) (raw_message env h)"

definition rank_calls :: "'x rtos_scheme \<Rightarrow> u64 \<Rightarrow> u64 \<Rightarrow> history \<Rightarrow> RT_DEADLINE_TASK \<Rightarrow> history" where
  "rank_calls env mn mx h d =
     (if ranked d
      then (if remain d = 0 then [Queue_write (notice env h (the (task d)))] else []) @
           (if prio_of env mn mx d \<noteq> ti_cprio (task_info d)
            then [Set_priority (the (task d)) (prio_of env mn mx d)] else [])
      else [])"

fun rank_all :: "'x rtos_scheme \<Rightarrow> u64 \<Rightarrow> u64 \<Rightarrow> history \<Rightarrow> tasks \<Rightarrow> history" where
  "rank_all env mn mx h [] = h"
| "rank_all env mn mx h ((a, d) # ts) = rank_all env mn mx (h @ rank_calls env mn mx h d) ts"

definition recalc_spec :: "'x rtos_scheme \<Rightarrow> tasks \<times> history \<Rightarrow> tasks \<times> history" where
  "recalc_spec env = (\<lambda>(ts, h).
     if ts = [] then (ts, h)
     else let h1 = h @ [Timer_read];
              ts1 = refresh_all env (rt_timer_read env h) h1 ts
          in (map (\<lambda>(a, d). (a, settle d)) ts1,
              rank_all env (least ts1) (greatest ts1) (h1 @ inquiries ts) ts1))"

section \<open>Operations\<close>

text \<open>
  The block an operation allocates for its inquiry, the history after it, and the task of
  the table that has the name the inquiry returned.
\<close>

definition info_block :: "'x rtos_scheme \<Rightarrow> history \<Rightarrow> addr" where
  "info_block env h = the (rtdm_malloc env h)"

definition info_calls :: "'x rtos_scheme \<Rightarrow> RT_TASK \<Rightarrow> history \<Rightarrow> history" where
  "info_calls env t h = h @ [Malloc (info_block env h), Task_inquire t]"

definition locate :: "'x rtos_scheme \<Rightarrow> RT_TASK \<Rightarrow> tasks \<times> history \<Rightarrow> addr option" where
  "locate env t = (\<lambda>(ts, h). find_task
     (c_str (ti_name (info_at env (h @ [Malloc (info_block env h)]) t (raw_info env h)))) ts)"

definition arm :: "u64 \<Rightarrow> u64 \<Rightarrow> RT_DEADLINE_TASK \<Rightarrow> RT_DEADLINE_TASK" where
  "arm now dl d = d\<lparr>relative_deadline := dl, deadline := now + dl, remain := dl,
     status := OK, state := TaskState_val RUNNING\<rparr>"

definition set_waiting :: "RT_DEADLINE_TASK \<Rightarrow> RT_DEADLINE_TASK" where
  "set_waiting d = d\<lparr>state := EDFCommand_val GOING_WAITP\<rparr>"

text \<open>Closing an operation: the result, and the block of the inquiry freed.\<close>

definition close_with :: "addr \<Rightarrow> int \<Rightarrow> tasks \<times> history \<Rightarrow> int \<times> tasks \<times> history" where
  "close_with b r = (\<lambda>(ts, h). (r, ts, h @ [Free b]))"

definition goingwaitp_spec :: "'x rtos_scheme \<Rightarrow> RT_TASK \<Rightarrow> tasks \<times> history \<Rightarrow> int \<times> tasks \<times> history" where
  "goingwaitp_spec env t = (\<lambda>(ts, h).
     let b = info_block env h; h1 = info_calls env t h
     in case locate env t (ts, h) of
          None \<Rightarrow> close_with b (-1) (ts, h1)
        | Some a \<Rightarrow> close_with b 0 (upd a set_waiting ts, h1))"

definition stopwatchdog_spec :: "'x rtos_scheme \<Rightarrow> RT_TASK \<Rightarrow> tasks \<times> history \<Rightarrow> int \<times> tasks \<times> history" where
  "stopwatchdog_spec env t = (\<lambda>(ts, h).
     let b = info_block env h; h1 = info_calls env t h
     in case locate env t (ts, h) of
          None \<Rightarrow> close_with b (-1) (ts, h1)
        | Some a \<Rightarrow> close_with b 0 (snd (goingwaitp_spec env (the (task (the (map_of ts a)))) (ts, h1))))"

definition updateinfo_spec :: "'x rtos_scheme \<Rightarrow> RT_TASK \<Rightarrow> tasks \<times> history \<Rightarrow> int \<times> tasks \<times> history" where
  "updateinfo_spec env t = (\<lambda>(ts, h).
     let b = info_block env h; h1 = info_calls env t h
     in case locate env t (ts, h) of
          None \<Rightarrow> close_with b (-1) (ts, h1)
        | Some a \<Rightarrow>
            let t' = the (task (the (map_of ts a)))
            in close_with b (case rt_task_inquire env h1 t' of Inl err \<Rightarrow> err | Inr _ \<Rightarrow> 0)
                 (upd a (\<lambda>d. d\<lparr>task_info := info_at env h1 t' (task_info d)\<rparr>) ts, h1 @ [Task_inquire t']))"

definition resetdeadline_spec :: "'x rtos_scheme \<Rightarrow> RT_TASK \<Rightarrow> tasks \<times> history \<Rightarrow> int \<times> tasks \<times> history" where
  "resetdeadline_spec env t = (\<lambda>(ts, h).
     let b = info_block env h; h1 = info_calls env t h
     in case locate env t (ts, h) of
          None \<Rightarrow> close_with b (-1) (ts, h1)
        | Some a \<Rightarrow> close_with b 0 (recalc_spec env
            (upd a (\<lambda>d. arm (rt_timer_read env h1) (relative_deadline d) d) ts, h1 @ [Timer_read])))"

definition setdeadline_spec :: "'x rtos_scheme \<Rightarrow> RT_TASK \<Rightarrow> u64 \<Rightarrow> tasks \<times> history \<Rightarrow> int \<times> tasks \<times> history" where
  "setdeadline_spec env t dl = (\<lambda>(ts, h).
     let h1 = info_calls env t h
     in case locate env t (ts, h) of
          None \<Rightarrow> (-1, ts, h1)
        | Some a \<Rightarrow> (0, recalc_spec env (upd a (arm (rt_timer_read env h1) dl) ts, h1 @ [Timer_read])))"

text \<open>The element that creation builds, for the blocks and answers at history \<open>h\<close>.\<close>

definition create_calls :: "'x rtos_scheme \<Rightarrow> RT_TASK \<Rightarrow> history \<Rightarrow> history" where
  "create_calls env t h =
     (let h1 = h @ [Malloc (info_block env h)]
      in h1 @ [Malloc (info_block env h1), Timer_read, Task_inquire t])"

definition new_dtask :: "'x xeno_scheme \<Rightarrow> RT_TASK \<Rightarrow> u64 \<Rightarrow> history \<Rightarrow> RT_DEADLINE_TASK" where
  "new_dtask env t dl h =
     (let h1 = h @ [Malloc (info_block env h)]; w = info_block env h1; h2 = h1 @ [Malloc w];
          now = rt_timer_read env h2
      in (elt (raw_node env h))\<lparr>deadline := now + dl, remain := dl, relative_deadline := dl, status := OK,
            state := TaskState_val RUNNING, task := Some t, watchd := Some w,
            task_info := info_at env (h2 @ [Timer_read]) t (task_info (elt (raw_node env h)))\<rparr>)"

definition create_spec :: "'x xeno_scheme \<Rightarrow> RT_TASK \<Rightarrow> u64 \<Rightarrow> tasks \<times> history \<Rightarrow> int \<times> tasks \<times> history" where
  "create_spec env t dl = (\<lambda>(ts, h).
     let a = info_block env h; d = new_dtask env t dl h; h1 = create_calls env t h
     in case find_task (c_str (dname d)) ts of
          None \<Rightarrow> (0, recalc_spec env (ts @ [(a, d)], h1))
        | Some _ \<Rightarrow> (-1, recalc_spec env (ts, h1 @ [Free a])))"

definition release_calls :: "addr \<times> RT_DEADLINE_TASK \<Rightarrow> history" where
  "release_calls = (\<lambda>(a, d). (case watchd d of None \<Rightarrow> [] | Some w \<Rightarrow> [Free w]) @ [Free a])"

definition delete_spec :: "'x rtos_scheme \<Rightarrow> RT_TASK \<Rightarrow> tasks \<times> history \<Rightarrow> int \<times> tasks \<times> history" where
  "delete_spec env t = (\<lambda>(ts, h).
     let b = info_block env h; h1 = info_calls env t h
     in case locate env t (ts, h) of
          None \<Rightarrow> close_with b (-1) (ts, h1)
        | Some a \<Rightarrow> close_with b 0 (drop_task a ts, h1 @ release_calls (a, the (map_of ts a))))"

definition dispose_spec :: "tasks \<times> history \<Rightarrow> int \<times> tasks \<times> history" where
  "dispose_spec = (\<lambda>(ts, h). (0, [], h @ concat (map release_calls ts)))"

section \<open>What the external world promises\<close>

text \<open>
  The documented behaviour the operations rely on: the kernel library; an inquiry that
  succeeds returns the name the task was created with; memory does not run out, and a new
  block is none of those in use; the message buffer has its declared length.
\<close>

definition xeno_ok :: "'x xeno_scheme \<Rightarrow> bool" where
  "xeno_ok env \<longleftrightarrow> klib_ok env \<and>
     (\<forall>h t i. rt_task_inquire env h t = Inr i \<longrightarrow> c_str (ti_name i) = c_str (rname env t)) \<and>
     (\<forall>h. \<exists>a. rtdm_malloc env h = Some a \<and> a \<notin> set (live h)) \<and>
     (\<forall>h. length (raw_message env h) = TNAME_LEN)"

text \<open>A task whose name fits the driver's buffers.\<close>

definition rname_ok :: "'x rtos_scheme \<Rightarrow> RT_TASK \<Rightarrow> bool" where
  "rname_ok env t \<longleftrightarrow> c_terminated (rname env t) \<and> c_strlen (rname env t) < TNAME_LEN"

text \<open>A task the driver can register: in addition, an inquiry about it succeeds.\<close>

definition task_ready :: "'x rtos_scheme \<Rightarrow> RT_TASK \<Rightarrow> bool" where
  "task_ready env t \<longleftrightarrow> rname_ok env t \<and> (\<forall>h. \<exists>i. rt_task_inquire env h t = Inr i)"

section \<open>The invariant of the abstract state\<close>

definition dtask_ok :: "'x rtos_scheme \<Rightarrow> RT_DEADLINE_TASK \<Rightarrow> bool" where
  "dtask_ok env d \<longleftrightarrow>
     (case task d of None \<Rightarrow> False
      | Some t \<Rightarrow> rname_ok env t \<and> c_str (dname d) = c_str (rname env t)) \<and>
     watchd d \<noteq> None \<and> state d \<in> {TaskState_val RUNNING, EDFCommand_val GOING_WAITP}"

text \<open>The memory a table owns: each element and its watchdog.\<close>

definition blocks :: "tasks \<Rightarrow> addr list" where
  "blocks ts = concat (map (\<lambda>(a, d). [a, the (watchd d)]) ts)"

definition tasks_ok :: "'x rtos_scheme \<Rightarrow> tasks \<times> history \<Rightarrow> bool" where
  "tasks_ok env = (\<lambda>(ts, h). distinct (live h) \<and> distinct (blocks ts) \<and> set (blocks ts) \<subseteq> set (live h) \<and>
     distinct (map (c_str \<circ> dname \<circ> snd) ts) \<and> list_all (\<lambda>(a, d). dtask_ok env d) ts)"

section \<open>Representation\<close>

text \<open>
  The state \<open>s\<close> represents the tasks \<open>ts\<close> and the history \<open>h\<close>; \<open>m\<close> is what a state that
  extends this one adds to it, which no operation touches.
\<close>

definition rep :: "'m edf_scheme \<Rightarrow> tasks \<times> history \<Rightarrow> 'm \<Rightarrow> bool" where
  "rep s = (\<lambda>(ts, h) m. dict_inv dname s (map fst ts) \<and>
     (\<forall>(a, d)\<in>set ts. elt_read a s = Some d) \<and> calls s = h \<and> edf.more s = m)"

end
