(* ===== verification/Edf_Spec_Inv.thy ===== *)
theory Edf_Spec_Inv
  imports Edf_Spec
begin

text \<open>
  The abstract operations keep the invariant: names, task descriptors and blocks stay
  paired and distinct, every block of the table stays allocated, and nothing but the
  blocks the operations name is allocated or freed.
\<close>

section \<open>Allocated blocks\<close>

lemma live_from_append: "live_from bs (h @ h') = live_from (live_from bs h) h'"
  by (induction bs h rule: live_from.induct) auto

lemma live_append [simp]: "live (h @ h') = live_from (live h) h'"
  by (simp add: live_def live_from_append)

fun quiet :: "rt_call \<Rightarrow> bool" where
  "quiet (Malloc a) = False"
| "quiet (Free a) = False"
| "quiet _ = True"

lemma live_quiet: "list_all quiet h \<Longrightarrow> live_from bs h = bs"
  by (induction bs h rule: live_from.induct) auto

lemma quiet_inquiries: "list_all quiet (inquiries ts)"
  by (auto simp: inquiries_def list_all_iff split: if_splits)

lemma quiet_rank_calls: "list_all quiet (rank_calls env mn mx h d)"
  by (simp add: rank_calls_def)

lemma rank_all_quiet: "\<exists>cs. rank_all env mn mx h ts = h @ cs \<and> list_all quiet cs"
proof (induction ts arbitrary: h)
  case (Cons ad ts)
  obtain cs where "rank_all env mn mx (h @ rank_calls env mn mx h (snd ad)) ts =
      (h @ rank_calls env mn mx h (snd ad)) @ cs" "list_all quiet cs"
    using Cons.IH by blast
  then show ?case
    using quiet_rank_calls [of env mn mx h "snd ad"]
    by (cases ad) (auto intro!: exI [of _ "rank_calls env mn mx h (snd ad) @ cs"])
qed simp

lemma recalc_spec_calls: "\<exists>cs. snd (recalc_spec env (ts, h)) = h @ cs \<and> list_all quiet cs"
proof (cases "ts = []")
  case False
  define h1 where "h1 = (h @ [Timer_read]) @ inquiries ts"
  define ts1 where "ts1 = refresh_all env (rt_timer_read env h) (h @ [Timer_read]) ts"
  obtain cs where "rank_all env (least ts1) (greatest ts1) h1 ts1 = h1 @ cs" "list_all quiet cs"
    using rank_all_quiet by blast
  then show ?thesis using False quiet_inquiries [of ts]
    by (auto simp: recalc_spec_def Let_def h1_def ts1_def intro!: exI [of _ "Timer_read # inquiries ts @ cs"])
qed (simp add: recalc_spec_def)

lemma recalc_spec_live [simp]: "live (snd (recalc_spec env (ts, h))) = live h"
  using recalc_spec_calls [of env ts h] by (auto simp: live_quiet)

section \<open>The part of the tasks that most operations keep\<close>

definition core :: "tasks \<Rightarrow> (addr \<times> RT_TASK option \<times> addr option \<times> char list) list" where
  "core ts = map (\<lambda>(a, d). (a, task d, watchd d, c_str (dname d))) ts"

definition states_ok :: "tasks \<Rightarrow> bool" where
  "states_ok ts \<longleftrightarrow> list_all (\<lambda>(a, d). state d \<in> {TaskState_val RUNNING, EDFCommand_val GOING_WAITP}) ts"

lemma core_simps [simp]:
  "core [] = []" "core ((a, d) # ts) = (a, task d, watchd d, c_str (dname d)) # core ts"
  "core (ts @ us) = core ts @ core us"
  by (simp_all add: core_def)

lemma blocks_simps [simp]:
  "blocks [] = []" "blocks ((a, d) # ts) = a # the (watchd d) # blocks ts"
  "blocks (ts @ us) = blocks ts @ blocks us"
  by (simp_all add: blocks_def)

lemma core_fst: "map fst (core ts) = map fst ts"
  by (simp add: core_def case_prod_beta)

lemma tasks_ok_iff_core:
  "tasks_ok env (ts, h) \<longleftrightarrow> distinct (live h) \<and> states_ok ts \<and>
     (let c = core ts; bs = concat (map (\<lambda>(a, t, w, n). [a, the w]) c) in
       distinct bs \<and> set bs \<subseteq> set (live h) \<and> distinct (map (\<lambda>(a, t, w, n). n) c) \<and>
       list_all (\<lambda>(a, t, w, n). w \<noteq> None \<and>
         (case t of None \<Rightarrow> False | Some t \<Rightarrow> rname_ok env t \<and> n = c_str (rname env t))) c)"
proof -
  have "blocks ts = concat (map (\<lambda>(a, t, w, n). [a, the w]) (core ts))"
    by (induction ts) auto
  moreover have "map (c_str \<circ> dname \<circ> snd) ts = map (\<lambda>(a, t, w, n). n) (core ts)"
    by (simp add: core_def case_prod_beta comp_def)
  moreover have "list_all (\<lambda>(a, d). dtask_ok env d) ts \<longleftrightarrow> states_ok ts \<and>
      list_all (\<lambda>(a, t, w, n). w \<noteq> None \<and>
         (case t of None \<Rightarrow> False | Some t \<Rightarrow> rname_ok env t \<and> n = c_str (rname env t))) (core ts)"
    by (induction ts) (auto simp: dtask_ok_def states_ok_def split: option.splits)
  ultimately show ?thesis unfolding tasks_ok_def Let_def by auto
qed

lemma tasks_ok_cong:
  assumes "tasks_ok env (ts, h)" and "core ts' = core ts" and "states_ok ts'" and "live h' = live h"
  shows "tasks_ok env (ts', h')"
  using assms unfolding tasks_ok_iff_core by simp

lemma tasks_ok_states: "tasks_ok env (ts, h) \<Longrightarrow> states_ok ts"
  by (simp add: tasks_ok_iff_core)

lemma tasks_ok_member:
  assumes "tasks_ok env (ts, h)" and "(a, d) \<in> set ts"
  obtains t w where "task d = Some t" and "watchd d = Some w" and "rname_ok env t"
    and "c_str (dname d) = c_str (rname env t)" and "a \<in> set (live h)" and "w \<in> set (live h)"
proof -
  have "dtask_ok env d" using assms by (auto simp: tasks_ok_def list_all_iff)
  moreover have "set [a, the (watchd d)] \<subseteq> set (live h)"
    using assms by (auto simp: tasks_ok_def blocks_def)
  ultimately show ?thesis using that by (auto simp: dtask_ok_def split: option.splits)
qed

lemma fst_in_blocks: "fst ` set ts \<subseteq> set (blocks ts)"
  by (induction ts) auto

lemma distinct_blocks_fst: "distinct (blocks ts) \<Longrightarrow> distinct (map fst ts)"
  using fst_in_blocks by (induction ts) fastforce+

lemma tasks_ok_distinct: "tasks_ok env (ts, h) \<Longrightarrow> distinct (map fst ts)"
  by (simp add: tasks_ok_def distinct_blocks_fst)

section \<open>Updates and lookups\<close>

lemma upd_fst [simp]: "map fst (upd a f ts) = map fst ts"
  by (simp add: upd_def case_prod_beta comp_def)

lemma upd_split: "distinct (map fst (xs @ (a, d) # ys)) \<Longrightarrow>
    upd a f (xs @ (a, d) # ys) = xs @ (a, f d) # ys"
  by (force simp: upd_def intro!: map_idI)

lemma upd_member: "(b, e) \<in> set (upd a f ts) \<longleftrightarrow> (\<exists>d. (b, d) \<in> set ts \<and> e = (if b = a then f d else d))"
  by (induction ts) (auto simp: upd_def)

lemma core_upd:
  assumes "\<And>d. (a, d) \<in> set ts \<Longrightarrow> task (f d) = task d \<and> watchd (f d) = watchd d \<and>
     c_str (dname (f d)) = c_str (dname d)"
  shows "core (upd a f ts) = core ts"
  using assms by (induction ts) (auto simp: upd_def)

lemma states_ok_upd:
  assumes "states_ok ts" and "\<And>d. (a, d) \<in> set ts \<Longrightarrow> state d \<in> {TaskState_val RUNNING, EDFCommand_val GOING_WAITP} \<Longrightarrow>
     state (f d) \<in> {TaskState_val RUNNING, EDFCommand_val GOING_WAITP}"
  shows "states_ok (upd a f ts)"
  using assms unfolding states_ok_def upd_def list_all_iff by fastforce

lemma find_task_Some: "find_task k ts = Some a \<Longrightarrow> \<exists>d. (a, d) \<in> set ts \<and> c_str (dname d) = k"
  by (auto simp: find_task_def dest: find_eq_Some)

lemma find_task_None: "find_task k ts = None \<longleftrightarrow> (\<forall>(a, d)\<in>set ts. c_str (dname d) \<noteq> k)"
  by (auto simp: find_task_def find_eq_None)

lemma find_task_eq:
  assumes "tasks_ok env (ts, h)" and "(a, d) \<in> set ts"
  shows "find_task (c_str (dname d)) ts = Some a"
proof -
  have "distinct (map (c_str \<circ> dname \<circ> snd) ts)" using assms(1) by (simp add: tasks_ok_def)
  then have "find (\<lambda>(b, d'). c_str (dname d') = c_str (dname d)) ts = Some (a, d)"
    using assms(2) by (intro find_unique) (fastforce simp: distinct_map inj_on_def)+
  then show ?thesis by (simp add: find_task_def)
qed

lemma find_task_core: "core ts' = core ts \<Longrightarrow> find_task k ts' = find_task k ts"
proof -
  have "find_task k ts = map_option fst (find (\<lambda>(a, t, w, n). n = k) (core ts))" for ts
    by (induction ts) (auto simp: find_task_def)
  then show "core ts' = core ts \<Longrightarrow> find_task k ts' = find_task k ts" by simp
qed

section \<open>Recalculation\<close>

lemma xeno_ok_name: "xeno_ok env \<Longrightarrow> rt_task_inquire env h t = Inr i \<Longrightarrow> c_str (ti_name i) = c_str (rname env t)"
  by (simp add: xeno_ok_def)

lemma xeno_ok_malloc:
  assumes "xeno_ok env"
  obtains a where "rtdm_malloc env h = Some a" and "info_block env h = a" and "a \<notin> set (live h)"
  using assms unfolding xeno_ok_def info_block_def by fastforce

lemma info_at_name:
  assumes "xeno_ok env" and "c_str (ti_name old) = c_str (rname env t)"
  shows "c_str (ti_name (info_at env h t old)) = c_str (rname env t)"
  using assms xeno_ok_name [OF assms(1)] by (auto simp: info_at_def split: sum.splits)

lemma refresh_core:
  assumes "xeno_ok env" and "dtask_ok env d"
  shows "task (refresh env now h d) = task d" "watchd (refresh env now h d) = watchd d"
    "c_str (dname (refresh env now h d)) = c_str (dname d)" "state (refresh env now h d) = state d"
  using assms by (auto simp: refresh_def dtask_ok_def dname_def info_at_name split: option.splits)

lemma core_refresh_all:
  assumes "xeno_ok env" and "list_all (\<lambda>(a, d). dtask_ok env d) ts"
  shows "core (refresh_all env now h ts) = core ts"
  using assms by (induction env now h ts rule: refresh_all.induct) (auto simp: refresh_core)

lemma states_ok_refresh_all: "states_ok ts \<Longrightarrow> states_ok (refresh_all env now h ts)"
  by (induction env now h ts rule: refresh_all.induct) (auto simp: states_ok_def refresh_def)

lemma core_settle: "core (map (\<lambda>(a, d). (a, settle d)) ts) = core ts"
  by (induction ts) (auto simp: settle_def dname_def)

lemma settle_state [simp]: "state (settle d) = state d"
  by (simp add: settle_def)

lemma states_ok_settle: "states_ok ts \<Longrightarrow> states_ok (map (\<lambda>(a, d). (a, settle d)) ts)"
  by (induction ts) (auto simp: states_ok_def)

lemma recalc_core:
  assumes "xeno_ok env" and "tasks_ok env (ts, h)"
  shows "core (fst (recalc_spec env (ts, h))) = core ts"
  using assms by (simp add: recalc_spec_def Let_def core_settle core_refresh_all tasks_ok_def)

lemma recalc_ok:
  assumes "xeno_ok env" and "tasks_ok env (ts, h)"
  shows "tasks_ok env (recalc_spec env (ts, h))"
proof -
  have "states_ok (fst (recalc_spec env (ts, h)))"
    using tasks_ok_states [OF assms(2)]
    by (auto simp: recalc_spec_def Let_def states_ok_settle states_ok_refresh_all)
  then show ?thesis
    using tasks_ok_cong [OF assms(2) recalc_core [OF assms] _ recalc_spec_live [of env ts h]]
    by (cases "recalc_spec env (ts, h)") simp
qed

end
