(* ===== verification/Edf_Rep.thy ===== *)
theory Edf_Rep
  imports Edf_Spec_Inv
begin

text \<open>
  How each primitive step of the code moves the represented state: external calls, reads
  and writes of elements, lookups, insertions and deletions of the table, and the memory
  of elements. The dictionary interface carries the table steps.
\<close>

section \<open>Reading the representation\<close>

lemma repD:
  assumes "rep s (ts, h) m"
  shows "dict_inv dname s (map fst ts)" and "(a, d) \<in> set ts \<Longrightarrow> elt_read a s = Some d"
    and "calls s = h" and "edf.more s = m"
  using assms by (auto simp: rep_def)

lemma repI:
  assumes "dict_inv dname s (map fst ts)" and "\<And>a d. (a, d) \<in> set ts \<Longrightarrow> elt_read a s = Some d"
    and "calls s = h" and "edf.more s = m"
  shows "rep s (ts, h) m"
  using assms by (auto simp: rep_def)

lemma edf_outside: "ut.more s' = ut.more s \<longleftrightarrow> calls s' = calls s \<and> edf.more s' = edf.more s"
  by (cases s; cases s') auto

lemma rep_count: "rep s (ts, h) m \<Longrightarrow> HASH_COUNT s = Some (length ts)"
  using ut.size_law [OF repD(1)] by (metis length_map)

lemma find_map_fst: "(\<forall>(a, d)\<in>set ts. g a = Some d) \<Longrightarrow>
    find (\<lambda>a. map_option f (g a) = Some k) (map fst ts) = map_option fst (find (\<lambda>(a, d). f d = k) ts)"
  by (induction ts) auto

lemma rep_find:
  assumes "rep s (ts, h) m"
  shows "HASH_FIND_STR dname buf s = Some (find_task (c_str buf) ts)"
proof -
  have "find (\<lambda>a. map_option (\<lambda>e. c_str (dname e)) (elt_read a s) = Some k) (map fst ts) =
      map_option fst (find (\<lambda>(a, d). c_str (dname d) = k) ts)" for k
    using repD(2) [OF assms] by (intro find_map_fst) auto
  then show ?thesis using ut.lookup_law [OF repD(1) [OF assms]] by (simp add: find_task_def)
qed

section \<open>External calls\<close>

lemma elt_read_emit [simp]: "elt_read a (emit c s) = elt_read a s"
  by (simp add: emit_def elt_read_def)

lemma calls_emit [simp]: "calls (emit c s) = calls s @ [c]"
  by (simp add: emit_def)

lemma heap_emit [simp]: "heap (emit c s) = heap s"
  by (simp add: emit_def)

lemma more_emit [simp]: "edf.more (emit c s) = edf.more s"
  by (simp add: emit_def)

lemma dict_inv_emit [simp]: "dict_inv kf (emit c s) es = dict_inv kf s es"
  by (simp add: dict_inv_def ut_inv_def emit_def)

lemma rep_emit: "rep s (ts, h) m \<Longrightarrow> rep (emit c s) (ts, h @ [c]) m"
  by (simp add: rep_def)

lemma rep_timer: "rep s (ts, h) m \<Longrightarrow>
    timer_read env s = (rt_timer_read env h, emit Timer_read s) \<and> rep (emit Timer_read s) (ts, h @ [Timer_read]) m"
  using rep_emit [of s ts h m] by (simp add: timer_read_def repD(3))

lemma kmalloc_eq: "rtdm_malloc env (calls s) = Some a \<Longrightarrow> kmalloc env s = (Some a, emit (Malloc a) s)"
  by (simp add: kmalloc_def)

lemma inquire_eq: "\<exists>r. inquire env t old s = (r, info_at env (calls s) t old, emit (Task_inquire t) s)"
  by (auto simp: inquire_def info_at_def split: sum.splits)

lemma inquire_ret: "fst (inquire env t old s) =
    (case rt_task_inquire env (calls s) t of Inl err \<Rightarrow> err | Inr _ \<Rightarrow> 0)"
  by (simp add: inquire_def split: sum.splits)

text \<open>The four lines that open an operation.\<close>

lemma rep_info_of:
  assumes "xeno_ok env" and "rep s (ts, h) m"
  shows "\<exists>info s'. info_of env t s = Some (info_block env h, info, s') \<and>
    rep s' (ts, info_calls env t h) m \<and>
    HASH_FIND_STR dname (ti_name info) s' = Some (locate env t (ts, h)) \<and>
    live (info_calls env t h) = info_block env h # live h \<and> info_block env h \<notin> set (live h)"
proof -
  obtain b where b: "rtdm_malloc env h = Some b" "info_block env h = b" "b \<notin> set (live h)"
    using xeno_ok_malloc [OF assms(1)] by blast
  define info where "info = info_at env (h @ [Malloc b]) t (raw_info env h)"
  let ?s = "emit (Task_inquire t) (emit (Malloc b) s)"
  have "info_of env t s = Some (b, info, ?s)"
    using b(1) inquire_eq [of env t "raw_info env h" "emit (Malloc b) s"] repD(3) [OF assms(2)]
    by (auto simp: info_of_def kmalloc_eq info_def)
  moreover have r: "rep ?s (ts, info_calls env t h) m"
    using rep_emit [OF rep_emit [OF assms(2)], of "Task_inquire t" "Malloc b"] by (simp add: info_calls_def b(2))
  moreover have "HASH_FIND_STR dname (ti_name info) ?s = Some (locate env t (ts, h))"
    using rep_find [OF r] by (simp add: locate_def info_def b(2))
  ultimately show ?thesis using b(2,3) by (auto simp: info_calls_def)
qed

section \<open>Elements of the table\<close>

lemma rep_write:
  assumes "rep s (ts, h) m" and "(a, d) \<in> set ts" and "c_str (dname (f d)) = c_str (dname d)"
  shows "\<exists>s'. elt_write a f s = Some s' \<and> rep s' (upd a f ts, h) m"
proof -
  obtain s' where s': "elt_write a f s = Some s'" "dict_inv dname s' (map fst ts)"
    "elt_read a s' = Some (f d)" "\<And>b. b \<noteq> a \<Longrightarrow> elt_read b s' = elt_read b s" "ut.more s' = ut.more s"
    using ut.write_law [OF repD(1) [OF assms(1)] repD(2) [OF assms(1,2)], of f] assms(3) by blast
  have "elt_read b s' = Some e" if mem: "(b, e) \<in> set (upd a f ts)" for b e
  proof -
    obtain d' where d': "(b, d') \<in> set ts" "e = (if b = a then f d' else d')"
      using mem unfolding upd_member by blast
    then show ?thesis
      using s'(3) s'(4) [of b] repD(2) [OF assms(1) d'(1)] repD(2) [OF assms(1,2)] by auto
  qed
  then have "rep s' (upd a f ts, h) m"
    using s'(2,5) repD(3,4) [OF assms(1)] by (intro repI) (simp_all add: edf_outside)
  with s'(1) show ?thesis by blast
qed

lemma rep_add:
  assumes "rep s (ts, h) m" and "elt_read a s = Some d" and "a \<notin> fst ` set ts"
    and "find_task (c_str (dname d)) ts = None"
  shows "\<exists>s'. HASH_ADD_STR dname a s = Some s' \<and> rep s' (ts @ [(a, d)], h) m"
proof -
  have new: "map_option (\<lambda>e. c_str (dname e)) (elt_read b s) \<noteq> Some (c_str (dname d))"
    if "b \<in> set (map fst ts)" for b
    using that assms(4) repD(2) [OF assms(1)] by (fastforce simp: find_task_None)
  obtain s' where s': "HASH_ADD_STR dname a s = Some s'" "dict_inv dname s' (map fst ts @ [a])"
    "\<And>b. elt_read b s' = elt_read b s" "ut.more s' = ut.more s"
    using ut.insert_law [OF repD(1) [OF assms(1)] _ assms(2) new] assms(3) by auto
  then have "rep s' (ts @ [(a, d)], h) m"
    using repD(2-4) [OF assms(1)] assms(2) by (intro repI) (auto simp: edf_outside)
  with s'(1) show ?thesis by blast
qed

lemma drop_task_fst:
  assumes "distinct (map fst ts)"
  shows "map fst (drop_task a ts) = remove1 a (map fst ts)"
proof -
  have "map fst (drop_task a ts) = filter (\<lambda>b. b \<noteq> a) (map fst ts)"
    by (induction ts) (auto simp: drop_task_def)
  then show ?thesis using assms by (simp add: distinct_remove1_removeAll removeAll_filter_not_eq eq_commute)
qed

lemma rep_delete:
  assumes "rep s (ts, h) m" and "(a, d) \<in> set ts"
  shows "\<exists>s'. HASH_DELETE a s = Some s' \<and> rep s' (drop_task a ts, h) m \<and> elt_read a s' = Some d"
proof -
  have inv: "dict_inv dname s (map fst ts)" using repD(1) [OF assms(1)] .
  obtain s' where s': "HASH_DELETE a s = Some s'" "dict_inv dname s' (remove1 a (map fst ts))"
    "\<And>b. elt_read b s' = elt_read b s" "ut.more s' = ut.more s"
    using ut.delete_law [OF inv, of a] assms(2) by force
  have "dict_inv dname s' (map fst (drop_task a ts))"
    using s'(2) drop_task_fst [OF ut.inv_distinct [OF inv]] by simp
  then have "rep s' (drop_task a ts, h) m"
    using s'(3,4) repD(2-4) [OF assms(1)] by (intro repI) (auto simp: edf_outside drop_task_def)
  with s'(1,3) repD(2) [OF assms] show ?thesis by auto
qed

section \<open>Memory\<close>

lemma rep_heap_other:
  assumes "rep s (ts, h) m" and "a \<notin> fst ` set ts"
  shows "rep (s\<lparr>heap := (heap s)(a := n)\<rparr>) (ts, h) m"
proof (rule repI)
  show "dict_inv dname (s\<lparr>heap := (heap s)(a := n)\<rparr>) (map fst ts)"
    using assms(2) by (intro dict_inv_heap_cong [OF repD(1) [OF assms(1)]]) auto
  fix b d assume "(b, d) \<in> set ts"
  then show "elt_read b (s\<lparr>heap := (heap s)(a := n)\<rparr>) = Some d"
    using repD(2) [OF assms(1), of b d] assms(2) by (auto simp: elt_read_def image_iff)
qed (use repD(3,4) [OF assms(1)] in simp_all)

lemma rep_kfree:
  assumes "rep s (ts, h) m" and "a \<in> set (live h)" and "a \<notin> fst ` set ts"
  shows "\<exists>s'. kfree (Some a) s = Some s' \<and> rep s' (ts, h @ [Free a]) m \<and>
    (\<forall>b. b \<noteq> a \<longrightarrow> elt_read b s' = elt_read b s)"
proof -
  have "rep (emit (Free a) (s\<lparr>heap := (heap s)(a := None)\<rparr>)) (ts, h @ [Free a]) m"
    by (intro rep_emit rep_heap_other assms)
  then show ?thesis using assms(2) repD(3) [OF assms(1)]
    by (auto simp: kfree_def elt_read_def)
qed

lemma rep_close:
  assumes "rep s (ts, h) m" and "live h = b # bs" and "b \<notin> set bs" and "set (blocks ts) \<subseteq> set bs"
  shows "\<exists>s'. kfree (Some b) s = Some s' \<and> rep s' (ts, h @ [Free b]) m"
proof -
  have "b \<notin> fst ` set ts" using assms(3,4) fst_in_blocks [of ts] by auto
  then show ?thesis using rep_kfree [OF assms(1), of b] assms(2) by auto
qed

end
