(* ===== verification/Edf_Recalc.thy ===== *)
theory Edf_Recalc
  imports Edf_Rep
begin

text \<open>
  The priority recalculation implements its specification: the two traversals of the table
  are the two passes over the list of tasks.
\<close>

section \<open>Missed deadlines\<close>

lemma copy_rname_run:
  assumes "c_terminated nm" and "c_strlen nm < TNAME_LEN" and "length msg = TNAME_LEN" and "i \<le> c_strlen nm"
  shows "copy_rname nm (take i nm @ drop i msg) i = Some (c_str nm @ drop (c_strlen nm) msg, c_strlen nm)"
  using assms(4)
proof (induction "c_strlen nm - i" arbitrary: i)
  case 0
  then have "i = c_strlen nm" by simp
  then show ?case using assms(2) c_terminated_strlen [OF assms(1)] c_terminated_nth [OF assms(1)]
    by (subst copy_rname.simps) (simp add: take_c_strlen)
next
  case (Suc k)
  then have i: "i < c_strlen nm" "i < length nm" "i < TNAME_LEN"
    using c_terminated_strlen [OF assms(1)] assms(2) by auto
  have "(take i nm @ drop i msg)[i := nm ! i] = take (Suc i) nm @ drop (Suc i) msg"
    using i assms(3) by (simp add: list_update_append take_Suc_conv_app_nth Cons_nth_drop_Suc [symmetric])
  then show ?case using Suc i c_strlen_nth [OF i(1)]
    by (subst copy_rname.simps) simp
qed

lemma deadline_missed_short:
  assumes "c_terminated (rname env t)" and "c_strlen (rname env t) < TNAME_LEN"
    and "length (raw_message env (calls s)) = TNAME_LEN"
  shows "deadline_missed env t s = Some (emit (Queue_write (notice env (calls s) t)) s)"
proof -
  let ?n = "c_strlen (rname env t)"
  have "(c_str (rname env t) @ drop ?n (raw_message env (calls s)))[?n := CHR 0x00] = notice env (calls s) t"
    using assms(2,3) by (simp add: notice_def list_update_append c_strlen_def Cons_nth_drop_Suc [symmetric])
  then show ?thesis using copy_rname_run [OF assms, of 0] assms(2) by (simp add: deadline_missed_def)
qed

lemma rep_deadline_missed:
  assumes "xeno_ok env" and "rname_ok env t" and "rep s (ts, h) m"
  shows "\<exists>s'. deadline_missed env t s = Some s' \<and> rep s' (ts, h @ [Queue_write (notice env h t)]) m"
proof -
  have "deadline_missed env t s = Some (emit (Queue_write (notice env (calls s) t)) s)"
    using assms(1,2) by (intro deadline_missed_short) (simp_all add: rname_ok_def xeno_ok_def)
  then show ?thesis using rep_emit [OF assms(3)] repD(3) [OF assms(3)] by simp
qed

lemma c_str_notice: "c_str (notice env h t) = c_str (rname env t)"
  by (simp add: notice_def c_str_def takeWhile_append)

section \<open>One element of a traversal\<close>

lemma rep_split:
  assumes "rep s (xs @ (a, d) # ys, h) m"
  shows "elt_read a s = Some d"
    and "c_str (dname (f d)) = c_str (dname d) \<Longrightarrow>
      \<exists>s'. elt_write a f s = Some s' \<and> rep s' (xs @ (a, f d) # ys, h) m"
proof -
  show "elt_read a s = Some d" using repD(2) [OF assms] by simp
  have "distinct (map fst (xs @ (a, d) # ys))"
    using ut.inv_distinct [OF repD(1) [OF assms]] by simp
  then show "\<exists>s'. elt_write a f s = Some s' \<and> rep s' (xs @ (a, f d) # ys, h) m"
    if "c_str (dname (f d)) = c_str (dname d)"
    using rep_write [OF assms, of a d f] that upd_split [of xs a d ys f] by simp
qed

lemma rep_inquire_into:
  assumes "xeno_ok env" and "rep s (xs @ (a, d) # ys, h) m" and "c_str (dname d) = c_str (rname env t)"
  shows "\<exists>s'. inquire_into env a t s =
      Some (case rt_task_inquire env h t of Inl err \<Rightarrow> err | Inr _ \<Rightarrow> 0, s') \<and>
    rep s' (xs @ (a, d\<lparr>task_info := info_at env h t (task_info d)\<rparr>) # ys, h @ [Task_inquire t]) m"
proof -
  have h: "calls s = h" by (rule repD(3) [OF assms(2)])
  obtain r where r: "inquire env t (task_info d) s = (r, info_at env h t (task_info d), emit (Task_inquire t) s)"
    using inquire_eq [of env t "task_info d" s] h by auto
  have ret: "r = (case rt_task_inquire env h t of Inl err \<Rightarrow> err | Inr _ \<Rightarrow> 0)"
    using inquire_ret [of env t "task_info d" s] r h by simp
  have "c_str (dname (d\<lparr>task_info := info_at env h t (task_info d)\<rparr>)) = c_str (dname d)"
    using info_at_name [OF assms(1), of "task_info d" t h] assms(3) by (simp add: dname_def)
  then obtain s' where "elt_write a (\<lambda>e. e\<lparr>task_info := info_at env h t (task_info d)\<rparr>) (emit (Task_inquire t) s) = Some s'"
    "rep s' (xs @ (a, d\<lparr>task_info := info_at env h t (task_info d)\<rparr>) # ys, h @ [Task_inquire t]) m"
    using rep_split(2) [OF rep_emit [OF assms(2)], of "\<lambda>e. e\<lparr>task_info := info_at env h t (task_info d)\<rparr>" "Task_inquire t"]
    by auto
  then show ?thesis using rep_split(1) [OF assms(2)] r ret by (auto simp: inquire_into_def)
qed

lemma recalc_remain_step:
  assumes "xeno_ok env" and "rep s (xs @ (a, d) # ys, h) m" and "dtask_ok env d"
  shows "\<exists>s'. recalc_remain env now a (mn, mx) s =
      Some (if active d then (min mn (remaining now d), max mx (remaining now d)) else (mn, mx), s') \<and>
    rep s' (xs @ refresh_all env now h [(a, d)] @ ys, h @ inquiries [(a, d)]) m"
proof (cases "active d")
  case False
  then have "recalc_remain env now a (mn, mx) s = Some ((mn, mx), s)"
    using rep_split(1) [OF assms(2)] by (auto simp: recalc_remain_def active_def)
  then show ?thesis using False assms(2) by (simp add: inquiries_def)
next
  case True
  obtain t where t: "task d = Some t" "c_str (dname d) = c_str (rname env t)"
    using assms(3) by (auto simp: dtask_ok_def split: option.splits)
  define r where "r = remaining now d"
  obtain s1 where s1: "elt_write a (\<lambda>d. d\<lparr>remain := r\<rparr>) s = Some s1"
    "rep s1 (xs @ (a, d\<lparr>remain := r\<rparr>) # ys, h) m"
    using rep_split(2) [OF assms(2), of "\<lambda>d. d\<lparr>remain := r\<rparr>"] by (auto simp: dname_def)
  have s2: "rep (emit (Task_inquire t) s1) (xs @ (a, d\<lparr>remain := r\<rparr>) # ys, h @ [Task_inquire t]) m"
    using rep_emit [OF s1(2)] .
  obtain e s3 where s3: "inquire_into env a t (emit (Task_inquire t) s1) = Some (e, s3)"
    "rep s3 (xs @ (a, refresh env now h d) # ys, (h @ [Task_inquire t]) @ [Task_inquire t]) m"
    using rep_inquire_into [OF assms(1) s2, of t] t by (auto simp: dname_def refresh_def r_def)
  have ext: "(if r < mn then r else mn) = min mn r" "(if mx < r then r else mx) = max mx r"
    by (auto simp: min_def max_def)
  have "recalc_remain env now a (mn, mx) s = Some ((min mn r, max mx r), s3)"
    using True rep_split(1) [OF assms(2)] s1(1) s3(1) t(1) ext
    unfolding recalc_remain_def active_def Let_def remaining_def [symmetric]
    by (simp add: r_def [symmetric])
  then show ?thesis using True s3(2) t(1) by (simp add: inquiries_def r_def eval_nat_numeral)
qed

lemma settle_name [simp]: "dname (settle d) = dname d"
  by (simp add: settle_def dname_def)

lemma recalc_prio_step:
  assumes "xeno_ok env" and "rep s (xs @ (a, d) # ys, h) m" and "dtask_ok env d"
  shows "\<exists>s'. recalc_prio env mn mx a u s = Some ((), s') \<and>
    rep s' (xs @ (a, settle d) # ys, h @ rank_calls env mn mx h d) m"
proof (cases "ranked d")
  case False
  then have "recalc_prio env mn mx a u s = Some ((), s)"
    using rep_split(1) [OF assms(2)] by (auto simp: recalc_prio_def ranked_def active_def)
  then show ?thesis using False assms(2) by (simp add: rank_calls_def settle_def)
next
  case True
  obtain t where t: "task d = Some t" "rname_ok env t"
    using assms(3) by (auto simp: dtask_ok_def split: option.splits)
  define q where "q = (if remain d = 0 then [Queue_write (notice env h t)] else [])"
  have p: "calculate_prio env (remain d) mn mx = Some (prio_of env mn mx d)"
    using calculate_prio_total [of env "remain d" mn mx] assms(1) by (auto simp: prio_of_def xeno_ok_def)
  have "\<exists>s1. (if remain d = 0 then Option.bind (elt_write a (\<lambda>d. d\<lparr>status := MISSED\<rparr>) s) (deadline_missed env t)
         else Some s) = Some s1 \<and> rep s1 (xs @ (a, settle d) # ys, h @ q) m"
  proof (cases "remain d = 0")
    case z: True
    obtain s0 where s0: "elt_write a (\<lambda>d. d\<lparr>status := MISSED\<rparr>) s = Some s0"
      "rep s0 (xs @ (a, d\<lparr>status := MISSED\<rparr>) # ys, h) m"
      using rep_split(2) [OF assms(2), of "\<lambda>d. d\<lparr>status := MISSED\<rparr>"] by (auto simp: dname_def)
    then show ?thesis
      using rep_deadline_missed [OF assms(1) t(2) s0(2)] z True by (simp add: q_def settle_def)
  qed (use assms(2) in \<open>simp add: q_def settle_def\<close>)
  then obtain s1 where s1: "(if remain d = 0 then Option.bind (elt_write a (\<lambda>d. d\<lparr>status := MISSED\<rparr>) s) (deadline_missed env t)
         else Some s) = Some s1" "rep s1 (xs @ (a, settle d) # ys, h @ q) m"
    by blast
  let ?p = "prio_of env mn mx d"
  define s2 where "s2 = (if ?p \<noteq> ti_cprio (task_info d) then emit (Set_priority t ?p) s1 else s1)"
  have "recalc_prio env mn mx a u s = Some ((), s2)"
    using True rep_split(1) [OF assms(2)] s1(1) t(1) p
    unfolding recalc_prio_def ranked_def active_def s2_def by simp
  moreover have "rep s2 (xs @ (a, settle d) # ys, h @ rank_calls env mn mx h d) m"
    using True rep_emit [OF s1(2), of "Set_priority t ?p"] s1(2) t(1)
    by (auto simp: s2_def rank_calls_def q_def)
  ultimately show ?thesis by blast
qed

section \<open>The two passes\<close>

lemma refresh_all_append:
  "refresh_all env now h (xs @ ys) = refresh_all env now h xs @ refresh_all env now (h @ inquiries xs) ys"
  by (induction env now h xs rule: refresh_all.induct) (auto simp: inquiries_def)

lemma inquiries_append: "inquiries (xs @ ys) = inquiries xs @ inquiries ys"
  by (simp add: inquiries_def)

lemma rank_all_append: "rank_all env mn mx h (xs @ ys) = rank_all env mn mx (rank_all env mn mx h xs) ys"
  by (induction xs arbitrary: h) auto

lemma active_refresh [simp]: "active (refresh env now h d) = active d"
  by (simp add: active_def refresh_def)

lemma refresh_all_bounds:
  "(least (refresh_all env now h (xs @ [(a, d)])), greatest (refresh_all env now h (xs @ [(a, d)]))) =
     (let mn = least (refresh_all env now h xs); mx = greatest (refresh_all env now h xs)
      in if active d then (min mn (remaining now d), max mx (remaining now d)) else (mn, mx))"
  by (simp add: refresh_all_append least_def greatest_def Let_def)
     (simp add: refresh_def)

lemma first_pass:
  assumes "xeno_ok env" and "rep s (ts, h) m" and "list_all (\<lambda>(a, d). dtask_ok env d) ts"
  shows "\<exists>s'. HASH_ITER (recalc_remain env now) (0xffffffffffffffff, 0) s =
      Some ((least (refresh_all env now h ts), greatest (refresh_all env now h ts)), s') \<and>
    rep s' (refresh_all env now h ts, h @ inquiries ts) m"
proof -
  define Q where "Q don acc s \<longleftrightarrow> (\<exists>xs ys. ts = xs @ ys \<and> don = map fst xs \<and>
      rep s (refresh_all env now h xs @ ys, h @ inquiries xs) m \<and>
      acc = (least (refresh_all env now h xs), greatest (refresh_all env now h xs)))" for don acc s
  have "\<exists>acc s'. HASH_ITER (recalc_remain env now) (0xffffffffffffffff, 0) s = Some (acc, s') \<and>
      dict_inv dname s' (map fst ts) \<and> Q (map fst ts) acc s'"
  proof (rule HASH_ITER_dict)
    show "dict_inv dname s (map fst ts)" using assms(2) by (rule repD(1))
    show "Q [] (0xffffffffffffffff, 0) s"
      using assms(2) by (auto simp: Q_def least_def greatest_def inquiries_def)
    fix don a as acc and s :: "'b edf_scheme"
    assume es: "map fst ts = don @ a # as" and "Q don acc s"
    then obtain xs ys where q: "ts = xs @ ys" "don = map fst xs"
      "rep s (refresh_all env now h xs @ ys, h @ inquiries xs) m"
      "acc = (least (refresh_all env now h xs), greatest (refresh_all env now h xs))"
      by (auto simp: Q_def)
    then obtain d zs where ys: "ys = (a, d) # zs" using es by (cases ys) auto
    have ok: "dtask_ok env d" using assms(3) q(1) ys by simp
    obtain acc' s' where s': "recalc_remain env now a acc s = Some (acc', s')"
      "acc' = (least (refresh_all env now h (xs @ [(a, d)])), greatest (refresh_all env now h (xs @ [(a, d)])))"
      "rep s' (refresh_all env now h xs @ refresh_all env now (h @ inquiries xs) [(a, d)] @ zs,
         (h @ inquiries xs) @ inquiries [(a, d)]) m"
      using recalc_remain_step [OF assms(1) q(3) [unfolded ys] ok] q(4)
      unfolding refresh_all_bounds Let_def by blast
    have ts: "ts = (xs @ [(a, d)]) @ zs" using q(1) ys by simp
    have r: "rep s' (refresh_all env now h (xs @ [(a, d)]) @ zs, h @ inquiries (xs @ [(a, d)])) m"
      using s'(3) by (simp only: refresh_all_append inquiries_append append.assoc)
    have "Q (don @ [a]) acc' s'"
      unfolding Q_def using ts r s'(2) q(2) by (intro exI [of _ "xs @ [(a, d)]"] exI [of _ zs]) simp
    moreover have "map fst ts = map fst (refresh_all env now h (xs @ [(a, d)]) @ zs)"
      using ts core_refresh_all [OF assms(1), of "xs @ [(a, d)]"] assms(3) by (metis core_fst list_all_append map_append)
    ultimately show "\<exists>acc' s'. recalc_remain env now a acc s = Some (acc', s') \<and>
        dict_inv dname s' (map fst ts) \<and> Q (don @ [a]) acc' s'"
      using s'(1) repD(1) [OF r] by auto
  qed
  then show ?thesis by (auto simp: Q_def)
qed

lemma second_pass:
  assumes "xeno_ok env" and "rep s (ts, h) m" and "list_all (\<lambda>(a, d). dtask_ok env d) ts"
  shows "\<exists>s'. HASH_ITER (recalc_prio env mn mx) () s = Some ((), s') \<and>
    rep s' (map (\<lambda>(a, d). (a, settle d)) ts, rank_all env mn mx h ts) m"
proof -
  define Q where "Q don (acc :: unit) s \<longleftrightarrow> (\<exists>xs ys. ts = xs @ ys \<and> don = map fst xs \<and>
      rep s (map (\<lambda>(a, d). (a, settle d)) xs @ ys, rank_all env mn mx h xs) m)" for don acc s
  have "\<exists>acc s'. HASH_ITER (recalc_prio env mn mx) () s = Some (acc, s') \<and>
      dict_inv dname s' (map fst ts) \<and> Q (map fst ts) acc s'"
  proof (rule HASH_ITER_dict)
    show "dict_inv dname s (map fst ts)" using assms(2) by (rule repD(1))
    show "Q [] () s" using assms(2) by (auto simp: Q_def)
    fix don a as acc and s :: "'b edf_scheme"
    assume es: "map fst ts = don @ a # as" and "Q don acc s"
    then obtain xs ys where q: "ts = xs @ ys" "don = map fst xs"
      "rep s (map (\<lambda>(a, d). (a, settle d)) xs @ ys, rank_all env mn mx h xs) m"
      by (auto simp: Q_def)
    then obtain d zs where ys: "ys = (a, d) # zs" using es by (cases ys) auto
    have ok: "dtask_ok env d" using assms(3) q(1) ys by simp
    obtain s' where s': "recalc_prio env mn mx a acc s = Some ((), s')"
      "rep s' (map (\<lambda>(a, d). (a, settle d)) (xs @ [(a, d)]) @ zs, rank_all env mn mx h (xs @ [(a, d)])) m"
      using recalc_prio_step [OF assms(1) q(3) [unfolded ys] ok, of mn mx acc] by (auto simp: rank_all_append)
    have ts: "ts = (xs @ [(a, d)]) @ zs" using q(1) ys by simp
    have "Q (don @ [a]) () s'"
      unfolding Q_def using ts s'(2) q(2) by (intro exI [of _ "xs @ [(a, d)]"] exI [of _ zs]) simp
    moreover have "map fst (map (\<lambda>(a, d). (a, settle d)) (xs @ [(a, d)]) @ zs) = map fst ts"
      using ts by (auto split: prod.splits)
    ultimately show "\<exists>acc' s'. recalc_prio env mn mx a acc s = Some (acc', s') \<and>
        dict_inv dname s' (map fst ts) \<and> Q (don @ [a]) acc' s'"
      using s'(1) repD(1) [OF s'(2)] by (metis old.unit.exhaust)
  qed
  then show ?thesis by (auto simp: Q_def)
qed

section \<open>The recalculation\<close>

lemma recalc_refines:
  assumes "xeno_ok env" and "rep s (ts, h) m" and "tasks_ok env (ts, h)"
  shows "\<exists>s'. rt_dtask_recalculateprio env s = Some (0, s') \<and> rep s' (recalc_spec env (ts, h)) m"
proof (cases "ts = []")
  case True
  then show ?thesis using assms(2) rep_count [OF assms(2)]
    by (simp add: rt_dtask_recalculateprio_def recalc_spec_def)
next
  case False
  define h1 where "h1 = h @ [Timer_read]"
  define ts1 where "ts1 = refresh_all env (rt_timer_read env h) h1 ts"
  have t: "timer_read env s = (rt_timer_read env h, emit Timer_read s)" "rep (emit Timer_read s) (ts, h1) m"
    using rep_timer [OF assms(2), of env] by (simp_all add: h1_def)
  have ok: "list_all (\<lambda>(a, d). dtask_ok env d) ts" using assms(3) by (simp add: tasks_ok_def)
  obtain s1 where s1: "HASH_ITER (recalc_remain env (rt_timer_read env h)) (0xffffffffffffffff, 0) (emit Timer_read s) =
      Some ((least ts1, greatest ts1), s1)" "rep s1 (ts1, h1 @ inquiries ts) m"
    using first_pass [OF assms(1) t(2) ok] unfolding ts1_def by blast
  have ok1: "list_all (\<lambda>(a, d). dtask_ok env d) ts1"
  proof -
    have "core ts1 = core ts" "states_ok ts1"
      using core_refresh_all [OF assms(1) ok] tasks_ok_states [OF assms(3)]
      by (simp_all add: ts1_def states_ok_refresh_all)
    then have "tasks_ok env (ts1, h)" using tasks_ok_cong [OF assms(3)] by blast
    then show ?thesis by (simp add: tasks_ok_def)
  qed
  obtain s2 where "HASH_ITER (recalc_prio env (least ts1) (greatest ts1)) () s1 = Some ((), s2)"
    "rep s2 (map (\<lambda>(a, d). (a, settle d)) ts1, rank_all env (least ts1) (greatest ts1) (h1 @ inquiries ts) ts1) m"
    using second_pass [OF assms(1) s1(2) ok1] by blast
  then show ?thesis using False t(1) s1(1) rep_count [OF assms(2)]
    by (auto simp: rt_dtask_recalculateprio_def recalc_spec_def Let_def h1_def ts1_def)
qed

end
