(* ===== verification/Edf_Refine.thy ===== *)
theory Edf_Refine
  imports Edf_Recalc
begin

text \<open>
  Every operation of edfomai-drv-data.c implements its specification and keeps the
  invariant. In particular none goes wrong: no bad pointer, no double free, no division by
  zero, no endless loop.
\<close>

section \<open>Opening and closing an operation\<close>

lemma tasks_ok_live: "tasks_ok env (ts, h) \<Longrightarrow> live h' = live h \<Longrightarrow> tasks_ok env (ts, h')"
  by (simp add: tasks_ok_def)

lemma tasks_ok_more:
  "tasks_ok env (ts, h) \<Longrightarrow> live h' = b # live h \<Longrightarrow> b \<notin> set (live h) \<Longrightarrow> tasks_ok env (ts, h')"
  by (auto simp: tasks_ok_def)

lemma tasks_ok_fst: "tasks_ok env (ts, h) \<Longrightarrow> fst ` set ts \<subseteq> set (live h)"
  using fst_in_blocks [of ts] by (auto simp: tasks_ok_def)

lemma close_refines:
  assumes "rep s (ts, h') m" and "live h' = b # live h" and "b \<notin> set (live h)" and "tasks_ok env (ts, h)"
  shows "\<exists>s'. kfree (Some b) s = Some s' \<and> rep s' (ts, h' @ [Free b]) m \<and> tasks_ok env (ts, h' @ [Free b])"
proof -
  have "set (blocks ts) \<subseteq> set (live h)" using assms(4) by (simp add: tasks_ok_def)
  then obtain s' where "kfree (Some b) s = Some s'" "rep s' (ts, h' @ [Free b]) m"
    using rep_close [OF assms(1-3)] by blast
  moreover have "tasks_ok env (ts, h' @ [Free b])"
    using assms(2) by (intro tasks_ok_live [OF assms(4)]) simp
  ultimately show ?thesis by blast
qed

lemma located:
  assumes "locate env t (ts, h) = Some a"
  obtains d where "(a, d) \<in> set ts"
  using assms find_task_Some by (fastforce simp: locate_def)

lemma located_map:
  assumes "tasks_ok env (ts, h)" and "(a, d) \<in> set ts"
  shows "map_of ts a = Some d"
  using assms tasks_ok_distinct by fastforce

section \<open>Waiting for the next period\<close>

lemma goingwaitp_refines:
  assumes "xeno_ok env" and "rep s (ts, h) m" and "tasks_ok env (ts, h)"
  shows "\<exists>s'. rt_dtask_goingwaitp env t s = Some (fst (goingwaitp_spec env t (ts, h)), s') \<and>
    rep s' (snd (goingwaitp_spec env t (ts, h))) m \<and> tasks_ok env (snd (goingwaitp_spec env t (ts, h)))"
proof -
  have f: "(\<lambda>d. d\<lparr>state := EDFCommand_val GOING_WAITP\<rparr>) = set_waiting" by (simp add: set_waiting_def fun_eq_iff)
  let ?b = "info_block env h" and ?h = "info_calls env t h"
  obtain info s1 where s1: "info_of env t s = Some (?b, info, s1)" "rep s1 (ts, ?h) m"
    "HASH_FIND_STR dname (ti_name info) s1 = Some (locate env t (ts, h))"
    and b: "live ?h = ?b # live h" "?b \<notin> set (live h)"
    using rep_info_of [OF assms(1,2)] by blast
  show ?thesis
  proof (cases "locate env t (ts, h)")
    case None
    then show ?thesis using close_refines [OF s1(2) b assms(3)] s1(1,3)
      by (auto simp: rt_dtask_goingwaitp_def goingwaitp_spec_def close_with_def Let_def)
  next
    case (Some a)
    then obtain d where d: "(a, d) \<in> set ts" by (rule located)
    obtain s2 where s2: "elt_write a set_waiting s1 = Some s2" "rep s2 (upd a set_waiting ts, ?h) m"
      using rep_write [OF s1(2) d, of set_waiting] by (auto simp: set_waiting_def dname_def)
    have "core (upd a set_waiting ts) = core ts" "states_ok (upd a set_waiting ts)"
      using tasks_ok_states [OF assms(3)]
      by (auto simp: set_waiting_def dname_def intro!: core_upd states_ok_upd)
    then have ok: "tasks_ok env (upd a set_waiting ts, h)" using tasks_ok_cong [OF assms(3)] by blast
    show ?thesis using close_refines [OF s2(2) b ok] s1(1,3) s2(1) Some
      unfolding rt_dtask_goingwaitp_def f
      by (auto simp: goingwaitp_spec_def close_with_def Let_def)
  qed
qed

lemma stopwatchdog_refines:
  assumes "xeno_ok env" and "rep s (ts, h) m" and "tasks_ok env (ts, h)"
  shows "\<exists>s'. rt_dtask_stopwatchdog env t s = Some (fst (stopwatchdog_spec env t (ts, h)), s') \<and>
    rep s' (snd (stopwatchdog_spec env t (ts, h))) m \<and> tasks_ok env (snd (stopwatchdog_spec env t (ts, h)))"
proof -
  let ?b = "info_block env h" and ?h = "info_calls env t h"
  obtain info s1 where s1: "info_of env t s = Some (?b, info, s1)" "rep s1 (ts, ?h) m"
    "HASH_FIND_STR dname (ti_name info) s1 = Some (locate env t (ts, h))"
    and b: "live ?h = ?b # live h" "?b \<notin> set (live h)"
    using rep_info_of [OF assms(1,2)] by blast
  show ?thesis
  proof (cases "locate env t (ts, h)")
    case None
    then show ?thesis using close_refines [OF s1(2) b assms(3)] s1(1,3)
      by (auto simp: rt_dtask_stopwatchdog_def stopwatchdog_spec_def close_with_def Let_def)
  next
    case (Some a)
    then obtain d where d: "(a, d) \<in> set ts" by (rule located)
    obtain t' where t': "task d = Some t'" using tasks_ok_member [OF assms(3) d] by blast
    have ok1: "tasks_ok env (ts, ?h)" using assms(3) b by (rule tasks_ok_more)
    obtain r ts2 h2 where g: "goingwaitp_spec env t' (ts, ?h) = (r, ts2, h2)"
      by (cases "goingwaitp_spec env t' (ts, ?h)") auto
    obtain s2 where s2: "rt_dtask_goingwaitp env t' s1 = Some (r, s2)" "rep s2 (ts2, h2) m"
      using goingwaitp_refines [OF assms(1) s1(2) ok1, of t'] g by auto
    have keep: "core ts2 = core ts" "states_ok ts2" "live h2 = live ?h"
    proof -
      have w: "core (upd a' set_waiting ts) = core ts" "states_ok (upd a' set_waiting ts)" for a'
        using tasks_ok_states [OF assms(3)]
        by (auto simp: set_waiting_def dname_def intro!: core_upd states_ok_upd)
      show "core ts2 = core ts" "states_ok ts2"
        using g w tasks_ok_states [OF assms(3)]
        by (auto simp: goingwaitp_spec_def close_with_def Let_def split: option.splits)
      have "h2 = info_calls env t' ?h @ [Free (info_block env ?h)]"
        using g by (auto simp: goingwaitp_spec_def close_with_def Let_def split: option.splits)
      then show "live h2 = live ?h" by (simp add: info_calls_def)
    qed
    have ok: "tasks_ok env (ts2, h)" using tasks_ok_cong [OF assms(3) keep(1,2)] by blast
    show ?thesis using close_refines [OF s2(2) _ b(2) ok] b(1) keep(3) s1(1,3) s2(1) Some t' d g
        rep_split(1) repD(2) [OF s1(2) d] located_map [OF assms(3) d]
      by (auto simp: rt_dtask_stopwatchdog_def stopwatchdog_spec_def close_with_def Let_def)
  qed
qed

section \<open>Refreshing the task information\<close>

lemma updateinfo_refines:
  assumes "xeno_ok env" and "rep s (ts, h) m" and "tasks_ok env (ts, h)"
  shows "\<exists>s'. rt_dtask_updateinfo env t s = Some (fst (updateinfo_spec env t (ts, h)), s') \<and>
    rep s' (snd (updateinfo_spec env t (ts, h))) m \<and> tasks_ok env (snd (updateinfo_spec env t (ts, h)))"
proof -
  let ?b = "info_block env h" and ?h = "info_calls env t h"
  obtain info s1 where s1: "info_of env t s = Some (?b, info, s1)" "rep s1 (ts, ?h) m"
    "HASH_FIND_STR dname (ti_name info) s1 = Some (locate env t (ts, h))"
    and b: "live ?h = ?b # live h" "?b \<notin> set (live h)"
    using rep_info_of [OF assms(1,2)] by blast
  show ?thesis
  proof (cases "locate env t (ts, h)")
    case None
    then show ?thesis using close_refines [OF s1(2) b assms(3)] s1(1,3)
      by (auto simp: rt_dtask_updateinfo_def updateinfo_spec_def close_with_def Let_def)
  next
    case (Some a)
    then obtain d where d: "(a, d) \<in> set ts" by (rule located)
    obtain t' where t': "task d = Some t'" "c_str (dname d) = c_str (rname env t')"
      using tasks_ok_member [OF assms(3) d] by blast
    let ?f = "\<lambda>d. d\<lparr>task_info := info_at env ?h t' (task_info d)\<rparr>"
    obtain xs ys where ts: "ts = xs @ (a, d) # ys" using split_list [OF d] by blast
    have up: "xs @ (a, ?f d) # ys = upd a ?f ts"
      using upd_split [of xs a d ys ?f] tasks_ok_distinct [OF assms(3)] ts by simp
    obtain s2 where s2: "inquire_into env a t' s1 =
        Some (case rt_task_inquire env ?h t' of Inl err \<Rightarrow> err | Inr _ \<Rightarrow> 0, s2)"
      "rep s2 (upd a ?f ts, ?h @ [Task_inquire t']) m"
      using rep_inquire_into [OF assms(1) s1(2) [unfolded ts] t'(2)] up by auto
    have k: "c_str (dname (?f d)) = c_str (dname d)"
      using info_at_name [OF assms(1), of "task_info d"] t'(2) by (simp add: dname_def)
    have "core (upd a ?f ts) = core ts"
    proof (rule core_upd)
      fix e assume "(a, e) \<in> set ts"
      then have "e = d" using located_map [OF assms(3)] located_map [OF assms(3) d] by force
      then show "task (?f e) = task e \<and> watchd (?f e) = watchd e \<and> c_str (dname (?f e)) = c_str (dname e)"
        using k by simp
    qed
    moreover have "states_ok (upd a ?f ts)"
      using tasks_ok_states [OF assms(3)] by (rule states_ok_upd) simp
    ultimately have ok: "tasks_ok env (upd a ?f ts, h)" using tasks_ok_cong [OF assms(3)] by blast
    show ?thesis using close_refines [OF s2(2) _ b(2) ok] b(1) s1(1,3) s2(1) Some t'(1)
        repD(2) [OF s1(2) d] located_map [OF assms(3) d]
      by (auto simp: rt_dtask_updateinfo_def updateinfo_spec_def close_with_def Let_def)
  qed
qed

section \<open>Arming a deadline\<close>

lemma arm_keeps: "task (arm now dl d) = task d" "watchd (arm now dl d) = watchd d" "dname (arm now dl d) = dname d"
  "state (arm now dl d) = TaskState_val RUNNING"
  by (simp_all add: arm_def dname_def)

lemma arm_recalc:
  assumes x: "xeno_ok env" and ok: "tasks_ok env (ts, h)" and l: "live h1 = b # live h" "b \<notin> set (live h)"
    and r: "rep s (upd a f ts, h1) m" and f: "\<And>d. \<exists>dl. f d = arm now dl d"
  shows "\<exists>s'. rt_dtask_recalculateprio env s = Some (0, s') \<and> rep s' (recalc_spec env (upd a f ts, h1)) m \<and>
    tasks_ok env (fst (recalc_spec env (upd a f ts, h1)), h) \<and>
    tasks_ok env (recalc_spec env (upd a f ts, h1)) \<and>
    live (snd (recalc_spec env (upd a f ts, h1))) = b # live h"
proof -
  have keep: "task (f d) = task d" "watchd (f d) = watchd d" "dname (f d) = dname d"
    "state (f d) = TaskState_val RUNNING" for d
    using f [of d] by (auto simp: arm_keeps)
  have c: "core (upd a f ts) = core ts" by (rule core_upd) (simp add: keep)
  have "states_ok (upd a f ts)" using tasks_ok_states [OF ok] by (rule states_ok_upd) (simp add: keep)
  then have ok0: "tasks_ok env (upd a f ts, h)" using tasks_ok_cong [OF ok c] by blast
  have ok1: "tasks_ok env (upd a f ts, h1)" using ok0 l by (rule tasks_ok_more)
  obtain s' where s': "rt_dtask_recalculateprio env s = Some (0, s')"
    "rep s' (recalc_spec env (upd a f ts, h1)) m"
    using recalc_refines [OF x r ok1] by blast
  have r1: "tasks_ok env (recalc_spec env (upd a f ts, h1))" by (rule recalc_ok [OF x ok1])
  have "tasks_ok env (fst (recalc_spec env (upd a f ts, h1)), h)"
    using r1 recalc_core [OF x ok1] c
    by (intro tasks_ok_cong [OF ok]) (auto dest: tasks_ok_states split: prod.splits simp: prod_eq_iff
        intro: tasks_ok_states [of env _ "snd (recalc_spec env (upd a f ts, h1))"])
  then show ?thesis using s' r1 l(1) by simp
qed

lemma resetdeadline_refines:
  assumes "xeno_ok env" and "rep s (ts, h) m" and "tasks_ok env (ts, h)"
  shows "\<exists>s'. rt_dtask_resetdeadline env t s = Some (fst (resetdeadline_spec env t (ts, h)), s') \<and>
    rep s' (snd (resetdeadline_spec env t (ts, h))) m \<and> tasks_ok env (snd (resetdeadline_spec env t (ts, h)))"
proof -
  let ?b = "info_block env h" and ?h = "info_calls env t h"
  obtain info s1 where s1: "info_of env t s = Some (?b, info, s1)" "rep s1 (ts, ?h) m"
    "HASH_FIND_STR dname (ti_name info) s1 = Some (locate env t (ts, h))"
    and b: "live ?h = ?b # live h" "?b \<notin> set (live h)"
    using rep_info_of [OF assms(1,2)] by blast
  show ?thesis
  proof (cases "locate env t (ts, h)")
    case None
    then show ?thesis using close_refines [OF s1(2) b assms(3)] s1(1,3)
      by (auto simp: rt_dtask_resetdeadline_def resetdeadline_spec_def close_with_def Let_def)
  next
    case (Some a)
    then obtain d where d: "(a, d) \<in> set ts" by (rule located)
    let ?now = "rt_timer_read env ?h"
    let ?f = "\<lambda>d. arm ?now (relative_deadline d) d"
    have f: "(\<lambda>d. d\<lparr>deadline := ?now + relative_deadline d, remain := relative_deadline d, status := OK,
        state := TaskState_val RUNNING\<rparr>) = ?f"
      by (simp add: arm_def fun_eq_iff)
    have t: "timer_read env s1 = (?now, emit Timer_read s1)" "rep (emit Timer_read s1) (ts, ?h @ [Timer_read]) m"
      using rep_timer [OF s1(2), of env] by simp_all
    obtain s2 where s2: "elt_write a ?f (emit Timer_read s1) = Some s2" "rep s2 (upd a ?f ts, ?h @ [Timer_read]) m"
      using rep_write [OF t(2) d, of ?f] by (auto simp: arm_keeps)
    have l: "live (?h @ [Timer_read]) = ?b # live h" using b(1) by simp
    obtain s3 where s3: "rt_dtask_recalculateprio env s2 = Some (0, s3)"
      "rep s3 (recalc_spec env (upd a ?f ts, ?h @ [Timer_read])) m"
      and ok: "tasks_ok env (fst (recalc_spec env (upd a ?f ts, ?h @ [Timer_read])), h)"
      and l3: "live (snd (recalc_spec env (upd a ?f ts, ?h @ [Timer_read]))) = ?b # live h"
      using arm_recalc [OF assms(1,3) l b(2) s2(2), of ?now] by blast
    obtain ts3 h3 where r: "recalc_spec env (upd a ?f ts, ?h @ [Timer_read]) = (ts3, h3)" by fastforce
    show ?thesis using close_refines [of s3 ts3 h3 m ?b h env] s3 ok l3 b(2) r Some s1(1,3) t(1) s2(1)
      unfolding rt_dtask_resetdeadline_def resetdeadline_spec_def close_with_def Let_def
      by (auto simp: f [simplified])
  qed
qed

lemma setdeadline_refines:
  assumes "xeno_ok env" and "rep s (ts, h) m" and "tasks_ok env (ts, h)"
  shows "\<exists>s'. rt_dtask_setdeadline env t dl s = Some (fst (setdeadline_spec env t dl (ts, h)), s') \<and>
    rep s' (snd (setdeadline_spec env t dl (ts, h))) m \<and> tasks_ok env (snd (setdeadline_spec env t dl (ts, h)))"
proof -
  let ?b = "info_block env h" and ?h = "info_calls env t h"
  obtain info s1 where s1: "info_of env t s = Some (?b, info, s1)" "rep s1 (ts, ?h) m"
    "HASH_FIND_STR dname (ti_name info) s1 = Some (locate env t (ts, h))"
    and b: "live ?h = ?b # live h" "?b \<notin> set (live h)"
    using rep_info_of [OF assms(1,2)] by blast
  have ok1: "tasks_ok env (ts, ?h)" using assms(3) b by (rule tasks_ok_more)
  show ?thesis
  proof (cases "locate env t (ts, h)")
    case None
    then show ?thesis using s1 ok1
      by (auto simp: rt_dtask_setdeadline_def setdeadline_spec_def Let_def)
  next
    case (Some a)
    then obtain d where d: "(a, d) \<in> set ts" by (rule located)
    let ?now = "rt_timer_read env ?h" and ?g = "\<lambda>d. d\<lparr>relative_deadline := dl\<rparr>"
    let ?k = "\<lambda>d. d\<lparr>deadline := ?now + relative_deadline d, remain := relative_deadline d, status := OK,
        state := TaskState_val RUNNING\<rparr>"
    obtain s2 where s2: "elt_write a ?g s1 = Some s2" "rep s2 (upd a ?g ts, ?h) m"
      using rep_write [OF s1(2) d, of ?g] by (auto simp: dname_def)
    have t: "timer_read env s2 = (?now, emit Timer_read s2)" "rep (emit Timer_read s2) (upd a ?g ts, ?h @ [Timer_read]) m"
      using rep_timer [OF s2(2), of env] by simp_all
    have "upd a ?k (upd a ?g ts) = upd a (arm ?now dl) ts"
      by (auto simp: upd_def arm_def)
    moreover have "(a, ?g d) \<in> set (upd a ?g ts)" using d by (force simp: upd_member)
    ultimately obtain s3 where s3: "elt_write a ?k (emit Timer_read s2) = Some s3"
      "rep s3 (upd a (arm ?now dl) ts, ?h @ [Timer_read]) m"
      using rep_write [OF t(2), of a "?g d" ?k] by (auto simp: dname_def)
    have l: "live (?h @ [Timer_read]) = ?b # live h" using b(1) by simp
    obtain s4 where "rt_dtask_recalculateprio env s3 = Some (0, s4)"
      "rep s4 (recalc_spec env (upd a (arm ?now dl) ts, ?h @ [Timer_read])) m"
      "tasks_ok env (recalc_spec env (upd a (arm ?now dl) ts, ?h @ [Timer_read]))"
      using arm_recalc [OF assms(1,3) l b(2) s3(2), of ?now] by blast
    then show ?thesis using Some s1(1,3) s2(1) t(1) s3(1)
      by (auto simp: rt_dtask_setdeadline_def setdeadline_spec_def Let_def)
  qed
qed

section \<open>Deletion\<close>

lemma drop_task_simps [simp]:
  "drop_task a [] = []" "drop_task a (xs @ ys) = drop_task a xs @ drop_task a ys"
  "drop_task a ((b, d) # ts) = (if b = a then drop_task a ts else (b, d) # drop_task a ts)"
  by (simp_all add: drop_task_def)

lemma drop_task_other: "a \<notin> fst ` set ts \<Longrightarrow> drop_task a ts = ts"
  by (induction ts) auto

lemma drop_task_split: "distinct (map fst (xs @ (a, d) # ys)) \<Longrightarrow> drop_task a (xs @ (a, d) # ys) = xs @ ys"
  using drop_task_other [of a xs] drop_task_other [of a ys] by simp

lemma drop_ok:
  assumes "tasks_ok env (ts, h)" and "(a, d) \<in> set ts" and "watchd d = Some w"
  shows "a \<in> set (live h)" "w \<in> set (live h)" "w \<noteq> a" "w \<notin> fst ` set ts"
    "tasks_ok env (drop_task a ts, h @ [Free w, Free a])"
proof -
  obtain xs ys where ts: "ts = xs @ (a, d) # ys" using split_list [OF assms(2)] by blast
  have dr: "drop_task a ts = xs @ ys"
    unfolding ts by (rule drop_task_split) (use tasks_ok_distinct [OF assms(1)] ts in simp)
  have b: "distinct (blocks ts)" "set (blocks ts) \<subseteq> set (live h)" "distinct (live h)"
    using assms(1) by (auto simp: tasks_ok_def)
  then show "a \<in> set (live h)" "w \<in> set (live h)" "w \<noteq> a" "w \<notin> fst ` set ts"
    using ts assms(3) fst_in_blocks [of xs] fst_in_blocks [of ys] by auto
  have "set (live (h @ [Free w, Free a])) = set (live h) - {w, a}" "distinct (live (h @ [Free w, Free a]))"
    using b(3) by auto
  then show "tasks_ok env (drop_task a ts, h @ [Free w, Free a])"
    using assms(1,3) b ts unfolding dr tasks_ok_def by auto
qed

lemma release_step:
  assumes "rep s (ts, h) m" and "tasks_ok env (ts, h)" and "(a, d) \<in> set ts"
  shows "\<exists>s'. dispose_one a () s = Some ((), s') \<and>
    rep s' (drop_task a ts, h @ release_calls (a, d)) m \<and>
    tasks_ok env (drop_task a ts, h @ release_calls (a, d))"
proof -
  obtain w where w: "watchd d = Some w" using tasks_ok_member [OF assms(2,3)] by blast
  note ok = drop_ok [OF assms(2,3) w]
  obtain s1 where s1: "HASH_DELETE a s = Some s1" "rep s1 (drop_task a ts, h) m" "elt_read a s1 = Some d"
    using rep_delete [OF assms(1,3)] by blast
  have sub: "fst ` set (drop_task a ts) \<subseteq> fst ` set ts - {a}" by (auto simp: drop_task_def)
  obtain s2 where s2: "kfree (Some w) s1 = Some s2" "rep s2 (drop_task a ts, h @ [Free w]) m"
    using rep_kfree [OF s1(2), of w] ok(2,4) sub by blast
  have "a \<in> set (live (h @ [Free w]))" using ok(1,3) by simp
  then obtain s3 where s3: "kfree (Some a) s2 = Some s3" "rep s3 (drop_task a ts, (h @ [Free w]) @ [Free a]) m"
    using rep_kfree [OF s2(2), of a] sub by blast
  show ?thesis using s1 s2(1) s3 w ok(5) by (auto simp: dispose_one_def clear_dtask_def release_calls_def)
qed

lemma delete_refines:
  assumes "xeno_ok env" and "rep s (ts, h) m" and "tasks_ok env (ts, h)"
  shows "\<exists>s'. rt_dtask_delete env t s = Some (fst (delete_spec env t (ts, h)), s') \<and>
    rep s' (snd (delete_spec env t (ts, h))) m \<and> tasks_ok env (snd (delete_spec env t (ts, h)))"
proof -
  let ?b = "info_block env h" and ?h = "info_calls env t h"
  obtain info s1 where s1: "info_of env t s = Some (?b, info, s1)" "rep s1 (ts, ?h) m"
    "HASH_FIND_STR dname (ti_name info) s1 = Some (locate env t (ts, h))"
    and b: "live ?h = ?b # live h" "?b \<notin> set (live h)"
    using rep_info_of [OF assms(1,2)] by blast
  show ?thesis
  proof (cases "locate env t (ts, h)")
    case None
    then show ?thesis using close_refines [OF s1(2) b assms(3)] s1(1,3)
      by (auto simp: rt_dtask_delete_def delete_spec_def close_with_def Let_def)
  next
    case (Some a)
    then obtain d where d: "(a, d) \<in> set ts" by (rule located)
    obtain w where w: "watchd d = Some w" using tasks_ok_member [OF assms(3) d] by blast
    note ok = drop_ok [OF assms(3) d w]
    obtain s2 where s2: "dispose_one a () s1 = Some ((), s2)"
      "rep s2 (drop_task a ts, ?h @ release_calls (a, d)) m"
      using release_step [OF s1(2) tasks_ok_more [OF assms(3) b] d] by blast
    have l: "live (?h @ release_calls (a, d)) = ?b # live (h @ [Free w, Free a])"
      using b w ok(1,2) by (auto simp: release_calls_def)
    have nb: "?b \<notin> set (live (h @ [Free w, Free a]))"
      using b(2) by (auto dest: notin_set_remove1)
    show ?thesis using close_refines [OF s2(2) l nb ok(5)] s2(1) s1(1,3) Some located_map [OF assms(3) d]
      unfolding rt_dtask_delete_def dispose_one_def
      by (auto simp: delete_spec_def close_with_def Let_def elim!: bind_eq_SomeE)
  qed
qed

section \<open>Creation\<close>

definition with_node :: "addr \<Rightarrow> RT_DEADLINE_TASK node \<Rightarrow> 'm edf_scheme \<Rightarrow> 'm edf_scheme" where
  "with_node a n s = s\<lparr>heap := (heap s)(a \<mapsto> n)\<rparr>"

lemma with_node_simps [simp]:
  "emit c (with_node a n s) = with_node a n (emit c s)"
  "calls (with_node a n s) = calls s"
  "elt_read a (with_node a n s) = Some (elt n)"
  "elt_write a f (with_node a n s) = Some (with_node a (n\<lparr>elt := f (elt n)\<rparr>) s)"
  by (simp_all add: with_node_def emit_def elt_read_def elt_write_def)

lemma rep_with_node: "rep s (ts, h) m \<Longrightarrow> a \<notin> fst ` set ts \<Longrightarrow> rep (with_node a n s) (ts, h) m"
  unfolding with_node_def by (rule rep_heap_other)

lemma create_node_run:
  assumes "xeno_ok env" and "calls s = h"
  shows "\<exists>n s'. create_node env t dl s = Some (info_block env h, with_node (info_block env h) n s') \<and>
    elt n = new_dtask env t dl h \<and>
    s' = fold emit [Malloc (info_block env h), Malloc (info_block env (h @ [Malloc (info_block env h)])),
            Timer_read, Task_inquire t] s"
proof -
  obtain a where a: "rtdm_malloc env h = Some a" "info_block env h = a" using xeno_ok_malloc [OF assms(1)] by blast
  obtain w where w: "rtdm_malloc env (h @ [Malloc a]) = Some w" "info_block env (h @ [Malloc a]) = w"
    using xeno_ok_malloc [OF assms(1)] by blast
  define s1 where "s1 = emit (Malloc a) s"
  define s2 where "s2 = emit (Malloc w) s1"
  define s3 where "s3 = emit Timer_read s2"
  let ?raw = "raw_node env h"
  have c: "calls s1 = h @ [Malloc a]" "calls s2 = (h @ [Malloc a]) @ [Malloc w]"
    "calls s3 = ((h @ [Malloc a]) @ [Malloc w]) @ [Timer_read]"
    using assms(2) by (simp_all add: s1_def s2_def s3_def)
  have al: "alloc_dtask env s = Some (a, with_node a ?raw s1)"
    using a(1) assms(2) by (simp add: alloc_dtask_def kmalloc_eq s1_def with_node_def)
  have "\<exists>n1. init_dtask env a (with_node a ?raw s1) = Some (with_node a n1 s2) \<and>
      elt n1 = (elt ?raw)\<lparr>deadline := DEADLINENOTSET, remain := DEADLINENOTSET,
        relative_deadline := DEADLINENOTSET, status := OK, task := None,
        state := TaskState_val RUNNING, watchd := Some w\<rparr>"
    using w(1) c(1) by (simp add: init_dtask_def kmalloc_eq s2_def) (rule exI, rule conjI [OF refl], simp)
  then obtain n1 where n1: "init_dtask env a (with_node a ?raw s1) = Some (with_node a n1 s2)"
    "elt n1 = (elt ?raw)\<lparr>deadline := DEADLINENOTSET, remain := DEADLINENOTSET,
        relative_deadline := DEADLINENOTSET, status := OK, task := None,
        state := TaskState_val RUNNING, watchd := Some w\<rparr>" by blast
  have tm: "timer_read env (with_node a n s2) = (rt_timer_read env ((h @ [Malloc a]) @ [Malloc w]), with_node a n s3)" for n
    using c(2) by (simp add: timer_read_def s3_def)
  have inq: "\<exists>r. inquire_into env a t (with_node a n s3) = Some (r, with_node a
      (n\<lparr>elt := (elt n)\<lparr>task_info := info_at env (calls s3) t (task_info (elt n))\<rparr>\<rparr>) (emit (Task_inquire t) s3))" for n
    using inquire_eq [of env t "task_info (elt n)" "with_node a n s3"] by (auto simp: inquire_into_def)
  have "\<exists>n. create_node env t dl s = Some (a, with_node a n (emit (Task_inquire t) s3)) \<and> elt n = new_dtask env t dl h"
    unfolding create_node_def
    using inq [of "n1\<lparr>elt := (elt n1)\<lparr>task := Some t, relative_deadline := dl,
        deadline := rt_timer_read env ((h @ [Malloc a]) @ [Malloc w]) + dl, remain := dl\<rparr>\<rparr>"]
    by (auto simp: al n1 tm c new_dtask_def Let_def a(2) w(2))
  then show ?thesis by (auto simp: a(2) w(2) s1_def s2_def s3_def)
qed

lemma new_dtask_fields:
  "task (new_dtask env t dl h) = Some t"
  "watchd (new_dtask env t dl h) = Some (info_block env (h @ [Malloc (info_block env h)]))"
  "state (new_dtask env t dl h) = TaskState_val RUNNING"
  "relative_deadline (new_dtask env t dl h) = dl" "status (new_dtask env t dl h) = OK"
  by (simp_all add: new_dtask_def Let_def)

lemma new_dtask_name:
  assumes "xeno_ok env" and "task_ready env t"
  shows "c_str (dname (new_dtask env t dl h)) = c_str (rname env t)"
proof -
  have "\<exists>i. rt_task_inquire env h' t = Inr i" for h' using assms(2) by (simp add: task_ready_def)
  then have "c_str (ti_name (info_at env h' t old)) = c_str (rname env t)" for h' old
    using xeno_ok_name [OF assms(1), of h' t]
    by (cases "rt_task_inquire env h' t") (auto simp: info_at_def, metis Inl_Inr_False)
  then show ?thesis by (simp add: new_dtask_def dname_def Let_def)
qed

lemma create_ok:
  fixes dl :: u64
  assumes x: "xeno_ok env" and r: "task_ready env t" and ok: "tasks_ok env (ts, h)"
    and a_def: "a = info_block env h" and w_def: "w = info_block env (h @ [Malloc (info_block env h)])"
    and d_def: "d = new_dtask env t dl h"
  shows "a \<notin> set (live h)" "a \<notin> fst ` set ts" "live (create_calls env t h) = w # a # live h"
    "tasks_ok env (ts, create_calls env t h @ [Free a])"
    "find_task (c_str (dname d)) ts = None \<Longrightarrow> tasks_ok env (ts @ [(a, d)], create_calls env t h)"
proof -
  show a: "a \<notin> set (live h)" using xeno_ok_malloc [OF x, of h] by (auto simp: a_def)
  have "w \<notin> set (live (h @ [Malloc a]))" using xeno_ok_malloc [OF x, of "h @ [Malloc a]"] by (auto simp: a_def w_def)
  then have w: "w \<noteq> a" "w \<notin> set (live h)" by auto
  show l: "live (create_calls env t h) = w # a # live h"
    by (simp add: create_calls_def Let_def a_def w_def)
  show "a \<notin> fst ` set ts" using a tasks_ok_fst [OF ok] by blast
  show "tasks_ok env (ts, create_calls env t h @ [Free a])"
    using ok w(2) by (rule_tac tasks_ok_more [where b = w]) (use l w(1) in simp_all)
  assume new: "find_task (c_str (dname d)) ts = None"
  have "dtask_ok env d"
    using r new_dtask_name [OF x r] by (simp add: dtask_ok_def d_def new_dtask_fields task_ready_def)
  moreover have "set (blocks [(a, d)]) \<inter> set (live h) = {}" "distinct (blocks [(a, d)])"
    "set (blocks [(a, d)]) \<subseteq> set (live (create_calls env t h))"
    using a w l by (auto simp: d_def new_dtask_fields w_def)
  moreover have "c_str (dname d) \<notin> (c_str \<circ> dname \<circ> snd) ` set ts"
    using new by (auto simp: find_task_None)
  ultimately show "tasks_ok env (ts @ [(a, d)], create_calls env t h)"
    using ok a w l by (auto simp: tasks_ok_def)
qed

lemma create_refines:
  assumes "xeno_ok env" and "task_ready env t" and "rep s (ts, h) m" and "tasks_ok env (ts, h)"
  shows "\<exists>s'. rt_dtask_create env t dl s = Some (fst (create_spec env t dl (ts, h)), s') \<and>
    rep s' (snd (create_spec env t dl (ts, h))) m \<and> tasks_ok env (snd (create_spec env t dl (ts, h)))"
proof -
  let ?a = "info_block env h" and ?d = "new_dtask env t dl h" and ?h = "create_calls env t h"
  note ok = create_ok [OF assms(1,2,4) refl refl refl [of "new_dtask env t dl h"]]
  obtain n s0 where n: "create_node env t dl s = Some (?a, with_node ?a n s0)" "elt n = ?d"
    and s0: "s0 = fold emit [Malloc ?a, Malloc (info_block env (h @ [Malloc ?a])), Timer_read, Task_inquire t] s"
    using create_node_run [OF assms(1) repD(3) [OF assms(3)]] by blast
  have "rep s0 (ts, ?h) m"
    using rep_emit [OF rep_emit [OF rep_emit [OF rep_emit [OF assms(3)]]]]
    unfolding s0 create_calls_def Let_def by (simp add: append_assoc)
  then have s1: "rep (with_node ?a n s0) (ts, ?h) m" using ok(2) by (rule rep_with_node)
  have f: "HASH_FIND_STR dname (ti_name (task_info ?d)) (with_node ?a n s0) =
      Some (find_task (c_str (dname ?d)) ts)"
    using rep_find [OF s1] by (simp add: dname_def)
  show ?thesis
  proof (cases "find_task (c_str (dname ?d)) ts")
    case None
    obtain s2 where s2: "HASH_ADD_STR dname ?a (with_node ?a n s0) = Some s2" "rep s2 (ts @ [(?a, ?d)], ?h) m"
      using rep_add [OF s1 _ ok(2) None] n(2) by auto
    have ok2: "tasks_ok env (ts @ [(?a, ?d)], ?h)" using None by (rule ok(5))
    obtain s3 where "rt_dtask_recalculateprio env s2 = Some (0, s3)"
      "rep s3 (recalc_spec env (ts @ [(?a, ?d)], ?h)) m"
      using recalc_refines [OF assms(1) s2(2) ok2] by blast
    then show ?thesis using n f None s2(1) recalc_ok [OF assms(1) ok2]
      by (auto simp: rt_dtask_create_def create_spec_def Let_def)
  next
    case (Some b)
    have "?a \<in> set (live ?h)" using ok(3) by simp
    then obtain s2 where s2: "kfree (Some ?a) (with_node ?a n s0) = Some s2" "rep s2 (ts, ?h @ [Free ?a]) m"
      using rep_kfree [OF s1] ok(2) by blast
    obtain s3 where "rt_dtask_recalculateprio env s2 = Some (0, s3)"
      "rep s3 (recalc_spec env (ts, ?h @ [Free ?a])) m"
      using recalc_refines [OF assms(1) s2(2) ok(4)] by blast
    then show ?thesis using n f Some s2(1) recalc_ok [OF assms(1) ok(4)]
      by (auto simp: rt_dtask_create_def create_spec_def Let_def)
  qed
qed

section \<open>Set-up and disposal\<close>

lemma init_refines:
  "fst (rt_dtask_init s) = 0 \<and> rep (snd (rt_dtask_init s)) ([], calls s) (edf.more s)"
  by (simp add: rt_dtask_init_def rep_def dict_inv_Nil)

lemma init_ok: "distinct (live h) \<Longrightarrow> tasks_ok env ([], h)"
  by (simp add: tasks_ok_def)

lemma dispose_refines:
  assumes "rep s (ts, h) m" and "tasks_ok env (ts, h)"
  shows "\<exists>s'. rt_dtask_dispose s = Some (fst (dispose_spec (ts, h)), s') \<and>
    rep s' (snd (dispose_spec (ts, h))) m \<and> tasks_ok env (snd (dispose_spec (ts, h)))"
proof -
  define P where "P as (acc :: unit) s \<longleftrightarrow> (\<exists>xs ys. ts = xs @ ys \<and> as = map fst ys \<and>
      rep s (ys, h @ concat (map release_calls xs)) m \<and>
      tasks_ok env (ys, h @ concat (map release_calls xs)))" for as acc s
  have "\<exists>acc s'. HASH_ITER dispose_one () s = Some (acc, s') \<and> P [] acc s'"
  proof (rule HASH_ITER_rule)
    show "P (map fst ts) () s" unfolding P_def using assms by (intro exI [of _ "[]"] exI [of _ ts]) simp
    show "head s = first_ptr (map fst ts) None"
      using repD(1) [OF assms(1)] by (auto simp: dict_inv_def intro: ut_inv_head)
    fix as acc and s :: "'a edf_scheme" assume "P as acc s"
    then have u: "ut_inv dname s as" by (auto simp: P_def dict_inv_def dest: repD(1))
    show "set as \<subseteq> dom (heap s)" using u by (rule ut_inv_dom)
    show "npath (ptr el_next (heap s)) (first_ptr as None) as"
      using u ut_inv_head [OF u] by (cases "as = []") (auto simp: ut_inv_def intro: dlist_npath)
  next
    fix a as acc and s :: "'a edf_scheme" assume "P (a # as) acc s"
    then obtain xs ys where q: "ts = xs @ ys" "a # as = map fst ys"
      "rep s (ys, h @ concat (map release_calls xs)) m" "tasks_ok env (ys, h @ concat (map release_calls xs))"
      by (auto simp: P_def)
    then obtain d zs where ys: "ys = (a, d) # zs" by (cases ys) auto
    have dr: "drop_task a ys = zs"
      using drop_task_other [of a zs] tasks_ok_distinct [OF q(4)] ys by auto
    obtain s' where "dispose_one a () s = Some ((), s')"
      "rep s' (zs, (h @ concat (map release_calls xs)) @ release_calls (a, d)) m"
      "tasks_ok env (zs, (h @ concat (map release_calls xs)) @ release_calls (a, d))"
      using release_step [OF q(3,4), of a d] dr ys by auto
    moreover have "ts = (xs @ [(a, d)]) @ zs" "as = map fst zs" using q(1,2) ys by simp_all
    ultimately show "\<exists>acc' s'. dispose_one a acc s = Some (acc', s') \<and> P as acc' s'"
      unfolding P_def by (intro exI conjI) (assumption | simp)+
  qed
  then show ?thesis by (auto simp: P_def rt_dtask_dispose_def dispose_spec_def)
qed

end
