(* ===== verification/Edf_Interface.thy ===== *)
theory Edf_Interface
  imports Edf_Refine
begin

text \<open>
  The interface of edfomai-drv-data.h as one family of operations, and the contract its
  clients rely on: every operation simulates its specification. A client runs any sequence
  of operations.
\<close>

section \<open>The operations as data\<close>

datatype dtask_op =
    Recalculateprio
  | Updateinfo RT_TASK
  | Goingwaitp RT_TASK
  | Stopwatchdog RT_TASK
  | Resetdeadline RT_TASK
  | Setdeadline RT_TASK u64
  | Create RT_TASK u64
  | Delete RT_TASK
  | Dispose

fun do_op :: "'x xeno_scheme \<Rightarrow> dtask_op \<Rightarrow> 'm edf_scheme \<Rightarrow> (int \<times> 'm edf_scheme) option" where
  "do_op env Recalculateprio s = rt_dtask_recalculateprio env s"
| "do_op env (Updateinfo t) s = rt_dtask_updateinfo env t s"
| "do_op env (Goingwaitp t) s = rt_dtask_goingwaitp env t s"
| "do_op env (Stopwatchdog t) s = rt_dtask_stopwatchdog env t s"
| "do_op env (Resetdeadline t) s = rt_dtask_resetdeadline env t s"
| "do_op env (Setdeadline t dl) s = rt_dtask_setdeadline env t dl s"
| "do_op env (Create t dl) s = rt_dtask_create env t dl s"
| "do_op env (Delete t) s = rt_dtask_delete env t s"
| "do_op env Dispose s = rt_dtask_dispose s"

fun op_spec :: "'x xeno_scheme \<Rightarrow> dtask_op \<Rightarrow> tasks \<times> history \<Rightarrow> int \<times> tasks \<times> history" where
  "op_spec env Recalculateprio st = (0, recalc_spec env st)"
| "op_spec env (Updateinfo t) st = updateinfo_spec env t st"
| "op_spec env (Goingwaitp t) st = goingwaitp_spec env t st"
| "op_spec env (Stopwatchdog t) st = stopwatchdog_spec env t st"
| "op_spec env (Resetdeadline t) st = resetdeadline_spec env t st"
| "op_spec env (Setdeadline t dl) st = setdeadline_spec env t dl st"
| "op_spec env (Create t dl) st = create_spec env t dl st"
| "op_spec env (Delete t) st = delete_spec env t st"
| "op_spec env Dispose st = dispose_spec st"

text \<open>Only creation asks something of the task it is given.\<close>

fun op_ready :: "'x rtos_scheme \<Rightarrow> dtask_op \<Rightarrow> bool" where
  "op_ready env (Create t dl) = task_ready env t"
| "op_ready env _ = True"

section \<open>The contract\<close>

locale simulated_service =
  fixes good :: "'e \<Rightarrow> bool"
    and ready :: "'e \<Rightarrow> 'c \<Rightarrow> bool"
    and run :: "'e \<Rightarrow> 'c \<Rightarrow> 's \<Rightarrow> (int \<times> 's) option"
    and spec :: "'e \<Rightarrow> 'c \<Rightarrow> 'a \<Rightarrow> int \<times> 'a"
    and rel :: "'s \<Rightarrow> 'a \<Rightarrow> 'm \<Rightarrow> bool"
    and ok :: "'e \<Rightarrow> 'a \<Rightarrow> bool"
  assumes simulates: "good env \<Longrightarrow> ready env c \<Longrightarrow> rel s a m \<Longrightarrow> ok env a \<Longrightarrow>
    \<exists>s'. run env c s = Some (fst (spec env c a), s') \<and> rel s' (snd (spec env c a)) m \<and>
      ok env (snd (spec env c a))"
begin

fun run_all :: "'e \<Rightarrow> 'c list \<Rightarrow> 's \<Rightarrow> (int list \<times> 's) option" where
  "run_all env [] s = Some ([], s)"
| "run_all env (c # cs) s = (case run env c s of None \<Rightarrow> None
     | Some (r, s') \<Rightarrow> map_option (\<lambda>(rs, s''). (r # rs, s'')) (run_all env cs s'))"

fun spec_all :: "'e \<Rightarrow> 'c list \<Rightarrow> 'a \<Rightarrow> int list \<times> 'a" where
  "spec_all env [] a = ([], a)"
| "spec_all env (c # cs) a = (let (r, a') = spec env c a; (rs, a'') = spec_all env cs a' in (r # rs, a''))"

lemma run_all_simulates:
  assumes "good env" and "list_all (ready env) cs" and "rel s a m" and "ok env a"
  shows "\<exists>s'. run_all env cs s = Some (fst (spec_all env cs a), s') \<and>
    rel s' (snd (spec_all env cs a)) m \<and> ok env (snd (spec_all env cs a))"
  using assms(2-4)
proof (induction cs arbitrary: s a)
  case (Cons c cs)
  obtain r a' where sp: "spec env c a = (r, a')" by fastforce
  obtain s1 where s1: "run env c s = Some (r, s1)" "rel s1 a' m" "ok env a'"
    using simulates [OF assms(1) _ Cons.prems(2,3), of c] Cons.prems(1) sp by auto
  obtain rs a'' where sa: "spec_all env cs a' = (rs, a'')" by fastforce
  show ?case using Cons.IH [OF _ s1(2,3)] Cons.prems(1) s1(1) sp sa by auto
qed simp

lemma run_all_returns:
  assumes "good env" and "list_all (ready env) cs" and "rel s a m" and "ok env a"
  shows "run_all env cs s \<noteq> None"
  using run_all_simulates [OF assms] by auto

end

interpretation dtasks: simulated_service xeno_ok op_ready do_op op_spec rep tasks_ok
proof
  fix env :: "'a xeno_scheme" and c and s :: "'b edf_scheme" and a m
  assume "xeno_ok env" "op_ready env c" "rep s a m" "tasks_ok env a"
  moreover obtain ts h where "a = (ts, h)" by (cases a)
  ultimately show "\<exists>s'. do_op env c s = Some (fst (op_spec env c a), s') \<and>
      rep s' (snd (op_spec env c a)) m \<and> tasks_ok env (snd (op_spec env c a))"
    using recalc_refines [of env s ts h m] recalc_ok [of env ts h] updateinfo_refines [of env s ts h m]
      goingwaitp_refines [of env s ts h m] stopwatchdog_refines [of env s ts h m]
      resetdeadline_refines [of env s ts h m] setdeadline_refines [of env s ts h m]
      create_refines [of env _ s ts h m] delete_refines [of env s ts h m] dispose_refines [of s ts h m env]
    by (cases c) auto
qed

section \<open>Sequences of operations\<close>

fun do_ops :: "'x xeno_scheme \<Rightarrow> dtask_op list \<Rightarrow> 'm edf_scheme \<Rightarrow> (int list \<times> 'm edf_scheme) option" where
  "do_ops env [] s = Some ([], s)"
| "do_ops env (c # cs) s = do {
     (r, s) \<leftarrow> do_op env c s;
     (rs, s) \<leftarrow> do_ops env cs s;
     Some (r # rs, s) }"

fun spec_ops :: "'x xeno_scheme \<Rightarrow> dtask_op list \<Rightarrow> tasks \<times> history \<Rightarrow> int list \<times> tasks \<times> history" where
  "spec_ops env [] st = ([], st)"
| "spec_ops env (c # cs) st =
     (let (r, st) = op_spec env c st; (rs, st) = spec_ops env cs st in (r # rs, st))"

lemma do_ops_run_all: "do_ops env cs s = dtasks.run_all env cs s"
  by (induction cs arbitrary: s) (auto split: option.splits simp: bind_Some_map_prod)

lemma spec_ops_spec_all: "spec_ops env cs st = dtasks.spec_all env cs st"
  by (induction cs arbitrary: st) (auto split: prod.splits)

end
