(* ===== verification/Edf_Demo.thy ===== *)
theory Edf_Demo
  imports Edf_Interface
begin

text \<open>
  A concrete external world that keeps every promise of \<open>xeno_ok\<close>, on which the witnesses
  run: tasks named A, B and C; a clock that advances 1000 ns per external call; blocks
  handed out above every block in use; every task reported with priority 50.
\<close>

definition demo_name :: "RT_TASK \<Rightarrow> char list" where
  "demo_name t = [if t = 0 then CHR ''A'' else if t = 1 then CHR ''B'' else CHR ''C'', CHR 0x00]"

definition demo_info :: RT_TASK_INFO where
  "demo_info = \<lparr>ti_name = [CHR 0x00], ti_cprio = 0\<rparr>"

definition demo_node :: "RT_DEADLINE_TASK node" where
  "demo_node = \<lparr>elt = \<lparr>deadline = 7, remain = 7, relative_deadline = 7, status = MISSED, state = 9,
       task = None, watchd = None, task_info = demo_info\<rparr>,
     hh = \<lparr>el_prev = Some 3, el_next = Some 3, hh_prev = Some 3, hh_next = Some 3, keylen = 99, hashv = 5\<rparr>\<rparr>"

definition demo_malloc :: "history \<Rightarrow> addr" where
  "demo_malloc h = foldr max (live h) 0 + 1"

definition demo :: xeno where
  "demo = \<lparr>fls = demo_fls, do_div = demo_do_div,
     rt_timer_read = (\<lambda>h. of_nat (1000 * length h)),
     rt_task_inquire = (\<lambda>h t. Inr \<lparr>ti_name = demo_name t, ti_cprio = 50\<rparr>),
     rtdm_malloc = (\<lambda>h. Some (demo_malloc h)),
     rname = demo_name, raw_info = (\<lambda>h. demo_info),
     raw_message = (\<lambda>h. replicate 24 (CHR ''#'')),
     raw_node = (\<lambda>h. demo_node)\<rparr>"

lemma demo_malloc_fresh: "demo_malloc h \<notin> set (live h)"
proof -
  have "a \<in> set xs \<Longrightarrow> a \<le> foldr max xs 0" for a and xs :: "addr list"
    by (induction xs) (auto simp: le_max_iff_disj)
  then show ?thesis unfolding demo_malloc_def using not_less_eq_eq by fastforce
qed

lemma demo_ok: "xeno_ok demo"
proof -
  have "klib_ok demo" by (rule klib_okI) (simp_all add: demo_def)
  then show ?thesis using demo_malloc_fresh
    by (auto simp: xeno_ok_def demo_def TNAME_LEN_def)
qed

lemma demo_ready: "task_ready demo t"
  by (simp add: task_ready_def rname_ok_def demo_def demo_name_def c_terminated_def TNAME_LEN_def)

text \<open>The state the module starts in, and the abstract state it represents.\<close>

definition boot :: edf where
  "boot = snd (rt_dtask_init \<lparr>heap = Map.empty, head = None, tbl = None, calls = []\<rparr>)"

lemma boot_rep: "rep boot ([], []) ()"
  using init_refines [of "\<lparr>heap = Map.empty, head = None, tbl = None, calls = []\<rparr>"] by (simp add: boot_def)

lemma boot_ok: "tasks_ok env ([], [])"
  by (simp add: init_ok live_def)

lemmas demo_eval = demo_def demo_malloc_def demo_name_def demo_info_def demo_node_def demo_simps live_def
  create_spec_def new_dtask_def create_calls_def info_block_def Let_def find_task_def dname_def
  info_at_def c_str_def recalc_spec_def active_def inquiries_def refresh_def remaining_def
  DEADLINENOTSET_def least_def greatest_def settle_def ranked_def rank_calls_def prio_of_def
  calculate_prio_def div64_64_def MAXPRIO_def MINPRIO_def locate_def info_calls_def close_with_def upd_def
  arm_def set_waiting_def

section \<open>Two registered tasks\<close>

definition demo_dtask :: "RT_TASK \<Rightarrow> u64 \<Rightarrow> u64 \<Rightarrow> u64 \<Rightarrow> addr \<Rightarrow> RT_DEADLINE_TASK" where
  "demo_dtask t d r rel w = \<lparr>deadline = d, remain = r, relative_deadline = rel, status = OK, state = 0,
     task = Some t, watchd = Some w, task_info = \<lparr>ti_name = demo_name t, ti_cprio = 50\<rparr>\<rparr>"

definition demo_ts :: tasks where
  "demo_ts = [(1, demo_dtask 0 5002000 4991000 5000000 2), (3, demo_dtask 1 3009000 2998000 3000000 4)]"

definition demo_calls :: history where
  "demo_calls = [Malloc 1, Malloc 2, Timer_read, Task_inquire 0, Timer_read, Task_inquire 0, Task_inquire 0,
     Malloc 3, Malloc 4, Timer_read, Task_inquire 1, Timer_read, Task_inquire 0, Task_inquire 0,
     Task_inquire 1, Task_inquire 1, Set_priority 0 0]"

lemma demo_run: "spec_ops demo [Create 0 5000000, Create 1 3000000] ([], []) = ([0, 0], demo_ts, demo_calls)"
  by (simp add: demo_eval demo_ts_def demo_calls_def demo_dtask_def)

lemma demo_state_ext: "\<exists>s :: 'm edf_scheme. rep s (demo_ts, demo_calls) m \<and> tasks_ok demo (demo_ts, demo_calls)"
proof -
  define s0 :: "'m edf_scheme" where "s0 = \<lparr>heap = Map.empty, head = None, tbl = None, calls = [], \<dots> = m\<rparr>"
  have r: "rep (snd (rt_dtask_init s0)) ([], []) m" using init_refines [of s0] by (simp add: s0_def)
  have "list_all (op_ready demo) [Create 0 5000000, Create 1 3000000]" by (simp add: demo_ready)
  from dtasks.run_all_simulates [OF demo_ok this r boot_ok] obtain s' where
    "rep s' (snd (spec_ops demo [Create 0 5000000, Create 1 3000000] ([], []))) m"
    "tasks_ok demo (snd (spec_ops demo [Create 0 5000000, Create 1 3000000] ([], [])))"
    unfolding spec_ops_spec_all by blast
  then show ?thesis unfolding demo_run snd_conv by blast
qed

lemma demo_state:
  obtains s :: edf where "rep s (demo_ts, demo_calls) ()" and "tasks_ok demo (demo_ts, demo_calls)"
  using demo_state_ext [of "()"] that by blast

end
