(* ===== verification/Edf_Ranking.thy ===== *)
theory Edf_Ranking
  imports Edf_Demo
begin

text \<open>
  What a recalculation does to each task: which entries it changes and how, what it tells
  the outside world, and that the priorities it hands out follow the deadlines.
\<close>

section \<open>States of the driver's table\<close>

definition edf_state :: "'x xeno_scheme \<Rightarrow> 'm edf_scheme \<Rightarrow> tasks \<Rightarrow> bool" where
  "edf_state env s ts \<longleftrightarrow> rep s (ts, calls s) (edf.more s) \<and> tasks_ok env (ts, calls s)"

lemma edf_stateI: "rep s (ts, h) m \<Longrightarrow> tasks_ok env (ts, h) \<Longrightarrow> edf_state env s ts \<and> calls s = h \<and> edf.more s = m"
  by (auto simp: edf_state_def rep_def)

lemma edf_state_boot: "edf_state env boot [] \<and> calls boot = []"
  using edf_stateI [OF boot_rep boot_ok] by blast

section \<open>Priorities in force\<close>

text \<open>The priority of a task after some external calls, when it was \<open>p\<close> before.\<close>

fun prio_after :: "RT_TASK \<Rightarrow> u32 \<Rightarrow> history \<Rightarrow> u32" where
  "prio_after t p [] = p"
| "prio_after t p (Set_priority t' p' # cs) = prio_after t (if t' = t then p' else p) cs"
| "prio_after t p (_ # cs) = prio_after t p cs"

lemma prio_after_unique:
  assumes "\<And>p'. Set_priority t p' \<in> set cs \<Longrightarrow> p' = p" and "Set_priority t p \<in> set cs \<or> p0 = p"
  shows "prio_after t p0 cs = p"
  using assms
proof (induction t p0 cs rule: prio_after.induct)
  case (2 t p0 t' q cs)
  show ?case
  proof (cases "t' = t")
    case True
    then have "q = p" using "2.prems"(1) [of q] by simp
    then show ?thesis using "2.IH" "2.prems"(1) True by simp
  qed (use 2 in simp)
qed simp_all

section \<open>The extremes\<close>

lemma foldl_least:
  "foldl (\<lambda>m (a, d). if active d then min m (remain d) else m) m ts \<le> m"
  "(a, d) \<in> set ts \<Longrightarrow> active d \<Longrightarrow>
     foldl (\<lambda>m (a, d). if active d then min m (remain d) else m) m ts \<le> remain d"
proof -
  show le: "foldl (\<lambda>m (a, d). if active d then min m (remain d) else m) m ts \<le> m" for m ts
  proof (induction ts arbitrary: m)
    case (Cons x ts)
    have "foldl (\<lambda>m (a, d). if active d then min m (remain d) else m) (min m (remain (snd x))) ts
        \<le> min m (remain (snd x))" by (rule Cons.IH)
    also have "\<dots> \<le> m" by simp
    finally show ?case using Cons.IH [of m] by (cases x) auto
  qed simp
  show "(a, d) \<in> set ts \<Longrightarrow> active d \<Longrightarrow>
     foldl (\<lambda>m (a, d). if active d then min m (remain d) else m) m ts \<le> remain d"
  proof (induction ts arbitrary: m)
    case (Cons x ts)
    then show ?case using le [of "min m (remain d)" ts]
      by (cases x) (auto intro: order_trans)
  qed simp
qed

lemma foldl_greatest:
  "m \<le> foldl (\<lambda>m (a, d). if active d then max m (remain d) else m) m ts"
  "(a, d) \<in> set ts \<Longrightarrow> active d \<Longrightarrow>
     remain d \<le> foldl (\<lambda>m (a, d). if active d then max m (remain d) else m) m ts"
  "foldl (\<lambda>m (a, d). if active d then max m (remain d) else m) m ts = m \<or>
     (\<exists>(a, d)\<in>set ts. active d \<and>
       foldl (\<lambda>m (a, d). if active d then max m (remain d) else m) m ts = remain d)"
proof -
  show ge: "m \<le> foldl (\<lambda>m (a, d). if active d then max m (remain d) else m) m ts" for m ts
  proof (induction ts arbitrary: m)
    case (Cons x ts)
    have "m \<le> max m (remain (snd x))" by simp
    also have "\<dots> \<le> foldl (\<lambda>m (a, d). if active d then max m (remain d) else m) (max m (remain (snd x))) ts"
      by (rule Cons.IH)
    finally show ?case using Cons.IH [of m] by (cases x) auto
  qed simp
  show "(a, d) \<in> set ts \<Longrightarrow> active d \<Longrightarrow>
     remain d \<le> foldl (\<lambda>m (a, d). if active d then max m (remain d) else m) m ts"
  proof (induction ts arbitrary: m)
    case (Cons x ts)
    then show ?case using ge [of "max m (remain d)" ts]
      by (cases x) (auto intro: order_trans)
  qed simp
  show "foldl (\<lambda>m (a, d). if active d then max m (remain d) else m) m ts = m \<or>
     (\<exists>(a, d)\<in>set ts. active d \<and>
       foldl (\<lambda>m (a, d). if active d then max m (remain d) else m) m ts = remain d)"
  proof (induction ts arbitrary: m)
    case (Cons x ts)
    show ?case using Cons.IH [of m] Cons.IH [of "max m (remain (snd x))"]
      by (cases x) (auto simp: max_def split: if_splits)
  qed simp
qed

lemma extremes:
  assumes "(a, d) \<in> set ts" and "active d"
  shows "least ts \<le> remain d" "remain d \<le> greatest ts"
  using foldl_least(2) [OF assms] foldl_greatest(2) [OF assms] by (simp_all add: least_def greatest_def)

lemma greatest_attained: "greatest ts = 0 \<or> (\<exists>(a, d)\<in>set ts. active d \<and> greatest ts = remain d)"
  unfolding greatest_def by (rule foldl_greatest(3))

section \<open>Each task after a recalculation\<close>

text \<open>What becomes of an entry: nothing if it is not active.\<close>

definition recalced :: "u64 \<Rightarrow> RT_TASK_INFO \<Rightarrow> RT_DEADLINE_TASK \<Rightarrow> RT_DEADLINE_TASK" where
  "recalced now info d = (if active d
     then d\<lparr>remain := remaining now d, task_info := info,
            status := if remaining now d = 0 then MISSED else status d\<rparr>
     else d)"

lemma refresh_all_map:
  "\<exists>info. refresh_all env now h ts = map (\<lambda>(a, d).
     (a, if active d then d\<lparr>remain := remaining now d, task_info := info a\<rparr> else d)) ts \<and>
     (\<forall>(a, d)\<in>set ts. active d \<longrightarrow> (\<exists>h'. info a = info_at env h' (the (task d)) (task_info d)))"
  if "distinct (map fst ts)"
  using that
proof (induction env now h ts rule: refresh_all.induct)
  case (2 env now h a d ts)
  let ?h = "if active d then h @ [Task_inquire (the (task d)), Task_inquire (the (task d))] else h"
  obtain info where i: "refresh_all env now ?h ts = map (\<lambda>(a, d).
      (a, if active d then d\<lparr>remain := remaining now d, task_info := info a\<rparr> else d)) ts"
    "\<forall>(a, d)\<in>set ts. active d \<longrightarrow> (\<exists>h'. info a = info_at env h' (the (task d)) (task_info d))"
    using 2 by (cases "active d") auto
  let ?i = "info(a := info_at env (h @ [Task_inquire (the (task d))]) (the (task d)) (task_info d))"
  have a: "a \<notin> fst ` set ts" using "2.prems" by auto
  have "refresh_all env now ?h ts = map (\<lambda>(b, d).
      (b, if active d then d\<lparr>remain := remaining now d, task_info := ?i b\<rparr> else d)) ts"
    unfolding i(1) using a by (force intro: map_cong)
  moreover have "\<forall>(b, e)\<in>set ((a, d) # ts). active e \<longrightarrow>
      (\<exists>h'. ?i b = info_at env h' (the (task e)) (task_info e))"
  proof (intro ballI, clarify)
    fix b e assume b: "(b, e) \<in> set ((a, d) # ts)" "active e"
    show "\<exists>h'. ?i b = info_at env h' (the (task e)) (task_info e)"
    proof (cases "b = a")
      case True
      then show ?thesis using b a by force
    next
      case False
      then have "(b, e) \<in> set ts" using b by simp
      then show ?thesis using i(2) b(2) False by fastforce
    qed
  qed
  ultimately show ?case
    by (intro exI [of _ ?i]) (auto simp: refresh_def split: if_splits)
qed simp

lemma settle_refreshed:
  "settle (if active d then d\<lparr>remain := remaining now d, task_info := info\<rparr> else d) = recalced now info d"
proof (cases "active d")
  case True
  then have "active (d\<lparr>remain := remaining now d, task_info := info\<rparr>)" by (simp add: active_def)
  then show ?thesis using True by (cases "status d") (auto simp: settle_def recalced_def ranked_def)
qed (simp add: settle_def recalced_def ranked_def)

lemma recalc_entries:
  assumes "xeno_ok env" and "tasks_ok env (ts, h)"
  shows "\<exists>info. fst (recalc_spec env (ts, h)) =
      map (\<lambda>(a, d). (a, recalced (rt_timer_read env h) (info a) d)) ts \<and>
    refresh_all env (rt_timer_read env h) (h @ [Timer_read]) ts = map (\<lambda>(a, d).
      (a, if active d then d\<lparr>remain := remaining (rt_timer_read env h) d, task_info := info a\<rparr> else d)) ts \<and>
    (\<forall>(a, d)\<in>set ts. active d \<longrightarrow> c_str (ti_name (info a)) = c_str (rname env (the (task d))))"
proof -
  let ?now = "rt_timer_read env h"
  obtain info where i: "refresh_all env ?now (h @ [Timer_read]) ts = map (\<lambda>(a, d).
      (a, if active d then d\<lparr>remain := remaining ?now d, task_info := info a\<rparr> else d)) ts"
    "\<forall>(a, d)\<in>set ts. active d \<longrightarrow> (\<exists>h'. info a = info_at env h' (the (task d)) (task_info d))"
    using refresh_all_map [OF tasks_ok_distinct [OF assms(2)]] by blast
  have "c_str (ti_name (info a)) = c_str (rname env (the (task d)))" if ad: "(a, d) \<in> set ts" "active d" for a d
  proof -
    obtain h' where "info a = info_at env h' (the (task d)) (task_info d)" using i(2) ad by fastforce
    moreover obtain t where "task d = Some t" "c_str (dname d) = c_str (rname env t)"
      using tasks_ok_member [OF assms(2) ad(1)] by blast
    ultimately show ?thesis using info_at_name [OF assms(1)] by (simp add: dname_def)
  qed
  moreover have "fst (recalc_spec env (ts, h)) = map (\<lambda>(a, d). (a, recalced ?now (info a) d)) ts"
    by (cases "ts = []") (simp_all add: recalc_spec_def Let_def i(1) settle_refreshed case_prod_beta comp_def)
  ultimately show ?thesis using i(1) by blast
qed

section \<open>The external calls of a recalculation\<close>

text \<open>The tasks that the notices name.\<close>

fun notices :: "history \<Rightarrow> char list list" where
  "notices [] = []"
| "notices (Queue_write msg # cs) = c_str msg # notices cs"
| "notices (_ # cs) = notices cs"

lemma notices_append [simp]: "notices (cs @ ds) = notices cs @ notices ds"
  by (induction cs rule: notices.induct) auto

lemma notices_inquiries [simp]: "notices (inquiries ts) = []"
  by (induction ts) (auto simp: inquiries_def)

lemma rank_all_calls:
  "\<exists>rs. rank_all env mn mx h ts = h @ rs \<and>
    (\<forall>t p. Set_priority t p \<in> set rs \<longleftrightarrow> (\<exists>(a, d)\<in>set ts. ranked d \<and> t = the (task d) \<and>
        p = prio_of env mn mx d \<and> p \<noteq> ti_cprio (task_info d))) \<and>
    notices rs = map (\<lambda>(a, d). c_str (rname env (the (task d)))) (filter (\<lambda>(a, d). ranked d \<and> remain d = 0) ts)"
proof (induction ts arbitrary: h)
  case (Cons ad ts)
  obtain a d where ad: "ad = (a, d)" by fastforce
  obtain rs where "rank_all env mn mx (h @ rank_calls env mn mx h d) ts = (h @ rank_calls env mn mx h d) @ rs"
    "\<forall>t p. Set_priority t p \<in> set rs \<longleftrightarrow> (\<exists>(a, d)\<in>set ts. ranked d \<and> t = the (task d) \<and>
        p = prio_of env mn mx d \<and> p \<noteq> ti_cprio (task_info d))"
    "notices rs = map (\<lambda>(a, d). c_str (rname env (the (task d)))) (filter (\<lambda>(a, d). ranked d \<and> remain d = 0) ts)"
    using Cons.IH by blast
  then show ?case
    by (intro exI [of _ "rank_calls env mn mx h d @ rs"])
       (auto simp: ad rank_calls_def c_str_notice)
qed simp

lemma Set_priority_inquiries [simp]: "Set_priority t p \<notin> set (inquiries ts)"
  by (auto simp: inquiries_def split: if_splits)

lemma recalc_calls:
  "\<exists>cs. snd (recalc_spec env (ts, h)) = h @ cs \<and>
    (let ts1 = refresh_all env (rt_timer_read env h) (h @ [Timer_read]) ts in
     (\<forall>t p. Set_priority t p \<in> set cs \<longleftrightarrow> (\<exists>(a, d)\<in>set ts1. ranked d \<and> t = the (task d) \<and>
        p = prio_of env (least ts1) (greatest ts1) d \<and> p \<noteq> ti_cprio (task_info d))) \<and>
     notices cs = map (\<lambda>(a, d). c_str (rname env (the (task d)))) (filter (\<lambda>(a, d). ranked d \<and> remain d = 0) ts1))"
proof (cases "ts = []")
  case False
  define ts1 where "ts1 = refresh_all env (rt_timer_read env h) (h @ [Timer_read]) ts"
  define h1 where "h1 = (h @ [Timer_read]) @ inquiries ts"
  obtain rs where rs: "rank_all env (least ts1) (greatest ts1) h1 ts1 = h1 @ rs"
    "\<And>t p. Set_priority t p \<in> set rs \<longleftrightarrow> (\<exists>(a, d)\<in>set ts1. ranked d \<and> t = the (task d) \<and>
        p = prio_of env (least ts1) (greatest ts1) d \<and> p \<noteq> ti_cprio (task_info d))"
    "notices rs = map (\<lambda>(a, d). c_str (rname env (the (task d)))) (filter (\<lambda>(a, d). ranked d \<and> remain d = 0) ts1)"
    using rank_all_calls [of env "least ts1" "greatest ts1" h1 ts1] by (elim exE conjE) simp
  show ?thesis
    unfolding Let_def ts1_def [symmetric]
  proof (intro exI conjI allI)
    show "snd (recalc_spec env (ts, h)) = h @ (Timer_read # inquiries ts @ rs)"
      using False rs(1) by (simp add: recalc_spec_def Let_def ts1_def h1_def)
    show "Set_priority t p \<in> set (Timer_read # inquiries ts @ rs) \<longleftrightarrow> (\<exists>(a, d)\<in>set ts1. ranked d \<and>
        t = the (task d) \<and> p = prio_of env (least ts1) (greatest ts1) d \<and> p \<noteq> ti_cprio (task_info d))" for t p
      using rs(2) by simp
    show "notices (Timer_read # inquiries ts @ rs) =
        map (\<lambda>(a, d). c_str (rname env (the (task d)))) (filter (\<lambda>(a, d). ranked d \<and> remain d = 0) ts1)"
      using rs(3) by simp
  qed
qed (simp add: recalc_spec_def)

section \<open>The priorities in force afterwards\<close>

definition in_force :: "history \<Rightarrow> tasks \<Rightarrow> addr \<Rightarrow> u32" where
  "in_force cs ts a = (let d = the (map_of ts a) in prio_after (the (task d)) (ti_cprio (task_info d)) cs)"

lemma same_task:
  assumes "tasks_ok env (ts, h)" and "(a, d) \<in> set ts" and "(b, e) \<in> set ts" and "the (task d) = the (task e)"
  shows "a = b \<and> d = e"
proof -
  have "c_str (dname d) = c_str (dname e)"
    using tasks_ok_member [OF assms(1,2)] tasks_ok_member [OF assms(1,3)] assms(4) by (metis option.sel)
  then have "a = b" using find_task_eq [OF assms(1,2)] find_task_eq [OF assms(1,3)] by simp
  then show ?thesis using located_map [OF assms(1,2)] located_map [OF assms(1,3)] by simp
qed

lemma remaining_mono: "deadline d \<le> deadline e \<Longrightarrow> remaining now d \<le> remaining now e"
  by (auto simp: remaining_def word_le_nat_alt word_less_nat_alt unat_sub_if')

lemma recalc_in_force:
  assumes x: "xeno_ok env" and ok: "tasks_ok env (ts, h)" and cs: "snd (recalc_spec env (ts, h)) = h @ cs"
    and span: "\<And>c e. (c, e) \<in> set ts \<Longrightarrow> active e \<Longrightarrow> 50 * unat (remaining (rt_timer_read env h) e) < 2 ^ 64"
  shows "\<exists>mn mx. prio_span_ok mn mx \<and> (\<forall>(a, d)\<in>set ts. ranked d \<longrightarrow>
    mn \<le> remaining (rt_timer_read env h) d \<and> remaining (rt_timer_read env h) d \<le> mx \<and>
    calculate_prio env (remaining (rt_timer_read env h) d) mn mx =
      Some (in_force cs (fst (recalc_spec env (ts, h))) a))"
proof -
  define now where "now = rt_timer_read env h"
  define ts1 where "ts1 = refresh_all env now (h @ [Timer_read]) ts"
  define mn mx where "mn = least ts1" and "mx = greatest ts1"
  define up where "up info d = (if active d then d\<lparr>remain := remaining now d, task_info := info\<rparr> else d)" for info d
  obtain info where i: "fst (recalc_spec env (ts, h)) = map (\<lambda>(a, d). (a, recalced now (info a) d)) ts"
    "ts1 = map (\<lambda>(a, d). (a, up (info a) d)) ts"
    using recalc_entries [OF x ok] unfolding now_def ts1_def up_def by blast
  obtain cs' where c: "snd (recalc_spec env (ts, h)) = h @ cs'"
    "\<forall>t p. Set_priority t p \<in> set cs' \<longleftrightarrow> (\<exists>(a, d)\<in>set ts1. ranked d \<and> t = the (task d) \<and>
        p = prio_of env mn mx d \<and> p \<noteq> ti_cprio (task_info d))"
    using recalc_calls [of env ts h] unfolding now_def [symmetric] ts1_def [symmetric] Let_def mn_def mx_def by blast
  have cs': "cs' = cs" using c(1) cs by simp
  have up: "active (up j d) = active d" "ranked (up j d) = ranked d" "task (up j d) = task d" for j d
    by (auto simp: up_def active_def ranked_def)
  have dist: "distinct (map fst ts)" by (rule tasks_ok_distinct [OF ok])
  have ent: "calculate_prio env (remaining now d) mn mx = Some (in_force cs (fst (recalc_spec env (ts, h))) a) \<and>
      mn \<le> remaining now d \<and> remaining now d \<le> mx"
    if ad: "(a, d) \<in> set ts" "ranked d" for a d
  proof -
    let ?d = "up (info a) d" and ?t = "the (task d)"
    have act: "active d" using ad(2) by (simp add: ranked_def)
    have d1: "(a, ?d) \<in> set ts1" "remain ?d = remaining now d" "task_info ?d = info a"
      using ad act by (force simp: i(2), simp_all add: up_def)
    have "map_of (fst (recalc_spec env (ts, h))) a = Some (recalced now (info a) d)"
      unfolding i(1) using ad(1) dist by (intro map_of_is_SomeI) (force simp: comp_def case_prod_beta)+
    then have f: "in_force cs (fst (recalc_spec env (ts, h))) a = prio_after ?t (ti_cprio (info a)) cs"
      using act by (simp add: in_force_def recalced_def)
    have p: "calculate_prio env (remaining now d) mn mx = Some (prio_of env mn mx ?d)"
      using calculate_prio_total [of env "remaining now d" mn mx] x d1(2) by (auto simp: prio_of_def xeno_ok_def)
    have "prio_after ?t (ti_cprio (info a)) cs = prio_of env mn mx ?d"
    proof (rule prio_after_unique)
      fix q assume "Set_priority ?t q \<in> set cs"
      then obtain b e where b: "(b, e) \<in> set ts" "?t = the (task e)" "q = prio_of env mn mx (up (info b) e)"
        using c(2) cs' by (auto simp: i(2) up)
      with same_task [OF ok ad(1) b(1,2)] show "q = prio_of env mn mx ?d" by simp
    next
      show "Set_priority ?t (prio_of env mn mx ?d) \<in> set cs \<or> ti_cprio (info a) = prio_of env mn mx ?d"
      proof (cases "prio_of env mn mx ?d = ti_cprio (info a)")
        case False
        then have "\<exists>(b, e)\<in>set ts1. ranked e \<and> ?t = the (task e) \<and>
            prio_of env mn mx ?d = prio_of env mn mx e \<and> prio_of env mn mx ?d \<noteq> ti_cprio (task_info e)"
          using ad(2) d1(3) up(2,3) by (intro bexI [OF _ d1(1)]) simp
        then show ?thesis using c(2) cs' by blast
      qed simp
    qed
    then show ?thesis using f p extremes [OF d1(1)] d1(2) act up(1) by (simp add: mn_def mx_def)
  qed
  have "50 * unat mx < 2 ^ 64"
  proof (cases "greatest ts1 = 0")
    case False
    then obtain a e where e: "(a, e) \<in> set ts1" "active e" "mx = remain e"
      using greatest_attained [of ts1] by (auto simp: mx_def)
    then obtain d where d: "(a, d) \<in> set ts" "e = up (info a) d" by (auto simp: i(2))
    then have "active d" "mx = remaining now d" using e up(1) by (simp_all add: up_def split: if_splits)
    then show ?thesis using span [OF d(1)] by (simp add: now_def)
  qed (simp add: mx_def)
  then have "prio_span_ok mn mx" by (simp add: prio_span_ok_def)
  then show ?thesis using ent unfolding now_def by blast
qed

end
