(* ===== verification/Edf_Correct.thy ===== *)
theory Edf_Correct
  imports Edf_Ranking
begin

text \<open>
  The properties of the deadline-task layer, stated of the operations of
  edfomai-drv-data.c on states \<open>s\<close> of the driver whose table holds the tasks \<open>ts\<close>.
\<close>

section \<open>From the specification to the code\<close>

lemma edf_stateD:
  assumes "edf_state env s ts"
  shows "rep s (ts, calls s) (edf.more s)" and "tasks_ok env (ts, calls s)"
  using assms by (simp_all add: edf_state_def)

lemma edf_state_next:
  assumes "rep s' st m" and "tasks_ok env st"
  shows "edf_state env s' (fst st)" and "calls s' = snd st"
  using assms edf_stateI [of s' "fst st" "snd st" m env] by auto

lemma recalc_run:
  assumes "xeno_ok env" and "edf_state env s ts"
  shows "\<exists>s' cs. rt_dtask_recalculateprio env s = Some (0, s') \<and>
    edf_state env s' (fst (recalc_spec env (ts, calls s))) \<and>
    snd (recalc_spec env (ts, calls s)) = calls s @ cs \<and> calls s' = calls s @ cs"
proof -
  obtain s' where s': "rt_dtask_recalculateprio env s = Some (0, s')"
    "rep s' (recalc_spec env (ts, calls s)) (edf.more s)"
    using recalc_refines [OF assms(1) edf_stateD [OF assms(2)]] by blast
  have "tasks_ok env (recalc_spec env (ts, calls s))"
    using recalc_ok [OF assms(1) edf_stateD(2) [OF assms(2)]] .
  note next_state = edf_state_next [OF s'(2) this]
  show ?thesis using s'(1) next_state recalc_spec_calls [of env ts "calls s"] by auto
qed

lemma refreshed_fields:
  "ranked (if active d then d\<lparr>remain := r, task_info := j\<rparr> else d) = ranked d"
  "task (if active d then d\<lparr>remain := r, task_info := j\<rparr> else d) = task d"
  "ranked d \<Longrightarrow> remain (if active d then d\<lparr>remain := r, task_info := j\<rparr> else d) = r"
  by (auto simp: ranked_def active_def)

lemma demo_edf_state: "\<exists>s :: edf. edf_state demo s demo_ts \<and> calls s = demo_calls"
  using demo_state edf_stateI by metis

section \<open>Priority recalculation\<close>

text \<open>C1: Earliest deadline first. After a recalculation, of any two tasks that are ranked
  (a deadline set, running, not yet missed), the one whose absolute deadline is not later has
  at least the priority of the other one; the priority in force is the one the recalculation
  set, or the one the task had if it set none. The hypothesis excludes time spans above
  2^64/50 ns (over eleven years), where the 64-bit product of the code wraps.\<close>

theorem recalculateprio_edf:
  assumes "xeno_ok env" and "edf_state env s ts"
    and "(a, d) \<in> set ts" "ranked d" and "(b, e) \<in> set ts" "ranked e" and "deadline d \<le> deadline e"
    and "\<forall>(c, x)\<in>set ts. active x \<longrightarrow> 50 * unat (remaining (rt_timer_read env (calls s)) x) < 2 ^ 64"
  shows "\<exists>s' ts' cs. rt_dtask_recalculateprio env s = Some (0, s') \<and> edf_state env s' ts' \<and>
    calls s' = calls s @ cs \<and> in_force cs ts' b \<le> in_force cs ts' a \<and> in_force cs ts' a \<le> MAXPRIO"
proof -
  let ?now = "rt_timer_read env (calls s)" and ?ts = "fst (recalc_spec env (ts, calls s))"
  obtain s' cs where run: "rt_dtask_recalculateprio env s = Some (0, s')" "edf_state env s' ?ts"
    "snd (recalc_spec env (ts, calls s)) = calls s @ cs" "calls s' = calls s @ cs"
    using recalc_run [OF assms(1,2)] by blast
  have "\<And>c x. (c, x) \<in> set ts \<Longrightarrow> active x \<Longrightarrow> 50 * unat (remaining ?now x) < 2 ^ 64"
    using assms(8) by blast
  from recalc_in_force [OF assms(1) edf_stateD(2) [OF assms(2)] run(3) this]
  obtain mn mx where p: "prio_span_ok mn mx"
    "mn \<le> remaining ?now d" "remaining ?now e \<le> mx" "remaining ?now d \<le> mx"
    "calculate_prio env (remaining ?now d) mn mx = Some (in_force cs ?ts a)"
    "calculate_prio env (remaining ?now e) mn mx = Some (in_force cs ?ts b)"
    using assms(3-6) by fastforce
  have k: "klib_ok env \<and> prio_span_ok mn mx" using assms(1) p(1) by (simp add: xeno_ok_def)
  have "in_force cs ?ts b \<le> in_force cs ?ts a"
    by (rule cp.prio_antitone [OF k p(2) remaining_mono [OF assms(7)] p(3,5,6)])
  moreover have "in_force cs ?ts a \<le> MAXPRIO" using cp.prio_bounds [OF k p(2,4)] p(5) by auto
  ultimately show ?thesis using run(1,2,4) by blast
qed

theorem recalculateprio_edf_witness:
  "\<exists>s s' ts' cs. edf_state demo (s :: edf) demo_ts \<and> rt_dtask_recalculateprio demo s = Some (0, s') \<and>
    edf_state demo s' ts' \<and> calls s' = calls s @ cs \<and> in_force cs ts' 1 \<le> in_force cs ts' 3"
proof -
  obtain s :: edf where s: "edf_state demo s demo_ts" "calls s = demo_calls" using demo_edf_state by blast
  let ?d = "demo_dtask 1 3009000 2998000 3000000 4" and ?e = "demo_dtask 0 5002000 4991000 5000000 2"
  have m: "(3, ?d) \<in> set demo_ts" "(1, ?e) \<in> set demo_ts" "ranked ?d" "ranked ?e" "deadline ?d \<le> deadline ?e"
    by (simp_all add: demo_ts_def demo_dtask_def ranked_def active_def DEADLINENOTSET_def)
  have "\<forall>(c, x)\<in>set demo_ts. active x \<longrightarrow> 50 * unat (remaining (rt_timer_read demo (calls s)) x) < 2 ^ 64"
    by (simp add: s(2) demo_ts_def demo_dtask_def demo_def demo_calls_def remaining_def)
  from recalculateprio_edf [OF demo_ok s(1) m(1,3,2,4,5) this] show ?thesis using s(1) by blast
qed

text \<open>C4: Deadlines missed. A recalculation marks as missed exactly the active tasks whose
  deadline is not in the future, leaves every other status alone, and sends one notice for
  each task it newly marks, in the order of registration.\<close>

theorem recalculateprio_missed:
  assumes "xeno_ok env" and "edf_state env s ts"
  shows "\<exists>s' ts' cs. rt_dtask_recalculateprio env s = Some (0, s') \<and> edf_state env s' ts' \<and>
    calls s' = calls s @ cs \<and>
    map (\<lambda>(a, d). (a, status d)) ts' = map (\<lambda>(a, d). (a,
      if active d \<and> deadline d \<le> rt_timer_read env (calls s) then MISSED else status d)) ts \<and>
    notices cs = map (\<lambda>(a, d). c_str (rname env (the (task d))))
      (filter (\<lambda>(a, d). ranked d \<and> deadline d \<le> rt_timer_read env (calls s)) ts)"
proof -
  let ?now = "rt_timer_read env (calls s)" and ?ts = "fst (recalc_spec env (ts, calls s))"
  let ?h = "calls s @ [Timer_read]"
  obtain s' cs where run: "rt_dtask_recalculateprio env s = Some (0, s')" "edf_state env s' ?ts"
    "snd (recalc_spec env (ts, calls s)) = calls s @ cs" "calls s' = calls s @ cs"
    using recalc_run [OF assms] by blast
  obtain info where i: "?ts = map (\<lambda>(a, d). (a, recalced ?now (info a) d)) ts"
    "refresh_all env ?now ?h ts = map (\<lambda>(a, d).
      (a, if active d then d\<lparr>remain := remaining ?now d, task_info := info a\<rparr> else d)) ts"
    using recalc_entries [OF assms(1) edf_stateD(2) [OF assms(2)]] by blast
  have late: "remaining ?now d = 0 \<longleftrightarrow> deadline d \<le> ?now" for d
    by (auto simp: remaining_def)
  have "map (\<lambda>(a, d). (a, status d)) ?ts = map (\<lambda>(a, d). (a,
      if active d \<and> deadline d \<le> ?now then MISSED else status d)) ts"
    unfolding i(1) by (auto simp: recalced_def late)
  moreover have "notices cs = map (\<lambda>(a, d). c_str (rname env (the (task d))))
      (filter (\<lambda>(a, d). ranked d \<and> remain d = 0) (refresh_all env ?now ?h ts))"
    using recalc_calls [of env ts "calls s"] run(3) by (auto simp: Let_def)
  moreover have "\<dots> = map (\<lambda>(a, d). c_str (rname env (the (task d))))
      (filter (\<lambda>(a, d). ranked d \<and> deadline d \<le> ?now) ts)"
    unfolding i(2) by (simp add: filter_map comp_def case_prod_unfold refreshed_fields late cong: conj_cong)
  ultimately show ?thesis using run(1,2,4) by metis
qed

theorem recalculateprio_missed_witness:
  "\<exists>s s' ts' cs. edf_state demo (s :: edf) demo_ts \<and> rt_dtask_recalculateprio demo s = Some (0, s') \<and>
    edf_state demo s' ts' \<and> calls s' = calls s @ cs \<and> notices cs = []"
proof -
  obtain s :: edf where s: "edf_state demo s demo_ts" "calls s = demo_calls" using demo_edf_state by blast
  have "filter (\<lambda>(a, d). ranked d \<and> deadline d \<le> rt_timer_read demo (calls s)) demo_ts = []"
    by (simp add: s(2) demo_ts_def demo_dtask_def demo_def demo_calls_def)
  with recalculateprio_missed [OF demo_ok s(1)] s(1) show ?thesis by auto
qed

text \<open>Tasks that wait or have no deadline are left alone: a recalculation changes no field
  of a task that is not active, and sets the priority of ranked tasks only. The table keeps
  its tasks, their order and their names.\<close>

theorem recalculateprio_idle:
  assumes "xeno_ok env" and "edf_state env s ts" and "(a, d) \<in> set ts"
  shows "\<exists>s' ts' cs. rt_dtask_recalculateprio env s = Some (0, s') \<and> edf_state env s' ts' \<and>
    calls s' = calls s @ cs \<and> core ts' = core ts \<and>
    (\<not> active d \<longrightarrow> (a, d) \<in> set ts') \<and>
    (\<not> ranked d \<longrightarrow> (\<forall>p. Set_priority (the (task d)) p \<notin> set cs))"
proof -
  let ?now = "rt_timer_read env (calls s)" and ?ts = "fst (recalc_spec env (ts, calls s))"
  let ?h = "calls s @ [Timer_read]"
  note ok = edf_stateD(2) [OF assms(2)]
  obtain s' cs where run: "rt_dtask_recalculateprio env s = Some (0, s')" "edf_state env s' ?ts"
    "snd (recalc_spec env (ts, calls s)) = calls s @ cs" "calls s' = calls s @ cs"
    using recalc_run [OF assms(1,2)] by blast
  obtain info where i: "?ts = map (\<lambda>(a, d). (a, recalced ?now (info a) d)) ts"
    "refresh_all env ?now ?h ts = map (\<lambda>(a, d).
      (a, if active d then d\<lparr>remain := remaining ?now d, task_info := info a\<rparr> else d)) ts"
    using recalc_entries [OF assms(1) ok] by blast
  have "(a, recalced ?now (info a) d) \<in> set ?ts" unfolding i(1) using assms(3) by force
  then have "\<not> active d \<longrightarrow> (a, d) \<in> set ?ts" unfolding recalced_def by (auto simp del: recalc_spec_live)
  moreover have "Set_priority (the (task d)) p \<notin> set cs" if "\<not> ranked d" for p
  proof
    assume "Set_priority (the (task d)) p \<in> set cs"
    then have "\<exists>(b, e)\<in>set (refresh_all env ?now ?h ts). ranked e \<and> the (task d) = the (task e)"
      using recalc_calls [of env ts "calls s"] run(3) unfolding Let_def by fastforce
    then obtain b e where "(b, e) \<in> set ts" "ranked e" "the (task d) = the (task e)"
      unfolding i(2) by (auto simp: ranked_def active_def split: if_splits)
    then show False using same_task [OF ok assms(3)] that by blast
  qed
  ultimately show ?thesis using run(1,2,4) recalc_core [OF assms(1) ok] by blast
qed

theorem recalculateprio_idle_witness:
  "\<exists>s s' ts' cs. edf_state demo (s :: edf) demo_ts \<and> rt_dtask_recalculateprio demo s = Some (0, s') \<and>
    edf_state demo s' ts' \<and> calls s' = calls s @ cs \<and> core ts' = core demo_ts"
proof -
  obtain s :: edf where s: "edf_state demo s demo_ts" using demo_edf_state by blast
  have "(1, demo_dtask 0 5002000 4991000 5000000 2) \<in> set demo_ts" by (simp add: demo_ts_def)
  from recalculateprio_idle [OF demo_ok s this] show ?thesis using s by blast
qed

end
