(* ===== verification/Edf_Notice.thy ===== *)
theory Edf_Notice
  imports Edf_Demo
begin

text \<open>
  The message that \<open>deadline_missed\<close> writes to the queue: what it contains, and the names
  for which building it overruns the buffer on the stack.
\<close>

lemma copy_rname_long:
  assumes "TNAME_LEN \<le> c_strlen nm" and "length msg = TNAME_LEN" and "i \<le> TNAME_LEN"
  shows "copy_rname nm (take i nm @ drop i msg) i = Some (take TNAME_LEN nm, TNAME_LEN)"
  using assms(3)
proof (induction "TNAME_LEN - i" arbitrary: i)
  case 0
  then show ?case using assms(2) by (subst copy_rname.simps) simp
next
  case (Suc k)
  then have i: "i < c_strlen nm" "i < length nm" "i < TNAME_LEN"
    using assms(1) c_strlen_le [of nm] by auto
  have "(take i nm @ drop i msg)[i := nm ! i] = take (Suc i) nm @ drop (Suc i) msg"
    using i assms(2) by (simp add: list_update_append take_Suc_conv_app_nth Cons_nth_drop_Suc [symmetric])
  then show ?case using Suc i c_strlen_nth [OF i(1)] by (subst copy_rname.simps) simp
qed

text \<open>C35: The buffer of the message about a missed deadline. A name shorter than the 24 bytes of
  the buffer is sent whole and terminated, followed by whatever the stack held there; a name
  of 24 characters or more makes the code write its terminator one byte past the buffer.\<close>

theorem deadline_missed_buffer:
  assumes "xeno_ok env" and "c_terminated (rname env t)"
  shows "if c_strlen (rname env t) < TNAME_LEN
    then \<exists>msg. deadline_missed env t s = Some (emit (Queue_write msg) s) \<and> length msg = TNAME_LEN \<and>
      c_str msg = c_str (rname env t) \<and>
      drop (Suc (c_strlen (rname env t))) msg = drop (Suc (c_strlen (rname env t))) (raw_message env (calls s))
    else deadline_missed env t s = None"
proof -
  have l: "length (raw_message env (calls s)) = TNAME_LEN" using assms(1) by (simp add: xeno_ok_def)
  show ?thesis
  proof (cases "c_strlen (rname env t) < TNAME_LEN")
    case True
    have "length (notice env (calls s) t) = TNAME_LEN"
      "drop (Suc (c_strlen (rname env t))) (notice env (calls s) t) =
        drop (Suc (c_strlen (rname env t))) (raw_message env (calls s))"
      using True l by (simp_all add: notice_def c_strlen_def)
    then show ?thesis using True deadline_missed_short [OF assms(2) True l] c_str_notice [of env "calls s" t] by auto
  next
    case False
    then show ?thesis using copy_rname_long [OF _ l, of "rname env t" 0] by (simp add: deadline_missed_def)
  qed
qed

theorem deadline_missed_buffer_witness:
  "\<exists>env :: xeno. c_strlen (rname env 5) = 24 \<and> deadline_missed env 5 boot = None"
proof -
  let ?nm = "replicate 24 (CHR ''x'') @ [CHR 0x00]"
  let ?env = "demo\<lparr>rname := \<lambda>t. ?nm, rt_task_inquire := \<lambda>h t. Inr \<lparr>ti_name = ?nm, ti_cprio = 50\<rparr>\<rparr>"
  have "c_strlen ?nm = 24" "c_terminated ?nm"
    by (simp_all add: c_strlen_def c_str_def c_terminated_def numeral_eq_Suc)
  moreover have "xeno_ok ?env" using demo_ok by (simp add: xeno_ok_def klib_ok_def)
  ultimately have "c_strlen (rname ?env 5) = 24" "deadline_missed ?env 5 boot = None"
    using deadline_missed_buffer [of ?env 5 boot] by (simp_all add: TNAME_LEN_def)
  then show ?thesis by blast
qed

end
