(* ===== verification/Edf_Ops.thy ===== *)
theory Edf_Ops
  imports Edf_Correct
begin

text \<open>
  What each operation on one task does to the table, to its memory and to later
  recalculations, for tasks that are registered and for tasks that are not.
\<close>

section \<open>Lookups by name\<close>

abbreviation tname :: "'x rtos_scheme \<Rightarrow> RT_TASK \<Rightarrow> char list" where
  "tname env t \<equiv> c_str (rname env t)"

lemma locate_ready:
  assumes "xeno_ok env" and "task_ready env t"
  shows "locate env t (ts, h) = find_task (tname env t) ts"
proof -
  have "\<exists>i. rt_task_inquire env h' t = Inr i" for h' using assms(2) by (simp add: task_ready_def)
  then have "c_str (ti_name (info_at env h' t old)) = tname env t" for h' old
    using xeno_ok_name [OF assms(1), of h' t]
    by (cases "rt_task_inquire env h' t") (auto simp: info_at_def, metis Inl_Inr_False)
  then show ?thesis by (simp add: locate_def)
qed

lemma op_run_more:
  assumes "xeno_ok env" and "edf_state env s ts" and "op_ready env c"
  shows "\<exists>s'. do_op env c s = Some (fst (op_spec env c (ts, calls s)), s') \<and>
    edf_state env s' (fst (snd (op_spec env c (ts, calls s)))) \<and>
    calls s' = snd (snd (op_spec env c (ts, calls s))) \<and> edf.more s' = edf.more s"
proof -
  obtain s' where s': "do_op env c s = Some (fst (op_spec env c (ts, calls s)), s')"
    "rep s' (snd (op_spec env c (ts, calls s))) (edf.more s)" "tasks_ok env (snd (op_spec env c (ts, calls s)))"
    using dtasks.simulates [OF assms(1,3) edf_stateD [OF assms(2)]] by blast
  then have "edf.more s' = edf.more s" using repD(4) by (metis prod.collapse)
  then show ?thesis using edf_state_next [OF s'(2,3)] s'(1) by simp
qed

lemma op_run:
  assumes "xeno_ok env" and "edf_state env s ts" and "op_ready env c"
  shows "\<exists>s'. do_op env c s = Some (fst (op_spec env c (ts, calls s)), s') \<and>
    edf_state env s' (fst (snd (op_spec env c (ts, calls s)))) \<and>
    calls s' = snd (snd (op_spec env c (ts, calls s)))"
  using op_run_more [OF assms] by blast

lemma recalc_lookup:
  assumes "xeno_ok env" and "tasks_ok env (ts, h)" and "(a, d) \<in> set ts"
  shows "\<exists>info. map_of (fst (recalc_spec env (ts, h))) a = Some (recalced (rt_timer_read env h) info d)"
proof -
  obtain info where i: "fst (recalc_spec env (ts, h)) =
      map (\<lambda>(a, d). (a, recalced (rt_timer_read env h) (info a) d)) ts"
    using recalc_entries [OF assms(1,2)] by blast
  have "(a, recalced (rt_timer_read env h) (info a) d) \<in> set (fst (recalc_spec env (ts, h)))"
    unfolding i using assms(3) by force
  then have "map_of (fst (recalc_spec env (ts, h))) a = Some (recalced (rt_timer_read env h) (info a) d)"
    using located_map [of env "fst (recalc_spec env (ts, h))" "snd (recalc_spec env (ts, h))"]
      recalc_ok [OF assms(1,2)] by simp
  then show ?thesis by blast
qed

lemma recalced_keeps [simp]:
  "deadline (recalced now info d) = deadline d" "relative_deadline (recalced now info d) = relative_deadline d"
  "state (recalced now info d) = state d" "task (recalced now info d) = task d"
  "watchd (recalced now info d) = watchd d"
  by (simp_all add: recalced_def)

lemma recalc_leaves_idle:
  assumes "xeno_ok env" and "edf_state env s ts" and "(a, d) \<in> set ts" and "\<not> active d"
  shows "\<exists>s' ts'. rt_dtask_recalculateprio env s = Some (0, s') \<and> edf_state env s' ts' \<and> (a, d) \<in> set ts'"
proof -
  obtain info where "map_of (fst (recalc_spec env (ts, calls s))) a =
      Some (recalced (rt_timer_read env (calls s)) info d)"
    using recalc_lookup [OF assms(1) edf_stateD(2) [OF assms(2)] assms(3)] by blast
  then have "(a, d) \<in> set (fst (recalc_spec env (ts, calls s)))"
    using map_of_SomeD assms(4) by (fastforce simp: recalced_def)
  then show ?thesis using recalc_run [OF assms(1,2)] by blast
qed

section \<open>Sequences of operations\<close>

text \<open>C3: Refinement. From any state of the table, any sequence of operations runs to its end
  without a fault (no bad pointer, double free, division by zero or endless loop) and returns
  exactly the codes, the table and the external calls of the specification over lists.\<close>

theorem do_ops_refine:
  assumes "xeno_ok env" and "list_all (op_ready env) cs" and "edf_state env s ts"
  shows "\<exists>s'. do_ops env cs s = Some (fst (spec_ops env cs (ts, calls s)), s') \<and>
    edf_state env s' (fst (snd (spec_ops env cs (ts, calls s)))) \<and>
    calls s' = snd (snd (spec_ops env cs (ts, calls s)))"
proof -
  obtain s' where s': "do_ops env cs s = Some (fst (spec_ops env cs (ts, calls s)), s')"
    "rep s' (snd (spec_ops env cs (ts, calls s))) (edf.more s)" "tasks_ok env (snd (spec_ops env cs (ts, calls s)))"
    using dtasks.run_all_simulates [OF assms(1,2) edf_stateD [OF assms(3)]]
    unfolding do_ops_run_all spec_ops_spec_all by blast
  then show ?thesis using edf_state_next [OF s'(2,3)] by simp
qed

theorem do_ops_refine_witness:
  "\<exists>s'. do_ops demo [Create 0 5000000, Create 1 3000000] boot = Some ([0, 0], s') \<and>
    edf_state demo s' demo_ts \<and> calls s' = demo_calls"
proof -
  have "list_all (op_ready demo) [Create 0 5000000, Create 1 3000000]" by (simp add: demo_ready)
  from do_ops_refine [OF demo_ok this conjunct1 [OF edf_state_boot]] show ?thesis
    using demo_run by (simp add: conjunct2 [OF edf_state_boot])
qed

section \<open>Creation and deletion\<close>

lemma create_fresh:
  assumes "xeno_ok env" and "task_ready env t"
  obtains a w where "info_block env h = a" and "info_block env (h @ [Malloc a]) = w"
    and "a \<notin> set (live h)" and "w \<notin> set (live h)" and "w \<noteq> a"
    and "create_calls env t h = h @ [Malloc a, Malloc w, Timer_read, Task_inquire t]"
proof -
  let ?a = "info_block env h" and ?w = "info_block env (h @ [Malloc (info_block env h)])"
  have "?a \<notin> set (live h)" using xeno_ok_malloc [OF assms(1), of h] by auto
  moreover have "?w \<notin> set (live (h @ [Malloc ?a]))"
    using xeno_ok_malloc [OF assms(1), of "h @ [Malloc ?a]"] by auto
  ultimately show ?thesis using that [of ?a ?w] by (simp add: create_calls_def Let_def)
qed

lemma live_recalc: "recalc_spec env (ts, h) = (ts', h') \<Longrightarrow> live h' = live h"
  using recalc_spec_live by (metis snd_conv)

lemma create_spec_new:
  assumes "xeno_ok env" and "task_ready env t" and "tasks_ok env (ts, h)"
    and "find_task (tname env t) ts = None"
  shows "\<exists>ts' h' a w d. create_spec env t dl (ts, h) = (0, ts', h') \<and>
    core ts' = core ts @ [(a, Some t, Some w, tname env t)] \<and> live h' = w # a # live h \<and>
    map_of ts' a = Some d \<and> relative_deadline d = dl \<and> state d = TaskState_val RUNNING \<and>
    deadline d = rt_timer_read env (h @ [Malloc a, Malloc w]) + dl"
proof -
  obtain a w where aw: "info_block env h = a" "info_block env (h @ [Malloc a]) = w"
    "create_calls env t h = h @ [Malloc a, Malloc w, Timer_read, Task_inquire t]"
    using create_fresh [OF assms(1,2)] by blast
  define d where "d = new_dtask env t dl h"
  have nm: "c_str (dname d) = tname env t" unfolding d_def by (rule new_dtask_name [OF assms(1,2)])
  obtain ts' h' where r: "recalc_spec env (ts @ [(a, d)], create_calls env t h) = (ts', h')" by fastforce
  have sp: "create_spec env t dl (ts, h) = (0, ts', h')"
    using assms(4) nm r by (simp add: create_spec_def Let_def aw(1) d_def [symmetric])
  have ok1: "tasks_ok env (ts @ [(a, d)], create_calls env t h)"
    using create_ok(5) [OF assms(1-3), of a w d dl] assms(4) aw d_def nm by simp
  have c: "core ts' = core ts @ [(a, Some t, Some w, tname env t)]"
    using recalc_core [OF assms(1) ok1] nm aw r by (simp add: d_def new_dtask_fields)
  obtain info where i: "map_of ts' a = Some (recalced (rt_timer_read env (create_calls env t h)) info d)"
    using recalc_lookup [OF assms(1) ok1, of a d] r by auto
  have "deadline d = rt_timer_read env (h @ [Malloc a, Malloc w]) + dl"
    by (simp add: d_def new_dtask_def Let_def aw)
  then have "relative_deadline (recalced now info d) = dl" "state (recalced now info d) = TaskState_val RUNNING"
    "deadline (recalced now info d) = rt_timer_read env (h @ [Malloc a, Malloc w]) + dl" for now
    by (simp_all add: d_def new_dtask_fields)
  moreover have "live h' = w # a # live h" using live_recalc [OF r] aw(3) by simp
  ultimately show ?thesis using sp c i by blast
qed

lemma create_effect:
  assumes "xeno_ok env" and "edf_state env s ts" and "task_ready env t"
    and "find_task (tname env t) ts = None"
  shows "\<exists>s' ts' a w d. rt_dtask_create env t dl s = Some (0, s') \<and> edf_state env s' ts' \<and>
    core ts' = core ts @ [(a, Some t, Some w, tname env t)] \<and> live (calls s') = w # a # live (calls s) \<and>
    map_of ts' a = Some d \<and> relative_deadline d = dl \<and> state d = TaskState_val RUNNING \<and>
    deadline d = rt_timer_read env (calls s @ [Malloc a, Malloc w]) + dl"
proof -
  obtain ts' h' a w d where c: "create_spec env t dl (ts, calls s) = (0, ts', h')"
    "core ts' = core ts @ [(a, Some t, Some w, tname env t)]" "live h' = w # a # live (calls s)"
    "map_of ts' a = Some d" "relative_deadline d = dl" "state d = TaskState_val RUNNING"
    "deadline d = rt_timer_read env (calls s @ [Malloc a, Malloc w]) + dl"
    using create_spec_new [OF assms(1,3) edf_stateD(2) [OF assms(2)] assms(4)] by blast
  obtain s' where "rt_dtask_create env t dl s = Some (0, s')" "edf_state env s' ts'" "calls s' = h'"
    using op_run [OF assms(1,2), of "Create t dl"] assms(3) c(1) by auto
  then show ?thesis using c by blast
qed



text \<open>Registering a task whose name is already in the table is refused with -1 and leaves
  the table with the entries it had. The new entry is freed, but its watchdog block is not:
  each refusal leaks one block.\<close>

theorem create_duplicate:
  assumes "xeno_ok env" and "edf_state env s ts" and "task_ready env t"
    and "find_task (tname env t) ts = Some b"
  shows "\<exists>s' ts' w. rt_dtask_create env t dl s = Some (-1, s') \<and> edf_state env s' ts' \<and>
    core ts' = core ts \<and> w \<notin> set (live (calls s)) \<and> live (calls s') = w # live (calls s)"
proof -
  let ?h = "calls s"
  note ok = edf_stateD(2) [OF assms(2)]
  obtain a w where aw: "info_block env ?h = a" "info_block env (?h @ [Malloc a]) = w"
    "a \<notin> set (live ?h)" "w \<notin> set (live ?h)" "w \<noteq> a"
    "create_calls env t ?h = ?h @ [Malloc a, Malloc w, Timer_read, Task_inquire t]"
    using create_fresh [OF assms(1,3)] by blast
  define d where "d = new_dtask env t dl ?h"
  have nm: "c_str (dname d) = tname env t" unfolding d_def by (rule new_dtask_name [OF assms(1,3)])
  have sp: "create_spec env t dl (ts, ?h) = (-1, recalc_spec env (ts, create_calls env t ?h @ [Free a]))"
    using assms(4) nm by (simp add: create_spec_def Let_def aw(1) d_def [symmetric])
  obtain s' where s': "rt_dtask_create env t dl s = Some (-1, s')"
    "edf_state env s' (fst (recalc_spec env (ts, create_calls env t ?h @ [Free a])))"
    "calls s' = snd (recalc_spec env (ts, create_calls env t ?h @ [Free a]))"
    using op_run [OF assms(1,2), of "Create t dl"] assms(3) sp by auto
  have ok1: "tasks_ok env (ts, create_calls env t ?h @ [Free a])"
    using create_ok(4) [OF assms(1,3) ok, of a w d dl] aw d_def by simp
  have "live (calls s') = w # live ?h" using s'(3) aw by simp
  then show ?thesis using s'(1,2) recalc_core [OF assms(1) ok1] aw(4) by blast
qed

theorem create_duplicate_witness:
  "\<exists>s s' ts'. edf_state demo (s :: edf) demo_ts \<and> rt_dtask_create demo 1 9 s = Some (-1, s') \<and>
    edf_state demo s' ts' \<and> core ts' = core demo_ts"
proof -
  obtain s :: edf where s: "edf_state demo s demo_ts" using demo_edf_state by blast
  have "find_task (tname demo 1) demo_ts = Some 3"
    by (simp add: find_task_def demo_def demo_ts_def demo_dtask_def dname_def demo_name_def c_str_def)
  from create_duplicate [OF demo_ok s demo_ready this] show ?thesis using s by blast
qed

lemma delete_effect:
  assumes "xeno_ok env" and "edf_state env s ts" and "task_ready env t" and "(a, d) \<in> set ts"
    and "c_str (dname d) = tname env t"
  shows "\<exists>s'. rt_dtask_delete env t s = Some (0, s') \<and> edf_state env s' (drop_task a ts) \<and>
    find_task (tname env t) (drop_task a ts) = None \<and>
    live (calls s') = remove1 a (remove1 (the (watchd d)) (live (calls s)))"
proof -
  let ?h = "calls s" and ?b = "info_block env (calls s)"
  note ok = edf_stateD(2) [OF assms(2)]
  obtain w where w: "watchd d = Some w" using tasks_ok_member [OF ok assms(4)] by blast
  have f: "locate env t (ts, ?h) = Some a"
    using locate_ready [OF assms(1,3)] find_task_eq [OF ok assms(4)] assms(5) by simp
  have sp: "delete_spec env t (ts, ?h) = (0, drop_task a ts, info_calls env t ?h @ [Free w, Free a] @ [Free ?b])"
    using f w located_map [OF ok assms(4)] by (simp add: delete_spec_def Let_def close_with_def release_calls_def)
  obtain s' where s': "rt_dtask_delete env t s = Some (0, s')" "edf_state env s' (drop_task a ts)"
    "calls s' = info_calls env t ?h @ [Free w, Free a] @ [Free ?b]"
    using op_run [OF assms(1,2), of "Delete t"] sp by auto
  have b: "?b \<notin> set (live ?h)" using xeno_ok_malloc [OF assms(1), of ?h] by auto
  then have "?b \<noteq> a" "?b \<noteq> w" using drop_ok(1,2) [OF ok assms(4) w] by auto
  then have "live (calls s') = remove1 a (remove1 (the (watchd d)) (live ?h))"
    using s'(3) w by (simp add: info_calls_def)
  moreover have "c_str (dname e) \<noteq> tname env t" if "(b, e) \<in> set (drop_task a ts)" for b e
    using that find_task_eq [OF ok, of b e] find_task_eq [OF ok assms(4)] assms(5)
    by (auto simp: drop_task_def)
  ultimately show ?thesis using s'(1,2) by (auto simp: find_task_None)
qed

text \<open>Deleting a registered task succeeds, removes exactly its entry, and frees exactly the
  entry and its watchdog.\<close>

theorem delete_registered:
  assumes "xeno_ok env" and "edf_state env s ts" and "task_ready env t" and "(a, d) \<in> set ts"
    and "c_str (dname d) = tname env t"
  shows "\<exists>s'. rt_dtask_delete env t s = Some (0, s') \<and> edf_state env s' (drop_task a ts) \<and>
    find_task (tname env t) (drop_task a ts) = None \<and>
    live (calls s') = remove1 a (remove1 (the (watchd d)) (live (calls s)))"
  by (rule delete_effect [OF assms])

theorem delete_registered_witness:
  "\<exists>s s'. edf_state demo (s :: edf) demo_ts \<and> rt_dtask_delete demo 0 s = Some (0, s') \<and>
    edf_state demo s' [(3, demo_dtask 1 3009000 2998000 3000000 4)]"
proof -
  obtain s :: edf where s: "edf_state demo s demo_ts" using demo_edf_state by blast
  have m: "(1, demo_dtask 0 5002000 4991000 5000000 2) \<in> set demo_ts" by (simp add: demo_ts_def)
  have n: "c_str (dname (demo_dtask 0 5002000 4991000 5000000 2)) = tname demo 0"
    by (simp add: demo_def demo_dtask_def dname_def)
  have "drop_task 1 demo_ts = [(3, demo_dtask 1 3009000 2998000 3000000 4)]" by (simp add: demo_ts_def)
  with delete_registered [OF demo_ok s demo_ready m n] show ?thesis using s by auto
qed



section \<open>Arming deadlines\<close>

lemma upd_in: "(a, d) \<in> set ts \<Longrightarrow> (a, f d) \<in> set (upd a f ts)"
  by (force simp: upd_member)

text \<open>Setting a deadline. For a registered task the entry gets the relative deadline and
  the absolute deadline that many time units after the clock reading, and is running again;
  a recalculation has been done. The block of the inquiry is never freed: every call leaks
  one block, whether the task is registered or not.\<close>

theorem setdeadline_arms:
  assumes "xeno_ok env" and "edf_state env s ts" and "task_ready env t" and "(a, d) \<in> set ts"
    and "c_str (dname d) = tname env t"
  shows "\<exists>s' ts' d' b. rt_dtask_setdeadline env t dl s = Some (0, s') \<and> edf_state env s' ts' \<and>
    core ts' = core ts \<and> map_of ts' a = Some d' \<and> relative_deadline d' = dl \<and>
    deadline d' = rt_timer_read env (calls s @ [Malloc b, Task_inquire t]) + dl \<and>
    state d' = TaskState_val RUNNING \<and> b \<notin> set (live (calls s)) \<and> live (calls s') = b # live (calls s)"
proof -
  let ?h = "calls s" and ?b = "info_block env (calls s)"
  let ?h1 = "info_calls env t ?h"
  let ?now = "rt_timer_read env ?h1"
  note ok = edf_stateD(2) [OF assms(2)]
  have f: "locate env t (ts, ?h) = Some a"
    using locate_ready [OF assms(1,3)] find_task_eq [OF ok assms(4)] assms(5) by simp
  define ts1 where "ts1 = upd a (arm ?now dl) ts"
  have sp: "setdeadline_spec env t dl (ts, ?h) = (0, recalc_spec env (ts1, ?h1 @ [Timer_read]))"
    using f by (simp add: setdeadline_spec_def Let_def ts1_def)
  obtain s' where s': "rt_dtask_setdeadline env t dl s = Some (0, s')"
    "edf_state env s' (fst (recalc_spec env (ts1, ?h1 @ [Timer_read])))"
    "calls s' = snd (recalc_spec env (ts1, ?h1 @ [Timer_read]))"
    using op_run [OF assms(1,2), of "Setdeadline t dl"] sp by auto
  have b: "?b \<notin> set (live ?h)" using xeno_ok_malloc [OF assms(1), of ?h] by auto
  have c: "core ts1 = core ts" unfolding ts1_def by (rule core_upd) (simp add: arm_keeps)
  have "states_ok ts1" unfolding ts1_def using tasks_ok_states [OF ok] by (rule states_ok_upd) (simp add: arm_keeps)
  then have ok0: "tasks_ok env (ts1, ?h)" using tasks_ok_cong [OF ok c] by blast
  have ok1: "tasks_ok env (ts1, ?h1 @ [Timer_read])"
    by (rule tasks_ok_more [OF ok0 _ b]) (simp add: info_calls_def)
  obtain info where i: "map_of (fst (recalc_spec env (ts1, ?h1 @ [Timer_read]))) a =
      Some (recalced (rt_timer_read env (?h1 @ [Timer_read])) info (arm ?now dl d))"
    using recalc_lookup [OF assms(1) ok1 upd_in [OF assms(4), of "arm ?now dl", folded ts1_def]] by blast
  have "live (calls s') = ?b # live ?h" using s'(3) by (simp add: info_calls_def)
  moreover have "relative_deadline (recalced n info (arm ?now dl d)) = dl"
    "deadline (recalced n info (arm ?now dl d)) = rt_timer_read env (?h @ [Malloc ?b, Task_inquire t]) + dl"
    "state (recalced n info (arm ?now dl d)) = TaskState_val RUNNING" for n
    by (simp_all add: arm_def info_calls_def)
  ultimately show ?thesis using s'(1,2) recalc_core [OF assms(1) ok1, unfolded c] i b by blast
qed

theorem setdeadline_arms_witness:
  "\<exists>s s' ts' d'. edf_state demo (s :: edf) demo_ts \<and> rt_dtask_setdeadline demo 0 100 s = Some (0, s') \<and>
    edf_state demo s' ts' \<and> map_of ts' 1 = Some d' \<and> relative_deadline d' = 100"
proof -
  obtain s :: edf where s: "edf_state demo s demo_ts" using demo_edf_state by blast
  have m: "(1, demo_dtask 0 5002000 4991000 5000000 2) \<in> set demo_ts" by (simp add: demo_ts_def)
  have n: "c_str (dname (demo_dtask 0 5002000 4991000 5000000 2)) = tname demo 0"
    by (simp add: demo_def demo_dtask_def dname_def)
  from setdeadline_arms [OF demo_ok s demo_ready m n, of 100] show ?thesis using s by blast
qed

text \<open>Starting the next period. Resetting a registered task's deadline keeps its relative
  deadline, sets the absolute deadline that many time units after the clock reading, and
  makes the task run again; no memory is leaked.\<close>

theorem resetdeadline_arms:
  assumes "xeno_ok env" and "edf_state env s ts" and "task_ready env t" and "(a, d) \<in> set ts"
    and "c_str (dname d) = tname env t"
  shows "\<exists>s' ts' d' b. rt_dtask_resetdeadline env t s = Some (0, s') \<and> edf_state env s' ts' \<and>
    core ts' = core ts \<and> map_of ts' a = Some d' \<and> relative_deadline d' = relative_deadline d \<and>
    deadline d' = rt_timer_read env (calls s @ [Malloc b, Task_inquire t]) + relative_deadline d \<and>
    state d' = TaskState_val RUNNING \<and> live (calls s') = live (calls s)"
proof -
  let ?h = "calls s" and ?b = "info_block env (calls s)"
  let ?h1 = "info_calls env t ?h"
  let ?now = "rt_timer_read env ?h1"
  let ?f = "\<lambda>d. arm ?now (relative_deadline d) d"
  note ok = edf_stateD(2) [OF assms(2)]
  have f: "locate env t (ts, ?h) = Some a"
    using locate_ready [OF assms(1,3)] find_task_eq [OF ok assms(4)] assms(5) by simp
  define ts1 where "ts1 = upd a ?f ts"
  obtain ts2 h2 where r: "recalc_spec env (ts1, ?h1 @ [Timer_read]) = (ts2, h2)" by fastforce
  have sp: "resetdeadline_spec env t (ts, ?h) = (0, ts2, h2 @ [Free ?b])"
    using f r by (simp add: resetdeadline_spec_def close_with_def Let_def ts1_def)
  obtain s' where s': "rt_dtask_resetdeadline env t s = Some (0, s')" "edf_state env s' ts2" "calls s' = h2 @ [Free ?b]"
    using op_run [OF assms(1,2), of "Resetdeadline t"] sp by auto
  have b: "?b \<notin> set (live ?h)" using xeno_ok_malloc [OF assms(1), of ?h] by auto
  have c: "core ts1 = core ts" unfolding ts1_def by (rule core_upd) (simp add: arm_keeps)
  have "states_ok ts1" unfolding ts1_def using tasks_ok_states [OF ok] by (rule states_ok_upd) (simp add: arm_keeps)
  then have ok0: "tasks_ok env (ts1, ?h)" using tasks_ok_cong [OF ok c] by blast
  have ok1: "tasks_ok env (ts1, ?h1 @ [Timer_read])"
    by (rule tasks_ok_more [OF ok0 _ b]) (simp add: info_calls_def)
  obtain info where i: "map_of ts2 a = Some (recalced (rt_timer_read env (?h1 @ [Timer_read])) info (?f d))"
    using recalc_lookup [OF assms(1) ok1 upd_in [OF assms(4), of ?f, folded ts1_def]] r by auto
  have "live h2 = live (?h1 @ [Timer_read])" using recalc_spec_live r by (metis snd_conv)
  then have "live h2 = ?b # live ?h" by (simp add: info_calls_def)
  then have "live (calls s') = live ?h" using s'(3) by simp
  moreover have "core ts2 = core ts" using recalc_core [OF assms(1) ok1] r c by simp
  moreover have "relative_deadline (recalced n info (?f d)) = relative_deadline d"
    "deadline (recalced n info (?f d)) =
       rt_timer_read env (?h @ [Malloc ?b, Task_inquire t]) + relative_deadline d"
    "state (recalced n info (?f d)) = TaskState_val RUNNING" for n
    by (simp_all add: arm_def info_calls_def)
  ultimately show ?thesis using s'(1,2) i by blast
qed

theorem resetdeadline_arms_witness:
  "\<exists>s s' ts' d'. edf_state demo (s :: edf) demo_ts \<and> rt_dtask_resetdeadline demo 0 s = Some (0, s') \<and>
    edf_state demo s' ts' \<and> map_of ts' 1 = Some d' \<and> relative_deadline d' = 5000000"
proof -
  obtain s :: edf where s: "edf_state demo s demo_ts" using demo_edf_state by blast
  let ?d = "demo_dtask 0 5002000 4991000 5000000 2"
  have m: "(1, ?d) \<in> set demo_ts" by (simp add: demo_ts_def)
  have n: "c_str (dname ?d) = tname demo 0" "relative_deadline ?d = 5000000"
    by (simp_all add: demo_def demo_dtask_def dname_def)
  from resetdeadline_arms [OF demo_ok s demo_ready m n(1)] n(2) show ?thesis using s by metis
qed

section \<open>Waiting for the next period\<close>

text \<open>Suspension. A registered task that announces that it waits for its next period is put
  in the waiting state and nothing else changes; it is then out of the ranking: however
  often the priorities are recalculated, the recalculations leave its entry as it is.\<close>

theorem goingwaitp_suspends:
  assumes "xeno_ok env" and "edf_state env s ts" and "task_ready env t" and "(a, d) \<in> set ts"
    and "c_str (dname d) = tname env t"
  shows "\<exists>s'. rt_dtask_goingwaitp env t s = Some (0, s') \<and> edf_state env s' (upd a set_waiting ts) \<and>
    live (calls s') = live (calls s) \<and> \<not> active (set_waiting d) \<and>
    (\<exists>s'' ts''. do_ops env (replicate n Recalculateprio) s' = Some (replicate n 0, s'') \<and>
       edf_state env s'' ts'' \<and> (a, set_waiting d) \<in> set ts'')"
proof -
  let ?h = "calls s" and ?b = "info_block env (calls s)"
  note ok = edf_stateD(2) [OF assms(2)]
  have f: "locate env t (ts, ?h) = Some a"
    using locate_ready [OF assms(1,3)] find_task_eq [OF ok assms(4)] assms(5) by simp
  have sp: "goingwaitp_spec env t (ts, ?h) = (0, upd a set_waiting ts, info_calls env t ?h @ [Free ?b])"
    using f by (simp add: goingwaitp_spec_def close_with_def Let_def)
  obtain s' where s': "rt_dtask_goingwaitp env t s = Some (0, s')" "edf_state env s' (upd a set_waiting ts)"
    "calls s' = info_calls env t ?h @ [Free ?b]"
    using op_run [OF assms(1,2), of "Goingwaitp t"] sp by auto
  have idle: "\<not> active (set_waiting d)" by (simp add: active_def set_waiting_def)
  have "\<exists>s'' ts''. do_ops env (replicate n Recalculateprio) s1 = Some (replicate n 0, s'') \<and>
       edf_state env s'' ts'' \<and> (a, set_waiting d) \<in> set ts''"
    if "edf_state env s1 ts1" "(a, set_waiting d) \<in> set ts1" for s1 ts1 and n
    using that
  proof (induction n arbitrary: s1 ts1)
    case (Suc n)
    obtain s2 ts2 where "rt_dtask_recalculateprio env s1 = Some (0, s2)" "edf_state env s2 ts2"
      "(a, set_waiting d) \<in> set ts2"
      using recalc_leaves_idle [OF assms(1) Suc.prems idle] by blast
    moreover obtain s3 ts3 where "do_ops env (replicate n Recalculateprio) s2 = Some (replicate n 0, s3)"
      "edf_state env s3 ts3" "(a, set_waiting d) \<in> set ts3"
      using Suc.IH calculation by blast
    ultimately show ?case by auto
  qed auto
  moreover have "(a, set_waiting d) \<in> set (upd a set_waiting ts)" using assms(4) by (rule upd_in)
  moreover have "live (calls s') = live ?h" using s'(3) by (simp add: info_calls_def)
  ultimately show ?thesis using s'(1,2) idle by blast
qed

theorem goingwaitp_suspends_witness:
  "\<exists>s s' s'' ts''. edf_state demo (s :: edf) demo_ts \<and> rt_dtask_goingwaitp demo 1 s = Some (0, s') \<and>
    do_ops demo [Recalculateprio, Recalculateprio] s' = Some ([0, 0], s'') \<and> edf_state demo s'' ts'' \<and>
    (3, set_waiting (demo_dtask 1 3009000 2998000 3000000 4)) \<in> set ts''"
proof -
  obtain s :: edf where s: "edf_state demo s demo_ts" using demo_edf_state by blast
  let ?d = "demo_dtask 1 3009000 2998000 3000000 4"
  have m: "(3, ?d) \<in> set demo_ts" by (simp add: demo_ts_def)
  have n: "c_str (dname ?d) = tname demo 1" by (simp add: demo_def demo_dtask_def dname_def)
  have r: "replicate 2 x = [x, x]" for x :: 'a by (simp add: numeral_2_eq_2)
  from goingwaitp_suspends [OF demo_ok s demo_ready m n, of 2, unfolded r] show ?thesis using s by blast
qed

text \<open>Stopping the watchdog is the same as announcing the wait: it returns 0 and leaves the
  table as \<open>rt_dtask_goingwaitp\<close> does, with all the memory it took given back. No timer is
  touched.\<close>

theorem stopwatchdog_waits:
  assumes "xeno_ok env" and "edf_state env s ts" and "task_ready env t" and "(a, d) \<in> set ts"
    and "c_str (dname d) = tname env t" and "task_ready env (the (task d))"
  shows "\<exists>s'. rt_dtask_stopwatchdog env t s = Some (0, s') \<and> edf_state env s' (upd a set_waiting ts) \<and>
    live (calls s') = live (calls s)"
proof -
  let ?h = "calls s" and ?b = "info_block env (calls s)"
  let ?h1 = "info_calls env t ?h"
  let ?h2 = "info_calls env (the (task d)) ?h1 @ [Free (info_block env ?h1)]"
  note ok = edf_stateD(2) [OF assms(2)]
  have l: "find_task (c_str (dname d)) ts = Some a" using find_task_eq [OF ok assms(4)] .
  have "tname env (the (task d)) = c_str (dname d)"
    using tasks_ok_member [OF ok assms(4)] by (metis option.sel)
  then have g: "goingwaitp_spec env (the (task d)) (ts, ?h1) = (0, upd a set_waiting ts, ?h2)"
    using locate_ready [OF assms(1,6)] l by (simp add: goingwaitp_spec_def close_with_def Let_def)
  have "locate env t (ts, ?h) = Some a" using locate_ready [OF assms(1,3)] l assms(5) by simp
  then have sp: "stopwatchdog_spec env t (ts, ?h) = (0, upd a set_waiting ts, ?h2 @ [Free ?b])"
    using g located_map [OF ok assms(4)] by (simp add: stopwatchdog_spec_def close_with_def Let_def)
  obtain s' where s': "rt_dtask_stopwatchdog env t s = Some (0, s')" "edf_state env s' (upd a set_waiting ts)"
    "calls s' = ?h2 @ [Free ?b]"
    using op_run [OF assms(1,2), of "Stopwatchdog t"] sp by auto
  have "live (calls s') = live ?h" using s'(3) by (simp add: info_calls_def)
  then show ?thesis using s'(1,2) by blast
qed

theorem stopwatchdog_waits_witness:
  "\<exists>s s'. edf_state demo (s :: edf) demo_ts \<and> rt_dtask_stopwatchdog demo 1 s = Some (0, s') \<and>
    edf_state demo s' (upd 3 set_waiting demo_ts)"
proof -
  obtain s :: edf where s: "edf_state demo s demo_ts" using demo_edf_state by blast
  let ?d = "demo_dtask 1 3009000 2998000 3000000 4"
  have m: "(3, ?d) \<in> set demo_ts" by (simp add: demo_ts_def)
  have n: "c_str (dname ?d) = tname demo 1" by (simp add: demo_def demo_dtask_def dname_def)
  from stopwatchdog_waits [OF demo_ok s demo_ready m n demo_ready] show ?thesis using s by blast
qed

section \<open>Tasks that are not registered\<close>

text \<open>The task an operation looks up, and the operations' results for a name that is not there.\<close>

fun op_task :: "dtask_op \<Rightarrow> RT_TASK option" where
  "op_task (Updateinfo t) = Some t"
| "op_task (Goingwaitp t) = Some t"
| "op_task (Stopwatchdog t) = Some t"
| "op_task (Resetdeadline t) = Some t"
| "op_task (Setdeadline t dl) = Some t"
| "op_task (Delete t) = Some t"
| "op_task _ = None"

text \<open>Unknown tasks. Every operation on a task that is not registered returns -1 and changes
  neither the table nor anything outside; all of them but \<open>rt_dtask_setdeadline\<close> give back
  the memory they took.\<close>

theorem unknown_task:
  assumes "xeno_ok env" and "edf_state env s ts" and "task_ready env t" and "op_task c = Some t"
    and "find_task (tname env t) ts = None"
  shows "\<exists>s' b. do_op env c s = Some (-1, s') \<and> edf_state env s' ts \<and>
    calls s' = calls s @ [Malloc b, Task_inquire t] @ (if c \<in> range (Setdeadline t) then [] else [Free b])"
proof -
  have "locate env t (ts, calls s) = None" using locate_ready [OF assms(1,3)] assms(5) by simp
  moreover have "op_ready env c" using assms(4) by (cases c) auto
  ultimately show ?thesis using op_run [OF assms(1,2), of c] assms(4)
    by (cases c) (auto simp: goingwaitp_spec_def stopwatchdog_spec_def updateinfo_spec_def
        resetdeadline_spec_def setdeadline_spec_def delete_spec_def close_with_def info_calls_def Let_def)
qed

theorem unknown_task_witness:
  "\<exists>s'. do_op demo (Delete 2) boot = Some (-1, s') \<and> edf_state demo s' []"
proof -
  have "find_task (tname demo 2) [] = None" by (simp add: find_task_None)
  from unknown_task [OF demo_ok conjunct1 [OF edf_state_boot] demo_ready _ this, of "Delete 2"]
  show ?thesis by auto
qed

section \<open>Memory\<close>

lemma dispose_effect:
  assumes "edf_state env s ts"
  shows "\<exists>s'. rt_dtask_dispose s = Some (0, s') \<and> edf_state env s' [] \<and> head s' = None \<and>
    distinct (live (calls s')) \<and> set (live (calls s')) = set (live (calls s)) - set (blocks ts) \<and>
    edf.more s' = edf.more s"
proof -
  note ok = edf_stateD [OF assms]
  obtain s' where s': "rt_dtask_dispose s = Some (0, s')"
    "rep s' ([], calls s @ concat (map release_calls ts)) (edf.more s)"
    "tasks_ok env ([], calls s @ concat (map release_calls ts))"
    using dispose_refines [OF ok] by (auto simp: dispose_spec_def)
  have "head s' = None" using repD(1) [OF s'(2)] by (simp add: dict_inv_def ut_inv_def)
  moreover have "set (live_from bs (concat (map release_calls ts))) = set bs - set (blocks ts)"
    if "distinct bs" "list_all (\<lambda>(a, d). dtask_ok env d) ts" for bs
    using that
  proof (induction ts arbitrary: bs)
    case (Cons ad ts)
    then show ?case
      by (cases ad) (auto simp: release_calls_def dtask_ok_def live_from_append split: option.splits)
  qed simp
  moreover have "edf_state env s' []" "calls s' = calls s @ concat (map release_calls ts)"
    using edf_state_next [OF s'(2,3)] by simp_all
  moreover have "edf.more s' = edf.more s" using s'(2) by (simp add: rep_def)
  ultimately show ?thesis using s'(1,3) ok(2) by (simp add: tasks_ok_def)
qed

text \<open>Unloading. Disposing of the table empties it and frees every entry and every watchdog
  that was in it, once.\<close>

theorem dispose_frees:
  assumes "edf_state env s ts"
  shows "\<exists>s'. rt_dtask_dispose s = Some (0, s') \<and> edf_state env s' [] \<and> head s' = None \<and>
    distinct (live (calls s')) \<and> set (live (calls s')) = set (live (calls s)) - set (blocks ts)"
  using dispose_effect [OF assms] by blast

theorem dispose_frees_witness:
  "\<exists>s s'. edf_state demo (s :: edf) demo_ts \<and> rt_dtask_dispose s = Some (0, s') \<and> edf_state demo s' [] \<and>
    live (calls s') = []"
proof -
  obtain s :: edf where s: "edf_state demo s demo_ts" "calls s = demo_calls" using demo_edf_state by blast
  have "set (live demo_calls) - set (blocks demo_ts) = {}"
    by (simp add: demo_calls_def demo_ts_def demo_dtask_def live_def)
  with dispose_frees [OF s(1)] s show ?thesis by auto
qed

text \<open>Memory exhaustion is not handled. When the allocator returns NULL, every operation that
  looks a task up, and creation, go wrong: they write through the null pointer.\<close>

theorem no_memory_faults:
  assumes "rtdm_malloc env (calls s) = None" and "op_task c \<noteq> None \<or> c \<in> range (Create t)"
  shows "do_op env c s = None"
proof -
  have "info_of env t' s = None" "create_node env t' dl s = None" for t' dl
    using assms(1) by (simp_all add: info_of_def create_node_def alloc_dtask_def kmalloc_def)
  then show ?thesis using assms(2)
    by (cases c) (auto simp: rt_dtask_goingwaitp_def rt_dtask_stopwatchdog_def rt_dtask_updateinfo_def
        rt_dtask_resetdeadline_def rt_dtask_setdeadline_def rt_dtask_delete_def rt_dtask_create_def)
qed

theorem no_memory_faults_witness:
  "do_op (demo\<lparr>rtdm_malloc := \<lambda>h. None\<rparr>) (Delete 1) boot = None"
  by (rule no_memory_faults) simp_all

end
