(* ===== verification/Edf_Driver.thy ===== *)
theory Edf_Driver
  imports Edf_Ops
begin

text \<open>
  The kernel module, edfomai-drv.c: the device's handlers, the service that recalculates
  priorities when an event is signalled, the task hooks, and loading and unloading. The
  table of deadline tasks is part of the driver's state. The service is a loop that never
  returns; it is modelled step by step, so that the other entry points can run between its
  steps.
\<close>

section \<open>External code and state\<close>

text \<open>
  \<open>rtdm_copy_from_user\<close> returns an error or the message at the user's address;
  \<open>xnregistry_bind\<close> looks a name up in the kernel's registry, \<open>xnregistry_fetch\<close> gives
  the thread of a handle (or NULL), and \<open>T_DESC\<close> the task descriptor of a thread.
\<close>

record drv_env = xeno +
  rtdm_copy_from_user :: "history \<Rightarrow> addr \<Rightarrow> int + EDFMessage"
  raw_EDFMessage :: "history \<Rightarrow> EDFMessage"
  xnregistry_bind :: "history \<Rightarrow> char list \<Rightarrow> int + nat"
  xnregistry_fetch :: "history \<Rightarrow> nat \<Rightarrow> nat option"
  T_DESC :: "nat \<Rightarrow> RT_TASK"
  rtdm_dev_register :: int
  rt_queue_create :: int
  rtdm_task_init :: int
  add_start_hook :: int
  add_delete_hook :: int

definition EFAULT :: int where "EFAULT = 14"

text \<open>Where the service is in its loop.\<close>

datatype svc_pc = Svc_wait | Svc_acquire | Svc_recalc | Svc_release | Svc_clear

record drv = edf +
  edf_data_lock :: bool
  edf_event :: bool
  edf_svc :: "svc_pc option"
  edf_dmissed_q :: bool
  device_registered :: bool
  start_hook :: bool
  delete_hook :: bool

section \<open>The lock\<close>

text \<open>Taking the spin lock when it is held spins for ever; releasing a free one is a fault.\<close>

definition mtx_create :: "'m drv_scheme \<Rightarrow> int \<times> 'm drv_scheme" where
  "mtx_create s = (0, s\<lparr>edf_data_lock := False\<rparr>)"

definition mtx_delete :: "'m drv_scheme \<Rightarrow> int \<times> 'm drv_scheme" where
  "mtx_delete s = (0, s)"

definition mtx_acquire :: "'m drv_scheme \<Rightarrow> (int \<times> 'm drv_scheme) option" where
  "mtx_acquire s = (if edf_data_lock s then None else Some (0, emit Lock_get (s\<lparr>edf_data_lock := True\<rparr>)))"

definition mtx_release :: "'m drv_scheme \<Rightarrow> (int \<times> 'm drv_scheme) option" where
  "mtx_release s = (if edf_data_lock s then Some (0, emit Lock_put (s\<lparr>edf_data_lock := False\<rparr>)) else None)"

section \<open>The device\<close>

definition get_handle :: "'x drv_env_scheme \<Rightarrow> char list \<Rightarrow> 'm drv_scheme \<Rightarrow> RT_TASK option" where
  "get_handle env nm s = (case xnregistry_bind env (calls s) nm of
       Inl err \<Rightarrow> None
     | Inr handle \<Rightarrow> (case xnregistry_fetch env (calls s) handle of
           None \<Rightarrow> None
         | Some thr \<Rightarrow> Some (T_DESC env thr)))"

text \<open>
  One case of the handler's switch: the operation under the lock. The operation's own
  result is dropped; what is returned is the status of the lock.
\<close>

definition locked :: "('m drv_scheme \<Rightarrow> (int \<times> 'm drv_scheme) option) \<Rightarrow> 'm drv_scheme \<Rightarrow>
    (int \<times> 'm drv_scheme) option" where
  "locked op s = do {
     (ret, s) \<leftarrow> mtx_acquire s;
     if ret \<noteq> 0 then Some (ret, s)
     else do {
       (_, s) \<leftarrow> op s;
       mtx_release s } }"

definition serve :: "'x drv_env_scheme \<Rightarrow> EDFMessage \<Rightarrow> RT_TASK \<Rightarrow> 'm drv_scheme \<Rightarrow>
    (int \<times> 'm drv_scheme) option" where
  "serve env msg t s =
     (if command msg = EDFCommand_val CREATE_TASK then locked (rt_dtask_create env t (msg_deadline msg)) s
      else if command msg = EDFCommand_val START_TASK then locked (rt_dtask_setdeadline env t (msg_deadline msg)) s
      else if command msg = EDFCommand_val STOP_WATCHD then locked (rt_dtask_stopwatchdog env t) s
      else if command msg = EDFCommand_val GOING_WAITP then locked (rt_dtask_goingwaitp env t) s
      else if command msg = EDFCommand_val RESET_DEADLINE then locked (rt_dtask_resetdeadline env t) s
      else if command msg = EDFCommand_val SET_DEADLINE then locked (rt_dtask_setdeadline env t (msg_deadline msg)) s
      else Some (0, s))"

definition edf_rtdm_write_nrt :: "'x drv_env_scheme \<Rightarrow> addr \<Rightarrow> int \<Rightarrow> 'm drv_scheme \<Rightarrow>
    (int \<times> 'm drv_scheme) option" where
  "edf_rtdm_write_nrt env buf nbyte s = do {
     let raw = raw_EDFMessage env (calls s);
     let (p, s) = kmalloc env s;
     b \<leftarrow> p;
     let (ret, msg) = (case rtdm_copy_from_user env (calls s) buf of
          Inl err \<Rightarrow> (err, raw) | Inr m \<Rightarrow> (0, m));
     if ret = EFAULT then do {
       s \<leftarrow> kfree (Some b) s;
       Some (- EFAULT, s) }
     else (case get_handle env (msg_task msg) s of
         None \<Rightarrow> do {
           s \<leftarrow> kfree (Some b) s;
           Some (-1, s) }
       | Some t \<Rightarrow> do {
           (ret, s) \<leftarrow> serve env msg t s;
           s \<leftarrow> kfree (Some b) s;
           Some (if ret \<noteq> 0 then ret else nbyte, s) }) }"

definition edf_rtdm_open_nrt :: "'m drv_scheme \<Rightarrow> int \<times> 'm drv_scheme" where
  "edf_rtdm_open_nrt s = (0, s)"

definition edf_rtdm_close_nrt :: "'m drv_scheme \<Rightarrow> int \<times> 'm drv_scheme" where
  "edf_rtdm_close_nrt s = (0, s)"

definition edf_rtdm_read_nrt :: "'m drv_scheme \<Rightarrow> int \<times> 'm drv_scheme" where
  "edf_rtdm_read_nrt s = (-1, s)"

section \<open>The hooks\<close>

definition edf_startswitch_hook :: "'m drv_scheme \<Rightarrow> 'm drv_scheme" where
  "edf_startswitch_hook s = s\<lparr>edf_event := True\<rparr>"

definition edf_delete_hook :: "'x drv_env_scheme \<Rightarrow> nat \<Rightarrow> 'm drv_scheme \<Rightarrow> 'm drv_scheme option" where
  "edf_delete_hook env cookie s = do {
     (_, s) \<leftarrow> rt_dtask_delete env (T_DESC env cookie) s;
     Some (s\<lparr>edf_event := True\<rparr>) }"

section \<open>The service\<close>

text \<open>
  One step of the loop of \<open>_edf_service\<close>. \<open>rtdm_event_wait\<close> blocks until the event is
  pending and consumes it; blocked steps leave the state alone. The acquisition blocks
  while another owner holds the lock.
\<close>

definition edf_service :: "'x drv_env_scheme \<Rightarrow> 'm drv_scheme \<Rightarrow> 'm drv_scheme option" where
  "edf_service env s = (case edf_svc s of
       None \<Rightarrow> Some s
     | Some Svc_wait \<Rightarrow> Some (if edf_event s then s\<lparr>edf_event := False, edf_svc := Some Svc_acquire\<rparr> else s)
     | Some Svc_acquire \<Rightarrow>
         (if edf_data_lock s then Some s
          else do {
            (ret, s) \<leftarrow> mtx_acquire s;
            Some (s\<lparr>edf_svc := Some (if ret \<noteq> 0 then Svc_wait else Svc_recalc)\<rparr>) })
     | Some Svc_recalc \<Rightarrow> do {
         (_, s) \<leftarrow> rt_dtask_recalculateprio env s;
         Some (s\<lparr>edf_svc := Some Svc_release\<rparr>) }
     | Some Svc_release \<Rightarrow> do {
         (_, s) \<leftarrow> mtx_release s;
         Some (s\<lparr>edf_svc := Some Svc_clear\<rparr>) }
     | Some Svc_clear \<Rightarrow> Some (s\<lparr>edf_event := False, edf_svc := Some Svc_wait\<rparr>))"

section \<open>Loading and unloading\<close>

text \<open>What registering the device, the queue, the service and the hooks return is given.\<close>

definition edf_rtdm_init :: "'x drv_env_scheme \<Rightarrow> 'm drv_scheme \<Rightarrow> int \<times> 'm drv_scheme" where
  "edf_rtdm_init env s =
     (if rtdm_dev_register env = 0
      then let s = s\<lparr>device_registered := True\<rparr>;
               (_, s) = rt_dtask_init s;
               (_, s) = mtx_create s;
               s = s\<lparr>edf_dmissed_q := (rt_queue_create env = 0)\<rparr>;
               s = s\<lparr>edf_event := False\<rparr>;
               s = s\<lparr>edf_svc := (if rtdm_task_init env = 0 then Some Svc_wait else None)\<rparr>;
               s = s\<lparr>start_hook := (add_start_hook env = 0)\<rparr>;
               s = s\<lparr>delete_hook := (add_delete_hook env = 0)\<rparr>
           in (add_delete_hook env, s)
      else (rtdm_dev_register env, s))"

definition edf_rtdm_exit :: "'m drv_scheme \<Rightarrow> 'm drv_scheme option" where
  "edf_rtdm_exit s = do {
     let s = s\<lparr>start_hook := False, delete_hook := False\<rparr>;
     let s = s\<lparr>edf_dmissed_q := False, edf_svc := None, edf_event := False\<rparr>;
     (_, s) \<leftarrow> rt_dtask_dispose s;
     let (_, s) = mtx_delete s;
     Some (s\<lparr>device_registered := False\<rparr>) }"

end
