(* ===== verification/Edf_Memory.thy ===== *)
theory Edf_Memory
  imports Edf_Ops
begin

text \<open>
  Memory: the blocks that are allocated but belong neither to an entry of the table nor to
  a watchdog of one. Which operations leave such blocks behind, and that no operation
  touches one that is already there.
\<close>

section \<open>Blocks that are not the table's\<close>

lemma in_blocks: "(a, d) \<in> set ts \<Longrightarrow> a \<in> set (blocks ts) \<and> the (watchd d) \<in> set (blocks ts)"
  by (induction ts) auto

lemma blocks_core: "core ts' = core ts \<Longrightarrow> blocks ts' = blocks ts"
proof -
  have "blocks ts = concat (map (\<lambda>(a, t, w, n). [a, the w]) (core ts))" for ts
    by (induction ts) auto
  then show "core ts' = core ts \<Longrightarrow> blocks ts' = blocks ts" by metis
qed

lemma core_set_waiting: "core (upd a set_waiting ts) = core ts"
  by (rule core_upd) (simp add: set_waiting_def dname_def)

lemma goingwaitp_spec_frame:
  assumes "goingwaitp_spec env t (ts, h) = (r, ts', h')"
  shows "core ts' = core ts" "live h' = live h"
proof -
  show "core ts' = core ts"
    using assms core_set_waiting by (cases "locate env t (ts, h)") (auto simp: goingwaitp_spec_def close_with_def Let_def)
  show "live h' = live h"
    using assms by (cases "locate env t (ts, h)")
      (auto simp: goingwaitp_spec_def close_with_def Let_def info_calls_def)
qed

definition stray :: "tasks \<times> history \<Rightarrow> addr set" where
  "stray = (\<lambda>(ts, h). set (live h) - set (blocks ts))"

lemma stray_core: "core ts' = core ts \<Longrightarrow> set (live h') = X \<union> set (live h) \<Longrightarrow> X \<inter> set (blocks ts) = {} \<Longrightarrow>
    stray (ts', h') = X \<union> stray (ts, h)"
  using blocks_core [of ts' ts] by (auto simp: stray_def)

lemma stray_recalc:
  assumes "xeno_ok env" and "tasks_ok env (ts, h)"
  shows "stray (recalc_spec env (ts, h)) = stray (ts, h)"
proof -
  obtain ts' h' where r: "recalc_spec env (ts, h) = (ts', h')" by fastforce
  have "core ts' = core ts" "live h' = live h"
    using recalc_core [OF assms] live_recalc [OF r] r by simp_all
  then show ?thesis using stray_core [of ts' ts h' "{}" h] r by simp
qed

lemma info_at_history: "live (info_calls env t h) = info_block env h # live h"
  by (simp add: info_calls_def)

lemma arm_recalc_frame:
  assumes "xeno_ok env" and "tasks_ok env (ts, h)" and "live h1 = b # live h" and "b \<notin> set (live h)"
    and "\<And>d. \<exists>dl. f d = arm now dl d" and "recalc_spec env (upd a f ts, h1) = (ts', h')"
  shows "core ts' = core ts" "live h' = b # live h"
proof -
  have keep: "task (f d) = task d" "watchd (f d) = watchd d" "dname (f d) = dname d"
    "state (f d) = TaskState_val RUNNING" for d
    using assms(5) [of d] by (auto simp: arm_keeps)
  have c: "core (upd a f ts) = core ts" by (rule core_upd) (simp add: keep)
  have "states_ok (upd a f ts)" using tasks_ok_states [OF assms(2)] by (rule states_ok_upd) (simp add: keep)
  then have "tasks_ok env (upd a f ts, h)" using tasks_ok_cong [OF assms(2) c] by blast
  then have ok: "tasks_ok env (upd a f ts, h1)" using assms(3,4) by (rule tasks_ok_more)
  show "core ts' = core ts" using recalc_core [OF assms(1) ok] c assms(6) by simp
  show "live h' = b # live h" using live_recalc [OF assms(6)] assms(3) by simp
qed

text \<open>
  What each operation leaks: setting a deadline, the block of its inquiry; creating a task
  whose name is taken, the watchdog of the element it discards.
\<close>

fun leak :: "'x xeno_scheme \<Rightarrow> dtask_op \<Rightarrow> tasks \<times> history \<Rightarrow> addr set" where
  "leak env (Setdeadline t dl) (ts, h) = {info_block env h}"
| "leak env (Create t dl) (ts, h) =
     (if find_task (c_str (dname (new_dtask env t dl h))) ts = None then {}
      else {info_block env (h @ [Malloc (info_block env h)])})"
| "leak env _ st = {}"

lemma stray_rearm:
  assumes "xeno_ok env" and "tasks_ok env (ts, h)" and "live h1 = b # live h" and "b \<notin> set (live h)"
    and "\<And>d. \<exists>dl. f d = arm now dl d"
  shows "stray (recalc_spec env (upd a f ts, h1)) = insert b (stray (ts, h))"
    and "live (snd (recalc_spec env (upd a f ts, h1))) = b # live h"
proof -
  obtain ts' h' where g: "recalc_spec env (upd a f ts, h1) = (ts', h')" by fastforce
  note f = arm_recalc_frame [OF assms g]
  have "b \<notin> set (blocks ts)" using assms(2,4) by (auto simp: tasks_ok_def)
  then show "stray (recalc_spec env (upd a f ts, h1)) = insert b (stray (ts, h))"
    using stray_core [OF f(1), of h' "{b}" h] f(2) g by simp
  show "live (snd (recalc_spec env (upd a f ts, h1))) = b # live h" using f(2) g by simp
qed

lemma stray_close: "live (snd st) = b # l \<Longrightarrow> b \<notin> set l \<Longrightarrow> stray st = insert b S \<Longrightarrow> b \<notin> S \<Longrightarrow>
    stray (snd (close_with b r st)) = S"
  by (cases st) (auto simp: close_with_def stray_def)

lemma stray_delete:
  assumes "tasks_ok env (ts, h)" and "(a, d) \<in> set ts" and "watchd d = Some w"
  shows "stray (drop_task a ts, h @ [Free w, Free a]) = stray (ts, h)"
proof -
  obtain xs ys where ts: "ts = xs @ (a, d) # ys" using split_list [OF assms(2)] by blast
  have dr: "drop_task a ts = xs @ ys"
    unfolding ts by (rule drop_task_split) (use tasks_ok_distinct [OF assms(1)] ts in simp)
  have "distinct (live h)" using assms(1) by (simp add: tasks_ok_def)
  moreover have "stray (xs @ ys, h @ [Free w, Free a]) = stray (xs @ (a, d) # ys, h)" if "distinct (live h)"
    using that assms(3) by (auto simp: stray_def)
  ultimately show ?thesis using dr ts by simp
qed

lemma stray_create:
  assumes x: "xeno_ok env" and rd: "task_ready env t" and ok: "tasks_ok env (ts, h)"
  shows "stray (snd (create_spec env t dl (ts, h))) = leak env (Create t dl) (ts, h) \<union> stray (ts, h)"
proof -
  obtain a w where aw: "info_block env h = a" "info_block env (h @ [Malloc a]) = w" "a \<notin> set (live h)"
    "w \<notin> set (live h)" "w \<noteq> a" "create_calls env t h = h @ [Malloc a, Malloc w, Timer_read, Task_inquire t]"
    using create_fresh [OF x rd] by blast
  define d where "d = new_dtask env t dl h"
  note cr = create_ok [OF x rd ok, of a w d dl]
  have wd: "watchd d = Some w" using aw by (simp add: d_def new_dtask_fields)
  have nb: "a \<notin> set (blocks ts)" "w \<notin> set (blocks ts)" using aw(3,4) ok by (auto simp: tasks_ok_def)
  show ?thesis
  proof (cases "find_task (c_str (dname d)) ts")
    case None
    have "tasks_ok env (ts @ [(a, d)], create_calls env t h)" using cr(5) None aw by (simp add: d_def)
    moreover have "stray (ts @ [(a, d)], create_calls env t h) = stray (ts, h)"
      using aw wd nb by (auto simp: stray_def)
    ultimately show ?thesis using stray_recalc [OF x] None aw by (simp add: create_spec_def Let_def d_def)
  next
    case (Some e)
    have "tasks_ok env (ts, create_calls env t h @ [Free a])" using cr(4) aw by (simp add: d_def)
    moreover have "stray (ts, create_calls env t h @ [Free a]) = insert w (stray (ts, h))"
      using aw nb by (auto simp: stray_def)
    ultimately show ?thesis using stray_recalc [OF x] Some aw by (simp add: create_spec_def Let_def d_def)
  qed
qed

text \<open>The operations on a task: what the table has of it decides what they do.\<close>

lemma stray_same:
  assumes "core ts' = core ts" and "live h' = live h"
  shows "stray (ts', h') = stray (ts, h)"
  using stray_core [OF assms(1), of h' "{}" h] assms(2) by simp

lemma fresh_stray:
  assumes "xeno_ok env" and "tasks_ok env (ts, h)"
  shows "info_block env h \<notin> set (live h)" and "info_block env h \<notin> set (blocks ts)" and "info_block env h \<notin> stray (ts, h)"
proof -
  show p: "info_block env h \<notin> set (live h)" using xeno_ok_malloc [OF assms(1), of h] by auto
  then show "info_block env h \<notin> set (blocks ts)" "info_block env h \<notin> stray (ts, h)"
    using assms(2) by (auto simp: tasks_ok_def stray_def)
qed

lemma stray_stopwatchdog: "stray (snd (stopwatchdog_spec env t (ts, h))) = stray (ts, h)"
proof -
  obtain r ts' h' where g: "stopwatchdog_spec env t (ts, h) = (r, ts', h')" by (metis prod_cases3)
  obtain r2 ts2 h2 where g2: "goingwaitp_spec env (the (task (the (map_of ts (the (locate env t (ts, h)))))))
      (ts, info_calls env t h) = (r2, ts2, h2)" by (metis prod_cases3)
  have "core ts' = core ts" "live h' = live h"
    using g goingwaitp_spec_frame [OF g2] g2
    by (auto simp: stopwatchdog_spec_def close_with_def Let_def info_at_history split: option.splits)
  from stray_same [OF this] show ?thesis using g by simp
qed

lemma stray_resetdeadline:
  assumes "xeno_ok env" and "tasks_ok env (ts, h)"
  shows "stray (snd (resetdeadline_spec env t (ts, h))) = stray (ts, h)"
proof (cases "locate env t (ts, h)")
  case None
  then show ?thesis using stray_same [of ts ts "info_calls env t h @ [Free (info_block env h)]" h]
    by (simp add: resetdeadline_spec_def close_with_def Let_def info_at_history)
next
  case (Some a)
  note p = fresh_stray [OF assms]
  have l: "live (info_calls env t h @ [Timer_read]) = info_block env h # live h" by (simp add: info_at_history)
  let ?f = "\<lambda>d. arm (rt_timer_read env (info_calls env t h)) (relative_deadline d) d"
  have "\<exists>dl. ?f d = arm (rt_timer_read env (info_calls env t h)) dl d" for d by blast
  note st = stray_rearm [OF assms l p(1) this, of a]
  show ?thesis using Some stray_close [OF st(2) p(1) st(1) p(3), of 0] by (simp add: resetdeadline_spec_def Let_def)
qed

lemma stray_setdeadline:
  assumes "xeno_ok env" and "tasks_ok env (ts, h)"
  shows "stray (snd (setdeadline_spec env t dl (ts, h))) = insert (info_block env h) (stray (ts, h))"
proof (cases "locate env t (ts, h)")
  case None
  then show ?thesis
    using stray_core [of ts ts "info_calls env t h" "{info_block env h}" h] fresh_stray(2) [OF assms]
    by (simp add: setdeadline_spec_def Let_def info_at_history)
next
  case (Some a)
  have l: "live (info_calls env t h @ [Timer_read]) = info_block env h # live h" by (simp add: info_at_history)
  have "\<exists>dl'. arm now dl d = arm now dl' d" for now d by blast
  note st = stray_rearm [OF assms l fresh_stray(1) [OF assms] this, of a]
  show ?thesis using Some st(1) by (simp add: setdeadline_spec_def Let_def)
qed

lemma stray_delete_spec:
  assumes x: "xeno_ok env" and ok: "tasks_ok env (ts, h)"
  shows "stray (snd (delete_spec env t (ts, h))) = stray (ts, h)"
proof (cases "locate env t (ts, h)")
  case None
  then show ?thesis using stray_same [of ts ts "info_calls env t h @ [Free (info_block env h)]" h]
    by (simp add: delete_spec_def close_with_def Let_def info_at_history)
next
  case (Some a)
  let ?p = "info_block env h"
  note p = fresh_stray [OF x ok]
  obtain d where d: "(a, d) \<in> set ts" using Some by (rule located)
  obtain w where w: "watchd d = Some w" using tasks_ok_member [OF ok d] by blast
  have ok1: "tasks_ok env (ts, info_calls env t h)" by (rule tasks_ok_more [OF ok _ p(1)]) (simp add: info_at_history)
  let ?h = "info_calls env t h @ release_calls (a, d)" and ?l = "remove1 a (remove1 w (live h))"
  have rl: "release_calls (a, d) = [Free w, Free a]" using w by (simp add: release_calls_def)
  have pn: "?p \<noteq> a" "?p \<noteq> w" using p(1) drop_ok(1,2) [OF ok d w] by auto
  have st: "stray (drop_task a ts, ?h) = insert ?p (stray (ts, h))"
    using stray_delete [OF ok1 d w] p(2) by (auto simp: rl stray_def info_at_history)
  have "live (snd (drop_task a ts, ?h)) = ?p # ?l" using pn by (simp add: rl info_at_history)
  moreover have "?p \<notin> set ?l" using p(1) notin_set_remove1 by metis
  ultimately show ?thesis using Some located_map [OF ok d] stray_close [OF _ _ st p(3)]
    by (simp add: delete_spec_def Let_def)
qed

lemma op_stray:
  assumes x: "xeno_ok env" and ok: "tasks_ok env (ts, h)" and r: "op_ready env c" and n: "c \<noteq> Dispose"
  shows "stray (snd (op_spec env c (ts, h))) = leak env c (ts, h) \<union> stray (ts, h)"
proof (cases c)
  case (Goingwaitp t)
  obtain r' ts' h' where g: "goingwaitp_spec env t (ts, h) = (r', ts', h')" by (metis prod_cases3)
  then show ?thesis using Goingwaitp stray_same [OF goingwaitp_spec_frame [OF g]] by simp
next
  case (Updateinfo t)
  have "blocks (upd a (\<lambda>d. d\<lparr>task_info := j d\<rparr>) ts) = blocks ts" for a j
    by (induction ts) (auto simp: upd_def)
  then show ?thesis using Updateinfo
    by (auto simp: updateinfo_spec_def close_with_def Let_def info_at_history stray_def split: option.splits)
qed (use n r stray_recalc [OF x ok] stray_stopwatchdog stray_resetdeadline [OF x ok] stray_setdeadline [OF x ok]
    stray_create [OF x _ ok] stray_delete_spec [OF x ok] in simp_all)

text \<open>
  Such a block stays allocated, and does not become part of the table.
\<close>

definition outside_block :: "addr \<Rightarrow> tasks \<times> history \<Rightarrow> bool" where
  "outside_block b = (\<lambda>(ts, h). b \<in> set (live h) \<and> b \<notin> set (blocks ts))"

lemma outside_block_stray: "outside_block b st \<longleftrightarrow> b \<in> stray st"
  by (auto simp: outside_block_def stray_def)

lemma op_outside: "xeno_ok env \<Longrightarrow> tasks_ok env (ts, h) \<Longrightarrow> op_ready env c \<Longrightarrow> c \<noteq> Dispose \<Longrightarrow>
    outside_block b (ts, h) \<Longrightarrow> outside_block b (snd (op_spec env c (ts, h)))"
  by (simp add: outside_block_stray op_stray)

lemma leak_fresh: "xeno_ok env \<Longrightarrow> op_ready env c \<Longrightarrow> leak env c (ts, h) \<inter> set (live h) = {}"
proof (cases c)
  case (Setdeadline t dl)
  assume "xeno_ok env"
  then show ?thesis using xeno_ok_malloc [of env h] Setdeadline by auto
next
  case (Create t dl)
  assume "xeno_ok env" "op_ready env c"
  then obtain a w where "info_block env h = a" "info_block env (h @ [Malloc a]) = w" "w \<notin> set (live h)"
    using create_fresh [of env t h] Create by auto
  then show ?thesis using Create by simp
qed simp_all

section \<open>Accounting\<close>



end
