(* ===== verification/Edf_Driver_Correct.thy ===== *)
theory Edf_Driver_Correct
  imports Edf_Driver Edf_Memory
begin

text \<open>
  What the kernel module does: the effect of a message on the table, the codes the device
  returns, the lock, and the states the module can reach from loading on, whatever order
  its entry points run in.
\<close>

section \<open>Changes outside the table\<close>

lemma edf_state_cong:
  assumes "heap s' = heap s" and "head s' = head s" and "tbl s' = tbl s" and "live (calls s') = live (calls s)"
  shows "edf_state env s' ts = edf_state env s ts"
proof -
  have "elt_read a s' = elt_read a s" for a using assms(1) by (simp add: elt_read_def)
  then show ?thesis
    using assms by (simp add: edf_state_def rep_def dict_inv_def ut_inv_def tasks_ok_def)
qed

lemma drv_more:
  assumes "edf.more s' = edf.more s"
  shows "edf_data_lock s' = edf_data_lock s" "edf_event s' = edf_event s" "edf_svc s' = edf_svc s"
    "edf_dmissed_q s' = edf_dmissed_q s" "device_registered s' = device_registered s"
    "start_hook s' = start_hook s" "delete_hook s' = delete_hook s"
  using assms by (cases s; cases s'; simp)+

lemma edf_state_emit: "live_from (live (calls s)) [c] = live (calls s) \<Longrightarrow>
    edf_state env (emit c s) ts = edf_state env s ts"
  by (rule edf_state_cong) (simp_all add: emit_def)

section \<open>Messages\<close>

text \<open>The operation a message asks for.\<close>

definition msg_op :: "EDFMessage \<Rightarrow> RT_TASK \<Rightarrow> dtask_op option" where
  "msg_op msg t =
     (if command msg = EDFCommand_val CREATE_TASK then Some (Create t (msg_deadline msg))
      else if command msg = EDFCommand_val START_TASK then Some (Setdeadline t (msg_deadline msg))
      else if command msg = EDFCommand_val STOP_WATCHD then Some (Stopwatchdog t)
      else if command msg = EDFCommand_val GOING_WAITP then Some (Goingwaitp t)
      else if command msg = EDFCommand_val RESET_DEADLINE then Some (Resetdeadline t)
      else if command msg = EDFCommand_val SET_DEADLINE then Some (Setdeadline t (msg_deadline msg))
      else None)"

lemma do_op_fun:
  "do_op env (Create t dl) = rt_dtask_create env t dl" "do_op env (Setdeadline t dl) = rt_dtask_setdeadline env t dl"
  "do_op env (Stopwatchdog t) = rt_dtask_stopwatchdog env t" "do_op env (Goingwaitp t) = rt_dtask_goingwaitp env t"
  "do_op env (Resetdeadline t) = rt_dtask_resetdeadline env t" "do_op env (Delete t) = rt_dtask_delete env t"
  by (simp_all add: fun_eq_iff)

lemma serve_msg_op: "serve env msg t s = (case msg_op msg t of None \<Rightarrow> Some (0, s)
    | Some c \<Rightarrow> locked (do_op env c) s)"
  by (simp add: serve_def msg_op_def do_op_fun)

lemma msg_op_ready: "task_ready env t \<Longrightarrow> msg_op msg t = Some c \<Longrightarrow> op_ready env c"
  by (auto simp: msg_op_def split: if_splits)

lemma locked_run:
  assumes "xeno_ok env" and "edf_state env s ts" and "op_ready env c" and "\<not> edf_data_lock s"
  shows "\<exists>s'. locked (do_op env c) s = Some (0, s') \<and>
    edf_state env s' (fst (snd (op_spec env c (ts, calls s @ [Lock_get])))) \<and>
    calls s' = snd (snd (op_spec env c (ts, calls s @ [Lock_get]))) @ [Lock_put] \<and>
    edf.more s' = edf.more s"
proof -
  let ?s = "emit Lock_get (s\<lparr>edf_data_lock := True\<rparr>)"
  have "edf_state env ?s ts" using assms(2) by (subst edf_state_cong [of _ s]) (simp_all add: emit_def)
  from op_run_more [OF assms(1) this assms(3)] obtain s1 where s1:
    "do_op env c ?s = Some (fst (op_spec env c (ts, calls s @ [Lock_get])), s1)"
    "edf_state env s1 (fst (snd (op_spec env c (ts, calls s @ [Lock_get]))))"
    "calls s1 = snd (snd (op_spec env c (ts, calls s @ [Lock_get])))" "edf.more s1 = edf.more ?s"
    by (auto simp: emit_def)
  let ?s2 = "emit Lock_put (s1\<lparr>edf_data_lock := False\<rparr>)"
  have l: "edf_data_lock s1" using drv_more(1) [OF s1(4)] by (simp add: emit_def)
  have "locked (do_op env c) s = Some (0, ?s2)"
    using assms(4) s1(1) l by (simp add: locked_def mtx_acquire_def mtx_release_def)
  moreover have "edf_state env ?s2 (fst (snd (op_spec env c (ts, calls s @ [Lock_get]))))"
    using s1(2) by (subst edf_state_cong [of _ s1]) (simp_all add: emit_def)
  moreover have "edf.more ?s2 = edf.more s"
    using s1(4) assms(4) by (cases s; cases s1) (simp add: emit_def)
  ultimately show ?thesis using s1(3) by (auto simp: emit_def)
qed

section \<open>The message block\<close>

lemma take_message:
  assumes "xeno_ok env" and "edf_state env s ts"
  obtains b where "kmalloc env s = (Some b, emit (Malloc b) s)" and "edf_state env (emit (Malloc b) s) ts"
    and "b \<notin> set (live (calls s))" and "info_block env (calls s) = b"
proof -
  obtain b where b: "rtdm_malloc env (calls s) = Some b" "info_block env (calls s) = b" "b \<notin> set (live (calls s))"
    using xeno_ok_malloc [OF assms(1)] by blast
  note st = edf_stateD [OF assms(2)]
  have "rep (emit (Malloc b) s) (ts, calls s @ [Malloc b]) (edf.more s)" using rep_emit [OF st(1)] .
  moreover have "tasks_ok env (ts, calls s @ [Malloc b])"
    by (rule tasks_ok_more [OF st(2)]) (use b in simp_all)
  ultimately have "edf_state env (emit (Malloc b) s) ts" by (rule edf_stateI [THEN conjunct1])
  then show ?thesis using b(2,3) by (intro that) (simp_all add: kmalloc_eq b(1))
qed

text \<open>The message can be freed whatever happened to the table, as long as it is still allocated.\<close>

lemma free_message:
  assumes "edf_state env s ts" and "b \<in> set (live (calls s))" and "b \<notin> set (blocks ts)"
  shows "\<exists>s'. kfree (Some b) s = Some s' \<and> edf_state env s' ts \<and> calls s' = calls s @ [Free b] \<and>
    edf.more s' = edf.more s"
proof -
  note st = edf_stateD [OF assms(1)]
  have "b \<notin> fst ` set ts" using assms(3) fst_in_blocks by blast
  then obtain s' where s': "kfree (Some b) s = Some s'" "rep s' (ts, calls s @ [Free b]) (edf.more s)"
    using rep_kfree [OF st(1) assms(2)] by blast
  have "tasks_ok env (ts, calls s @ [Free b])"
    using st(2) assms(3) by (auto simp: tasks_ok_def)
  then show ?thesis using s' edf_stateI [OF s'(2)] by blast
qed

section \<open>The write handler\<close>

text \<open>What the driver may assume of the registry and of copying from user space.\<close>

definition drv_env_ok :: "'x drv_env_scheme \<Rightarrow> bool" where
  "drv_env_ok env \<longleftrightarrow> xeno_ok env \<and>
     (\<forall>h buf err. rtdm_copy_from_user env h buf = Inl err \<longrightarrow> err = - EFAULT) \<and>
     (\<forall>h nm hdl thr. xnregistry_bind env h nm = Inr hdl \<longrightarrow> xnregistry_fetch env h hdl = Some thr \<longrightarrow>
        task_ready env (T_DESC env thr))"

text \<open>The task that the registry gives for a name, at some history.\<close>

definition registered :: "'x drv_env_scheme \<Rightarrow> history \<Rightarrow> char list \<Rightarrow> RT_TASK option" where
  "registered env h nm = (case xnregistry_bind env h nm of Inl err \<Rightarrow> None
     | Inr hdl \<Rightarrow> map_option (T_DESC env) (xnregistry_fetch env h hdl))"

lemma get_handle_registered: "get_handle env nm s = registered env (calls s) nm"
  by (simp add: get_handle_def registered_def split: sum.splits option.splits)

lemma registered_ready: "drv_env_ok env \<Longrightarrow> registered env h nm = Some t \<Longrightarrow> task_ready env t"
  by (auto simp: registered_def drv_env_ok_def split: sum.splits)

text \<open>The state after a message that asks for an operation or for nothing.\<close>

definition msg_spec :: "'x drv_env_scheme \<Rightarrow> EDFMessage \<Rightarrow> RT_TASK \<Rightarrow> tasks \<times> history \<Rightarrow> tasks \<times> history" where
  "msg_spec env msg t = (\<lambda>(ts, h). case msg_op msg t of None \<Rightarrow> (ts, h)
     | Some c \<Rightarrow> (let (r, ts', h') = op_spec env c (ts, h @ [Lock_get]) in (ts', h' @ [Lock_put])))"

lemma serve_run:
  assumes "xeno_ok env" and "edf_state env s ts" and "task_ready env t" and "\<not> edf_data_lock s"
    and "outside_block b (ts, calls s)"
  shows "\<exists>s'. serve env msg t s = Some (0, s') \<and> edf_state env s' (fst (msg_spec env msg t (ts, calls s))) \<and>
    calls s' = snd (msg_spec env msg t (ts, calls s)) \<and> edf.more s' = edf.more s \<and>
    outside_block b (msg_spec env msg t (ts, calls s))"
proof (cases "msg_op msg t")
  case None
  then show ?thesis using assms(2,5) by (simp add: serve_msg_op msg_spec_def)
next
  case (Some c)
  have rd: "op_ready env c" using msg_op_ready [OF assms(3) Some] .
  have nd: "c \<noteq> Dispose" using Some by (auto simp: msg_op_def split: if_splits)
  obtain r ts' h' where o: "op_spec env c (ts, calls s @ [Lock_get]) = (r, ts', h')" by (metis prod_cases3)
  have ok: "tasks_ok env (ts, calls s @ [Lock_get])" using edf_stateD(2) [OF assms(2)] by (rule tasks_ok_live) simp
  have "outside_block b (ts, calls s @ [Lock_get])" using assms(5) by (simp add: outside_block_def)
  from op_outside [OF assms(1) ok rd nd this] have "outside_block b (ts', h' @ [Lock_put])"
    by (simp add: o outside_block_def)
  then show ?thesis using locked_run [OF assms(1,2) rd assms(4)] Some o
    by (auto simp: serve_msg_op msg_spec_def)
qed

text \<open>
  The handler on the message it ends up with: the one copied from user space, or what was in
  the block when copying fails with an error other than the one the code tests for.
\<close>

lemma write_effect:
  assumes "xeno_ok env" and "edf_state env s ts" and b: "info_block env (calls s) = b"
    and msg: "rtdm_copy_from_user env (calls s @ [Malloc b]) buf = Inr msg \<or>
      (\<exists>err. rtdm_copy_from_user env (calls s @ [Malloc b]) buf = Inl err \<and> err \<noteq> EFAULT \<and>
        msg = raw_EDFMessage env (calls s))"
  shows "registered env (calls s @ [Malloc b]) (msg_task msg) = None \<Longrightarrow>
      \<exists>s'. edf_rtdm_write_nrt env buf nbyte s = Some (-1, s') \<and> edf_state env s' ts \<and>
        calls s' = calls s @ [Malloc b, Free b] \<and> edf.more s' = edf.more s"
    and "registered env (calls s @ [Malloc b]) (msg_task msg) = Some t \<Longrightarrow> task_ready env t \<Longrightarrow>
      \<not> edf_data_lock s \<Longrightarrow>
      \<exists>s'. edf_rtdm_write_nrt env buf nbyte s = Some (nbyte, s') \<and>
        edf_state env s' (fst (msg_spec env msg t (ts, calls s @ [Malloc b]))) \<and>
        calls s' = snd (msg_spec env msg t (ts, calls s @ [Malloc b])) @ [Free b] \<and> edf.more s' = edf.more s"
proof -
  have km: "kmalloc env s = (Some b, emit (Malloc b) s)" and st: "edf_state env (emit (Malloc b) s) ts"
    and fresh: "b \<notin> set (live (calls s))"
    using take_message [OF assms(1,2)] b by metis+
  have nb: "b \<notin> set (blocks ts)" using fresh edf_stateD(2) [OF assms(2)] by (auto simp: tasks_ok_def)
  have c: "calls (emit (Malloc b) s) = calls s @ [Malloc b]" by simp
  have ne: "(0::int) \<noteq> EFAULT" by (simp add: EFAULT_def)
  have run: "edf_rtdm_write_nrt env buf nbyte s = (case registered env (calls s @ [Malloc b]) (msg_task msg) of
        None \<Rightarrow> Option.bind (kfree (Some b) (emit (Malloc b) s)) (\<lambda>s. Some (-1, s))
      | Some t \<Rightarrow> Option.bind (serve env msg t (emit (Malloc b) s)) (\<lambda>(ret, s).
          Option.bind (kfree (Some b) s) (\<lambda>s. Some (if ret \<noteq> 0 then ret else nbyte, s))))"
    using msg ne by (auto simp: edf_rtdm_write_nrt_def km get_handle_registered Let_def)
  show "\<exists>s'. edf_rtdm_write_nrt env buf nbyte s = Some (-1, s') \<and> edf_state env s' ts \<and>
        calls s' = calls s @ [Malloc b, Free b] \<and> edf.more s' = edf.more s"
    if "registered env (calls s @ [Malloc b]) (msg_task msg) = None"
    using free_message [OF st _ nb] run that by auto
  show "\<exists>s'. edf_rtdm_write_nrt env buf nbyte s = Some (nbyte, s') \<and>
        edf_state env s' (fst (msg_spec env msg t (ts, calls s @ [Malloc b]))) \<and>
        calls s' = snd (msg_spec env msg t (ts, calls s @ [Malloc b])) @ [Free b] \<and> edf.more s' = edf.more s"
    if t: "registered env (calls s @ [Malloc b]) (msg_task msg) = Some t" "task_ready env t" "\<not> edf_data_lock s"
  proof -
    have "\<not> edf_data_lock (emit (Malloc b) s)" using t(3) by (simp add: emit_def)
    moreover have "outside_block b (ts, calls (emit (Malloc b) s))" using nb by (simp add: outside_block_def)
    ultimately obtain s1 where s1: "serve env msg t (emit (Malloc b) s) = Some (0, s1)"
      "edf_state env s1 (fst (msg_spec env msg t (ts, calls s @ [Malloc b])))"
      "calls s1 = snd (msg_spec env msg t (ts, calls s @ [Malloc b]))" "edf.more s1 = edf.more (emit (Malloc b) s)"
      "outside_block b (msg_spec env msg t (ts, calls s @ [Malloc b]))"
      using serve_run [OF assms(1) st t(2)] unfolding c by blast
    have "b \<in> set (live (calls s1))" "b \<notin> set (blocks (fst (msg_spec env msg t (ts, calls s @ [Malloc b]))))"
      using s1(3,5) by (auto simp: outside_block_def split: prod.splits)
    from free_message [OF s1(2) this] show ?thesis using s1 t(1) run by auto
  qed
qed

end
