(* ===== verification/Edf_Driver_Demo.thy ===== *)
theory Edf_Driver_Demo
  imports Edf_Driver_Correct
begin

text \<open>
  A concrete world for the kernel module: the one of \<open>Edf_Demo\<close>, a registry that knows the
  tasks A, B and C, and a user buffer whose copy gives a chosen result.
\<close>

definition demo_drv :: "int + EDFMessage \<Rightarrow> EDFMessage \<Rightarrow> drv_env" where
  "demo_drv copied raw = \<lparr>fls = demo_fls, do_div = demo_do_div,
     rt_timer_read = rt_timer_read demo, rt_task_inquire = rt_task_inquire demo,
     rtdm_malloc = rtdm_malloc demo, rname = demo_name, raw_info = raw_info demo,
     raw_message = raw_message demo, raw_node = raw_node demo,
     rtdm_copy_from_user = (\<lambda>h buf. copied), raw_EDFMessage = (\<lambda>h. raw),
     xnregistry_bind = (\<lambda>h nm. if c_str nm = ''A'' then Inr 0 else if c_str nm = ''B'' then Inr 1
        else if c_str nm = ''C'' then Inr 2 else Inl (-11)),
     xnregistry_fetch = (\<lambda>h hdl. Some hdl), T_DESC = (\<lambda>thr. thr),
     rtdm_dev_register = 0, rt_queue_create = 0, rtdm_task_init = 0,
     add_start_hook = 0, add_delete_hook = 0\<rparr>"

definition demo_msg :: "EDFCommand \<Rightarrow> char list \<Rightarrow> u64 \<Rightarrow> EDFMessage" where
  "demo_msg cmd nm dl = \<lparr>command = EDFCommand_val cmd, msg_task = nm @ [CHR 0x00], msg_deadline = dl\<rparr>"

lemma demo_drv_ready: "task_ready (demo_drv c raw) t"
  by (simp add: task_ready_def rname_ok_def demo_drv_def demo_def demo_name_def c_terminated_def TNAME_LEN_def)

lemma demo_drv_xeno_ok: "xeno_ok (demo_drv c raw)"
proof -
  have "klib_ok (demo_drv c raw)" by (rule klib_okI) (simp_all add: demo_drv_def)
  then show ?thesis using demo_malloc_fresh
    by (auto simp: xeno_ok_def demo_drv_def demo_def TNAME_LEN_def)
qed

lemma demo_drv_ok: "copied \<in> {Inl (- EFAULT), Inr msg} \<Longrightarrow> drv_env_ok (demo_drv copied raw)"
  using demo_drv_xeno_ok demo_drv_ready by (auto simp: drv_env_ok_def demo_drv_def)

lemma tasks_ok_rname:
  assumes "rname env = rname env'"
  shows "tasks_ok env st = tasks_ok env' st"
proof -
  have "rname_ok env = rname_ok env'" by (simp add: rname_ok_def fun_eq_iff assms)
  then have "dtask_ok env = dtask_ok env'"
    by (simp add: dtask_ok_def fun_eq_iff assms split: option.split)
  then show ?thesis by (simp add: tasks_ok_def)
qed

text \<open>The driver with two registered tasks, idle or anywhere in the loop of its service.\<close>

lemma demo_drv_state:
  obtains s :: drv where "edf_state (demo_drv c raw) s demo_ts" and "calls s = demo_calls"
    and "edf_data_lock s = lk" and "edf_event s = ev" and "edf_svc s = pc"
proof -
  define m :: "\<lparr>edf_data_lock :: bool, edf_event :: bool, edf_svc :: svc_pc option, edf_dmissed_q :: bool,
      device_registered :: bool, start_hook :: bool, delete_hook :: bool\<rparr>" where
    "m = drv.fields lk ev pc True True True True"
  obtain s :: drv where s: "rep s (demo_ts, demo_calls) m" "tasks_ok demo (demo_ts, demo_calls)"
    using demo_state_ext [of m] by blast
  have "tasks_ok (demo_drv c raw) (demo_ts, demo_calls)"
    using s(2) tasks_ok_rname [of demo "demo_drv c raw"] by (simp add: demo_drv_def demo_def)
  from edf_stateI [OF s(1) this] have e: "edf_state (demo_drv c raw) s demo_ts" "calls s = demo_calls" "edf.more s = m"
    by auto
  then have "edf_data_lock s = lk" "edf_event s = ev" "edf_svc s = pc"
    by (cases s; simp add: m_def drv.defs)+
  then show ?thesis using that e(1,2) by blast
qed

end
