(* ===== verification/Edf_Driver_Props.thy ===== *)
theory Edf_Driver_Props
  imports Edf_Driver_Demo
begin

text \<open>
  The properties of the kernel module: what the device's write handler does, the states
  that can be reached from loading on, the lock, the service and its event, and unloading.
\<close>

section \<open>Messages\<close>

text \<open>C6: Serving a message. A message that was copied and names a task of the registry is
  served under the lock: the table and the external calls become those of the operation the
  command stands for (nothing for an unknown command), the lock is free again, the message
  is freed. The handler returns the byte count it was given, whatever the operation
  returned: the client never learns that an operation was refused.\<close>

theorem write_dispatch:
  assumes "drv_env_ok env" and "edf_state env s ts" and "\<not> edf_data_lock s"
    and "rtdm_copy_from_user env (calls s @ [Malloc (info_block env (calls s))]) buf = Inr msg"
    and "registered env (calls s @ [Malloc (info_block env (calls s))]) (msg_task msg) = Some t"
  shows "\<exists>s'. edf_rtdm_write_nrt env buf nbyte s = Some (nbyte, s') \<and>
    edf_state env s' (fst (msg_spec env msg t (ts, calls s @ [Malloc (info_block env (calls s))]))) \<and>
    calls s' = snd (msg_spec env msg t (ts, calls s @ [Malloc (info_block env (calls s))])) @
      [Free (info_block env (calls s))] \<and> \<not> edf_data_lock s'"
proof -
  have "xeno_ok env" using assms(1) by (simp add: drv_env_ok_def)
  from write_effect(2) [OF this assms(2) refl disjI1 [OF assms(4)] assms(5) registered_ready [OF assms(1,5)] assms(3)]
  show ?thesis using drv_more(1) assms(3) by blast
qed

theorem write_dispatch_witness:
  "\<exists>(env :: drv_env) s s' d. edf_state env (s :: drv) demo_ts \<and> edf_rtdm_write_nrt env 77 48 s = Some (48, s') \<and>
    edf_state env s' [(1, d), (3, demo_dtask 1 3009000 2998000 3000000 4)] \<and>
    state d = EDFCommand_val GOING_WAITP"
proof -
  let ?m = "demo_msg GOING_WAITP ''A'' 0"
  let ?env = "demo_drv (Inr ?m) ?m"
  obtain s :: drv where s: "edf_state ?env s demo_ts" "calls s = demo_calls" "\<not> edf_data_lock s"
    using demo_drv_state [of "Inr ?m" ?m False] by metis
  have ok: "drv_env_ok ?env" by (rule demo_drv_ok) simp
  have c: "rtdm_copy_from_user ?env (calls s @ [Malloc (info_block ?env (calls s))]) 77 = Inr ?m"
    "registered ?env (calls s @ [Malloc (info_block ?env (calls s))]) (msg_task ?m) = Some 0"
    by (simp_all add: demo_drv_def demo_msg_def registered_def c_str_def)
  have "msg_op ?m 0 = Some (Goingwaitp 0)" by (simp add: msg_op_def demo_msg_def)
  then have "fst (msg_spec ?env ?m 0 (demo_ts, h)) = upd 1 set_waiting demo_ts" for h
    by (simp add: msg_spec_def goingwaitp_spec_def locate_def close_with_def Let_def find_task_def demo_ts_def
        demo_dtask_def dname_def info_at_def demo_drv_def demo_def demo_name_def c_str_def)
  moreover have "upd 1 set_waiting demo_ts =
      [(1, set_waiting (demo_dtask 0 5002000 4991000 5000000 2)), (3, demo_dtask 1 3009000 2998000 3000000 4)]"
    by (simp add: upd_def demo_ts_def)
  ultimately show ?thesis using write_dispatch [OF ok s(1,3) c, of 48] s(1) by (fastforce simp: set_waiting_def)
qed

text \<open>A message for a name that the registry does not know is refused with -1; the table
  is not touched, the lock is not taken and the message is freed.\<close>

theorem write_refused:
  assumes "drv_env_ok env" and "edf_state env s ts"
    and "rtdm_copy_from_user env (calls s @ [Malloc (info_block env (calls s))]) buf = Inr msg"
    and "registered env (calls s @ [Malloc (info_block env (calls s))]) (msg_task msg) = None"
  shows "\<exists>s'. edf_rtdm_write_nrt env buf nbyte s = Some (-1, s') \<and> edf_state env s' ts \<and>
    calls s' = calls s @ [Malloc (info_block env (calls s)), Free (info_block env (calls s))] \<and>
    edf_data_lock s' = edf_data_lock s"
proof -
  have "xeno_ok env" using assms(1) by (simp add: drv_env_ok_def)
  from write_effect(1) [OF this assms(2) refl disjI1 [OF assms(3)] assms(4)]
  show ?thesis using drv_more(1) by blast
qed

theorem write_refused_witness:
  "\<exists>(env :: drv_env) s s'. edf_state env (s :: drv) demo_ts \<and> edf_rtdm_write_nrt env 77 48 s = Some (-1, s') \<and>
    edf_state env s' demo_ts"
proof -
  let ?m = "demo_msg RESET_DEADLINE ''Z'' 0"
  let ?env = "demo_drv (Inr ?m) ?m"
  obtain s :: drv where s: "edf_state ?env s demo_ts" using demo_drv_state [of "Inr ?m" ?m] by metis
  have ok: "drv_env_ok ?env" by (rule demo_drv_ok) simp
  have c: "rtdm_copy_from_user ?env (calls s @ [Malloc (info_block ?env (calls s))]) 77 = Inr ?m"
    "registered ?env (calls s @ [Malloc (info_block ?env (calls s))]) (msg_task ?m) = None"
    by (simp_all add: demo_drv_def demo_msg_def registered_def c_str_def)
  show ?thesis using write_refused [OF ok s c, of 48] s by blast
qed

text \<open>A failing copy is not noticed. The code compares the result with \<open>EFAULT\<close>, but the
  copy returns \<open>-EFAULT\<close>: the handler goes on with the uninitialised block and, when its bytes
  happen to name a registered task, carries out its command and reports success.\<close>

theorem write_copy_failure:
  assumes "drv_env_ok env" and "edf_state env s ts" and "\<not> edf_data_lock s"
    and "rtdm_copy_from_user env (calls s @ [Malloc (info_block env (calls s))]) buf = Inl err"
    and "raw_EDFMessage env (calls s) = msg"
    and "registered env (calls s @ [Malloc (info_block env (calls s))]) (msg_task msg) = Some t"
  shows "\<exists>s'. edf_rtdm_write_nrt env buf nbyte s = Some (nbyte, s') \<and>
    edf_state env s' (fst (msg_spec env msg t (ts, calls s @ [Malloc (info_block env (calls s))])))"
proof -
  have "xeno_ok env" "err = - EFAULT" using assms(1,4) by (auto simp: drv_env_ok_def)
  then have "xeno_ok env" "err \<noteq> EFAULT" by (simp_all add: EFAULT_def)
  then show ?thesis
    using write_effect(2) [OF _ assms(2) refl _ _ registered_ready [OF assms(1,6)] assms(3), of buf msg nbyte] assms(4-6)
    by blast
qed
theorem write_copy_failure_witness:
  "\<exists>(env :: drv_env) s s' ts'. rtdm_copy_from_user env = (\<lambda>h buf. Inl (- EFAULT)) \<and> edf_state env (s :: drv) demo_ts \<and>
    edf_rtdm_write_nrt env 77 48 s = Some (48, s') \<and> edf_state env s' ts'"
proof -
  let ?m = "demo_msg STOP_WATCHD ''B'' 0"
  let ?env = "demo_drv (Inl (- EFAULT)) ?m"
  obtain s :: drv where s: "edf_state ?env s demo_ts" "\<not> edf_data_lock s"
    using demo_drv_state [of "Inl (- EFAULT)" ?m False] by metis
  have ok: "drv_env_ok ?env" by (rule demo_drv_ok) simp
  have c: "rtdm_copy_from_user ?env (calls s @ [Malloc (info_block ?env (calls s))]) 77 = Inl (- EFAULT)"
    "raw_EDFMessage ?env (calls s) = ?m"
    "registered ?env (calls s @ [Malloc (info_block ?env (calls s))]) (msg_task ?m) = Some 1"
    by (simp_all add: demo_drv_def demo_msg_def registered_def c_str_def)
  have "rtdm_copy_from_user ?env = (\<lambda>h buf. Inl (- EFAULT))" by (simp add: demo_drv_def)
  then show ?thesis using write_copy_failure [OF ok s c, of 48] s(1) by blast
qed

end
