(* ===== verification/Edf_App.thy ===== *)
theory Edf_App
  imports Edf_Types
begin

text \<open>
  The user-space library, edfomai-app.c: opening and closing the device, starting a task
  with a deadline, waiting for the next period. The state is that of a process using the
  library, and the rest of the system, of which only the calls in \<open>app_env\<close> are known.
  \<open>None\<close> means that the code goes wrong. The library's mutex is compiled out: its calls
  return 0 without doing anything.
\<close>

section \<open>External code and state\<close>

record app =
  device :: int
  umem :: "addr list"

record 's app_env =
  rt_dev_open :: "'s \<Rightarrow> int \<times> 's"
  rt_dev_close :: "int \<Rightarrow> 's \<Rightarrow> int \<times> 's"
  rt_dev_write :: "int \<Rightarrow> EDFMessage \<Rightarrow> int \<Rightarrow> 's \<Rightarrow> (int \<times> 's) option"
  app_inquire :: "'s \<Rightarrow> RT_TASK \<Rightarrow> int + RT_TASK_INFO"
  rt_task_self :: "'s \<Rightarrow> RT_TASK option"
  rt_task_wait_period :: "'s \<Rightarrow> int \<times> 's"
  rt_task_start :: "RT_TASK \<Rightarrow> 's \<Rightarrow> int \<times> 's"
  malloc :: "addr list \<Rightarrow> addr option"
  raw_app_message :: "'s \<Rightarrow> EDFMessage"

definition EPERM :: int where "EPERM = 1"
definition EINTR :: int where "EINTR = 4"
definition EWOULDBLOCK :: int where "EWOULDBLOCK = 11"
definition ETIMEDOUT :: int where "ETIMEDOUT = 110"

text \<open>The size of a message: an enumerator, 25 characters, padding, and 8 bytes.\<close>

definition sizeof_EDFMessage :: int where "sizeof_EDFMessage = 40"

definition app_malloc :: "'s app_env \<Rightarrow> app \<Rightarrow> addr option \<times> app" where
  "app_malloc env p = (case malloc env (umem p) of
       None \<Rightarrow> (None, p)
     | Some a \<Rightarrow> (Some a, p\<lparr>umem := a # umem p\<rparr>))"

definition app_free :: "addr option \<Rightarrow> app \<Rightarrow> app option" where
  "app_free m p = (case m of None \<Rightarrow> Some p
     | Some a \<Rightarrow> if a \<in> set (umem p) then Some (p\<lparr>umem := remove1 a (umem p)\<rparr>) else None)"

text \<open>
  \<open>strncpy\<close>: at most \<open>n\<close> characters of the source, padded with NULs; reading past the end
  of the source or writing past the end of the destination is a fault.
\<close>

definition strncpy :: "char list \<Rightarrow> char list \<Rightarrow> nat \<Rightarrow> char list option" where
  "strncpy dest src n =
     (if (c_terminated src \<or> n \<le> length src) \<and> n \<le> length dest
      then Some (take n (c_str src @ replicate n (CHR 0x00)) @ drop n dest) else None)"

section \<open>The library's mutex\<close>

definition app_mtx_create :: "app \<times> 's \<Rightarrow> int \<times> app \<times> 's" where
  "app_mtx_create st = (0, st)"

definition app_mtx_delete :: "app \<times> 's \<Rightarrow> int \<times> app \<times> 's" where
  "app_mtx_delete st = (0, st)"

definition app_mtx_acquire :: "app \<times> 's \<Rightarrow> int \<times> app \<times> 's" where
  "app_mtx_acquire st = (0, st)"

definition app_mtx_release :: "app \<times> 's \<Rightarrow> int \<times> app \<times> 's" where
  "app_mtx_release st = (0, st)"

section \<open>Initialisation and disposal\<close>

definition edf_init :: "'s app_env \<Rightarrow> app \<times> 's \<Rightarrow> int \<times> app \<times> 's" where
  "edf_init env st =
     (let (p, s) = st;
          p = p\<lparr>device := -1\<rparr>;
          (ret, p, s) = app_mtx_create (p, s)
      in if ret \<noteq> 0 then (-1, p, s)
         else let (fd, s) = rt_dev_open env s;
                  p = p\<lparr>device := fd\<rparr>
              in if device p < 0 then (-1, p\<lparr>device := -1\<rparr>, s) else (0, p, s))"

definition edf_dispose :: "'s app_env \<Rightarrow> app \<times> 's \<Rightarrow> int \<times> app \<times> 's" where
  "edf_dispose env st =
     (let (ret, p, s) = app_mtx_acquire st
      in if ret \<noteq> 0 \<or> device p = -1 then (-1, p, s)
         else let (_, p, s) = app_mtx_delete (p, s);
                  (ret, s) = rt_dev_close env (device p) s
              in if ret \<noteq> 0 then (-2, p\<lparr>device := -1\<rparr>, s) else (0, p, s))"

section \<open>Tasks\<close>

definition wait_period :: "'s app_env \<Rightarrow> app \<times> 's \<Rightarrow> int \<times> app \<times> 's" where
  "wait_period env st =
     (let (p, s) = st;
          (ret, s) = rt_task_wait_period env s;
          ret = (if - ret = EWOULDBLOCK then -1
                 else if - ret = EINTR then -1
                 else if - ret = ETIMEDOUT then -1
                 else if - ret = EPERM then ret
                 else 0)
      in (ret, p, s))"

text \<open>
  The lines both operations fill their message with. \<open>strncpy\<close> returns its first argument,
  so the check of its result never fails.
\<close>

definition fill_message :: "EDFCommand \<Rightarrow> u64 \<Rightarrow> char list \<Rightarrow> EDFMessage \<Rightarrow> EDFMessage option" where
  "fill_message cmd dl nm msg = do {
     let msg = msg\<lparr>command := EDFCommand_val cmd, msg_deadline := dl\<rparr>;
     buf \<leftarrow> strncpy (msg_task msg) nm TNAME_LEN;
     if TNAME_LEN < length buf then Some (msg\<lparr>msg_task := buf[TNAME_LEN := CHR 0x00]\<rparr>) else None }"

definition edf_task_start :: "'s app_env \<Rightarrow> RT_TASK \<Rightarrow> u64 \<Rightarrow> app \<times> 's \<Rightarrow> (int \<times> app \<times> 's) option" where
  "edf_task_start env t dl st = do {
     let (p, s) = st;
     let (m, p) = app_malloc env p;
     case app_inquire env s t of
       Inl err \<Rightarrow> do { p \<leftarrow> app_free m p; Some (-1, p, s) }
     | Inr info \<Rightarrow> do {
         _ \<leftarrow> m;
         msg \<leftarrow> fill_message CREATE_TASK dl (ti_name info) (raw_app_message env s);
         let (ret, p, s) = app_mtx_acquire (p, s);
         if ret \<noteq> 0 \<or> device p = -1 then do { p \<leftarrow> app_free m p; Some (-1, p, s) }
         else do {
           (_, s) \<leftarrow> rt_dev_write env (device p) msg sizeof_EDFMessage s;
           let (_, p, s) = app_mtx_release (p, s);
           let (ret, s) = rt_task_start env t s;
           p \<leftarrow> app_free m p;
           Some (ret, p, s) } } }"

definition edf_task_wait_period :: "'s app_env \<Rightarrow> app \<times> 's \<Rightarrow> (int \<times> app \<times> 's) option" where
  "edf_task_wait_period env st = do {
     let (p, s) = st;
     let (m, p) = app_malloc env p;
     case rt_task_self env s of
       None \<Rightarrow> do { p \<leftarrow> app_free m p; Some (-1, p, s) }
     | Some t \<Rightarrow> (case app_inquire env s t of
         Inl err \<Rightarrow> do { p \<leftarrow> app_free m p; Some (-1, p, s) }
       | Inr info \<Rightarrow> do {
           _ \<leftarrow> m;
           msg \<leftarrow> fill_message STOP_WATCHD DEADLINENOTSET (ti_name info) (raw_app_message env s);
           (ret1, s) \<leftarrow> rt_dev_write env (device p) msg sizeof_EDFMessage s;
           let (ret, p, s) = wait_period env (p, s);
           let (ret, p, s) = app_mtx_acquire (p, s);
           if ret \<noteq> 0 then do { p \<leftarrow> app_free m p; Some (-1, p, s) }
           else do {
             (ret1, s) \<leftarrow> (if device p = -1 then Some (-1, s)
                else rt_dev_write env (device p) (msg\<lparr>command := EDFCommand_val RESET_DEADLINE\<rparr>) sizeof_EDFMessage s);
             let (ret, p, s) = app_mtx_release (p, s);
             p \<leftarrow> app_free m p;
             Some (if ret \<noteq> 0 \<or> ret1 \<noteq> 0 then -1 else 0, p, s) } }) }"

section \<open>The message\<close>

lemma strncpy_eq:
  assumes "c_terminated src" and "n \<le> length dest"
  shows "strncpy dest src n = Some (take n (c_str src) @ replicate (n - c_strlen src) (CHR 0x00) @ drop n dest)"
  using assms by (simp add: strncpy_def c_strlen_def)

lemma fill_message_eq:
  assumes "c_terminated nm" and "length (msg_task raw) = Suc TNAME_LEN"
  shows "fill_message cmd dl nm raw = Some \<lparr>command = EDFCommand_val cmd,
    msg_task = take TNAME_LEN (c_str nm) @ replicate (Suc TNAME_LEN - c_strlen nm) (CHR 0x00) @
      (if TNAME_LEN < c_strlen nm then [CHR 0x00] else []),
    msg_deadline = dl\<rparr>"
proof -
  define z where "z = c_strlen nm"
  have z: "length (c_str nm) = z" by (simp add: z_def c_strlen_def)
  have d: "length (drop TNAME_LEN (msg_task raw)) = 1" using assms(2) by simp
  then obtain x where x: "drop TNAME_LEN (msg_task raw) = [x]" by (metis One_nat_def length_0_conv length_Suc_conv)
  let ?b = "take TNAME_LEN (c_str nm) @ replicate (TNAME_LEN - z) (CHR 0x00)"
  have "length ?b = TNAME_LEN" using z by simp
  then have "(?b @ [x])[TNAME_LEN := CHR 0x00] = ?b @ [CHR 0x00]" by (metis list_update_length)
  moreover have "replicate (TNAME_LEN - z) (CHR 0x00) @ [CHR 0x00] = replicate (Suc TNAME_LEN - z) (CHR 0x00) @
      (if TNAME_LEN < z then [CHR 0x00] else [])"
    by (cases "TNAME_LEN < z") (simp_all add: replicate_append_same Suc_diff_le)
  ultimately show ?thesis using assms x z
    by (cases raw) (simp add: fill_message_def strncpy_eq z_def [symmetric])
qed

lemma fill_message_name:
  assumes "c_terminated nm" and "length (msg_task raw) = Suc TNAME_LEN"
  obtains msg where "fill_message cmd dl nm raw = Some msg" and "command msg = EDFCommand_val cmd"
    and "msg_deadline msg = dl" and "c_str (msg_task msg) = take TNAME_LEN (c_str nm)"
    and "length (msg_task msg) = Suc TNAME_LEN"
proof -
  have nz: "\<forall>c\<in>set (take TNAME_LEN (c_str nm)). c \<noteq> CHR 0x00"
    unfolding c_str_def using in_set_takeD set_takeWhileD by fast
  have pre: "takeWhile P (xs @ ys) = xs" if "\<forall>c\<in>set xs. P c" "ys = [] \<or> \<not> P (hd ys)" for P and xs ys :: "char list"
    using that by (cases ys) auto
  show ?thesis
    using that fill_message_eq [OF assms, of cmd dl] pre [OF nz]
    by (cases "TNAME_LEN < c_strlen nm") (auto simp: c_str_def [of "_ @ _"] c_strlen_def Suc_diff_le)
qed

lemma app_free_malloc: "malloc env (umem p) = Some a \<Longrightarrow>
    app_malloc env p = (Some a, p\<lparr>umem := a # umem p\<rparr>) \<and> app_free (Some a) (p\<lparr>umem := a # umem p\<rparr>) = Some p"
  by (simp add: app_malloc_def app_free_def)

end
