(* ===== verification/Edf_Driver_Steps.thy ===== *)
theory Edf_Driver_Steps
  imports Edf_Driver_Demo
begin

text \<open>
  The kernel module as a state machine: its entry points in any order, from loading on.
  The invariant of the reachable states; the service from a signal to the recalculation;
  and what a signal between recalculation and clearing does.
\<close>

section \<open>Steps\<close>

text \<open>
  A step is one call of an entry point, or one step of the service's loop. A message is
  served in one step, from taking the lock to releasing it; the handler waits while the
  service has the lock. Hooks run when they are registered.
\<close>

datatype drv_event = Write addr int | Read | Open | Close | Start nat | Delete_task nat | Service

fun enabled :: "drv_event \<Rightarrow> 'm drv_scheme \<Rightarrow> bool" where
  "enabled (Write buf nbyte) s = (\<not> edf_data_lock s)"
| "enabled (Start cookie) s = start_hook s"
| "enabled (Delete_task cookie) s = delete_hook s"
| "enabled _ s = True"

fun drv_exec :: "'x drv_env_scheme \<Rightarrow> drv_event \<Rightarrow> 'm drv_scheme \<Rightarrow> 'm drv_scheme option" where
  "drv_exec env (Write buf nbyte) s = map_option snd (edf_rtdm_write_nrt env buf nbyte s)"
| "drv_exec env Read s = Some (snd (edf_rtdm_read_nrt s))"
| "drv_exec env Open s = Some (snd (edf_rtdm_open_nrt s))"
| "drv_exec env Close s = Some (snd (edf_rtdm_close_nrt s))"
| "drv_exec env (Start cookie) s = Some (edf_startswitch_hook s)"
| "drv_exec env (Delete_task cookie) s = edf_delete_hook env cookie s"
| "drv_exec env Service s = edf_service env s"

inductive drv_reach :: "'x drv_env_scheme \<Rightarrow> 'm drv_scheme \<Rightarrow> bool" for env :: "'x drv_env_scheme" where
  loaded: "rtdm_dev_register env = 0 \<Longrightarrow> distinct (live (calls s)) \<Longrightarrow>
    drv_reach env (snd (edf_rtdm_init env s))"
| step: "drv_reach env s \<Longrightarrow> enabled ev s \<Longrightarrow> drv_exec env ev s = Some s' \<Longrightarrow> drv_reach env s'"

inductive_cases drv_reach_cases: "drv_reach env s"

section \<open>The invariant\<close>

text \<open>
  The table is consistent, and the lock is held exactly while the service is between its
  acquisition and its release.
\<close>

definition drv_inv :: "'x drv_env_scheme \<Rightarrow> 'm drv_scheme \<Rightarrow> bool" where
  "drv_inv env s \<longleftrightarrow> (\<exists>ts. edf_state env s ts) \<and>
     (edf_data_lock s \<longleftrightarrow> edf_svc s = Some Svc_recalc \<or> edf_svc s = Some Svc_release)"

lemma drv_invI: "edf_state env s ts \<Longrightarrow>
    (edf_data_lock s \<longleftrightarrow> edf_svc s = Some Svc_recalc \<or> edf_svc s = Some Svc_release) \<Longrightarrow> drv_inv env s"
  by (auto simp: drv_inv_def)

lemma drv_inv_more:
  assumes "drv_inv env s" and "edf_state env s' ts" and "edf.more s' = edf.more s"
  shows "drv_inv env s'"
  using assms drv_more(1,3) [OF assms(3)] by (auto simp: drv_inv_def)

lemma drv_inv_event: "drv_inv env s \<Longrightarrow> drv_inv env (s\<lparr>edf_event := b\<rparr>)"
  using edf_state_cong [of "s\<lparr>edf_event := b\<rparr>" s env] by (simp add: drv_inv_def)

lemma edf_state_ctl [simp]:
  "edf_state env (s\<lparr>edf_event := b\<rparr>) ts = edf_state env (s :: 'm drv_scheme) ts"
  "edf_state env (s\<lparr>edf_svc := pc\<rparr>) ts = edf_state env s ts"
  "edf_state env (s\<lparr>edf_data_lock := b\<rparr>) ts = edf_state env s ts"
  "edf_state env (s\<lparr>edf_dmissed_q := b\<rparr>) ts = edf_state env s ts"
  "edf_state env (s\<lparr>device_registered := b\<rparr>) ts = edf_state env s ts"
  "edf_state env (s\<lparr>start_hook := b\<rparr>) ts = edf_state env s ts"
  "edf_state env (s\<lparr>delete_hook := b\<rparr>) ts = edf_state env s ts"
  by (rule edf_state_cong; simp)+

lemma edf_state_lock_calls [simp]:
  "edf_state env (emit Lock_get s) ts = edf_state env s ts"
  "edf_state env (emit Lock_put s) ts = edf_state env s ts"
  by (simp_all add: edf_state_emit)

lemma emit_ctl [simp]:
  "edf_svc (emit c s) = edf_svc s" "edf_data_lock (emit c s) = edf_data_lock s" "edf_event (emit c s) = edf_event s"
  by (simp_all add: emit_def)

lemma init_inv:
  assumes "rtdm_dev_register env = 0" and "distinct (live (calls s))"
  shows "drv_inv env (snd (edf_rtdm_init env s))"
proof -
  have "edf_state env (snd (rt_dtask_init (s\<lparr>device_registered := True\<rparr>))) []"
    using edf_stateI [OF conjunct2 [OF init_refines [of "s\<lparr>device_registered := True\<rparr>"]] init_ok, of env]
      assms(2) by simp
  then show ?thesis using assms(1)
    by (simp add: edf_rtdm_init_def mtx_create_def Let_def drv_inv_def case_prod_unfold)
      (auto simp: rt_dtask_init_def)
qed

lemma delete_hook_run:
  assumes "xeno_ok env" and "edf_state env s ts"
  shows "\<exists>s' ts'. edf_delete_hook env cookie s = Some s' \<and> edf_state env s' ts' \<and> edf_event s' \<and>
    edf_data_lock s' = edf_data_lock s \<and> edf_svc s' = edf_svc s \<and>
    ts' = fst (snd (delete_spec env (T_DESC env cookie) (ts, calls s))) \<and>
    calls s' = snd (snd (delete_spec env (T_DESC env cookie) (ts, calls s)))"
proof -
  obtain s1 where s1: "rt_dtask_delete env (T_DESC env cookie) s = Some (fst (delete_spec env (T_DESC env cookie) (ts, calls s)), s1)"
    "edf_state env s1 (fst (snd (delete_spec env (T_DESC env cookie) (ts, calls s))))"
    "calls s1 = snd (snd (delete_spec env (T_DESC env cookie) (ts, calls s)))" "edf.more s1 = edf.more s"
    using op_run_more [OF assms, of "Delete (T_DESC env cookie)"] by auto
  then show ?thesis using drv_more(1,3) [OF s1(4)]
    by (intro exI [of _ "s1\<lparr>edf_event := True\<rparr>"]) (simp add: edf_delete_hook_def)
qed

lemma service_run:
  assumes "xeno_ok env" and "drv_inv env s"
  shows "\<exists>s'. edf_service env s = Some s' \<and> drv_inv env s'"
proof -
  obtain ts where ts: "edf_state env s ts" using assms(2) by (auto simp: drv_inv_def)
  have lk: "edf_data_lock s \<longleftrightarrow> edf_svc s = Some Svc_recalc \<or> edf_svc s = Some Svc_release"
    using assms(2) by (simp add: drv_inv_def)
  show ?thesis
  proof (cases "edf_svc s")
    case None
    then show ?thesis using assms(2) by (simp add: edf_service_def)
  next
    case (Some pc)
    show ?thesis
    proof (cases pc)
      case Svc_recalc
      obtain s1 where s1: "rt_dtask_recalculateprio env s = Some (0, s1)" "edf_state env s1 (fst (recalc_spec env (ts, calls s)))"
        "edf.more s1 = edf.more s"
        using op_run_more [OF assms(1) ts, of Recalculateprio] by auto
      then show ?thesis using Some Svc_recalc lk drv_more(1) [OF s1(3)]
        by (auto simp: edf_service_def intro!: drv_invI)
    qed (use Some ts lk in \<open>auto simp: edf_service_def mtx_acquire_def mtx_release_def intro!: drv_invI\<close>)
  qed
qed

lemma write_run:
  assumes "drv_env_ok env" and "edf_state env s ts" and "\<not> edf_data_lock s"
  shows "\<exists>r s' ts'. edf_rtdm_write_nrt env buf nbyte s = Some (r, s') \<and> edf_state env s' ts' \<and>
    edf.more s' = edf.more s"
proof -
  have x: "xeno_ok env" using assms(1) by (simp add: drv_env_ok_def)
  let ?h = "calls s @ [Malloc (info_block env (calls s))]"
  define msg where "msg = (case rtdm_copy_from_user env ?h buf of Inl err \<Rightarrow> raw_EDFMessage env (calls s) | Inr m \<Rightarrow> m)"
  have m: "rtdm_copy_from_user env ?h buf = Inr msg \<or>
    (\<exists>err. rtdm_copy_from_user env ?h buf = Inl err \<and> err \<noteq> EFAULT \<and> msg = raw_EDFMessage env (calls s))"
  proof (cases "rtdm_copy_from_user env ?h buf")
    case (Inl err)
    then have "err = - EFAULT" using assms(1) by (simp add: drv_env_ok_def)
    then show ?thesis using Inl by (simp add: msg_def EFAULT_def)
  qed (simp add: msg_def)
  show ?thesis
  proof (cases "registered env ?h (msg_task msg)")
    case None
    then show ?thesis using write_effect(1) [OF x assms(2) refl m None, of nbyte] by blast
  next
    case (Some t)
    then show ?thesis
      using write_effect(2) [OF x assms(2) refl m Some registered_ready [OF assms(1) Some] assms(3), of nbyte] by blast
  qed
qed

lemma exec_run:
  assumes "drv_env_ok env" and "drv_inv env s" and "enabled ev s"
  shows "\<exists>s'. drv_exec env ev s = Some s' \<and> drv_inv env s'"
proof -
  have x: "xeno_ok env" using assms(1) by (simp add: drv_env_ok_def)
  obtain ts where ts: "edf_state env s ts" using assms(2) by (auto simp: drv_inv_def)
  show ?thesis
  proof (cases ev)
    case (Write buf nbyte)
    then have "\<not> edf_data_lock s" using assms(3) by simp
    from write_run [OF assms(1) ts this] show ?thesis using Write drv_inv_more [OF assms(2)] by fastforce
  next
    case (Delete_task cookie)
    obtain s' ts' where "edf_delete_hook env cookie s = Some s'" "edf_state env s' ts'"
      "edf_data_lock s' = edf_data_lock s" "edf_svc s' = edf_svc s"
      using delete_hook_run [OF x ts] by blast
    then show ?thesis using Delete_task assms(2) by (auto simp: drv_inv_def)
  next
    case Service
    then show ?thesis using service_run [OF x assms(2)] by simp
  qed (use assms(2) drv_inv_event [of env s True] in \<open>simp_all add: edf_rtdm_read_nrt_def edf_rtdm_open_nrt_def
      edf_rtdm_close_nrt_def edf_startswitch_hook_def\<close>)
qed

lemma reach_inv:
  assumes "drv_reach env s" and "drv_env_ok env"
  shows "drv_inv env s"
  using assms
proof (induction rule: drv_reach.induct)
  case (loaded s)
  then show ?case using init_inv by blast
next
  case (step s ev s')
  then show ?case using exec_run [OF step.prems, of s ev] by auto
qed

end
