(* ===== verification/Edf_Driver_Life.thy ===== *)
theory Edf_Driver_Life
  imports Edf_Driver_Steps
begin

text \<open>
  The kernel module over time: what holds in every state it can reach, the service from a
  signal to the new priorities, the signal that is lost, the hook that does not lock, and
  loading and unloading.
\<close>

section \<open>Safety\<close>

text \<open>A state to load the module in, with nothing allocated.\<close>

definition raw_drv :: drv where
  "raw_drv = \<lparr>heap = Map.empty, head = None, tbl = None, calls = [], edf_data_lock = False,
     edf_event = False, edf_svc = None, edf_dmissed_q = False, device_registered = False,
     start_hook = False, delete_hook = False\<rparr>"

lemma raw_drv_reach: "drv_reach (demo_drv c raw) (snd (edf_rtdm_init (demo_drv c raw) raw_drv))"
  by (rule loaded) (simp_all add: demo_drv_def raw_drv_def live_def)



section \<open>The service\<close>

primrec service_steps :: "'x drv_env_scheme \<Rightarrow> nat \<Rightarrow> 'm drv_scheme \<Rightarrow> 'm drv_scheme option" where
  "service_steps env 0 s = Some s"
| "service_steps env (Suc n) s = Option.bind (edf_service env s) (service_steps env n)"

lemma service_steps_idle: "edf_svc s = Some Svc_wait \<Longrightarrow> \<not> edf_event s \<Longrightarrow> service_steps env n s = Some s"
  by (induction n) (simp_all add: edf_service_def)

text \<open>C8: A signal is served. When the event is signalled while the service waits and the lock is
  free, five steps of the service later the priorities have been recalculated under the
  lock, the lock is free again, and the service waits for the next signal.\<close>

theorem service_cycle:
  assumes "xeno_ok env" and "edf_state env s ts" and "edf_svc s = Some Svc_wait" and "edf_event s"
    and "\<not> edf_data_lock s"
  shows "\<exists>s'. service_steps env 5 s = Some s' \<and>
    edf_state env s' (fst (recalc_spec env (ts, calls s @ [Lock_get]))) \<and>
    calls s' = snd (recalc_spec env (ts, calls s @ [Lock_get])) @ [Lock_put] \<and>
    edf_svc s' = Some Svc_wait \<and> \<not> edf_event s' \<and> \<not> edf_data_lock s'"
proof -
  let ?s1 = "s\<lparr>edf_event := False, edf_svc := Some Svc_acquire\<rparr>"
  let ?s2 = "emit Lock_get (?s1\<lparr>edf_data_lock := True\<rparr>)\<lparr>edf_svc := Some Svc_recalc\<rparr>"
  have st: "edf_state env ?s2 ts" using assms(2) by simp
  obtain s3 where s3: "rt_dtask_recalculateprio env ?s2 = Some (0, s3)"
    "edf_state env s3 (fst (recalc_spec env (ts, calls s @ [Lock_get])))"
    "calls s3 = snd (recalc_spec env (ts, calls s @ [Lock_get]))" "edf.more s3 = edf.more ?s2"
    using op_run_more [OF assms(1) st, of Recalculateprio] by auto
  have l: "edf_data_lock s3" using drv_more(1) [OF s3(4)] by simp
  let ?s5 = "emit Lock_put (s3\<lparr>edf_svc := Some Svc_release, edf_data_lock := False\<rparr>)\<lparr>edf_svc := Some Svc_clear\<rparr>"
  let ?s6 = "?s5\<lparr>edf_event := False, edf_svc := Some Svc_wait\<rparr>"
  have "edf_service env s = Some ?s1" using assms(3,4) by (simp add: edf_service_def)
  moreover have "edf_service env ?s1 = Some ?s2" using assms(5) by (simp add: edf_service_def mtx_acquire_def)
  moreover have "edf_service env ?s2 = Some (s3\<lparr>edf_svc := Some Svc_release\<rparr>)"
    using s3(1) by (simp add: edf_service_def)
  moreover have "edf_service env (s3\<lparr>edf_svc := Some Svc_release\<rparr>) = Some ?s5"
    using l by (simp add: edf_service_def mtx_release_def)
  moreover have "edf_service env ?s5 = Some ?s6" by (simp add: edf_service_def)
  ultimately have "service_steps env 5 s = Some ?s6" by (simp add: numeral_eq_Suc del: edf_state_ctl)
  then show ?thesis using s3(2,3) by auto
qed

theorem service_cycle_witness:
  "\<exists>(env :: drv_env) s s' ts'. edf_state env (s :: drv) demo_ts \<and> service_steps env 5 s = Some s' \<and>
    edf_state env s' ts' \<and> edf_svc s' = Some Svc_wait"
proof -
  let ?m = "demo_msg STOP_WATCHD ''B'' 0"
  obtain s :: drv where s: "edf_state (demo_drv (Inr ?m) ?m) s demo_ts" "\<not> edf_data_lock s" "edf_event s"
    "edf_svc s = Some Svc_wait"
    using demo_drv_state [of "Inr ?m" ?m False True "Some Svc_wait"] by metis
  show ?thesis using service_cycle [OF demo_drv_xeno_ok s(1,4,3,2)] s(1) by blast
qed

text \<open>C33: A signal can be lost. The service clears the event after it has recalculated. When a task
  is deleted between the two, the table loses it and the event is signalled, but the service
  clears that signal and then waits for ever: no priority is recalculated for the new table.\<close>

theorem lost_wakeup:
  assumes "xeno_ok env" and "edf_state env s ts" and "edf_svc s = Some Svc_clear"
  shows "\<exists>s1 s2 ts'. edf_delete_hook env cookie s = Some s1 \<and> edf_event s1 \<and> edf_state env s1 ts' \<and>
    ts' = fst (snd (delete_spec env (T_DESC env cookie) (ts, calls s))) \<and>
    (\<forall>n. service_steps env (Suc n) s1 = Some s2) \<and> edf_state env s2 ts' \<and> calls s2 = calls s1 \<and>
    edf_svc s2 = Some Svc_wait"
proof -
  obtain s1 ts' where s1: "edf_delete_hook env cookie s = Some s1" "edf_state env s1 ts'" "edf_event s1"
    "edf_svc s1 = Some Svc_clear" "ts' = fst (snd (delete_spec env (T_DESC env cookie) (ts, calls s)))"
    using delete_hook_run [OF assms(1,2), of cookie] assms(3) by auto
  let ?s2 = "s1\<lparr>edf_event := False, edf_svc := Some Svc_wait\<rparr>"
  have "service_steps env (Suc n) s1 = Some ?s2" for n
    using service_steps_idle [of ?s2 env n] s1(4) by (simp add: edf_service_def)
  moreover have "edf_state env ?s2 ts'" using s1(2) by simp
  moreover have "calls ?s2 = calls s1" "edf_svc ?s2 = Some Svc_wait" by simp_all
  ultimately show ?thesis using s1(1,2,3,5) by blast
qed

theorem lost_wakeup_witness:
  "\<exists>(env :: drv_env) s s1 s2 ts'. edf_state env (s :: drv) demo_ts \<and> edf_delete_hook env 0 s = Some s1 \<and> edf_event s1 \<and>
    edf_state env s1 ts' \<and> ts' \<noteq> demo_ts \<and> (\<forall>n. service_steps env (Suc n) s1 = Some s2) \<and> edf_svc s2 = Some Svc_wait"
proof -
  let ?m = "demo_msg STOP_WATCHD ''B'' 0"
  let ?env = "demo_drv (Inr ?m) ?m"
  obtain s :: drv where s: "edf_state ?env s demo_ts" "edf_svc s = Some Svc_clear" "calls s = demo_calls"
    using demo_drv_state [of "Inr ?m" ?m False False "Some Svc_clear"] by metis
  have "fst (snd (delete_spec ?env (T_DESC ?env 0) (demo_ts, calls s))) \<noteq> demo_ts"
    by (simp add: delete_spec_def locate_def close_with_def Let_def find_task_def demo_ts_def drop_task_def
        demo_dtask_def dname_def info_at_def demo_drv_def demo_def demo_name_def c_str_def)
  then show ?thesis using lost_wakeup [OF demo_drv_xeno_ok s(1,2), of 0] s(1) by blast
qed

section \<open>The hook of deleted tasks\<close>

text \<open>The hook of deleted tasks does not lock. While the service holds the lock, about to
  recalculate, the hook removes a registered task and frees its entry all the same: the lock
  stays the service's, and no lock call is made.\<close>

theorem delete_hook_ignores_lock:
  assumes "xeno_ok env" and "edf_state env s ts" and "edf_svc s = Some Svc_recalc" and "edf_data_lock s"
    and "locate env (T_DESC env cookie) (ts, calls s) = Some a"
  shows "\<exists>s' cs. edf_delete_hook env cookie s = Some s' \<and> edf_state env s' (drop_task a ts) \<and>
    calls s' = calls s @ cs \<and> Free a \<in> set cs \<and> Lock_get \<notin> set cs \<and> edf_data_lock s' \<and>
    edf_svc s' = Some Svc_recalc"
proof -
  let ?t = "T_DESC env cookie" and ?d = "the (map_of ts a)"
  define cs where "cs = [Malloc (info_block env (calls s)), Task_inquire ?t] @ release_calls (a, ?d) @
    [Free (info_block env (calls s))]"
  obtain s' where "edf_delete_hook env cookie s = Some s'" "edf_state env s' (drop_task a ts)" "edf_data_lock s'"
    "edf_svc s' = Some Svc_recalc" "calls s' = calls s @ cs"
    using delete_hook_run [OF assms(1,2), of cookie] assms(3-5)
    by (auto simp: delete_spec_def close_with_def Let_def info_calls_def cs_def)
  moreover have "Free a \<in> set cs" "Lock_get \<notin> set cs"
    by (auto simp: cs_def release_calls_def split: option.splits)
  ultimately show ?thesis by blast
qed

theorem delete_hook_ignores_lock_witness:
  "\<exists>(env :: drv_env) s s'. edf_state env (s :: drv) demo_ts \<and> edf_data_lock s \<and> edf_delete_hook env 0 s = Some s' \<and>
    edf_state env s' (drop_task 1 demo_ts)"
proof -
  let ?m = "demo_msg STOP_WATCHD ''B'' 0"
  let ?env = "demo_drv (Inr ?m) ?m"
  obtain s :: drv where s: "edf_state ?env s demo_ts" "edf_svc s = Some Svc_recalc" "edf_data_lock s" "calls s = demo_calls"
    using demo_drv_state [of "Inr ?m" ?m True False "Some Svc_recalc"] by metis
  have "locate ?env (T_DESC ?env 0) (demo_ts, calls s) = Some 1"
    by (simp add: locate_def find_task_def demo_ts_def demo_dtask_def dname_def info_at_def demo_drv_def
        demo_def demo_name_def c_str_def)
  then show ?thesis using delete_hook_ignores_lock [OF demo_drv_xeno_ok s(1,2,3)] s(1,3) by blast
qed

lemma deleted_is_freed:
  assumes "xeno_ok env" and "edf_state env s ts" and "locate env t (ts, calls s) = Some a"
    and "rt_dtask_delete env t s = Some (r, s')"
  shows "heap s' a = None"
proof -
  obtain info s1 where s1: "info_of env t s = Some (info_block env (calls s), info, s1)"
    "HASH_FIND_STR dname (ti_name info) s1 = Some (Some a)"
    using rep_info_of [OF assms(1) edf_stateD(1) [OF assms(2)], of t] assms(3) by metis
  then obtain s4 s5 where "kfree (Some a) s4 = Some s5" "kfree (Some (info_block env (calls s))) s5 = Some s'"
    using assms(4) by (auto simp: rt_dtask_delete_def elim!: bind_eq_SomeE)
  then show ?thesis by (auto simp: kfree_def emit_def split: if_splits)
qed

text \<open>C34: The hook of deleted tasks against a recalculation. A traversal holds a pointer to the
  next entry while it works on the current one. When the hook runs after the first entry has been
  refreshed and deletes the task of the second, the traversal goes on with the freed entry.\<close>

theorem delete_hook_race:
  assumes "xeno_ok env" and "edf_state env s ((a, d) # (b, d') # ts)" and "task_ready env (T_DESC env cookie)"
    and "c_str (dname d') = tname env (T_DESC env cookie)"
  shows "HASH_ITER (\<lambda>x acc s. do {
      (acc, s) \<leftarrow> recalc_remain env now x acc s;
      s \<leftarrow> (if x = a then edf_delete_hook env cookie s else Some s);
      Some (acc, s) }) acc s = None"
proof -
  let ?ts = "(a, d) # (b, d') # ts" and ?t = "T_DESC env cookie"
  let ?ts1 = "refresh_all env now (calls s) [(a, d)] @ (b, d') # ts" and ?h1 = "calls s @ inquiries [(a, d)]"
  note st = edf_stateD [OF assms(2)]
  have dok: "dtask_ok env d" using st(2) by (simp add: tasks_ok_def)
  then obtain acc1 s1 where s1: "recalc_remain env now a (fst acc, snd acc) s = Some (acc1, s1)"
    "rep s1 (?ts1, ?h1) (edf.more s)"
    using recalc_remain_step [OF assms(1), of s "[]" a d "(b, d') # ts" "calls s" "edf.more s" now "fst acc" "snd acc"] st(1)
    by (simp only: append_Nil) blast
  have c: "core ?ts1 = core ?ts" using refresh_core(1-3) [OF assms(1) dok] by simp
  have "states_ok ?ts1" using tasks_ok_states [OF st(2)] refresh_core(4) [OF assms(1) dok] by (simp add: states_ok_def)
  moreover have "live ?h1 = live (calls s)" by (simp add: live_quiet quiet_inquiries)
  ultimately have "tasks_ok env (?ts1, ?h1)" by (rule tasks_ok_cong [OF st(2) c])
  from edf_stateI [OF s1(2) this] have e1: "edf_state env s1 ?ts1" "calls s1 = ?h1" by simp_all
  have "distinct (map (c_str \<circ> dname \<circ> snd) ?ts)" using st(2) by (simp add: tasks_ok_def)
  then have "find_task (tname env ?t) ?ts = Some b" using assms(4) by (auto simp: find_task_def)
  then have loc: "locate env ?t (?ts1, calls s1) = Some b"
    using locate_ready [OF assms(1,3)] find_task_core [OF c] by metis
  obtain s2 where s2: "edf_delete_hook env cookie s1 = Some s2" using delete_hook_run [OF assms(1) e1(1)] by blast
  then obtain r s3 where "rt_dtask_delete env ?t s1 = Some (r, s3)" "heap s2 = heap s3"
    by (auto simp: edf_delete_hook_def elim!: bind_eq_SomeE)
  then have "heap s2 b = None" using deleted_is_freed [OF assms(1) e1(1) loc] by metis
  then have nx: "iter_next (Some b) s2 = None" by (simp add: iter_next_def)
  have inv: "dict_inv dname s (a # b # map fst ts)" using repD(1) [OF st(1)] by simp
  then have "head s = Some a" "iter_next (head s) s = Some (Some b)"
    by (auto simp: dict_inv_def ut_inv_def iter_next_def ptr_def keyed_def split: option.splits)
  then show ?thesis using s1(1) s2 nx by (simp add: HASH_ITER_def iter_loop.simps)
qed

theorem delete_hook_race_witness:
  "\<exists>(env :: drv_env) (s :: drv). edf_state env s demo_ts \<and>
    HASH_ITER (\<lambda>x acc s. do {
      (acc, s) \<leftarrow> recalc_remain env 9000 x acc s;
      s \<leftarrow> (if x = 1 then edf_delete_hook env 1 s else Some s);
      Some (acc, s) }) (- 1, 0) s = None"
proof -
  let ?m = "demo_msg STOP_WATCHD ''B'' 0"
  let ?env = "demo_drv (Inr ?m) ?m"
  obtain s :: drv where s: "edf_state ?env s demo_ts" using demo_drv_state [of "Inr ?m" ?m] by metis
  have "c_str (dname (demo_dtask 1 3009000 2998000 3000000 4)) = tname ?env (T_DESC ?env 1)"
    by (simp add: demo_dtask_def dname_def demo_drv_def demo_def demo_name_def c_str_def)
  from delete_hook_race [OF demo_drv_xeno_ok s [unfolded demo_ts_def] demo_drv_ready this, of 9000 "(- 1, 0)"]
  show ?thesis using s by blast
qed

section \<open>Loading and unloading\<close>

lemma exec_keeps_service:
  assumes "drv_env_ok env" and "drv_inv env s" and "edf_svc s = None" and "enabled ev s"
    and "drv_exec env ev s = Some s'"
  shows "edf_svc s' = None"
proof -
  have x: "xeno_ok env" using assms(1) by (simp add: drv_env_ok_def)
  obtain ts where ts: "edf_state env s ts" using assms(2) by (auto simp: drv_inv_def)
  show ?thesis
  proof (cases ev)
    case (Write buf nbyte)
    have "\<not> edf_data_lock s" using assms(4) Write by simp
    from write_run [OF assms(1) ts this] obtain r s'' where "edf_rtdm_write_nrt env buf nbyte s = Some (r, s'')"
      "edf.more s'' = edf.more s"
      by blast
    then show ?thesis using assms(3,5) Write drv_more(3) by fastforce
  next
    case (Delete_task cookie)
    then show ?thesis using delete_hook_run [OF x ts, of cookie] assms(3,5) by auto
  qed (use assms(3,5) in \<open>auto simp: edf_rtdm_read_nrt_def edf_rtdm_open_nrt_def edf_rtdm_close_nrt_def
      edf_startswitch_hook_def edf_service_def\<close>)
qed

text \<open>Loading reports only the last of its steps. What loading returns is the result of
  registering the hook of deleted tasks; when the service could not be created, loading
  still succeeds, and in every state the module then reaches there is no service, so that
  no signal is ever served.\<close>

theorem init_masks_service_failure:
  assumes "drv_env_ok env" and "rtdm_dev_register env = 0" and "rtdm_task_init env \<noteq> 0"
  shows "fst (edf_rtdm_init env s0) = add_delete_hook env \<and>
    (\<forall>s :: 'm drv_scheme. drv_reach env s \<longrightarrow> edf_svc s = None \<and> edf_service env s = Some s)"
proof -
  have "edf_svc s = None" if "drv_reach env s" for s :: "'m drv_scheme"
    using that
  proof (induction rule: drv_reach.induct)
    case (loaded s)
    then show ?case using assms(2,3) by (simp add: edf_rtdm_init_def Let_def case_prod_unfold)
  next
    case (step s ev s')
    then show ?case using exec_keeps_service [OF assms(1) reach_inv [OF step.hyps(1) assms(1)]] by blast
  qed
  moreover have "edf_service env s = Some s" if "edf_svc s = None" for s :: "'m drv_scheme"
    using that by (simp add: edf_service_def)
  moreover have "fst (edf_rtdm_init env s0) = add_delete_hook env"
    using assms(2) by (simp add: edf_rtdm_init_def Let_def case_prod_unfold)
  ultimately show ?thesis by blast
qed

lemma drv_env_ok_task_init: "drv_env_ok (env\<lparr>rtdm_task_init := r\<rparr>) = drv_env_ok (env :: 'x drv_env_scheme)"
  by (simp add: drv_env_ok_def xeno_ok_def klib_ok_def task_ready_def rname_ok_def)

theorem init_masks_service_failure_witness:
  "\<exists>(env :: drv_env) s. fst (edf_rtdm_init env raw_drv) = 0 \<and> s = snd (edf_rtdm_init env raw_drv) \<and>
    edf_service env s = Some s"
proof -
  let ?m = "demo_msg STOP_WATCHD ''B'' 0"
  let ?base = "demo_drv (Inr ?m) ?m"
  let ?env = "?base\<lparr>rtdm_task_init := -12\<rparr>"
  have "drv_env_ok ?base" by (rule demo_drv_ok) simp
  then have ok: "drv_env_ok ?env" unfolding drv_env_ok_task_init .
  have "drv_reach ?env (snd (edf_rtdm_init ?env raw_drv))"
    by (rule loaded) (simp_all add: demo_drv_def raw_drv_def live_def)
  moreover have "rtdm_dev_register ?env = 0" "rtdm_task_init ?env \<noteq> 0" "add_delete_hook ?env = 0"
    by (simp_all add: demo_drv_def)
  ultimately show ?thesis using init_masks_service_failure [OF ok, of raw_drv] by metis
qed

text \<open>Unloading. From every state the module can reach with its lock free or not, unloading
  returns, with the hooks, the queue, the service and the device gone and the table empty; of
  the blocks that were allocated, exactly those that never belonged to the table, or no longer
  did, stay allocated.\<close>

theorem unload_frees:
  assumes "drv_reach env s" and "drv_env_ok env"
  shows "\<exists>s' ts. edf_state env s ts \<and> edf_rtdm_exit s = Some s' \<and> edf_state env s' [] \<and> head s' = None \<and>
    set (live (calls s')) = stray (ts, calls s) \<and> \<not> start_hook s' \<and> \<not> delete_hook s' \<and>
    edf_svc s' = None \<and> \<not> device_registered s'"
proof -
  obtain ts where ts: "edf_state env s ts" using reach_inv [OF assms] by (auto simp: drv_inv_def)
  let ?s = "s\<lparr>start_hook := False, delete_hook := False, edf_dmissed_q := False, edf_svc := None, edf_event := False\<rparr>"
  have "edf_state env ?s ts" using ts by simp
  from dispose_effect [OF this] obtain s1 where s1: "rt_dtask_dispose ?s = Some (0, s1)" "edf_state env s1 []"
    "head s1 = None" "set (live (calls s1)) = set (live (calls ?s)) - set (blocks ts)" "edf.more s1 = edf.more ?s"
    by blast
  then show ?thesis using ts drv_more [OF s1(5)]
    by (intro exI [of _ "s1\<lparr>device_registered := False\<rparr>"] exI [of _ ts])
      (simp add: edf_rtdm_exit_def mtx_delete_def stray_def)
qed

theorem unload_frees_witness:
  "\<exists>(env :: drv_env) s s'. drv_reach env (s :: drv) \<and> edf_rtdm_exit s = Some s' \<and> edf_svc s' = None"
proof -
  let ?m = "demo_msg STOP_WATCHD ''B'' 0"
  have "drv_env_ok (demo_drv (Inr ?m) ?m)" by (rule demo_drv_ok) simp
  from unload_frees [OF raw_drv_reach this] raw_drv_reach show ?thesis by blast
qed

end
