(* ===== verification/Edf_App_Correct.thy ===== *)
theory Edf_App_Correct
  imports Edf_App Edf_Driver_Life
begin

text \<open>
  The user-space library over the kernel module. What the library needs of the device is a
  locale, a service that answers messages; the library's operations are run in it once, and
  the module's write handler is an instance of it. The properties are about the two together.
\<close>

section \<open>A service that answers messages\<close>

locale message_service =
  fixes good :: "'e \<Rightarrow> bool"
    and send :: "'e \<Rightarrow> EDFMessage \<Rightarrow> int \<Rightarrow> 's \<Rightarrow> (int \<times> 's) option"
    and reply :: "'e \<Rightarrow> EDFMessage \<Rightarrow> 'a \<Rightarrow> int \<Rightarrow> int"
    and effect :: "'e \<Rightarrow> EDFMessage \<Rightarrow> 'a \<Rightarrow> 'a"
    and holds :: "'e \<Rightarrow> 's \<Rightarrow> 'a \<Rightarrow> bool"
  assumes served: "good e \<Longrightarrow> holds e s a \<Longrightarrow>
      \<exists>s'. send e msg n s = Some (reply e msg a n, s') \<and> holds e s' (effect e msg a)"
    and answer: "reply e msg a n = n \<or> reply e msg a n = -1"
begin

lemma task_start_run:
  assumes "good e" and "holds e s a" and "rt_dev_write env (device p) = send e" and "device p \<noteq> -1"
    and "malloc env (umem p) = Some b" and "app_inquire env s t = Inr info"
    and "fill_message CREATE_TASK dl (ti_name info) (raw_app_message env s) = Some msg"
  shows "\<exists>s'. holds e s' (effect e msg a) \<and>
    edf_task_start env t dl (p, s) = Some (fst (rt_task_start env t s'), p, snd (rt_task_start env t s'))"
proof -
  obtain s' where "send e msg sizeof_EDFMessage s = Some (reply e msg a sizeof_EDFMessage, s')"
    "holds e s' (effect e msg a)"
    using served [OF assms(1,2)] by blast
  then show ?thesis using assms app_free_malloc [OF assms(5)]
    by (auto simp: edf_task_start_def app_mtx_acquire_def app_mtx_release_def Let_def case_prod_unfold)
qed

text \<open>\<open>R\<close> is what is known of the system before and after the task has slept.\<close>

lemma wait_period_sleeps:
  assumes "good e" and "holds e s a" and "rt_dev_write env (device p) = send e" and "device p \<noteq> -1"
    and "malloc env (umem p) = Some b" and "rt_task_self env s = Some t" and "app_inquire env s t = Inr info"
    and "fill_message STOP_WATCHD DEADLINENOTSET (ti_name info) (raw_app_message env s) = Some msg"
    and sleep: "\<forall>s a. holds e s a \<longrightarrow> (\<exists>a'. holds e (snd (rt_task_wait_period env s)) a' \<and> R a a')"
  shows "\<exists>s1 a2 s'. holds e s1 (effect e msg a) \<and> holds e (snd (rt_task_wait_period env s1)) a2 \<and> R (effect e msg a) a2 \<and>
    holds e s' (effect e (msg\<lparr>command := EDFCommand_val RESET_DEADLINE\<rparr>) a2) \<and>
    edf_task_wait_period env (p, s) = Some (-1, p, s')"
proof -
  let ?m = "msg\<lparr>command := EDFCommand_val RESET_DEADLINE\<rparr>"
  obtain s1 where s1: "send e msg sizeof_EDFMessage s = Some (reply e msg a sizeof_EDFMessage, s1)"
    "holds e s1 (effect e msg a)"
    using served [OF assms(1,2)] by blast
  obtain a2 where a2: "holds e (snd (rt_task_wait_period env s1)) a2" "R (effect e msg a) a2" using sleep s1(2) by blast
  obtain s' where s': "send e ?m sizeof_EDFMessage (snd (rt_task_wait_period env s1)) =
      Some (reply e ?m a2 sizeof_EDFMessage, s')" "holds e s' (effect e ?m a2)"
    using served [OF assms(1) a2(1)] by blast
  have "reply e ?m a2 sizeof_EDFMessage \<noteq> 0"
    using answer [of e ?m a2 sizeof_EDFMessage] by (auto simp: sizeof_EDFMessage_def)
  then have "edf_task_wait_period env (p, s) = Some (-1, p, s')"
    using assms s1(1) s'(1) app_free_malloc [OF assms(5)]
    by (simp add: edf_task_wait_period_def wait_period_def app_mtx_acquire_def app_mtx_release_def Let_def case_prod_unfold)
  then show ?thesis using s1(2) a2 s'(2) by blast
qed

lemmas wait_period_run = wait_period_sleeps [where R = "\<lambda>_ _. True", unfolded simp_thms]

end

section \<open>The kernel module is one\<close>

text \<open>
  The message is at the address \<open>place\<close> gives in the caller's memory, from which copying
  succeeds. \<open>user_effect\<close> is what a message does to the tasks and the external calls.
\<close>

fun user_env_ok :: "'x drv_env_scheme \<times> (EDFMessage \<Rightarrow> addr) \<Rightarrow> bool" where
  "user_env_ok (kenv, place) \<longleftrightarrow> drv_env_ok kenv \<and> (\<forall>h msg. rtdm_copy_from_user kenv h (place msg) = Inr msg)"

fun user_write :: "'x drv_env_scheme \<times> (EDFMessage \<Rightarrow> addr) \<Rightarrow> EDFMessage \<Rightarrow> int \<Rightarrow> 'm drv_scheme \<Rightarrow>
    (int \<times> 'm drv_scheme) option" where
  "user_write (kenv, place) msg n s = edf_rtdm_write_nrt kenv (place msg) n s"

fun addressee :: "'x drv_env_scheme \<Rightarrow> EDFMessage \<Rightarrow> history \<Rightarrow> RT_TASK option" where
  "addressee kenv msg h = registered kenv (h @ [Malloc (info_block kenv h)]) (msg_task msg)"

fun user_reply :: "'x drv_env_scheme \<times> (EDFMessage \<Rightarrow> addr) \<Rightarrow> EDFMessage \<Rightarrow> tasks \<times> history \<Rightarrow> int \<Rightarrow> int" where
  "user_reply (kenv, place) msg (ts, h) n = (if addressee kenv msg h = None then -1 else n)"

fun user_effect :: "'x drv_env_scheme \<times> (EDFMessage \<Rightarrow> addr) \<Rightarrow> EDFMessage \<Rightarrow> tasks \<times> history \<Rightarrow> tasks \<times> history" where
  "user_effect (kenv, place) msg (ts, h) = (case addressee kenv msg h of
       None \<Rightarrow> (ts, h @ [Malloc (info_block kenv h), Free (info_block kenv h)])
     | Some t \<Rightarrow> (let (ts', h') = msg_spec kenv msg t (ts, h @ [Malloc (info_block kenv h)])
                 in (ts', h' @ [Free (info_block kenv h)])))"

fun driver_holds :: "'x drv_env_scheme \<times> (EDFMessage \<Rightarrow> addr) \<Rightarrow> 'm drv_scheme \<Rightarrow> tasks \<times> history \<Rightarrow> bool" where
  "driver_holds (kenv, place) s (ts, h) \<longleftrightarrow> edf_state kenv s ts \<and> calls s = h \<and> \<not> edf_data_lock s"

lemma user_write_run:
  assumes "user_env_ok e" and "driver_holds e s a"
  shows "\<exists>s'. user_write e msg n s = Some (user_reply e msg a n, s') \<and> driver_holds e s' (user_effect e msg a)"
proof -
  obtain kenv place ts h where e: "e = (kenv, place)" "a = (ts, h)" by (cases e; cases a)
  let ?b = "info_block kenv h"
  have ok: "drv_env_ok kenv" "xeno_ok kenv" "edf_state kenv s ts" "calls s = h" "\<not> edf_data_lock s"
    and m: "rtdm_copy_from_user kenv (calls s @ [Malloc ?b]) (place msg) = Inr msg"
    using assms e by (simp_all add: drv_env_ok_def)
  have b: "info_block kenv (calls s) = ?b" using ok(4) by simp
  show ?thesis
  proof (cases "addressee kenv msg h")
    case None
    then have "registered kenv (calls s @ [Malloc ?b]) (msg_task msg) = None" using ok(4) by simp
    from write_effect(1) [OF ok(2,3) b disjI1 [OF m] this, of n] obtain s' where
      "edf_rtdm_write_nrt kenv (place msg) n s = Some (-1, s')" "edf_state kenv s' ts"
      "calls s' = calls s @ [Malloc ?b, Free ?b]" "edf.more s' = edf.more s"
      by blast
    then show ?thesis using None ok(4,5) drv_more(1) [of s' s] e by (intro exI [of _ s']) simp
  next
    case (Some t)
    then have r: "registered kenv (calls s @ [Malloc ?b]) (msg_task msg) = Some t" using ok(4) by simp
    from write_effect(2) [OF ok(2,3) b disjI1 [OF m] r registered_ready [OF ok(1) r] ok(5), of n] obtain s' where
      "edf_rtdm_write_nrt kenv (place msg) n s = Some (n, s')"
      "edf_state kenv s' (fst (msg_spec kenv msg t (ts, calls s @ [Malloc ?b])))"
      "calls s' = snd (msg_spec kenv msg t (ts, calls s @ [Malloc ?b])) @ [Free ?b]" "edf.more s' = edf.more s"
      by blast
    then show ?thesis using Some ok(4,5) drv_more(1) [of s' s] e
      by (intro exI [of _ s']) (simp add: case_prod_unfold Let_def)
  qed
qed

interpretation edfdev: message_service user_env_ok user_write user_reply user_effect driver_holds
proof
  fix e :: "'a drv_env_scheme \<times> (EDFMessage \<Rightarrow> addr)" and s :: "'b drv_scheme" and a msg n
  assume "user_env_ok e" "driver_holds e s a"
  then show "\<exists>s'. user_write e msg n s = Some (user_reply e msg a n, s') \<and> driver_holds e s' (user_effect e msg a)"
    by (rule user_write_run)
next
  fix e :: "'a drv_env_scheme \<times> (EDFMessage \<Rightarrow> addr)" and a msg n
  show "user_reply e msg a n = n \<or> user_reply e msg a n = -1" by (cases e; cases a) simp
qed

end
