(* ===== verification/Edf_App_Props.thy ===== *)
theory Edf_App_Props
  imports Edf_App_Correct "HOL-Library.Countable"
begin

text \<open>
  The properties of the library and the kernel module together: starting a task registers
  it, or silently does not, and waiting for a period re-arms the deadline but always reports
  an error.
\<close>

section \<open>A concrete system\<close>

text \<open>The world of \<open>Edf_Driver_Demo\<close>, with user messages at addresses that encode them.\<close>

definition demo_place :: "EDFMessage \<Rightarrow> addr" where
  "demo_place msg = to_nat (command msg, msg_task msg, msg_deadline msg)"

definition demo_read :: "addr \<Rightarrow> EDFMessage" where
  "demo_read b = (case from_nat b of (c, nm, dl) \<Rightarrow> \<lparr>command = c, msg_task = nm, msg_deadline = dl\<rparr>)"

definition demo_kernel :: drv_env where
  "demo_kernel = (demo_drv (Inl 0) (demo_msg CREATE_TASK ''A'' 0))\<lparr>rtdm_copy_from_user := \<lambda>h b. Inr (demo_read b)\<rparr>"

lemma demo_read_place: "demo_read (demo_place msg) = msg"
  by (simp add: demo_read_def demo_place_def)

definition demo_user :: "drv_env \<times> (EDFMessage \<Rightarrow> addr)" where
  "demo_user = (demo_kernel, demo_place)"

definition demo_app :: "RT_TASK \<Rightarrow> drv app_env" where
  "demo_app self = \<lparr>rt_dev_open = (\<lambda>s. (3, s)), rt_dev_close = (\<lambda>fd s. (0, s)),
     rt_dev_write = (\<lambda>fd. if fd = 3 then user_write demo_user else (\<lambda>msg n s. Some (-9, s))),
     app_inquire = (\<lambda>s t. Inr \<lparr>ti_name = demo_name t, ti_cprio = 50\<rparr>),
     rt_task_self = (\<lambda>s. Some self), rt_task_wait_period = (\<lambda>s. (0, s)), rt_task_start = (\<lambda>t s. (0, s)),
     malloc = (\<lambda>bs. Some (Suc (foldr max bs 0))),
     raw_app_message = (\<lambda>s. \<lparr>command = 77, msg_task = replicate 25 (CHR ''#''), msg_deadline = 7\<rparr>)\<rparr>"

definition demo_process :: app where
  "demo_process = \<lparr>device = 3, umem = []\<rparr>"

lemma demo_kernel_ok: "user_env_ok (demo_kernel, demo_place)"
proof -
  have "drv_env_ok (demo_drv (Inr (demo_msg CREATE_TASK ''A'' 0)) (demo_msg CREATE_TASK ''A'' 0))"
    by (rule demo_drv_ok) simp
  then have "drv_env_ok demo_kernel"
    by (simp add: demo_kernel_def drv_env_ok_def xeno_ok_def klib_ok_def task_ready_def rname_ok_def demo_drv_def)
  then show ?thesis by (simp add: demo_kernel_def demo_read_place)
qed

lemma demo_kernel_state:
  obtains s :: drv where "edf_state demo_kernel s demo_ts" and "\<not> edf_data_lock s"
proof -
  obtain s :: drv where s: "edf_state (demo_drv (Inl 0) (demo_msg CREATE_TASK ''A'' 0)) s demo_ts" "\<not> edf_data_lock s"
    using demo_drv_state [of "Inl 0" "demo_msg CREATE_TASK ''A'' 0" False] by metis
  have "rname demo_kernel = rname (demo_drv (Inl 0) (demo_msg CREATE_TASK ''A'' 0))" by (simp add: demo_kernel_def)
  from tasks_ok_rname [OF this] have "edf_state demo_kernel s demo_ts" using s(1) by (simp add: edf_state_def)
  then show ?thesis using that s(2) by blast
qed

lemma demo_app_call:
  "rt_dev_write (demo_app t) (device demo_process) = user_write (demo_kernel, demo_place)"
  "device demo_process \<noteq> -1" "malloc (demo_app t) (umem demo_process) = Some 1"
  "rt_task_self (demo_app t) s = Some t"
  "app_inquire (demo_app t) s u = Inr \<lparr>ti_name = demo_name u, ti_cprio = 50\<rparr>"
  "length (msg_task (raw_app_message (demo_app t) s)) = Suc TNAME_LEN"
  by (simp_all add: demo_app_def demo_process_def demo_user_def TNAME_LEN_def)

lemma demo_name_ok: "c_terminated (demo_name t)"
  by (simp add: demo_name_def c_terminated_def)

lemma demo_addressee:
  assumes "c_str (msg_task msg) = take TNAME_LEN (c_str (demo_name 2))"
  shows "addressee demo_kernel msg h = Some 2"
  using assms by (simp add: registered_def demo_kernel_def demo_drv_def demo_name_def c_str_def TNAME_LEN_def)

section \<open>Starting a task\<close>

text \<open>C31: Starting a task with a deadline registers it. When the registry knows the name the
  library sends, and the table does not have it yet, the module's table grows by a running
  entry with the given relative deadline and the name and task of the registry; then the task
  is started, and what starting it returns is the result. The process keeps no memory.\<close>

theorem task_start_registers:
  assumes "user_env_ok (kenv, place)" and "edf_state kenv s ts" and "\<not> edf_data_lock s"
    and "rt_dev_write env (device p) = user_write (kenv, place)" and "device p \<noteq> -1"
    and "malloc env (umem p) = Some b" and "app_inquire env s t = Inr info"
    and "c_terminated (ti_name info)" and "length (msg_task (raw_app_message env s)) = Suc TNAME_LEN"
    and named: "\<And>msg h. c_str (msg_task msg) = take TNAME_LEN (c_str (ti_name info)) \<Longrightarrow> addressee kenv msg h = Some t'"
    and "find_task (tname kenv t') ts = None"
  shows "\<exists>s' ts' a w d. edf_task_start env t dl (p, s) = Some (fst (rt_task_start env t s'), p, snd (rt_task_start env t s')) \<and>
    edf_state kenv s' ts' \<and> core ts' = core ts @ [(a, Some t', Some w, tname kenv t')] \<and>
    map_of ts' a = Some d \<and> relative_deadline d = dl \<and> state d = TaskState_val RUNNING"
proof -
  obtain msg where msg: "fill_message CREATE_TASK dl (ti_name info) (raw_app_message env s) = Some msg"
    "command msg = EDFCommand_val CREATE_TASK" "msg_deadline msg = dl"
    "c_str (msg_task msg) = take TNAME_LEN (c_str (ti_name info))"
    using fill_message_name [OF assms(8,9)] by blast
  note to = named [OF msg(4), of "calls s"]
  let ?b = "info_block kenv (calls s)"
  have x: "xeno_ok kenv" "drv_env_ok kenv" using assms(1) by (simp_all add: drv_env_ok_def)
  have rd: "task_ready kenv t'" using registered_ready [OF x(2)] to by simp
  have "?b \<notin> set (live (calls s))" using xeno_ok_malloc [OF x(1), of "calls s"] by auto
  then have "tasks_ok kenv (ts, calls s @ [Malloc ?b, Lock_get])"
    by (intro tasks_ok_more [OF edf_stateD(2) [OF assms(2)]]) simp_all
  from create_spec_new [OF x(1) rd this assms(11), of dl] obtain ts' h' a w d where
    c: "create_spec kenv t' dl (ts, calls s @ [Malloc ?b, Lock_get]) = (0, ts', h')"
    "core ts' = core ts @ [(a, Some t', Some w, tname kenv t')]" "map_of ts' a = Some d"
    "relative_deadline d = dl" "state d = TaskState_val RUNNING"
    by blast
  have "msg_op msg t' = Some (Create t' dl)" using msg(2,3) by (simp add: msg_op_def)
  then have e: "fst (user_effect (kenv, place) msg (ts, calls s)) = ts'" using to c(1) by (simp add: msg_spec_def)
  have "driver_holds (kenv, place) s (ts, calls s)" using assms(2,3) by simp
  from edfdev.task_start_run [OF assms(1) this assms(4-7) msg(1)] obtain s' where
    "driver_holds (kenv, place) s' (user_effect (kenv, place) msg (ts, calls s))"
    "edf_task_start env t dl (p, s) = Some (fst (rt_task_start env t s'), p, snd (rt_task_start env t s'))"
    by blast
  moreover from this have "edf_state kenv s' ts'"
    using e by (cases "user_effect (kenv, place) msg (ts, calls s)") (simp del: user_effect.simps)
  ultimately show ?thesis using c(2-5) by blast
qed

theorem task_start_registers_witness:
  "\<exists>s s' ts' a w. edf_state demo_kernel (s :: drv) demo_ts \<and>
    edf_task_start (demo_app 0) 2 7000000 (demo_process, s) = Some (0, demo_process, s') \<and>
    edf_state demo_kernel s' ts' \<and> core ts' = core demo_ts @ [(a, Some 2, Some w, ''C'')]"
proof -
  obtain s :: drv where s: "edf_state demo_kernel s demo_ts" "\<not> edf_data_lock s" by (rule demo_kernel_state)
  have nm: "tname demo_kernel 2 = ''C''"
    by (simp add: demo_kernel_def demo_drv_def demo_name_def c_str_def)
  have "find_task (tname demo_kernel 2) demo_ts = None"
    unfolding nm by (simp add: find_task_None demo_ts_def demo_dtask_def dname_def demo_name_def c_str_def)
  moreover have "addressee demo_kernel msg h = Some 2"
    if "c_str (msg_task msg) = take TNAME_LEN (c_str (ti_name \<lparr>ti_name = demo_name 2, ti_cprio = 50\<rparr>))" for msg h
    using demo_addressee that by simp
  moreover have "c_terminated (ti_name \<lparr>ti_name = demo_name 2, ti_cprio = 50\<rparr>)" using demo_name_ok by simp
  moreover have "rt_task_start (demo_app 0) 2 s = (0, s)" for s by (simp add: demo_app_def)
  ultimately show ?thesis
    using task_start_registers [OF demo_kernel_ok s demo_app_call(1-3,5), of 2 0 2 7000000] demo_app_call(6) s(1)
    unfolding nm by (metis fst_conv snd_conv)
qed

text \<open>A refused registration goes unnoticed. When the registry does not know the name the
  library sends, which is the task's name cut to 24 characters, the table stays as it was,
  but the task is started all the same, without a deadline, and starting it decides the result.\<close>

theorem task_start_unregistered:
  assumes "user_env_ok (kenv, place)" and "edf_state kenv s ts" and "\<not> edf_data_lock s"
    and "rt_dev_write env (device p) = user_write (kenv, place)" and "device p \<noteq> -1"
    and "malloc env (umem p) = Some b" and "app_inquire env s t = Inr info"
    and "c_terminated (ti_name info)" and "length (msg_task (raw_app_message env s)) = Suc TNAME_LEN"
    and unknown: "\<And>msg h. c_str (msg_task msg) = take TNAME_LEN (c_str (ti_name info)) \<Longrightarrow> addressee kenv msg h = None"
  shows "\<exists>s'. edf_task_start env t dl (p, s) = Some (fst (rt_task_start env t s'), p, snd (rt_task_start env t s')) \<and>
    edf_state kenv s' ts"
proof -
  obtain msg where msg: "fill_message CREATE_TASK dl (ti_name info) (raw_app_message env s) = Some msg"
    "c_str (msg_task msg) = take TNAME_LEN (c_str (ti_name info))"
    using fill_message_name [OF assms(8,9)] by blast
  have "driver_holds (kenv, place) s (ts, calls s)" using assms(2,3) by simp
  from edfdev.task_start_run [OF assms(1) this assms(4-7) msg(1)]
  show ?thesis using unknown [OF msg(2), of "calls s"] by auto
qed

theorem task_start_unregistered_witness:
  "\<exists>s s'. edf_state (demo_kernel\<lparr>xnregistry_bind := \<lambda>h nm. Inl (-11)\<rparr>) (s :: drv) demo_ts \<and>
    edf_task_start ((demo_app 0)\<lparr>rt_dev_write := \<lambda>fd. user_write (demo_kernel\<lparr>xnregistry_bind := \<lambda>h nm. Inl (-11)\<rparr>, demo_place)\<rparr>)
      2 7000000 (demo_process, s) = Some (0, demo_process, s') \<and>
    edf_state (demo_kernel\<lparr>xnregistry_bind := \<lambda>h nm. Inl (-11)\<rparr>) s' demo_ts"
proof -
  let ?k = "demo_kernel\<lparr>xnregistry_bind := \<lambda>h nm. Inl (-11)\<rparr>"
  let ?a = "(demo_app 0)\<lparr>rt_dev_write := \<lambda>fd. user_write (?k, demo_place)\<rparr>"
  obtain s :: drv where s: "edf_state demo_kernel s demo_ts" "\<not> edf_data_lock s" by (rule demo_kernel_state)
  have st: "edf_state ?k s demo_ts" using s(1) tasks_ok_rname [of demo_kernel ?k] by (simp add: edf_state_def)
  have ok: "user_env_ok (?k, demo_place)"
    using demo_kernel_ok by (simp add: drv_env_ok_def xeno_ok_def klib_ok_def task_ready_def rname_ok_def)
  have "addressee ?k msg h = None" for msg h by (simp add: registered_def)
  moreover have "rt_dev_write ?a (device demo_process) = user_write (?k, demo_place)" "device demo_process \<noteq> -1"
    "malloc ?a (umem demo_process) = Some 1" "app_inquire ?a s 2 = Inr \<lparr>ti_name = demo_name 2, ti_cprio = 50\<rparr>"
    "length (msg_task (raw_app_message ?a s)) = Suc TNAME_LEN" "rt_task_start ?a 2 s' = (0, s')" for s'
    by (simp_all add: demo_app_def demo_process_def TNAME_LEN_def)
  moreover have "c_terminated (ti_name \<lparr>ti_name = demo_name 2, ti_cprio = 50\<rparr>)" using demo_name_ok by simp
  ultimately show ?thesis
    using task_start_unregistered [OF ok st s(2), of ?a demo_process 1 2 _ 7000000] st by (metis fst_conv snd_conv)
qed

section \<open>Waiting for the next period\<close>

text \<open>C32: Waiting for a period re-arms the deadline, and always reports an error. The module is
  told to suspend the task's deadline, the task sleeps, and on waking the module is told to
  reset the deadline, both under the task's name cut to 24 characters. The result is -1 even
  when everything succeeded: the device answers with the number of bytes, which the library
  takes for an error code.\<close>

theorem task_wait_period_rearms:
  assumes "user_env_ok (kenv, place)" and "edf_state kenv s ts" and "\<not> edf_data_lock s"
    and "rt_dev_write env (device p) = user_write (kenv, place)" and "device p \<noteq> -1"
    and "malloc env (umem p) = Some b" and "rt_task_self env s = Some t" and "app_inquire env s t = Inr info"
    and "c_terminated (ti_name info)" and "length (msg_task (raw_app_message env s)) = Suc TNAME_LEN"
    and sleep: "\<forall>s ts. edf_state kenv s ts \<and> \<not> edf_data_lock s \<longrightarrow>
      (\<exists>ts'. edf_state kenv (snd (rt_task_wait_period env s)) ts' \<and> \<not> edf_data_lock (snd (rt_task_wait_period env s)))"
  shows "\<exists>msg s1 s2 ts2 s'. edf_task_wait_period env (p, s) = Some (-1, p, s') \<and>
    command msg = EDFCommand_val STOP_WATCHD \<and> c_str (msg_task msg) = take TNAME_LEN (c_str (ti_name info)) \<and>
    edf_state kenv s1 (fst (user_effect (kenv, place) msg (ts, calls s))) \<and>
    s2 = snd (rt_task_wait_period env s1) \<and> edf_state kenv s2 ts2 \<and>
    edf_state kenv s' (fst (user_effect (kenv, place) (msg\<lparr>command := EDFCommand_val RESET_DEADLINE\<rparr>) (ts2, calls s2)))"
proof -
  let ?e = "(kenv, place)"
  obtain msg where msg: "fill_message STOP_WATCHD DEADLINENOTSET (ti_name info) (raw_app_message env s) = Some msg"
    "command msg = EDFCommand_val STOP_WATCHD" "c_str (msg_task msg) = take TNAME_LEN (c_str (ti_name info))"
    using fill_message_name [OF assms(9,10)] by blast
  have h: "driver_holds ?e s (ts, calls s)" using assms(2,3) by simp
  have sl: "\<forall>s a. driver_holds ?e s a \<longrightarrow> (\<exists>a'. driver_holds ?e (snd (rt_task_wait_period env s)) a')"
    using sleep by fastforce
  from edfdev.wait_period_run [OF assms(1) h assms(4-8) msg(1) sl] obtain s1 a2 s' where
    r: "driver_holds ?e s1 (user_effect ?e msg (ts, calls s))" "driver_holds ?e (snd (rt_task_wait_period env s1)) a2"
    "driver_holds ?e s' (user_effect ?e (msg\<lparr>command := EDFCommand_val RESET_DEADLINE\<rparr>) a2)"
    "edf_task_wait_period env (p, s) = Some (-1, p, s')"
    by blast
  have holds: "driver_holds ?e s a \<Longrightarrow> edf_state kenv s (fst a) \<and> snd a = calls s" for s a by (cases a) simp
  have "a2 = (fst a2, calls (snd (rt_task_wait_period env s1)))" using holds [OF r(2)] by (simp add: prod_eq_iff)
  then show ?thesis using holds [OF r(1)] holds [OF r(2)] holds [OF r(3)] r(4) msg(2,3) by metis
qed

theorem task_wait_period_rearms_witness:
  "\<exists>s s'. edf_state demo_kernel (s :: drv) demo_ts \<and>
    edf_task_wait_period (demo_app 0) (demo_process, s) = Some (-1, demo_process, s')"
proof -
  obtain s :: drv where s: "edf_state demo_kernel s demo_ts" "\<not> edf_data_lock s" by (rule demo_kernel_state)
  have w: "snd (rt_task_wait_period (demo_app 0) s) = s" for s by (simp add: demo_app_def)
  then have sl: "\<forall>s ts. edf_state demo_kernel s ts \<and> \<not> edf_data_lock s \<longrightarrow>
      (\<exists>ts'. edf_state demo_kernel (snd (rt_task_wait_period (demo_app 0) s)) ts' \<and>
        \<not> edf_data_lock (snd (rt_task_wait_period (demo_app 0) s)))"
    by auto
  have "c_terminated (ti_name \<lparr>ti_name = demo_name 0, ti_cprio = 50\<rparr>)" using demo_name_ok by simp
  from task_wait_period_rearms [OF demo_kernel_ok s demo_app_call(1-3,4,5) this demo_app_call(6) sl]
  show ?thesis using s(1) by blast
qed

section \<open>Opening and closing\<close>

text \<open>
  Disposal closes the descriptor but leaves it in \<open>device\<close> when closing succeeded: disposing
  again closes it again, and the other operations still take the device for open.
\<close>

lemma dispose_keeps_device:
  assumes "rt_dev_open env s = (fd, s1)" and "0 \<le> fd" and "rt_dev_close env fd s1 = (0, s2)" and "rt_dev_close env fd s2 = (r, s3)"
  shows "edf_init env (p, s) = (0, p\<lparr>device := fd\<rparr>, s1)"
    and "edf_dispose env (p\<lparr>device := fd\<rparr>, s1) = (0, p\<lparr>device := fd\<rparr>, s2)"
    and "edf_dispose env (p\<lparr>device := fd\<rparr>, s2) = (if r = 0 then 0 else -2, p\<lparr>device := if r = 0 then fd else -1\<rparr>, s3)"
  using assms by (simp_all add: edf_init_def edf_dispose_def app_mtx_create_def app_mtx_acquire_def app_mtx_delete_def)

end
