(* ===== verification/Uthash_Hashes.thy ===== *)
theory Uthash_Hashes
  imports Uthash_Jen
begin

text \<open>
  The other hash functions of uthash.h, which a program can choose in place of \<open>HASH_JEN\<close>:
  Bernstein, shift-add-xor, FNV, one-at-a-time, Paul Hsieh's and MurmurHash3, on 32-bit words.
  A \<open>char\<close> is signed, as in \<open>HASH_JEN\<close>; a \<open>uint8_t\<close> is not. Blocks are read little-endian, as
  on the processors that allow unaligned reads. Each function depends on nothing but the
  first \<open>keylen\<close> characters, which is what lookup by key needs; Bernstein's is a polynomial in
  33, and the finaliser of MurmurHash3 loses no information.
\<close>

section \<open>Character by character\<close>

primrec HASH_BER_while :: "u32 \<Rightarrow> char list \<Rightarrow> nat \<Rightarrow> u32" where
  "HASH_BER_while h key 0 = h"
| "HASH_BER_while h key (Suc n) = HASH_BER_while (h * 33 + hj_char key 0) (drop 1 key) n"

definition HASH_BER :: "char list \<Rightarrow> nat \<Rightarrow> u32" where
  "HASH_BER key keylen = HASH_BER_while 0 key keylen"

definition HASH_SAX :: "char list \<Rightarrow> nat \<Rightarrow> u32" where
  "HASH_SAX key keylen = fold (\<lambda>i h. h XOR (push_bit 5 h + drop_bit 2 h + hj_char key i)) [0..<keylen] 0"

definition HASH_FNV :: "char list \<Rightarrow> nat \<Rightarrow> u32" where
  "HASH_FNV key keylen = fold (\<lambda>i h. (h * 16777619) XOR hj_char key i) [0..<keylen] 2166136261"

definition HASH_OAT :: "char list \<Rightarrow> nat \<Rightarrow> u32" where
  "HASH_OAT key keylen =
     (let h = fold (\<lambda>i h. let h = h + hj_char key i; h = h + push_bit 10 h in h XOR drop_bit 6 h) [0..<keylen] 0;
          h = h + push_bit 3 h;
          h = h XOR drop_bit 11 h
      in h + push_bit 15 h)"

section \<open>Paul Hsieh's function\<close>

definition u8_at :: "char list \<Rightarrow> nat \<Rightarrow> u32" where
  "u8_at key n = ucast (of_char (key ! n) :: 8 word)"

definition get16bits :: "char list \<Rightarrow> nat \<Rightarrow> u32" where
  "get16bits key n = push_bit 8 (u8_at key (n + 1)) + u8_at key n"

primrec HASH_SFH_for :: "u32 \<Rightarrow> char list \<Rightarrow> nat \<Rightarrow> u32 \<times> char list" where
  "HASH_SFH_for h key 0 = (h, key)"
| "HASH_SFH_for h key (Suc len) =
     (let h = h + get16bits key 0;
          tmp = push_bit 11 (get16bits key 2) XOR h;
          h = push_bit 16 h XOR tmp;
          h = h + drop_bit 11 h
      in HASH_SFH_for h (drop 4 key) len)"

definition HASH_SFH_switch :: "u32 \<Rightarrow> char list \<Rightarrow> nat \<Rightarrow> u32" where
  "HASH_SFH_switch h key k =
     (if k = 3 then
        let h = h + get16bits key 0; h = h XOR push_bit 16 h; h = h XOR push_bit 18 (hj_char key 2)
        in h + drop_bit 11 h
      else if k = 2 then
        let h = h + get16bits key 0; h = h XOR push_bit 11 h in h + drop_bit 17 h
      else if k = 1 then
        let h = h + hj_char key 0; h = h XOR push_bit 10 h in h + drop_bit 1 h
      else h)"

definition HASH_SFH :: "char list \<Rightarrow> nat \<Rightarrow> u32" where
  "HASH_SFH key keylen =
     (let (h, rest) = HASH_SFH_for 0xcafebabe key (keylen div 4);
          h = HASH_SFH_switch h rest (keylen mod 4);
          h = h XOR push_bit 3 h;
          h = h + drop_bit 5 h;
          h = h XOR push_bit 4 h;
          h = h + drop_bit 17 h;
          h = h XOR push_bit 25 h
      in h + drop_bit 6 h)"

section \<open>MurmurHash3\<close>

definition MUR_GETBLOCK :: "char list \<Rightarrow> nat \<Rightarrow> u32" where
  "MUR_GETBLOCK key n = u8_at key n + push_bit 8 (u8_at key (n + 1)) + push_bit 16 (u8_at key (n + 2)) +
     push_bit 24 (u8_at key (n + 3))"

definition MUR_ROTL32 :: "u32 \<Rightarrow> nat \<Rightarrow> u32" where
  "MUR_ROTL32 x r = push_bit r x OR drop_bit (32 - r) x"

definition MUR_FMIX :: "u32 \<Rightarrow> u32" where
  "MUR_FMIX h =
     (let h = h XOR drop_bit 16 h;
          h = h * 0x85ebca6b;
          h = h XOR drop_bit 13 h;
          h = h * 0xc2b2ae35
      in h XOR drop_bit 16 h)"

definition mur_k :: "u32 \<Rightarrow> u32" where
  "mur_k k = (let k = k * 0xcc9e2d51; k = MUR_ROTL32 k 15 in k * 0x1b873593)"

definition HASH_MUR_for :: "char list \<Rightarrow> nat \<Rightarrow> u32 \<Rightarrow> u32" where
  "HASH_MUR_for key nblocks h = fold (\<lambda>i h.
     let h = h XOR mur_k (MUR_GETBLOCK key (4 * i)); h = MUR_ROTL32 h 13
     in h * 5 + 0xe6546b64) [0..<nblocks] h"

definition HASH_MUR_switch :: "u32 \<Rightarrow> char list \<Rightarrow> nat \<Rightarrow> u32" where
  "HASH_MUR_switch h key k =
     (if k = 0 then h
      else let k1 = 0;
               k1 = (if 3 \<le> k then k1 XOR push_bit 16 (u8_at key 2) else k1);
               k1 = (if 2 \<le> k then k1 XOR push_bit 8 (u8_at key 1) else k1);
               k1 = k1 XOR u8_at key 0
           in h XOR mur_k k1)"

definition HASH_MUR :: "char list \<Rightarrow> nat \<Rightarrow> u32" where
  "HASH_MUR key keylen =
     (let nblocks = keylen div 4;
          h = HASH_MUR_for key nblocks 0xf88D5353;
          h = HASH_MUR_switch h (drop (nblocks * 4) key) (keylen mod 4);
          h = h XOR of_nat keylen
      in MUR_FMIX h)"

section \<open>The hash of a key prefix\<close>

lemma u8_at_take: "n < k \<Longrightarrow> u8_at (take k key) n = u8_at key n"
  by (simp add: u8_at_def)

lemma get16bits_take: "n + 1 < k \<Longrightarrow> get16bits (take k key) n = get16bits key n"
  by (simp add: get16bits_def u8_at_take)

lemma HASH_BER_while_take: "HASH_BER_while h (take n key) n = HASH_BER_while h key n"
  by (induction n arbitrary: h key) (simp_all add: hj_char_take drop_take)

lemma fold_take: "fold (\<lambda>i. g i (hj_char (take n key) i)) [0..<n] h = fold (\<lambda>i. g i (hj_char key i)) [0..<n] h"
  by (rule fold_cong) (simp_all add: hj_char_take)

lemma HASH_SAX_take: "HASH_SAX (take n key) n = HASH_SAX key n"
  using fold_take [of "\<lambda>i c h. h XOR (push_bit 5 h + drop_bit 2 h + c)"] by (simp add: HASH_SAX_def)

lemma HASH_FNV_take: "HASH_FNV (take n key) n = HASH_FNV key n"
  using fold_take [of "\<lambda>i c h. (h * 16777619) XOR c"] by (simp add: HASH_FNV_def)

lemma HASH_OAT_take: "HASH_OAT (take n key) n = HASH_OAT key n"
  using fold_take [of "\<lambda>i c h. let h = h + c; h = h + push_bit 10 h in h XOR drop_bit 6 h"]
  by (simp add: HASH_OAT_def)

lemma HASH_SFH_for_take:
  "HASH_SFH_for h (take (4 * len + r) key) len = (case HASH_SFH_for h key len of (h', rest) \<Rightarrow> (h', take r rest))"
  by (induction len arbitrary: h key)
    (simp_all add: Let_def get16bits_take drop_take split: prod.splits)

lemma HASH_SFH_switch_take: "HASH_SFH_switch h (take k key) k = HASH_SFH_switch h key k"
  by (auto simp: HASH_SFH_switch_def get16bits_take hj_char_take Let_def)

lemma HASH_SFH_take: "HASH_SFH (take n key) n = HASH_SFH key n"
  using HASH_SFH_for_take [of "0xcafebabe" "n div 4" "n mod 4" key]
  by (auto simp: HASH_SFH_def HASH_SFH_switch_take Let_def split: prod.splits)

lemma HASH_MUR_for_take: "4 * len \<le> n \<Longrightarrow> HASH_MUR_for (take n key) len h = HASH_MUR_for key len h"
  unfolding HASH_MUR_for_def by (rule fold_cong) (auto simp: MUR_GETBLOCK_def u8_at_take)

lemma HASH_MUR_switch_take: "HASH_MUR_switch h (take k key) k = HASH_MUR_switch h key k"
  by (auto simp: HASH_MUR_switch_def u8_at_take Let_def)

lemma HASH_MUR_take: "HASH_MUR (take n key) n = HASH_MUR key n"
proof -
  have "drop (n div 4 * 4) (take n key) = take (n mod 4) (drop (n div 4 * 4) key)"
    by (simp add: drop_take minus_div_mult_eq_mod)
  then show ?thesis by (simp add: HASH_MUR_def Let_def HASH_MUR_for_take HASH_MUR_switch_take)
qed

text \<open>Every hash function of the library depends only on the characters of the key: keys
  with the same first \<open>keylen\<close> characters have the same hash, whatever follows them in memory.\<close>

theorem hash_functions_prefix:
  assumes "take n key = take n key'"
  shows "\<forall>hash\<in>{HASH_BER, HASH_SAX, HASH_FNV, HASH_OAT, HASH_JEN, HASH_SFH, HASH_MUR}. hash key n = hash key' n"
proof -
  have p: "hash key n = hash key' n" if "\<And>key :: char list. hash (take n key) n = hash key n" for hash :: "char list \<Rightarrow> nat \<Rightarrow> u32"
    using that [of key] that [of key'] assms by simp
  have "HASH_BER (take n key) n = HASH_BER key n" for key by (simp add: HASH_BER_def HASH_BER_while_take)
  then show ?thesis
    using p [of HASH_BER] p [of HASH_SAX] p [of HASH_FNV] p [of HASH_OAT] p [of HASH_JEN] p [of HASH_SFH] p [of HASH_MUR]
      HASH_SAX_take HASH_FNV_take HASH_OAT_take HASH_JEN_take HASH_SFH_take HASH_MUR_take by simp
qed

theorem hash_functions_prefix_witness: "HASH_FNV ''taskA'' 4 = HASH_FNV ''taskB'' 4 \<and> HASH_FNV ''taskA'' 5 \<noteq> HASH_FNV ''taskB'' 5"
proof -
  have "HASH_FNV ''taskA'' 4 = HASH_FNV ''taskB'' 4"
    using hash_functions_prefix [of 4 "''taskA''" "''taskB''"] by (simp add: numeral_eq_Suc)
  moreover have "HASH_FNV ''taskA'' 5 \<noteq> HASH_FNV ''taskB'' 5" by code_simp
  ultimately show ?thesis ..
qed

end
