(* ===== verification/Uthash_Murmur.thy ===== *)
theory Uthash_Murmur
  imports Uthash_Hashes
begin

text \<open>
  MurmurHash3 of uthash.h as it is compiled for processors that do not read unaligned words: the
  blocks of a key at an odd address are put together from the two aligned words that contain them. For
  keys at an aligned address this is the hash function of \<open>Uthash_Hashes\<close>. For others it is
  not a function of the key: the macro for unaligned addresses leaves out the block's number, so every block is
  read from behind the blocks.
\<close>

section \<open>The code\<close>

text \<open>Memory as a function from addresses to bytes; every address can be read. \<open>big\<close> is the
  order of the bytes in a word.\<close>

type_synonym bytes = "nat \<Rightarrow> 8 word"

definition mem_word :: "bool \<Rightarrow> bytes \<Rightarrow> nat \<Rightarrow> u32" where
  "mem_word big m p = (let b = (\<lambda>i. ucast (m (p + (if big then 3 - i else i))) :: u32)
     in b 0 + push_bit 8 (b 1) + push_bit 16 (b 2) + push_bit 24 (b 3))"

definition WP :: "nat \<Rightarrow> nat" where "WP p = p - p mod 4"

definition MUR_THREE_ONE :: "bool \<Rightarrow> bytes \<Rightarrow> nat \<Rightarrow> u32" where
  "MUR_THREE_ONE big m p = (let w = mem_word big m (WP p); v = mem_word big m (WP p + 4)
     in if big then push_bit 8 (w AND 0x00ffffff) OR drop_bit 24 (v AND 0xff000000)
        else drop_bit 8 (w AND 0xffffff00) OR push_bit 24 (v AND 0x000000ff))"

definition MUR_TWO_TWO :: "bool \<Rightarrow> bytes \<Rightarrow> nat \<Rightarrow> u32" where
  "MUR_TWO_TWO big m p = (let w = mem_word big m (WP p); v = mem_word big m (WP p + 4)
     in if big then push_bit 16 (w AND 0x0000ffff) OR drop_bit 16 (v AND 0xffff0000)
        else drop_bit 16 (w AND 0xffff0000) OR push_bit 16 (v AND 0x0000ffff))"

definition MUR_ONE_THREE :: "bool \<Rightarrow> bytes \<Rightarrow> nat \<Rightarrow> u32" where
  "MUR_ONE_THREE big m p = (let w = mem_word big m (WP p); v = mem_word big m (WP p + 4)
     in if big then push_bit 24 (w AND 0x000000ff) OR drop_bit 8 (v AND 0xffffff00)
        else drop_bit 24 (w AND 0xff000000) OR push_bit 8 (v AND 0x00ffffff))"

definition MUR_GETBLOCK_portable :: "bool \<Rightarrow> bytes \<Rightarrow> nat \<Rightarrow> int \<Rightarrow> u32" where
  "MUR_GETBLOCK_portable big m p i =
     (if p mod 4 = 0 then mem_word big m (nat (int p + 4 * i))
      else if p mod 4 = 1 then MUR_THREE_ONE big m p
      else if p mod 4 = 2 then MUR_TWO_TWO big m p
      else MUR_ONE_THREE big m p)"

text \<open>The loop counts from \<open>-nblocks\<close> up to 0, from the end of the blocks.\<close>

definition MUR_for_portable :: "bool \<Rightarrow> bytes \<Rightarrow> nat \<Rightarrow> nat \<Rightarrow> u32 \<Rightarrow> u32" where
  "MUR_for_portable big m blocks nblocks h = fold (\<lambda>j h.
     let h = h XOR mur_k (MUR_GETBLOCK_portable big m blocks (int j - int nblocks)); h = MUR_ROTL32 h 13
     in h * 5 + 0xe6546b64) [0..<nblocks] h"

definition bytes_at :: "bytes \<Rightarrow> nat \<Rightarrow> nat \<Rightarrow> char list" where
  "bytes_at m p n = map (\<lambda>j. char_of (unat (m j))) [p..<p + n]"

definition HASH_MUR_portable :: "bool \<Rightarrow> bytes \<Rightarrow> nat \<Rightarrow> nat \<Rightarrow> u32" where
  "HASH_MUR_portable big m data keylen =
     (let nblocks = keylen div 4;
          h = MUR_for_portable big m (data + nblocks * 4) nblocks 0xf88D5353;
          h = HASH_MUR_switch h (bytes_at m (data + nblocks * 4) (keylen mod 4)) (keylen mod 4);
          h = h XOR of_nat keylen
      in MUR_FMIX h)"

section \<open>Blocks\<close>

definition word_of :: "8 word \<Rightarrow> 8 word \<Rightarrow> 8 word \<Rightarrow> 8 word \<Rightarrow> u32" where
  "word_of a b c d = ucast a + push_bit 8 (ucast b) + push_bit 16 (ucast c) + push_bit 24 (ucast d)"

lemma bit_u8: "bit (a :: 8 word) n \<Longrightarrow> n < 8"
  using bit_imp_le_length [of a n] by simp

lemma bit_word_of:
  assumes "n < 32"
  shows "bit (word_of a b c d) n = (if n < 8 then bit a n else if n < 16 then bit b (n - 8)
    else if n < 24 then bit c (n - 16) else bit d (n - 24))"
proof -
  have "ucast a + push_bit 8 (ucast b) = (ucast a OR push_bit 8 (ucast b) :: u32)"
    by (rule disjunctive_add) (auto simp: bit_simps dest: bit_u8)
  moreover have "(ucast a OR push_bit 8 (ucast b)) + push_bit 16 (ucast c) = ((ucast a OR push_bit 8 (ucast b)) OR push_bit 16 (ucast c) :: u32)"
    by (rule disjunctive_add) (auto simp: bit_simps dest!: bit_u8)
  moreover have "((ucast a OR push_bit 8 (ucast b)) OR push_bit 16 (ucast c)) + push_bit 24 (ucast d) =
      (((ucast a OR push_bit 8 (ucast b)) OR push_bit 16 (ucast c)) OR push_bit 24 (ucast d) :: u32)"
    by (rule disjunctive_add) (auto simp: bit_simps dest!: bit_u8)
  ultimately show ?thesis using assms by (auto simp: word_of_def bit_simps dest: bit_u8)
qed

lemma mur_masks: "(0x00ffffff :: u32) = mask 24" "(0xff000000 :: u32) = NOT (mask 24)" "(0xffffff00 :: u32) = NOT (mask 8)"
    "(0x000000ff :: u32) = mask 8" "(0x0000ffff :: u32) = mask 16" "(0xffff0000 :: u32) = NOT (mask 16)"
  by (simp_all add: mask_eq_exp_minus_1)

lemma little_words:
  "drop_bit 8 (word_of a b c d AND 0xffffff00) OR push_bit 24 (word_of e f g h AND 0x000000ff) = word_of b c d e"
  "drop_bit 16 (word_of a b c d AND 0xffff0000) OR push_bit 16 (word_of e f g h AND 0x0000ffff) = word_of c d e f"
  "drop_bit 24 (word_of a b c d AND 0xff000000) OR push_bit 8 (word_of e f g h AND 0x00ffffff) = word_of d e f g"
  by (rule bit_word_eqI; auto simp: mur_masks bit_word_of bit_simps dest: bit_u8)+

lemma big_words:
  "push_bit 8 (word_of d c b a AND 0x00ffffff) OR drop_bit 24 (word_of h g f e AND 0xff000000) = word_of e d c b"
  "push_bit 16 (word_of d c b a AND 0x0000ffff) OR drop_bit 16 (word_of h g f e AND 0xffff0000) = word_of f e d c"
  "push_bit 24 (word_of d c b a AND 0x000000ff) OR drop_bit 8 (word_of h g f e AND 0xffffff00) = word_of g f e d"
  by (rule bit_word_eqI; auto simp: mur_masks bit_word_of bit_simps dest: bit_u8)+

lemma mem_word_of: "mem_word big m p = (if big then word_of (m (p + 3)) (m (p + 2)) (m (p + 1)) (m p)
    else word_of (m p) (m (p + 1)) (m (p + 2)) (m (p + 3)))"
  by (simp add: mem_word_def word_of_def Let_def)

lemma GETBLOCK_unaligned:
  assumes "p mod 4 \<noteq> 0"
  shows "MUR_GETBLOCK_portable big m p i = mem_word big m p"
proof -
  define q where "q = p - p mod 4"
  have q: "WP p = q" and pq: "p = q + p mod 4" by (simp_all add: WP_def q_def)
  have "p mod 4 = 1 \<or> p mod 4 = 2 \<or> p mod 4 = 3" using assms by presburger
  then have cases: "p mod 4 = 1 \<and> p = q + 1 \<or> p mod 4 = 2 \<and> p = q + 2 \<or> p mod 4 = 3 \<and> p = q + 3"
    using pq by metis
  have w: "mem_word big m q = (if big then word_of (m (q + 3)) (m (q + 2)) (m (q + 1)) (m q) else word_of (m q) (m (q + 1)) (m (q + 2)) (m (q + 3)))"
    "mem_word big m (q + 4) = (if big then word_of (m (q + 7)) (m (q + 6)) (m (q + 5)) (m (q + 4)) else word_of (m (q + 4)) (m (q + 5)) (m (q + 6)) (m (q + 7)))"
    "mem_word big m (q + 1) = (if big then word_of (m (q + 4)) (m (q + 3)) (m (q + 2)) (m (q + 1)) else word_of (m (q + 1)) (m (q + 2)) (m (q + 3)) (m (q + 4)))"
    "mem_word big m (q + 2) = (if big then word_of (m (q + 5)) (m (q + 4)) (m (q + 3)) (m (q + 2)) else word_of (m (q + 2)) (m (q + 3)) (m (q + 4)) (m (q + 5)))"
    "mem_word big m (q + 3) = (if big then word_of (m (q + 6)) (m (q + 5)) (m (q + 4)) (m (q + 3)) else word_of (m (q + 3)) (m (q + 4)) (m (q + 5)) (m (q + 6)))"
    by (simp_all add: mem_word_of eval_nat_numeral)
  from cases consider "p mod 4 = 1" "p = q + 1" | "p mod 4 = 2" "p = q + 2" | "p mod 4 = 3" "p = q + 3" by blast
  then show ?thesis
  proof cases
    case 1
    have "MUR_THREE_ONE big m p = mem_word big m p"
      unfolding MUR_THREE_ONE_def Let_def q unfolding 1(2) w by (cases big) (simp_all only: if_True if_False little_words big_words)
    then show ?thesis using 1(1) by (simp add: MUR_GETBLOCK_portable_def)
  next
    case 2
    have "MUR_TWO_TWO big m p = mem_word big m p"
      unfolding MUR_TWO_TWO_def Let_def q unfolding 2(2) w by (cases big) (simp_all only: if_True if_False little_words big_words)
    then show ?thesis using 2(1) by (simp add: MUR_GETBLOCK_portable_def)
  next
    case 3
    have "MUR_ONE_THREE big m p = mem_word big m p"
      unfolding MUR_ONE_THREE_def Let_def q unfolding 3(2) w by (cases big) (simp_all only: if_True if_False little_words big_words)
    then show ?thesis using 3(1) by (simp add: MUR_GETBLOCK_portable_def)
  qed
qed

section \<open>The hash\<close>

lemma of_char_byte: "of_char (char_of (unat b) :: char) = (b :: 8 word)"
proof -
  have "of_char (char_of (unat b) :: char) = (of_nat (of_char (char_of (unat b) :: char)) :: 8 word)"
    by (rule of_nat_of_char [symmetric])
  also have "\<dots> = b" using unsigned_less [of b, where 'a = nat] by (simp add: of_char_of)
  finally show ?thesis .
qed

lemma u8_at_bytes: "j < n \<Longrightarrow> u8_at (bytes_at m p n) j = ucast (m (p + j))"
  by (simp add: u8_at_def bytes_at_def of_char_byte)

lemma GETBLOCK_aligned:
  assumes "data mod 4 = 0" and "j < nblocks" and "4 * nblocks \<le> n"
  shows "MUR_GETBLOCK_portable False m (data + nblocks * 4) (int j - int nblocks) = MUR_GETBLOCK (bytes_at m data n) (4 * j)"
proof -
  have "(data + nblocks * 4) mod 4 = 0" using assms(1) by simp
  moreover have "nat (int (data + nblocks * 4) + 4 * (int j - int nblocks)) = data + 4 * j" by simp
  ultimately have "MUR_GETBLOCK_portable False m (data + nblocks * 4) (int j - int nblocks) = mem_word False m (data + 4 * j)"
    by (simp add: MUR_GETBLOCK_portable_def)
  then show ?thesis using assms(2,3) by (simp add: MUR_GETBLOCK_def u8_at_bytes mem_word_def add.assoc)
qed

lemma HASH_MUR_aligned:
  assumes "data mod 4 = 0"
  shows "HASH_MUR_portable False m data n = HASH_MUR (bytes_at m data n) n"
proof -
  have "MUR_for_portable False m (data + n div 4 * 4) (n div 4) h = HASH_MUR_for (bytes_at m data n) (n div 4) h" for h
    unfolding MUR_for_portable_def HASH_MUR_for_def
    by (rule fold_cong) (simp_all add: GETBLOCK_aligned [OF assms, where n = n])
  moreover have "drop (n div 4 * 4) (bytes_at m data n) = bytes_at m (data + n div 4 * 4) (n mod 4)"
  proof -
    have "data + n div 4 * 4 + n mod 4 = data + n" by simp
    then show ?thesis by (simp only: bytes_at_def drop_map drop_upt)
  qed
  ultimately show ?thesis by (simp add: HASH_MUR_portable_def HASH_MUR_def Let_def)
qed

text \<open>C25: On processors that do not read unaligned words, MurmurHash3 is the same function as on
  the others for a key at an address that is a multiple of 4, in little-endian byte order. At any
  other address, for a key of whole blocks, it does not depend on the key at all but on the four
  bytes that follow it in memory, which it reads although they are not part of the key.\<close>

theorem mur_unaligned:
  shows "(data mod 4 = 0 \<longrightarrow> HASH_MUR_portable False m data n = HASH_MUR (bytes_at m data n) n) \<and>
    (data mod 4 \<noteq> 0 \<and> n mod 4 = 0 \<and> (\<forall>j\<in>{data + n..<data + n + 4}. m' j = m j) \<longrightarrow>
      HASH_MUR_portable big m' data n = HASH_MUR_portable big m data n)"
proof (intro conjI impI)
  show "HASH_MUR_portable False m data n = HASH_MUR (bytes_at m data n) n" if "data mod 4 = 0"
    using that by (rule HASH_MUR_aligned)
  assume a: "data mod 4 \<noteq> 0 \<and> n mod 4 = 0 \<and> (\<forall>j\<in>{data + n..<data + n + 4}. m' j = m j)"
  then have n: "n div 4 * 4 = n" by auto
  have p: "(data + n) mod 4 \<noteq> 0" using a by (metis mod_add_right_eq add.right_neutral)
  have "mem_word big m' (data + n) = mem_word big m (data + n)" using a by (auto simp: mem_word_of)
  then have "MUR_GETBLOCK_portable big m' (data + n) = MUR_GETBLOCK_portable big m (data + n)"
    by (simp add: fun_eq_iff GETBLOCK_unaligned [OF p])
  then show "HASH_MUR_portable big m' data n = HASH_MUR_portable big m data n"
    using a by (simp add: HASH_MUR_portable_def MUR_for_portable_def n bytes_at_def Let_def)
qed

text \<open>At address 1, two keys have one hash, and one key has two hashes; at address 4 it is the
  hash of \<open>Uthash_Hashes\<close>.\<close>

theorem mur_unaligned_witness:
  "HASH_MUR_portable False (\<lambda>j. if j < 5 then 7 else 0) 1 4 = HASH_MUR_portable False (\<lambda>_. 0) 1 4 \<and>
   HASH_MUR_portable False (\<lambda>j. if j = 5 then 1 else 0) 1 4 \<noteq> HASH_MUR_portable False (\<lambda>_. 0) 1 4 \<and>
   bytes_at (\<lambda>j. if j = 5 then 1 else 0) 1 4 = bytes_at (\<lambda>_. 0) 1 4 \<and>
   HASH_MUR_portable False (\<lambda>j. if j = 5 then 1 else 0) 4 4 = HASH_MUR [CHR 0x00, CHR 0x01, CHR 0x00, CHR 0x00] 4"
proof -
  have "HASH_MUR_portable False (\<lambda>j. if j = 5 then 1 else 0) 1 4 \<noteq> HASH_MUR_portable False (\<lambda>_. 0) 1 4"
    by code_simp
  moreover have "bytes_at (\<lambda>j. if j = 5 then 1 else 0) 1 4 = bytes_at (\<lambda>_. 0) 1 4"
    by (simp add: bytes_at_def)
  moreover have "bytes_at (\<lambda>j. if j = 5 then 1 else 0) 4 4 = [CHR 0x00, CHR 0x01, CHR 0x00, CHR 0x00]"
    by code_simp
  ultimately show ?thesis
    using mur_unaligned [of 1 "\<lambda>_. 0" 4 "\<lambda>j. if j < 5 then 7 else 0" False]
      mur_unaligned [of 4 "\<lambda>j. if j = 5 then 1 else 0" 4 "\<lambda>_. 0" False] by simp
qed

end
