(* ===== verification/Uthash_Msort.thy ===== *)
theory Uthash_Msort
  imports Main "HOL-Library.Multiset"
begin

text \<open>
  The list function behind \<open>HASH_SRT\<close> and the sorting macros of utlist.h: a bottom-up merge sort. Merging two runs that are
  each the sorted form of a segment gives the sorted form of the two segments together, so
  a pass doubles the length of the runs and the last pass gives the sorted list. \<open>sort_key\<close>
  of the library is the stable sort, and so is this one.
\<close>

fun merge_by :: "('a \<Rightarrow> 'k::linorder) \<Rightarrow> 'a list \<Rightarrow> 'a list \<Rightarrow> 'a list" where
  "merge_by f [] ys = ys"
| "merge_by f (x # xs) [] = x # xs"
| "merge_by f (x # xs) (y # ys) =
     (if f x \<le> f y then x # merge_by f xs (y # ys) else y # merge_by f (x # xs) ys)"

lemma merge_by_Nil [simp]: "merge_by f xs [] = xs"
  by (cases xs) simp_all

lemma mset_merge_by [simp]: "mset (merge_by f xs ys) = mset xs + mset ys"
  by (induction f xs ys rule: merge_by.induct) simp_all

lemma set_merge_by [simp]: "set (merge_by f xs ys) = set xs \<union> set ys"
  by (metis mset_merge_by set_mset_mset set_mset_union)

lemma length_merge_by [simp]: "length (merge_by f xs ys) = length xs + length ys"
  by (metis mset_merge_by size_mset size_union)

lemma sorted_merge_by: "sorted (map f xs) \<Longrightarrow> sorted (map f ys) \<Longrightarrow> sorted (map f (merge_by f xs ys))"
  by (induction f xs ys rule: merge_by.induct) (auto intro: order_trans)

text \<open>Elements with equal keys keep their order: those of the first run come first.\<close>

lemma filter_merge_by:
  assumes "sorted (map f xs)"
  shows "filter (\<lambda>x. f x = k) (merge_by f xs ys) = filter (\<lambda>x. f x = k) xs @ filter (\<lambda>x. f x = k) ys"
  using assms
proof (induction f xs ys rule: merge_by.induct)
  case (3 f x xs y ys)
  show ?case
  proof (cases "f x \<le> f y")
    case True
    then show ?thesis using 3 by simp
  next
    case False
    then have "filter (\<lambda>x. f x = f y) (x # xs) = []" using 3(3) by (auto simp: filter_empty_conv)
    then show ?thesis using 3 False by auto
  qed
qed simp_all

lemma merge_by_sort_key: "merge_by f (sort_key f xs) (sort_key f ys) = sort_key f (xs @ ys)"
proof (rule sym, rule properties_for_sort_key)
  show "filter (\<lambda>x. f k = f x) (merge_by f (sort_key f xs) (sort_key f ys)) = filter (\<lambda>x. f k = f x) (xs @ ys)" for k
  proof -
    have "(\<lambda>x. f k = f x) = (\<lambda>x. f x = f k)" by auto
    then show ?thesis by (simp add: filter_merge_by sort_key_stable)
  qed
qed (simp_all add: sorted_merge_by)

text \<open>One step of merging with the first \<open>m\<close> elements of the second list.\<close>

lemma merge_by_step:
  assumes "P \<noteq> [] \<or> (0 < m \<and> Q \<noteq> [])"
  shows "merge_by f P (take m Q) = (if P \<noteq> [] \<and> (m = 0 \<or> Q = [] \<or> f (hd P) \<le> f (hd Q))
    then hd P # merge_by f (tl P) (take m Q) else hd Q # merge_by f P (take (m - 1) (tl Q)))"
  using assms by (cases P; cases m; cases Q) auto

section \<open>Passes\<close>

function runs :: "('a \<Rightarrow> 'k::linorder) \<Rightarrow> nat \<Rightarrow> 'a list \<Rightarrow> 'a list" where
  "runs f n xs = (if n = 0 \<or> xs = [] then xs else sort_key f (take n xs) @ runs f n (drop n xs))"
  by pat_completeness auto
termination by (relation "measure (\<lambda>(f, n, xs). length xs)") auto

function merge_pass :: "('a \<Rightarrow> 'k::linorder) \<Rightarrow> nat \<Rightarrow> 'a list \<Rightarrow> 'a list" where
  "merge_pass f n xs = (if n = 0 \<or> xs = [] then xs
     else merge_by f (take n xs) (take n (drop n xs)) @ merge_pass f n (drop n (drop n xs)))"
  by pat_completeness auto
termination by (relation "measure (\<lambda>(f, n, xs). length xs)") auto

function merges :: "nat \<Rightarrow> 'a list \<Rightarrow> nat" where
  "merges n xs = (if n = 0 \<or> xs = [] then 0 else Suc (merges n (drop n (drop n xs))))"
  by pat_completeness auto
termination by (relation "measure (\<lambda>(n, xs). length xs)") auto

declare runs.simps [simp del] merge_pass.simps [simp del] merges.simps [simp del]

lemma runs_Nil [simp]: "runs f n [] = []" "merge_pass f n [] = []" "merges n [] = 0"
  by (simp_all add: runs.simps merge_pass.simps merges.simps)

lemma mset_runs: "mset (runs f n xs) = mset xs"
proof (induction f n xs rule: runs.induct)
  case (1 f n xs)
  show ?case
  proof (cases "n = 0 \<or> xs = []")
    case False
    then have "mset (runs f n xs) = mset (take n xs @ drop n xs)"
      using 1 by (subst runs.simps) (simp del: append_take_drop_id)
    then show ?thesis by simp
  qed (simp add: runs.simps)
qed

lemma length_runs [simp]: "length (runs f n xs) = length xs"
  by (metis mset_runs size_mset)

lemma set_runs [simp]: "set (runs f n xs) = set xs"
  by (metis mset_runs set_mset_mset)

lemma distinct_runs [simp]: "distinct (runs f n xs) = distinct xs"
  by (metis mset_runs mset_eq_imp_distinct_iff)

lemma runs_one: "runs f 1 xs = xs"
proof (induction xs)
  case (Cons x xs)
  then show ?case by (subst runs.simps) simp
qed simp

lemma runs_all: "xs \<noteq> [] \<Longrightarrow> length xs \<le> n \<Longrightarrow> runs f n xs = sort_key f xs"
  by (subst runs.simps) auto

lemma take_runs: "0 < n \<Longrightarrow> take n (runs f n xs) = sort_key f (take n xs)"
  by (subst runs.simps) (auto simp: min_def)

lemma drop_runs: "0 < n \<Longrightarrow> drop n (runs f n xs) = runs f n (drop n xs)"
  by (cases "length xs \<le> n") (simp_all add: runs.simps [of f n xs])

lemma merge_pass_runs: "0 < n \<Longrightarrow> merge_pass f n (runs f n xs) = runs f (2 * n) xs"
proof (induction "length xs" arbitrary: xs rule: less_induct)
  case less
  show ?case
  proof (cases "xs = []")
    case False
    have ne: "runs f n xs \<noteq> []" using False by (metis length_0_conv length_runs)
    have "merge_pass f n (runs f n xs) =
        merge_by f (sort_key f (take n xs)) (sort_key f (take n (drop n xs))) @
        merge_pass f n (runs f n (drop n (drop n xs)))"
      using less.prems ne by (subst merge_pass.simps) (simp add: take_runs drop_runs)
    also have "\<dots> = sort_key f (take n xs @ take n (drop n xs)) @ runs f (2 * n) (drop n (drop n xs))"
      using less False by (simp only: merge_by_sort_key) (simp add: less.hyps)
    also have "\<dots> = sort_key f (take (2 * n) xs) @ runs f (2 * n) (drop (2 * n) xs)"
      by (simp add: take_add [symmetric] mult_2)
    also have "\<dots> = runs f (2 * n) xs" using less.prems False by (subst (2) runs.simps) simp
    finally show ?thesis .
  qed simp
qed

lemma merges_0: "0 < n \<Longrightarrow> merges n xs = 0 \<longleftrightarrow> xs = []"
  by (subst merges.simps) simp

lemma merges_le_1: "0 < n \<Longrightarrow> merges n xs \<le> 1 \<longleftrightarrow> length xs \<le> 2 * n"
  by (subst merges.simps) (auto simp: merges_0)

lemma merges_length: "length xs = length ys \<Longrightarrow> merges n xs = merges n ys"
proof (induction n xs arbitrary: ys rule: merges.induct)
  case (1 n xs)
  then have "xs = [] \<longleftrightarrow> ys = []" by auto
  then show ?case using 1 by (subst (1 2) merges.simps) auto
qed

text \<open>The next elements of a run, along the pointers \<open>nx\<close>.\<close>

primrec walk :: "('a \<Rightarrow> 'a option) \<Rightarrow> 'a option \<Rightarrow> 'a list \<Rightarrow> bool" where
  "walk nx x [] \<longleftrightarrow> True"
| "walk nx x (a # as) \<longleftrightarrow> x = Some a \<and> walk nx (nx a) as"

lemma walk_cong: "(\<And>a. a \<in> set as \<Longrightarrow> nx' a = nx a) \<Longrightarrow> walk nx x as \<Longrightarrow> walk nx' x as"
  by (induction as arbitrary: x) auto

end
