(* ===== verification/Uthash_Sort.thy ===== *)
theory Uthash_Sort
  imports Uthash_Dict Uthash_Msort
begin

text \<open>
  \<open>HASH_SRT\<close> of uthash.h: the merge sort that relinks the application order of a table in
  place. The comparison is a parameter, on the contents of two elements. The pointers of the
  code are \<open>p\<close> and \<open>q\<close>, the first elements of the two runs that are being merged, \<open>psize\<close>
  and \<open>qsize\<close>, how many elements of each are left, and \<open>list\<close> and \<open>tail\<close>, the ends of the
  list built so far. The run length is a natural number: it stays below twice the number of
  elements.
\<close>

section \<open>The code\<close>

text \<open>Stepping \<open>q\<close> over the first run.\<close>

fun HASH_SRT_for :: "nat \<Rightarrow> addr option \<Rightarrow> nat \<Rightarrow> ('e, 'm) ut_scheme \<Rightarrow> (addr option \<times> nat) option" where
  "HASH_SRT_for 0 q psize s = Some (q, psize)"
| "HASH_SRT_for (Suc k) q psize s = (case q of None \<Rightarrow> None
     | Some a \<Rightarrow> (case heap s a of None \<Rightarrow> None
         | Some n \<Rightarrow> (case el_next (hh n) of
               None \<Rightarrow> Some (None, psize + 1)
             | Some b \<Rightarrow> HASH_SRT_for k (Some b) (psize + 1) s)))"

text \<open>Whether the next element is taken from the first run.\<close>

definition HASH_SRT_pick :: "('e \<Rightarrow> 'e \<Rightarrow> int) \<Rightarrow> addr option \<Rightarrow> nat \<Rightarrow> addr option \<Rightarrow> nat \<Rightarrow> ('e, 'm) ut_scheme \<Rightarrow>
    bool option" where
  "HASH_SRT_pick cmpfcn p psize q qsize s =
     (if psize = 0 then Some False
      else if qsize = 0 \<or> q = None then Some True
      else do {
        a \<leftarrow> p; x \<leftarrow> elt_read a s;
        b \<leftarrow> q; y \<leftarrow> elt_read b s;
        Some (cmpfcn x y \<le> 0) })"

definition HASH_SRT_append :: "addr \<Rightarrow> addr option \<Rightarrow> addr option \<Rightarrow> ('e, 'm) ut_scheme \<Rightarrow>
    (addr option \<times> ('e, 'm) ut_scheme) option" where
  "HASH_SRT_append e list tailp s = do {
     s \<leftarrow> (case tailp of None \<Rightarrow> Some s | Some t \<Rightarrow> hh_write t (\<lambda>h. h\<lparr>el_next := Some e\<rparr>) s);
     let list = (if tailp = None then Some e else list);
     s \<leftarrow> hh_write e (\<lambda>h. h\<lparr>el_prev := tailp\<rparr>) s;
     Some (list, s) }"

partial_function (option) HASH_SRT_merge :: "('e \<Rightarrow> 'e \<Rightarrow> int) \<Rightarrow> addr option \<Rightarrow> nat \<Rightarrow> addr option \<Rightarrow> nat \<Rightarrow>
    addr option \<Rightarrow> addr option \<Rightarrow> ('e, 'm) ut_scheme \<Rightarrow>
    (addr option \<times> addr option \<times> addr option \<times> ('e, 'm) ut_scheme) option" where
  "HASH_SRT_merge cmpfcn p psize q qsize list tailp s =
     (if 0 < psize \<or> (0 < qsize \<and> q \<noteq> None)
      then (case HASH_SRT_pick cmpfcn p psize q qsize s of None \<Rightarrow> None
        | Some fromp \<Rightarrow> (case (if fromp then p else q) of None \<Rightarrow> None
          | Some e \<Rightarrow> (case heap s e of None \<Rightarrow> None
            | Some n \<Rightarrow> (case HASH_SRT_append e list tailp s of None \<Rightarrow> None
              | Some (list', s') \<Rightarrow>
                  if fromp then HASH_SRT_merge cmpfcn (el_next (hh n)) (psize - 1) q qsize list' (Some e) s'
                  else HASH_SRT_merge cmpfcn p psize (el_next (hh n)) (qsize - 1) list' (Some e) s'))))
      else Some (q, list, tailp, s))"

partial_function (option) HASH_SRT_while :: "('e \<Rightarrow> 'e \<Rightarrow> int) \<Rightarrow> nat \<Rightarrow> addr option \<Rightarrow> nat \<Rightarrow> addr option \<Rightarrow>
    addr option \<Rightarrow> ('e, 'm) ut_scheme \<Rightarrow> (nat \<times> addr option \<times> addr option \<times> ('e, 'm) ut_scheme) option" where
  "HASH_SRT_while cmpfcn insize p nmerges list tailp s = (case p of
       None \<Rightarrow> Some (nmerges, list, tailp, s)
     | Some _ \<Rightarrow> (case HASH_SRT_for insize p 0 s of None \<Rightarrow> None
         | Some (q, psize) \<Rightarrow> (case HASH_SRT_merge cmpfcn p psize q insize list tailp s of None \<Rightarrow> None
             | Some (q', list', tailp', s') \<Rightarrow> HASH_SRT_while cmpfcn insize q' (nmerges + 1) list' tailp' s')))"

partial_function (option) HASH_SRT_loop :: "('e \<Rightarrow> 'e \<Rightarrow> int) \<Rightarrow> nat \<Rightarrow> addr option \<Rightarrow> ('e, 'm) ut_scheme \<Rightarrow>
    ('e, 'm) ut_scheme option" where
  "HASH_SRT_loop cmpfcn insize list s = (case HASH_SRT_while cmpfcn insize list 0 None None s of None \<Rightarrow> None
     | Some (nmerges, list', tailp', s') \<Rightarrow> (case tailp' of None \<Rightarrow> None
         | Some t \<Rightarrow> (case hh_write t (\<lambda>h. h\<lparr>el_next := None\<rparr>) s' of None \<Rightarrow> None
             | Some s'' \<Rightarrow>
                 if nmerges \<le> 1 then map_option (\<lambda>tb. s''\<lparr>head := list', tbl := Some (tb\<lparr>tail := t\<rparr>)\<rparr>) (head_tbl s'')
                 else HASH_SRT_loop cmpfcn (insize * 2) list' s'')))"

definition HASH_SRT :: "('e \<Rightarrow> 'e \<Rightarrow> int) \<Rightarrow> ('e, 'm) ut_scheme \<Rightarrow> ('e, 'm) ut_scheme option" where
  "HASH_SRT cmpfcn s = (case head s of None \<Rightarrow> Some s | Some _ \<Rightarrow> HASH_SRT_loop cmpfcn 1 (head s) s)"

section \<open>What relinking leaves alone\<close>

definition srt_core :: "'e node \<Rightarrow> 'e \<times> addr option \<times> addr option \<times> nat \<times> u32" where
  "srt_core n = (elt n, hh_prev (hh n), hh_next (hh n), keylen (hh n), hashv (hh n))"

definition srt_frame :: "('e, 'm) ut_scheme \<Rightarrow> ('e, 'm) ut_scheme \<Rightarrow> bool" where
  "srt_frame s s' \<longleftrightarrow> s' = s\<lparr>heap := heap s'\<rparr> \<and>
     (\<forall>a. map_option srt_core (heap s' a) = map_option srt_core (heap s a))"

lemma srt_frame_refl [frame_simps]: "srt_frame s s"
  by (simp add: srt_frame_def)

lemma srt_frame_trans: "srt_frame s s' \<Longrightarrow> srt_frame s' s'' \<Longrightarrow> srt_frame s s''"
  by (cases s; cases s'; cases s'') (simp add: srt_frame_def)

lemma srt_frame_upd_at:
  assumes "\<And>h. hh_prev (f h) = hh_prev h" "\<And>h. hh_next (f h) = hh_next h"
    "\<And>h. keylen (f h) = keylen h" "\<And>h. hashv (f h) = hashv h"
  shows "srt_frame s (s\<lparr>heap := upd_at (heap s) q f\<rparr>)"
  using assms by (auto simp: srt_frame_def srt_core_def upd_at_def split: option.splits)

lemma srt_frameD:
  assumes "srt_frame s s'"
  shows "dom (heap s') = dom (heap s)" and "elt_read a s' = elt_read a s"
    and "ptr hh_next (heap s') = ptr hh_next (heap s)" and "ptr hh_prev (heap s') = ptr hh_prev (heap s)"
    and "hash_of (heap s') a = hash_of (heap s) a" and "keyed kf (heap s') a = keyed kf (heap s) a"
    and "head s' = head s" and "tbl s' = tbl s" and "ut.more s' = ut.more s"
proof -
  have c: "map_option srt_core (heap s' a) = map_option srt_core (heap s a)" for a
    using assms by (simp add: srt_frame_def)
  have n: "heap s' a = None \<longleftrightarrow> heap s a = None" for a using c [of a] by (cases "heap s a") auto
  then show "dom (heap s') = dom (heap s)" by (simp add: dom_def)
  have e: "heap s a = Some m \<Longrightarrow> \<exists>m'. heap s' a = Some m' \<and> srt_core m' = srt_core m" for a m
    using c [of a] by auto
  show "elt_read a s' = elt_read a s" "hash_of (heap s') a = hash_of (heap s) a"
    "keyed kf (heap s') a = keyed kf (heap s) a"
    using n [of a] e [of a] by (cases "heap s a"; force simp: elt_read_def hash_of_def keyed_def srt_core_def)+
  have "ptr hh_next (heap s') a = ptr hh_next (heap s) a" "ptr hh_prev (heap s') a = ptr hh_prev (heap s) a" for a
    using n [of a] e [of a] by (cases "heap s a"; force simp: ptr_def srt_core_def)+
  then show "ptr hh_next (heap s') = ptr hh_next (heap s)" "ptr hh_prev (heap s') = ptr hh_prev (heap s)" by auto
  show "head s' = head s" "tbl s' = tbl s" "ut.more s' = ut.more s"
    using assms by (cases s; cases s'; simp add: srt_frame_def)+
qed

section \<open>The list built so far\<close>

text \<open>
  \<open>built s l D\<close>: the elements \<open>D\<close> are linked from \<open>l\<close> in both directions; where the last one
  points to does not matter yet.
\<close>

definition built :: "('e, 'm) ut_scheme \<Rightarrow> addr option \<Rightarrow> addr list \<Rightarrow> bool" where
  "built s l D \<longleftrightarrow> dlist ((ptr el_next (heap s))(last D := None)) (ptr el_prev (heap s)) None l D None"

lemma built_Nil [simp]: "built s None []"
  by (simp add: built_def)

lemma append_run:
  assumes "built s l D" and "distinct (D @ [e])" and "set (D @ [e]) \<subseteq> dom (heap s)"
  shows "\<exists>l' s'. HASH_SRT_append e l (last_ptr None D) s = Some (l', s') \<and> srt_frame s s' \<and> built s' l' (D @ [e]) \<and>
    (\<forall>a. a \<notin> set D \<longrightarrow> ptr el_next (heap s') a = ptr el_next (heap s) a)"
proof -
  let ?t = "last_ptr None D"
  let ?h1 = "upd_at (heap s) ?t (\<lambda>h. h\<lparr>el_next := Some e\<rparr>)"
  let ?h2 = "upd_at ?h1 (Some e) (\<lambda>h. h\<lparr>el_prev := ?t\<rparr>)"
  let ?l = "if ?t = None then Some e else l"
  have td: "p \<in> dom (heap s) \<and> p \<in> set D" if "?t = Some p" for p using assms(3) last_ptr_in [OF that] by auto
  have "(case ?t of None \<Rightarrow> Some s | Some t \<Rightarrow> hh_write t (\<lambda>h. h\<lparr>el_next := Some e\<rparr>) s) = Some (s\<lparr>heap := ?h1\<rparr>)"
    by (rule hh_write_opt) (use td in blast)
  moreover have "hh_write e (\<lambda>h. h\<lparr>el_prev := ?t\<rparr>) (s\<lparr>heap := ?h1\<rparr>) = Some (s\<lparr>heap := ?h2\<rparr>)"
    using assms(3) by (simp add: hh_write_eq)
  ultimately have run: "HASH_SRT_append e l ?t s = Some (?l, s\<lparr>heap := ?h2\<rparr>)"
    by (simp add: HASH_SRT_append_def)
  have fr: "srt_frame s (s\<lparr>heap := ?h2\<rparr>)"
    using srt_frame_trans [OF srt_frame_upd_at [of "\<lambda>h. h\<lparr>el_next := Some e\<rparr>" s ?t]
        srt_frame_upd_at [of "\<lambda>h. h\<lparr>el_prev := ?t\<rparr>" "s\<lparr>heap := ?h1\<rparr>" "Some e"]] by simp
  have "ptr el_next ?h1 = (case ?t of None \<Rightarrow> ptr el_next (heap s) | Some p \<Rightarrow> (ptr el_next (heap s))(p := Some e))"
    by (rule ptr_upd_at) (use td in auto)
  moreover have "ptr el_next ?h2 = ptr el_next ?h1" by (rule ptr_upd_at_same) simp
  ultimately have nx: "ptr el_next ?h2 = (case ?t of None \<Rightarrow> ptr el_next (heap s) | Some p \<Rightarrow> (ptr el_next (heap s))(p := Some e))"
    by simp
  have "ptr el_prev ?h2 = (case Some e of None \<Rightarrow> ptr el_prev ?h1 | Some p \<Rightarrow> (ptr el_prev ?h1)(p := ?t))"
    by (rule ptr_upd_at) (use assms(3) in auto)
  moreover have "ptr el_prev ?h1 = ptr el_prev (heap s)" by (rule ptr_upd_at_same) simp
  ultimately have pv: "ptr el_prev ?h2 = (ptr el_prev (heap s))(e := ?t)" by simp
  have "built (s\<lparr>heap := ?h2\<rparr>) ?l (D @ [e])"
  proof (cases D rule: rev_cases)
    case Nil
    then show ?thesis using pv by (simp add: built_def)
  next
    case (snoc bs t)
    have d: "dlist ((ptr el_next (heap s))(t := None)) (ptr el_prev (heap s)) None l D None"
      using assms(1) snoc by (simp add: built_def)
    have "e \<notin> set D" "distinct D" using assms(2) by auto
    from dlist_snoc [OF d this] have "dlist ((ptr el_next (heap s))(t := Some e, e := None))
        ((ptr el_prev (heap s))(e := Some t)) None l (D @ [e]) None"
      using snoc dlist_first [OF d] by (simp add: first_ptr_append)
    moreover have "ptr el_next ?h2 = (ptr el_next (heap s))(t := Some e)" "ptr el_prev ?h2 = (ptr el_prev (heap s))(e := Some t)"
      using nx pv snoc by simp_all
    ultimately show ?thesis using snoc by (simp add: built_def)
  qed
  moreover have "ptr el_next ?h2 a = ptr el_next (heap s) a" if "a \<notin> set D" for a
    using that td nx by (cases ?t) auto
  ultimately show ?thesis using run fr by auto
qed

section \<open>Merging two runs\<close>

lemma npath_walk: "npath nx x (as @ bs) \<Longrightarrow> walk nx x as"
  by (induction as arbitrary: x) auto

lemma npath_first: "npath nx x as \<Longrightarrow> x = first_ptr as None"
  by (cases as) auto

lemma npath_drop: "npath nx x as \<Longrightarrow> npath nx (first_ptr (drop n as) None) (drop n as)"
  by (induction as arbitrary: x n) (auto simp: drop_Cons' dest: npath_first)

text \<open>The comparison orders the elements by a key \<open>f\<close> of their addresses.\<close>

definition compares :: "('e \<Rightarrow> 'e \<Rightarrow> int) \<Rightarrow> (addr \<Rightarrow> 'k::linorder) \<Rightarrow> ('e, 'm) ut_scheme \<Rightarrow> addr set \<Rightarrow> bool" where
  "compares cmpfcn f s M \<longleftrightarrow> M \<subseteq> dom (heap s) \<and>
     (\<forall>a\<in>M. \<forall>b\<in>M. (cmpfcn (the (elt_read a s)) (the (elt_read b s)) \<le> 0) = (f a \<le> f b))"

lemma compares_frame: "compares cmpfcn f s M \<Longrightarrow> srt_frame s s' \<Longrightarrow> compares cmpfcn f s' M"
  by (auto simp: compares_def srt_frameD(1,2))

lemma compares_read: "compares cmpfcn f s M \<Longrightarrow> a \<in> M \<Longrightarrow> \<exists>x. elt_read a s = Some x"
  by (auto simp: compares_def elt_read_def dom_def)

lemma pick_run:
  assumes "compares cmpfcn f s M" and "set (P @ Q) \<subseteq> M" and "walk nx p P" and "npath nx q Q"
    and "P \<noteq> [] \<or> (0 < m \<and> Q \<noteq> [])"
  shows "HASH_SRT_pick cmpfcn p (length P) q m s =
    Some (P \<noteq> [] \<and> (m = 0 \<or> Q = [] \<or> f (hd P) \<le> f (hd Q)))"
proof (cases "P = [] \<or> m = 0 \<or> Q = []")
  case True
  then show ?thesis using assms(4,5) by (cases Q) (auto simp: HASH_SRT_pick_def)
next
  case False
  then obtain a P' b Q' where eq: "P = a # P'" "Q = b # Q'" by (metis list.exhaust)
  then have ab: "a \<in> M" "b \<in> M" "p = Some a" "q = Some b" using assms(2-4) by auto
  obtain x y where "elt_read a s = Some x" "elt_read b s = Some y"
    using compares_read [OF assms(1)] ab by blast
  moreover from this have "(cmpfcn x y \<le> 0) = (f a \<le> f b)" using assms(1) ab(1,2) by (fastforce simp: compares_def)
  ultimately show ?thesis using False ab(3,4) eq by (simp add: HASH_SRT_pick_def)
qed

lemma merge_run:
  assumes "compares cmpfcn f s (set (D @ P @ Q))" and "distinct (D @ P @ Q)" and "built s l D"
    and "walk (ptr el_next (heap s)) p P" and "npath (ptr el_next (heap s)) q Q"
  shows "\<exists>l' s'. HASH_SRT_merge cmpfcn p (length P) q m l (last_ptr None D) s =
      Some (first_ptr (drop m Q) None, l', last_ptr None (D @ merge_by f P (take m Q)), s') \<and>
    srt_frame s s' \<and> built s' l' (D @ merge_by f P (take m Q)) \<and>
    npath (ptr el_next (heap s')) (first_ptr (drop m Q) None) (drop m Q)"
  using assms
proof (induction "length P + length (take m Q)" arbitrary: p P q m Q l D s)
  case 0
  then have e: "P = []" "take m Q = []" by (auto simp: min_def split: if_splits)
  then have "m = 0 \<or> Q = []" by auto
  then have "\<not> (0 < m \<and> q \<noteq> None)" "drop m Q = Q" using "0.prems"(5) by (auto dest: npath_first)
  then show ?case using e "0.prems"(3,5) npath_first [OF "0.prems"(5)] frame_simps
    by (subst HASH_SRT_merge.simps) auto
next
  case (Suc k)
  let ?nx = "ptr el_next (heap s)" and ?R = "take m Q"
  have ne: "P \<noteq> [] \<or> (0 < m \<and> Q \<noteq> [])" using Suc.hyps(2) by (cases P; cases m; cases Q) auto
  have go: "0 < length P \<or> (0 < m \<and> q \<noteq> None)" using ne Suc.prems(5) by (cases Q) auto
  define fromp where "fromp \<longleftrightarrow> P \<noteq> [] \<and> (m = 0 \<or> Q = [] \<or> f (hd P) \<le> f (hd Q))"
  have pick: "HASH_SRT_pick cmpfcn p (length P) q m s = Some fromp"
    unfolding fromp_def using pick_run [OF Suc.prems(1) _ Suc.prems(4,5) ne] by simp
  define e where "e = (if fromp then hd P else hd Q)"
  have fe: "(if fromp then p else q) = Some e"
    using ne Suc.prems(4,5) unfolding e_def fromp_def by (cases P; cases Q) auto
  have ein: "e \<in> set (P @ Q)" using ne unfolding e_def fromp_def by (cases P; cases Q) auto
  then obtain n where n: "heap s e = Some n" using Suc.prems(1) by (fastforce simp: compares_def)
  have "distinct (D @ [e])" "set (D @ [e]) \<subseteq> dom (heap s)"
    using Suc.prems(1,2) ein by (auto simp: compares_def)
  from append_run [OF Suc.prems(3) this] obtain l1 s1 where
    ap: "HASH_SRT_append e l (last_ptr None D) s = Some (l1, s1)" "srt_frame s s1" "built s1 l1 (D @ [e])"
    and nx: "\<And>a. a \<notin> set D \<Longrightarrow> ptr el_next (heap s1) a = ?nx a"
    by blast
  have nn: "el_next (hh n) = ?nx e" using n by (simp add: ptr_def)
  let ?P = "if fromp then tl P else P" and ?Q = "if fromp then Q else tl Q" and ?m = "if fromp then m else m - 1"
  have Rne: "\<not> fromp \<Longrightarrow> 0 < m \<and> Q \<noteq> []" using ne unfolding fromp_def by auto
  have Q: "\<not> fromp \<Longrightarrow> Q = e # tl Q" and P: "fromp \<Longrightarrow> P = e # tl P"
    using Rne unfolding e_def fromp_def by auto
  have mb: "D @ merge_by f P ?R = (D @ [e]) @ merge_by f ?P (take ?m ?Q)" and dr: "drop ?m ?Q = drop m Q"
    using merge_by_step [OF ne, of f] Rne unfolding e_def fromp_def by (auto simp: drop_Suc dest!: gr0_implies_Suc)
  have sz: "k = length ?P + length (take ?m ?Q)"
    using Suc.hyps(2) P Q Rne by (cases fromp; cases P; cases Q; cases m) auto
  have sub: "set ((D @ [e]) @ ?P @ ?Q) = set (D @ P @ Q)" "distinct ((D @ [e]) @ ?P @ ?Q)"
  proof -
    have "fromp \<Longrightarrow> mset P = add_mset e (mset (tl P))" "\<not> fromp \<Longrightarrow> mset Q = add_mset e (mset (tl Q))"
      using P Q by (metis mset.simps(2))+
    then have "mset ((D @ [e]) @ ?P @ ?Q) = mset (D @ P @ Q)" by (cases fromp) simp_all
    then show "set ((D @ [e]) @ ?P @ ?Q) = set (D @ P @ Q)" "distinct ((D @ [e]) @ ?P @ ?Q)"
      using Suc.prems(2) by (metis mset_eq_setD, metis mset_eq_imp_distinct_iff)
  qed
  have walk': "walk (ptr el_next (heap s1)) (if fromp then ?nx e else p) ?P"
  proof (rule walk_cong)
    show "walk ?nx (if fromp then ?nx e else p) ?P" using Suc.prems(4) P by (cases fromp; cases P) auto
    show "ptr el_next (heap s1) a = ?nx a" if "a \<in> set ?P" for a
      using that Suc.prems(2) by (intro nx) (cases P; auto split: if_splits)
  qed
  have path': "npath (ptr el_next (heap s1)) (if fromp then q else ?nx e) ?Q"
  proof -
    have "npath ?nx (if fromp then q else ?nx e) ?Q" using Suc.prems(5) Q by (cases fromp; cases Q) auto
    moreover have "ptr el_next (heap s1) a = ?nx a" if "a \<in> set ?Q" for a
      using that Suc.prems(2) by (intro nx) (cases Q; auto split: if_splits)
    ultimately show ?thesis using npath_cong [of ?Q "ptr el_next (heap s1)" ?nx] by blast
  qed
  have "compares cmpfcn f s1 (set ((D @ [e]) @ ?P @ ?Q))" unfolding sub(1) by (rule compares_frame [OF Suc.prems(1) ap(2)])
  from Suc.hyps(1) [OF sz this sub(2) ap(3) walk' path'] obtain l' s' where
    ih: "HASH_SRT_merge cmpfcn (if fromp then ?nx e else p) (length ?P) (if fromp then q else ?nx e) ?m l1 (Some e) s1 =
      Some (first_ptr (drop m Q) None, l', last_ptr None (D @ merge_by f P ?R), s')" "srt_frame s1 s'"
    "built s' l' (D @ merge_by f P ?R)" "npath (ptr el_next (heap s')) (first_ptr (drop m Q) None) (drop m Q)"
    unfolding mb dr by auto
  have "HASH_SRT_merge cmpfcn p (length P) q m l (last_ptr None D) s =
      Some (first_ptr (drop m Q) None, l', last_ptr None (D @ merge_by f P ?R), s')"
    using ih(1) go fe n ap(1) pick nn by (subst HASH_SRT_merge.simps) (cases fromp; simp)
  then show ?case using ih(2-4) srt_frame_trans [OF ap(2) ih(2)] by blast
qed

section \<open>A pass\<close>

lemma SRT_for_run:
  assumes "npath (ptr el_next (heap s)) (first_ptr L None) L" and "set L \<subseteq> dom (heap s)" and "L \<noteq> []"
  shows "HASH_SRT_for k (first_ptr L None) psize s = Some (first_ptr (drop k L) None, psize + length (take k L))"
  using assms
proof (induction k arbitrary: L psize)
  case (Suc k)
  then obtain a as where L: "L = a # as" by (cases L) auto
  obtain n where n: "heap s a = Some n" using Suc.prems(2) L by auto
  have nn: "el_next (hh n) = first_ptr as None" using Suc.prems(1) L n npath_first by (fastforce simp: ptr_def)
  show ?case
  proof (cases as)
    case Nil
    then show ?thesis using L n nn by simp
  next
    case (Cons b bs)
    have "npath (ptr el_next (heap s)) (first_ptr as None) as" "set as \<subseteq> dom (heap s)" "as \<noteq> []"
      using Suc.prems(1,2) L Cons by auto
    from Suc.IH [OF this, of "psize + 1"] show ?thesis using L n nn Cons by simp
  qed
qed (cases L; simp)

lemma SRT_while_run:
  assumes "compares cmpfcn f s (set (D @ L))" and "distinct (D @ L)" and "built s l D"
    and "npath (ptr el_next (heap s)) (first_ptr L None) L" and "0 < n"
  shows "\<exists>l' s'. HASH_SRT_while cmpfcn n (first_ptr L None) nm l (last_ptr None D) s =
      Some (nm + merges n L, l', last_ptr None (D @ merge_pass f n L), s') \<and>
    srt_frame s s' \<and> built s' l' (D @ merge_pass f n L)"
  using assms
proof (induction "length L" arbitrary: L D l s nm rule: less_induct)
  case less
  show ?case
  proof (cases "L = []")
    case True
    then show ?thesis using less.prems(3) frame_simps by (subst HASH_SRT_while.simps) auto
  next
    case False
    let ?P = "take n L" and ?Q = "drop n L"
    let ?M = "merge_by f ?P (take n ?Q)" and ?L = "drop n (drop n L)"
    have L: "L = ?P @ ?Q" by simp
    have dom: "set L \<subseteq> dom (heap s)" using less.prems(1) by (auto simp: compares_def)
    have fr: "HASH_SRT_for n (first_ptr L None) 0 s = Some (first_ptr ?Q None, length ?P)"
      using SRT_for_run [OF less.prems(4) dom False, of n 0] by simp
    have w: "walk (ptr el_next (heap s)) (first_ptr L None) ?P" "npath (ptr el_next (heap s)) (first_ptr ?Q None) ?Q"
      using less.prems(4) L npath_walk npath_drop by metis+
    have c: "compares cmpfcn f s (set (D @ ?P @ ?Q))" "distinct (D @ ?P @ ?Q)" using less.prems(1,2) L by metis+
    obtain l1 s1 where s1: "HASH_SRT_merge cmpfcn (first_ptr L None) (length ?P) (first_ptr ?Q None) n l (last_ptr None D) s =
        Some (first_ptr ?L None, l1, last_ptr None (D @ ?M), s1)"
      "srt_frame s s1" "built s1 l1 (D @ ?M)" "npath (ptr el_next (heap s1)) (first_ptr ?L None) ?L"
      using merge_run [OF c less.prems(3) w, of n] by blast
    have "mset ((D @ ?M) @ ?L) = mset (D @ L)"
    proof -
      have "mset ?P + (mset (take n ?Q) + mset ?L) = mset (?P @ take n ?Q @ ?L)" by simp
      also have "\<dots> = mset L" by (metis append_take_drop_id)
      finally show ?thesis by (simp add: add.assoc)
    qed
    then have sub: "set ((D @ ?M) @ ?L) = set (D @ L)" "distinct ((D @ ?M) @ ?L)"
      using less.prems(2) by (metis mset_eq_setD, metis mset_eq_imp_distinct_iff)
    have "compares cmpfcn f s1 (set ((D @ ?M) @ ?L))"
      unfolding sub(1) by (rule compares_frame [OF less.prems(1) s1(2)])
    moreover have "length ?L < length L" using False less.prems(5) by (cases L) auto
    ultimately obtain l' s' where ih: "HASH_SRT_while cmpfcn n (first_ptr ?L None) (nm + 1) l1 (last_ptr None (D @ ?M)) s1 =
        Some (nm + 1 + merges n ?L, l', last_ptr None ((D @ ?M) @ merge_pass f n ?L), s')" "srt_frame s1 s'"
      "built s' l' ((D @ ?M) @ merge_pass f n ?L)"
      using less.hyps [OF _ _ sub(2) s1(3,4) less.prems(5), of "nm + 1"] by blast
    have mp: "merge_pass f n L = ?M @ merge_pass f n ?L" "merges n L = Suc (merges n ?L)"
      using False less.prems(5) by (simp_all add: merge_pass.simps [of f n L] merges.simps [of n L])
    have "HASH_SRT_while cmpfcn n (first_ptr L None) nm l (last_ptr None D) s =
        Some (nm + merges n L, l', last_ptr None (D @ merge_pass f n L), s')"
      using False fr s1(1) ih(1) mp by (subst HASH_SRT_while.simps) (cases L; simp)
    then show ?thesis using ih(2,3) srt_frame_trans [OF s1(2) ih(2)] mp(1) by auto
  qed
qed

section \<open>The sort\<close>

lemma terminate_run:
  assumes "built s l D" and "D \<noteq> []" and "set D \<subseteq> dom (heap s)"
  shows "\<exists>s'. hh_write (last D) (\<lambda>h. h\<lparr>el_next := None\<rparr>) s = Some s' \<and> srt_frame s s' \<and>
    dlist (ptr el_next (heap s')) (ptr el_prev (heap s')) None l D None"
proof -
  let ?h = "upd_at (heap s) (Some (last D)) (\<lambda>h. h\<lparr>el_next := None\<rparr>)"
  have d: "last D \<in> dom (heap s)" using assms(2,3) last_in_set by blast
  have "ptr el_next ?h = (case Some (last D) of None \<Rightarrow> ptr el_next (heap s) | Some p \<Rightarrow> (ptr el_next (heap s))(p := None))"
    by (rule ptr_upd_at) (use d in auto)
  moreover have "ptr el_prev ?h = ptr el_prev (heap s)" by (rule ptr_upd_at_same) simp
  ultimately have "dlist (ptr el_next ?h) (ptr el_prev ?h) None l D None" using assms(1) by (simp add: built_def)
  moreover have "srt_frame s (s\<lparr>heap := ?h\<rparr>)" by (rule srt_frame_upd_at) simp_all
  ultimately show ?thesis using d by (auto simp: hh_write_eq)
qed

lemma SRT_loop_run:
  assumes "compares cmpfcn f s (set es)" and "distinct es" and "es \<noteq> []" and "0 < n"
    and "dlist (ptr el_next (heap s)) (ptr el_prev (heap s)) None l (runs f n es) None"
    and "head s = Some a" and "a \<in> dom (heap s)" and "tbl s = Some t"
  shows "\<exists>s'. HASH_SRT_loop cmpfcn n l s =
      Some (s'\<lparr>head := first_ptr (sort_key f es) None, tbl := Some (t\<lparr>tail := last (sort_key f es)\<rparr>)\<rparr>) \<and>
    srt_frame s s' \<and>
    dlist (ptr el_next (heap s')) (ptr el_prev (heap s')) None (first_ptr (sort_key f es) None) (sort_key f es) None"
  using assms
proof (induction "length es - n" arbitrary: n l s rule: less_induct)
  case less
  let ?L = "runs f n es" and ?R = "runs f (2 * n) es"
  have p: "npath (ptr el_next (heap s)) l ?L" using less.prems(5) by (rule dlist_npath)
  then have l: "l = first_ptr ?L None" by (rule npath_first)
  have "compares cmpfcn f s (set ([] @ ?L))" "distinct ([] @ ?L)" using less.prems(1,2) by simp_all
  from SRT_while_run [OF this built_Nil _ less.prems(4), of 0] obtain l1 s1 where
    s1: "HASH_SRT_while cmpfcn n l 0 None None s = Some (merges n ?L, l1, last_ptr None ?R, s1)" "srt_frame s s1"
    "built s1 l1 ?R"
    using p l less.prems(4) by (auto simp: merge_pass_runs)
  have ne: "?R \<noteq> []" using less.prems(3) by (metis length_0_conv length_runs)
  have dom: "set ?R \<subseteq> dom (heap s1)" using less.prems(1) srt_frameD(1) [OF s1(2)] by (auto simp: compares_def)
  obtain s2 where s2: "hh_write (last ?R) (\<lambda>h. h\<lparr>el_next := None\<rparr>) s1 = Some s2" "srt_frame s1 s2"
    "dlist (ptr el_next (heap s2)) (ptr el_prev (heap s2)) None l1 ?R None"
    using terminate_run [OF s1(3) ne dom] by blast
  note f2 = srt_frame_trans [OF s1(2) s2(2)]
  have l1: "l1 = first_ptr ?R None" using s2(3) by (rule dlist_first)
  have hd2: "head s2 = Some a" "a \<in> dom (heap s2)" "tbl s2 = Some t"
    using less.prems(6-8) srt_frameD(1,7,8) [OF f2] by auto
  then have ht: "head_tbl s2 = Some t" by (auto simp: head_tbl_def)
  have m: "merges n ?L \<le> 1 \<longleftrightarrow> length es \<le> 2 * n" using merges_le_1 [OF less.prems(4), of ?L] by simp
  have last: "last_ptr None ?R = Some (last ?R)" using ne by (simp add: last_ptr_def)
  show ?case
  proof (cases "length es \<le> 2 * n")
    case True
    have R: "?R = sort_key f es" by (rule runs_all [OF less.prems(3) True])
    have "HASH_SRT_loop cmpfcn n l s = Some (s2\<lparr>head := l1, tbl := Some (t\<lparr>tail := last ?R\<rparr>)\<rparr>)"
      using s1(1) s2(1) ht True m last by (subst HASH_SRT_loop.simps) simp
    then show ?thesis using f2 s2(3) l1 unfolding R by auto
  next
    case False
    have "length es - n * 2 < length es - n" using False less.prems(4) by simp
    moreover have "runs f (n * 2) es = ?R" by (simp add: mult.commute)
    ultimately obtain s' where ih: "HASH_SRT_loop cmpfcn (n * 2) l1 s2 =
        Some (s'\<lparr>head := first_ptr (sort_key f es) None, tbl := Some (t\<lparr>tail := last (sort_key f es)\<rparr>)\<rparr>)" "srt_frame s2 s'"
      "dlist (ptr el_next (heap s')) (ptr el_prev (heap s')) None (first_ptr (sort_key f es) None) (sort_key f es) None"
      using less.hyps [OF _ compares_frame [OF less.prems(1) f2] less.prems(2,3) _ _ hd2, of "n * 2" l1] s2(3) less.prems(4)
      by auto
    have "HASH_SRT_loop cmpfcn n l s = HASH_SRT_loop cmpfcn (n * 2) l1 s2"
      using s1(1) s2(1) False m last by (subst HASH_SRT_loop.simps) simp
    then show ?thesis using ih srt_frame_trans [OF f2 ih(2)] by auto
  qed
qed

lemma HASH_SRT_effect:
  assumes "ut_inv kf s es" and "compares cmpfcn f s (set es)"
  shows "\<exists>s'. HASH_SRT cmpfcn s = Some s' \<and> ut_inv kf s' (sort_key f es) \<and>
    (\<forall>a. elt_read a s' = elt_read a s) \<and> ut.more s' = ut.more s"
proof (cases "es = []")
  case True
  then show ?thesis using assms(1) by (simp add: HASH_SRT_def ut_inv_head)
next
  case False
  obtain t where t: "head_tbl s = Some t" "tbl s = Some t" "tail t = last es" "num_items t = length es"
    "tbl_ok (heap s) (set es) t"
    using ut_inv_head_tbl [OF assms(1) False] by blast
  obtain a as where es: "es = a # as" using False by (cases es) auto
  have hd: "head s = Some a" using ut_inv_head [OF assms(1)] es by simp
  have a: "a \<in> dom (heap s)" using ut_inv_dom [OF assms(1)] es by auto
  have d: "dlist (ptr el_next (heap s)) (ptr el_prev (heap s)) None (head s) es None" "\<forall>a\<in>set es. keyed kf (heap s) a"
    using assms(1) False by (auto simp: ut_inv_def)
  have "dlist (ptr el_next (heap s)) (ptr el_prev (heap s)) None (head s) (runs f 1 es) None"
    using d(1) by (simp only: runs_one)
  from SRT_loop_run [OF assms(2) ut_inv_distinct [OF assms(1)] False _ this hd a t(2)] obtain s' where s':
    "HASH_SRT_loop cmpfcn 1 (head s) s =
      Some (s'\<lparr>head := first_ptr (sort_key f es) None, tbl := Some (t\<lparr>tail := last (sort_key f es)\<rparr>)\<rparr>)"
    "srt_frame s s'"
    "dlist (ptr el_next (heap s')) (ptr el_prev (heap s')) None (first_ptr (sort_key f es) None) (sort_key f es) None"
    by auto
  note fr = srt_frameD [OF s'(2)]
  have "tbl_ok (heap s') (set es) (t\<lparr>tail := last (sort_key f es)\<rparr>)"
    by (rule tbl_ok_cong [OF t(5) fr(3,4)]) (use fr(1,5) ut_inv_dom [OF assms(1)] in auto)
  moreover have "sort_key f es \<noteq> []" using False by (metis length_0_conv length_sort)
  ultimately have "ut_inv kf (s'\<lparr>head := first_ptr (sort_key f es) None, tbl := Some (t\<lparr>tail := last (sort_key f es)\<rparr>)\<rparr>)
      (sort_key f es)"
    using s'(3) d(2) fr(6) t(4) ut_inv_distinct [OF assms(1)] by (simp add: ut_inv_def)
  then show ?thesis using s'(1) hd fr(2,9) by (auto simp: HASH_SRT_def elt_read_def)
qed

lemma HASH_SRT_dict:
  assumes "dict_inv kf s es" and "\<And>x y. (cmpfcn x y \<le> 0) = (k x \<le> k y)"
  defines "es' \<equiv> sort_key (\<lambda>a. k (the (elt_read a s))) es"
  shows "\<exists>s'. HASH_SRT cmpfcn s = Some s' \<and> dict_inv kf s' es' \<and> (\<forall>a. elt_read a s' = elt_read a s) \<and>
    ut.more s' = ut.more s \<and> (\<forall>buf. HASH_FIND_STR kf buf s' = HASH_FIND_STR kf buf s)"
proof -
  have u: "ut_inv kf s es" "distinct (map (key_at kf (heap s)) es)" using assms(1) by (simp_all add: dict_inv_def)
  have "compares cmpfcn (\<lambda>a. k (the (elt_read a s))) s (set es)"
    using ut_inv_dom [OF u(1)] assms(2) by (simp add: compares_def)
  from HASH_SRT_effect [OF u(1) this] obtain s' where s': "HASH_SRT cmpfcn s = Some s'" "ut_inv kf s' es'"
    "\<forall>a. elt_read a s' = elt_read a s" "ut.more s' = ut.more s"
    unfolding es'_def by blast
  have m: "mset es' = mset es" by (simp add: es'_def)
  have "map (key_at kf (heap s')) es' = map (key_at kf (heap s)) es'" using s'(3) key_at_cong by fastforce
  moreover have "mset (map (key_at kf (heap s)) es') = mset (map (key_at kf (heap s)) es)" using m by simp
  ultimately have d: "dict_inv kf s' es'"
    using u(2) s'(2) mset_eq_imp_distinct_iff unfolding dict_inv_def by metis
  have "HASH_FIND_STR kf buf s' = HASH_FIND_STR kf buf s" for buf
  proof (rule ut.lookup_cases [OF assms(1), of buf])
    fix a e
    assume "HASH_FIND_STR kf buf s = Some (Some a)" "a \<in> set es" "elt_read a s = Some e" "c_str (kf e) = c_str buf"
    then show ?thesis using ut.lookup_found [OF d, of a e buf] s'(3) m by (metis mset_eq_setD)
  next
    assume "HASH_FIND_STR kf buf s = Some None"
      "\<And>a e. a \<in> set es \<Longrightarrow> elt_read a s = Some e \<Longrightarrow> c_str (kf e) \<noteq> c_str buf"
    then show ?thesis using ut.lookup_missing [OF d, of buf] s'(3) m by (metis mset_eq_setD)
  qed
  then show ?thesis using s' d by blast
qed

end
