(* ===== verification/Uthash_Fsck.thy ===== *)
theory Uthash_Fsck
  imports Uthash_Dict
begin

text \<open>
  \<open>HASH_FSCK\<close> of uthash.h, the consistency check that debug builds run after every change,
  and \<open>HASH_CLEAR\<close>. The check is characterised exactly: it accepts a table if and only if
  every bucket is a well-formed doubly linked chain with the count it claims, the elements
  form one in application order, and both have the number of items the table claims. The
  tables that the other operations build are accepted.
\<close>

section \<open>The code\<close>

text \<open>What \<open>HASH_OOPS\<close> complains about before it ends the program.\<close>

datatype hash_complaint = Invalid_hh_prev | Invalid_bucket_count | Invalid_hh_item_count | Invalid_prev | Invalid_app_item_count

text \<open>The loop along a chain; the check has it twice, for the buckets and for the
  application order. It counts the handles and compares the back pointers.\<close>

partial_function (option) FSCK_while :: "(UT_hash_handle \<Rightarrow> addr option) \<Rightarrow> (UT_hash_handle \<Rightarrow> addr option) \<Rightarrow> hash_complaint \<Rightarrow>
    addr option \<Rightarrow> addr option \<Rightarrow> nat \<Rightarrow> ('e, 'm) ut_scheme \<Rightarrow> (hash_complaint + nat) option" where
  "FSCK_while nxt prv why thh prev count s = (case thh of None \<Rightarrow> Some (Inr count)
     | Some a \<Rightarrow> (case heap s a of None \<Rightarrow> None
         | Some n \<Rightarrow> if prev \<noteq> prv (hh n) then Some (Inl why)
             else FSCK_while nxt prv why (nxt (hh n)) (Some a) (count + 1) s))"

function FSCK_for :: "UT_hash_table \<Rightarrow> nat \<Rightarrow> nat \<Rightarrow> ('e, 'm) ut_scheme \<Rightarrow> (hash_complaint + nat) option" where
  "FSCK_for t i count s =
     (if i < num_buckets t
      then (case bucket_at (buckets t) i of None \<Rightarrow> None
        | Some b \<Rightarrow> (case FSCK_while hh_next hh_prev Invalid_hh_prev (hh_head b) None 0 s of
              None \<Rightarrow> None
            | Some (Inl e) \<Rightarrow> Some (Inl e)
            | Some (Inr bc) \<Rightarrow> if bkt_count b \<noteq> bc then Some (Inl Invalid_bucket_count)
                else FSCK_for t (i + 1) (count + bc) s))
      else Some (Inr count))"
  by pat_completeness auto
termination by (relation "measure (\<lambda>(t, i, count, s). num_buckets t - i)") auto

declare FSCK_for.simps [simp del]

definition HASH_FSCK :: "('e, 'm) ut_scheme \<Rightarrow> (hash_complaint + unit) option" where
  "HASH_FSCK s = (case head s of None \<Rightarrow> Some (Inr ())
     | Some h \<Rightarrow> do {
         t \<leftarrow> head_tbl s;
         r \<leftarrow> FSCK_for t 0 0 s;
         case r of Inl e \<Rightarrow> Some (Inl e)
         | Inr count \<Rightarrow>
             if count \<noteq> num_items t then Some (Inl Invalid_hh_item_count)
             else do {
               r \<leftarrow> FSCK_while el_next el_prev Invalid_prev (Some h) None 0 s;
               case r of Inl e \<Rightarrow> Some (Inl e)
               | Inr count \<Rightarrow> Some (if count \<noteq> num_items t then Inl Invalid_app_item_count else Inr ()) } })"

definition HASH_CLEAR :: "('e, 'm) ut_scheme \<Rightarrow> ('e, 'm) ut_scheme option" where
  "HASH_CLEAR s = (case head s of None \<Rightarrow> Some s
     | Some _ \<Rightarrow> do { _ \<leftarrow> head_tbl s; Some (s\<lparr>head := None, tbl := None\<rparr>) })"

section \<open>What is checked\<close>

definition chain_at :: "(UT_hash_handle \<Rightarrow> addr option) \<Rightarrow> (UT_hash_handle \<Rightarrow> addr option) \<Rightarrow> ('e, 'm) ut_scheme \<Rightarrow>
    addr option \<Rightarrow> addr list \<Rightarrow> bool" where
  "chain_at nxt prv s x as \<longleftrightarrow> dlist (ptr nxt (heap s)) (ptr prv (heap s)) None x as None \<and> set as \<subseteq> dom (heap s)"

definition fsck_ok :: "('e, 'm) ut_scheme \<Rightarrow> bool" where
  "fsck_ok s \<longleftrightarrow> head s = None \<or> (\<exists>t bks es. head_tbl s = Some t \<and>
     num_buckets t \<le> length (buckets t) \<and> length bks = num_buckets t \<and>
     (\<forall>i<num_buckets t. chain_at hh_next hh_prev s (hh_head (buckets t ! i)) (bks ! i) \<and>
        bkt_count (buckets t ! i) = length (bks ! i)) \<and>
     length (concat bks) = num_items t \<and>
     chain_at el_next el_prev s (head s) es \<and> length es = num_items t)"

lemma FSCK_while_run:
  assumes "dlist (ptr nxt (heap s)) (ptr prv (heap s)) p x as None" and "set as \<subseteq> dom (heap s)"
  shows "FSCK_while nxt prv why x p c s = Some (Inr (c + length as))"
  using assms
proof (induction as arbitrary: x p c)
  case Nil
  then show ?case by (simp add: FSCK_while.simps)
next
  case (Cons a as)
  then obtain n where "heap s a = Some n" by auto
  with Cons show ?case by (subst FSCK_while.simps) (simp add: ptr_def)
qed

lemma FSCK_while_inv:
  assumes "FSCK_while nxt prv why x p c s = Some r"
  shows "\<forall>c'. r = Inr c' \<longrightarrow> (\<exists>as. dlist (ptr nxt (heap s)) (ptr prv (heap s)) p x as None \<and>
    set as \<subseteq> dom (heap s) \<and> c' = c + length as)"
proof (rule FSCK_while.raw_induct [where P = "\<lambda>nxt prv why x p c s r. \<forall>c'. r = Inr c' \<longrightarrow>
      (\<exists>as. dlist (ptr nxt (heap s)) (ptr prv (heap s)) p x as None \<and> set as \<subseteq> dom (heap s) \<and> c' = c + length as)",
    OF _ assms], intro allI impI)
  fix fsck and nxt prv :: "UT_hash_handle \<Rightarrow> addr option" and why :: hash_complaint and x p :: "addr option"
    and c c' :: nat and s :: "('e, 'm) ut_scheme" and r :: "hash_complaint + nat"
  assume ih: "\<And>nxt prv why x p c s r. fsck nxt prv why x p c s = Some r \<Longrightarrow> \<forall>c'. r = Inr c' \<longrightarrow>
      (\<exists>as. dlist (ptr nxt (heap s)) (ptr prv (heap s)) p x as None \<and> set as \<subseteq> dom (heap s) \<and> c' = c + length as)"
    and run: "(case x of None \<Rightarrow> Some (Inr c)
     | Some a \<Rightarrow> (case heap s a of None \<Rightarrow> None
         | Some n \<Rightarrow> if p \<noteq> prv (hh n) then Some (Inl why)
             else fsck nxt prv why (nxt (hh n)) (Some a) (c + 1) s)) = Some r"
    and r: "r = Inr c'"
  show "\<exists>as. dlist (ptr nxt (heap s)) (ptr prv (heap s)) p x as None \<and> set as \<subseteq> dom (heap s) \<and> c' = c + length as"
  proof (cases x)
    case None
    then show ?thesis using run r by (intro exI [of _ "[]"]) simp
  next
    case (Some a)
    obtain n where n: "heap s a = Some n" "p = prv (hh n)" "fsck nxt prv why (nxt (hh n)) (Some a) (c + 1) s = Some r"
      using run r Some by (auto split: option.splits if_splits)
    obtain as where "dlist (ptr nxt (heap s)) (ptr prv (heap s)) (Some a) (nxt (hh n)) as None"
      "set as \<subseteq> dom (heap s)" "c' = c + 1 + length as"
      using ih [OF n(3)] r by blast
    then show ?thesis using Some n(1,2) by (intro exI [of _ "a # as"]) (auto simp: ptr_def)
  qed
qed

lemma chain_at_iff: "FSCK_while nxt prv why x None 0 s = Some (Inr c) \<longleftrightarrow> (\<exists>as. chain_at nxt prv s x as \<and> c = length as)"
  using FSCK_while_run [of nxt s prv None x _ why 0] FSCK_while_inv [of nxt prv why x None 0 s "Inr c"]
  by (auto simp: chain_at_def)

lemma FSCK_for_run:
  assumes "num_buckets t \<le> length (buckets t)" and "i + length bks = num_buckets t"
    and "\<And>j. j < length bks \<Longrightarrow> chain_at hh_next hh_prev s (hh_head (buckets t ! (i + j))) (bks ! j) \<and>
      bkt_count (buckets t ! (i + j)) = length (bks ! j)"
  shows "FSCK_for t i c s = Some (Inr (c + length (concat bks)))"
  using assms(2,3)
proof (induction bks arbitrary: i c)
  case Nil
  then show ?case by (subst FSCK_for.simps) simp
next
  case (Cons b bks)
  have "chain_at hh_next hh_prev s (hh_head (buckets t ! i)) b" "bkt_count (buckets t ! i) = length b"
    using Cons.prems(2) [of 0] by simp_all
  moreover from this have "FSCK_while hh_next hh_prev Invalid_hh_prev (hh_head (buckets t ! i)) None 0 s = Some (Inr (length b))"
    by (auto simp: chain_at_iff)
  moreover have "FSCK_for t (i + 1) (c + length b) s = Some (Inr (c + length b + length (concat bks)))"
    using Cons.prems(1) Cons.prems(2) [of "Suc _"] by (intro Cons.IH) simp_all
  ultimately show ?case using Cons.prems(1) assms(1) by (subst FSCK_for.simps) (simp add: bucket_at_def)
qed

lemma FSCK_for_inv:
  assumes "FSCK_for t i c s = Some (Inr c')"
  shows "\<exists>bks. i + length bks = max i (num_buckets t) \<and> c' = c + length (concat bks) \<and>
    (\<forall>j<length bks. i + j < length (buckets t) \<and>
      chain_at hh_next hh_prev s (hh_head (buckets t ! (i + j))) (bks ! j) \<and>
      bkt_count (buckets t ! (i + j)) = length (bks ! j))"
  using assms
proof (induction t i c s rule: FSCK_for.induct)
  case (1 t i c s)
  show ?case
  proof (cases "i < num_buckets t")
    case False
    then show ?thesis using 1(2) by (intro exI [of _ "[]"]) (simp add: FSCK_for.simps)
  next
    case True
    obtain b bc where b: "bucket_at (buckets t) i = Some b"
      "FSCK_while hh_next hh_prev Invalid_hh_prev (hh_head b) None 0 s = Some (Inr bc)" "bkt_count b = bc"
      "FSCK_for t (i + 1) (c + bc) s = Some (Inr c')"
      using 1(2) True by (subst (asm) FSCK_for.simps) (auto split: option.splits sum.splits if_splits)
    obtain bk where bk: "chain_at hh_next hh_prev s (hh_head b) bk" "bc = length bk" using b(2) by (auto simp: chain_at_iff)
    obtain bks where bks: "i + 1 + length bks = max (i + 1) (num_buckets t)" "c' = c + bc + length (concat bks)"
      "\<forall>j<length bks. i + 1 + j < length (buckets t) \<and>
        chain_at hh_next hh_prev s (hh_head (buckets t ! (i + 1 + j))) (bks ! j) \<and>
        bkt_count (buckets t ! (i + 1 + j)) = length (bks ! j)"
      using 1(1) [OF True b(1,2) refl] b(3,4) by auto
    have "i < length (buckets t)" "b = buckets t ! i" using b(1) by (auto simp: bucket_at_def split: if_splits)
    then show ?thesis using bk bks b(3) True
      by (intro exI [of _ "bk # bks"]) (auto simp: nth_Cons split: nat.splits)
  qed
qed

lemma HASH_FSCK_iff: "HASH_FSCK s = Some (Inr ()) \<longleftrightarrow> fsck_ok s"
proof
  assume "fsck_ok s"
  then consider "head s = None" | t bks es h where "head s = Some h" "head_tbl s = Some t"
      "num_buckets t \<le> length (buckets t)" "length bks = num_buckets t"
      "\<forall>i<num_buckets t. chain_at hh_next hh_prev s (hh_head (buckets t ! i)) (bks ! i) \<and>
        bkt_count (buckets t ! i) = length (bks ! i)"
      "length (concat bks) = num_items t" "chain_at el_next el_prev s (head s) es" "length es = num_items t"
    unfolding fsck_ok_def by (cases "head s") auto
  then show "HASH_FSCK s = Some (Inr ())"
  proof cases
    case 2
    have "FSCK_for t 0 0 s = Some (Inr (num_items t))"
      using FSCK_for_run [OF 2(3), of 0 bks s 0] 2(4-6) by simp
    moreover have "FSCK_while el_next el_prev Invalid_prev (Some h) None 0 s = Some (Inr (num_items t))"
      using 2(1,7,8) by (auto simp: chain_at_iff)
    ultimately show ?thesis using 2(1,2) by (simp add: HASH_FSCK_def)
  qed (simp add: HASH_FSCK_def)
next
  assume a: "HASH_FSCK s = Some (Inr ())"
  show "fsck_ok s"
  proof (cases "head s")
    case (Some h)
    obtain t where t: "head_tbl s = Some t" "FSCK_for t 0 0 s = Some (Inr (num_items t))"
      "FSCK_while el_next el_prev Invalid_prev (Some h) None 0 s = Some (Inr (num_items t))"
      using a Some unfolding HASH_FSCK_def
      by (auto elim!: bind_eq_SomeE split: sum.splits if_splits)
    obtain bks where "length bks = num_buckets t" "num_items t = length (concat bks)"
      "\<forall>j<length bks. j < length (buckets t) \<and> chain_at hh_next hh_prev s (hh_head (buckets t ! j)) (bks ! j) \<and>
        bkt_count (buckets t ! j) = length (bks ! j)"
      using FSCK_for_inv [OF t(2)] by auto
    moreover from this have "num_buckets t \<le> length (buckets t)" by (metis not_le_imp_less order_less_irrefl)
    moreover obtain es where "chain_at el_next el_prev s (head s) es" "length es = num_items t"
      using t(3) Some by (auto simp: chain_at_iff)
    ultimately show ?thesis unfolding fsck_ok_def using t(1)
      by (intro disjI2 exI [of _ t] exI [of _ bks] exI [of _ es]) simp
  qed (simp add: fsck_ok_def)
qed

section \<open>The tables the operations build\<close>

lemma ut_inv_fsck:
  assumes "ut_inv kf s es"
  shows "fsck_ok s"
proof (cases "es = []")
  case True
  then show ?thesis using assms by (simp add: fsck_ok_def ut_inv_def)
next
  case False
  obtain t where t: "head_tbl s = Some t" "num_items t = length es" "tbl_ok (heap s) (set es) t"
    using ut_inv_head_tbl [OF assms False] by blast
  then obtain bks where bks: "bkts_ok (heap s) (set es) (num_buckets t) (buckets t) bks"
    and dom: "set es \<subseteq> dom (heap s)" and pow: "num_buckets t = 2 ^ log2_num_buckets t"
    by (auto simp: tbl_ok_def)
  have "HASH_TO_BKT (hash_of (heap s) a) (num_buckets t) < num_buckets t" for a
    unfolding pow by (rule HASH_TO_BKT_less)
  from bkts_ok_concat [OF bks this] have c: "set (concat bks) = set es" "distinct (concat bks)" by simp_all
  have "length (concat bks) = length es"
    using c distinct_card ut_inv_distinct [OF assms] by metis
  moreover have "chain_at el_next el_prev s (head s) es"
    using assms False dom by (auto simp: chain_at_def ut_inv_def)
  moreover have "chain_at hh_next hh_prev s (hh_head (buckets t ! i)) (bks ! i) \<and> bkt_count (buckets t ! i) = length (bks ! i)"
    if "i < num_buckets t" for i
    using bks that dom by (fastforce simp: bkts_ok_def chain_ok_def chain_at_def)
  moreover have "length bks = num_buckets t" "num_buckets t \<le> length (buckets t)"
    using bks by (simp_all add: bkts_ok_def)
  ultimately show ?thesis using t(1,2) unfolding fsck_ok_def by metis
qed

lemma HASH_CLEAR_dict: "dict_inv kf s es \<Longrightarrow> \<exists>s'. HASH_CLEAR s = Some s' \<and> dict_inv kf s' [] \<and>
    (\<forall>a. elt_read a s' = elt_read a s) \<and> ut.more s' = ut.more s"
proof (cases "es = []")
  case True
  assume "dict_inv kf s es"
  then show ?thesis using True by (simp add: HASH_CLEAR_def dict_inv_def ut_inv_head)
next
  case False
  assume "dict_inv kf s es"
  then have u: "ut_inv kf s es" by (simp add: dict_inv_def)
  obtain t where "head_tbl s = Some t" using ut_inv_head_tbl [OF u False] by blast
  moreover obtain h where "head s = Some h" using ut_inv_head [OF u] False by (cases es) auto
  ultimately show ?thesis by (auto simp: HASH_CLEAR_def elt_read_def intro!: dict_inv_Nil)
qed

end
