(* ===== verification/Uthash_Select.thy ===== *)
theory Uthash_Select
  imports Uthash_Dict
begin

text \<open>
  \<open>HASH_SELECT\<close>: the elements of a table that satisfy a condition are added to a second table,
  through a second handle in the same structures. The state \<open>s\<close> has the elements with their first
  handles, \<open>d\<close> with their second ones; the addresses are the same.
\<close>

section \<open>The code\<close>

definition HASH_SELECT_one :: "addr \<Rightarrow> UT_hash_handle \<Rightarrow> ('e, 'n) ut_scheme \<times> addr option \<Rightarrow>
    (('e, 'n) ut_scheme \<times> addr option) option" where
  "HASH_SELECT_one a src st = (let (d, last_elt) = st in do {
     d \<leftarrow> hh_write a (\<lambda>h. h\<lparr>keylen := keylen src, hashv := hashv src, el_prev := last_elt, el_next := None\<rparr>) d;
     d \<leftarrow> (case last_elt of None \<Rightarrow> Some d | Some l \<Rightarrow> hh_write l (\<lambda>h. h\<lparr>el_next := Some a\<rparr>) d);
     let d = (case head d of None \<Rightarrow> d\<lparr>head := Some a, tbl := Some (HASH_MAKE_TABLE a)\<rparr> | Some _ \<Rightarrow> d);
     t \<leftarrow> head_tbl d;
     d \<leftarrow> HASH_ADD_TO_BKT (HASH_TO_BKT (hashv src) (num_buckets t)) a d;
     t \<leftarrow> head_tbl d;
     Some (d\<lparr>tbl := Some (t\<lparr>num_items := num_items t + 1\<rparr>)\<rparr>, Some a) })"

partial_function (option) HASH_SELECT_while :: "('e \<Rightarrow> bool) \<Rightarrow> ('e, 'm) ut_scheme \<Rightarrow> addr option \<Rightarrow>
    ('e, 'n) ut_scheme \<times> addr option \<Rightarrow> (('e, 'n) ut_scheme \<times> addr option) option" where
  "HASH_SELECT_while cond s src_hh st = (case src_hh of None \<Rightarrow> Some st
     | Some a \<Rightarrow> (case heap s a of None \<Rightarrow> None
         | Some n \<Rightarrow> (case (if cond (elt n) then HASH_SELECT_one a (hh n) st else Some st) of None \<Rightarrow> None
             | Some st \<Rightarrow> HASH_SELECT_while cond s (hh_next (hh n)) st)))"

fun HASH_SELECT_for :: "('e \<Rightarrow> bool) \<Rightarrow> ('e, 'm) ut_scheme \<Rightarrow> UT_hash_bucket list \<Rightarrow> nat list \<Rightarrow>
    ('e, 'n) ut_scheme \<times> addr option \<Rightarrow> (('e, 'n) ut_scheme \<times> addr option) option" where
  "HASH_SELECT_for cond s bs [] st = Some st"
| "HASH_SELECT_for cond s bs (i # is) st = do {
     b \<leftarrow> bucket_at bs i;
     st \<leftarrow> HASH_SELECT_while cond s (hh_head b) st;
     HASH_SELECT_for cond s bs is st }"

text \<open>The consistency check at the end is a macro that is empty unless debugging is on.\<close>

definition HASH_SELECT :: "('e \<Rightarrow> bool) \<Rightarrow> ('e, 'm) ut_scheme \<Rightarrow> ('e, 'n) ut_scheme \<Rightarrow> ('e, 'n) ut_scheme option" where
  "HASH_SELECT cond s d = (case head s of None \<Rightarrow> Some d
     | Some _ \<Rightarrow> do {
         t \<leftarrow> head_tbl s;
         (d, _) \<leftarrow> HASH_SELECT_for cond s (buckets t) [0..<num_buckets t] (d, None);
         Some d })"

section \<open>One element\<close>

text \<open>A table but for its tail, which stays at the first element.\<close>

definition fix_tail :: "addr list \<Rightarrow> ('e, 'n) ut_scheme \<Rightarrow> ('e, 'n) ut_scheme" where
  "fix_tail es d = d\<lparr>tbl := map_option (\<lambda>t. t\<lparr>tail := last es\<rparr>) (tbl d)\<rparr>"

definition selected :: "('e \<Rightarrow> char list) \<Rightarrow> ('e, 'n) ut_scheme \<Rightarrow> addr list \<Rightarrow> bool" where
  "selected kf d es \<longleftrightarrow> ut_inv kf (fix_tail es d) es \<and> (\<forall>t. tbl d = Some t \<longrightarrow> tail t = hd es)"

lemma fix_tail_simps [simp]: "heap (fix_tail es d) = heap d" "head (fix_tail es d) = head d"
  by (simp_all add: fix_tail_def)

lemma add_first:
  assumes "a \<in> dom (heap s)" and "tbl s = Some (HASH_MAKE_TABLE a)" and "i = HASH_TO_BKT (hash_of (heap s) a) (num_buckets (HASH_MAKE_TABLE a))"
  obtains h' t' where "HASH_ADD_TO_BKT i a s = Some (s\<lparr>heap := h', tbl := Some t'\<rparr>)"
    and "tbl_ok h' {a} t'" and "chain_frame (heap s) h'" and "num_items t' = 0" and "tail t' = a"
proof -
  define t where "t = HASH_MAKE_TABLE a"
  obtain nd where nd: "heap s a = Some nd" using assms(1) by auto
  have ok: "tbl_ok (heap s) {} t" unfolding t_def by (rule HASH_MAKE_TABLE_ok) simp_all
  then obtain bks where bks: "bkts_ok (heap s) {} (num_buckets t) (buckets t) bks" by (auto simp: tbl_ok_def)
  have i: "i < num_buckets t" unfolding assms(3) t_def [symmetric] by (rule tbl_ok_index [OF ok])
  have b: "buckets t ! i = empty_bucket" "bucket_at (buckets t) i = Some empty_bucket"
    using i by (simp_all add: t_def HASH_MAKE_TABLE_def bucket_at_def)
  obtain h1 where h1: "bkt_push a None s = Some (s\<lparr>heap := h1\<rparr>)" "chain_frame (heap s) h1"
    "ptr hh_next h1 = (ptr hh_next (heap s))(a := None)" "ptr hh_prev h1 = (ptr hh_prev (heap s))(a := None)"
    using bkt_push_effect [OF nd, of None] by auto
  define b' where "b' = empty_bucket\<lparr>bkt_count := 1, hh_head := Some a\<rparr>"
  define t1 where "t1 = t\<lparr>buckets := (buckets t)[i := b']\<rparr>"
  have "bkts_ok h1 (insert a {}) (num_buckets t) ((buckets t)[i := b']) (bks[i := a # bks ! i])"
    by (rule bkts_ok_push [OF bks _ assms(3) [folded t_def] i h1(2)]) (use h1(3,4) b(1) in \<open>simp_all add: b'_def empty_bucket_def\<close>)
  moreover have "a \<in> dom h1" using chain_frame_same(4) [OF h1(2)] assms(1) by blast
  ultimately have "tbl_ok h1 {a} t1" using ok by (auto simp: tbl_ok_def t1_def)
  moreover have "HASH_ADD_TO_BKT i a s = Some (s\<lparr>heap := h1, tbl := Some t1\<rparr>)"
    using assms(2) b(2) h1(1)
    by (simp add: HASH_ADD_TO_BKT_def Let_def t_def [symmetric] t1_def b'_def empty_bucket_def HASH_BKT_CAPACITY_THRESH_def)
  ultimately show ?thesis using that [of t1 h1] h1(2) by (simp add: t1_def t_def HASH_MAKE_TABLE_def)
qed

lemma tbl_ok_counts: "tbl_ok h M (t\<lparr>num_items := n, tail := a\<rparr>) = tbl_ok h M t"
  by (simp add: tbl_ok_def)

text \<open>The second handle becomes that of an element added at the end, but for the tail.\<close>

lemma HASH_SELECT_one_effect:
  assumes sel: "selected kf d es" and a: "a \<notin> set es" and n: "heap d a = Some n"
    and src: "keylen src = c_strlen (kf (elt n))" "hashv src = HASH_JEN (kf (elt n)) (c_strlen (kf (elt n)))"
  obtains d' where "HASH_SELECT_one a src (d, last_ptr None es) = Some (d', Some a)" and "selected kf d' (es @ [a])"
    and "\<And>b. map_option elt (heap d' b) = map_option elt (heap d b)"
proof -
  have inv: "ut_inv kf (fix_tail es d) es" using sel by (simp add: selected_def)
  define key where "key = kf (elt n)"
  define klen where "klen = c_strlen (kf (elt n))"
  define h where "h = upd_at ((heap d)(a \<mapsto> add_node key klen es n)) (last_ptr None es) (\<lambda>h. h\<lparr>el_next := Some a\<rparr>)"
  define t where "t = (if es = [] then HASH_MAKE_TABLE a else the (tbl d))"
  define d1 where "d1 = d\<lparr>heap := h, head := first_ptr (es @ [a]) None, tbl := Some t\<rparr>"
  have lp: "p \<in> set es \<and> p \<noteq> a" if "last_ptr None es = Some p" for p
    using last_ptr_in [OF that] a by auto
  have dom: "set es \<subseteq> dom (heap d)" using ut_inv_dom [OF inv] by simp
  have ha: "h a = Some (add_node key klen es n)" unfolding h_def using lp by (subst upd_at_other) auto
  have hdom: "dom h = dom (heap d)" using n by (auto simp: h_def)
  have hv: "hash_of h a = hashv src" using ha src by (simp add: hash_of_def add_node_def key_def klen_def)
  have tab: "num_items t = length es \<and> tail t = hd (es @ [a]) \<and> tbl_ok h (set es) t \<and> (es = [] \<longrightarrow> head d = None) \<and>
      (es \<noteq> [] \<longrightarrow> head d = first_ptr (es @ [a]) None \<and> tbl d = Some t)"
  proof (cases "es = []")
    case True
    then show ?thesis using inv HASH_MAKE_TABLE_ok [of "HASH_MAKE_TABLE a" a h] by (simp add: t_def HASH_MAKE_TABLE_def ut_inv_def)
  next
    case False
    obtain t' where t': "tbl (fix_tail es d) = Some t'" "num_items t' = length es" "tbl_ok (heap d) (set es) t'"
      using ut_inv_head_tbl [OF inv False] by auto
    then obtain t0 where t0: "tbl d = Some t0" "t' = t0\<lparr>tail := last es\<rparr>" by (auto simp: fix_tail_def)
    then have "t = t0" "tail t = hd es" using False sel by (auto simp: t_def selected_def)
    moreover have "tbl_ok h (set es) t0"
    proof (rule tbl_ok_cong [OF t'(3)])
      have o: "ptr g h = ptr g (heap d)" if "\<And>x. g (x\<lparr>el_next := Some a\<rparr>) = g x" "g (hh (add_node key klen es n)) = g (hh n)" for g
      proof -
        have "ptr g h = ptr g ((heap d)(a \<mapsto> add_node key klen es n))"
          unfolding h_def by (rule ptr_upd_at_same) (rule that(1))
        then show ?thesis using that(2) n by (auto simp: ptr_def fun_eq_iff)
      qed
      show "ptr hh_next h = ptr hh_next (heap d)" "ptr hh_prev h = ptr hh_prev (heap d)" by (simp_all add: o add_node_def)
      show "hash_of h b = hash_of (heap d) b" if "b \<in> set es" for b
        using that a unfolding h_def by (subst hash_of_upd_at) (auto simp: hash_of_def)
      show "set es \<subseteq> dom h" using dom hdom by simp
    qed (simp_all add: t0)
    ultimately show ?thesis using False t' t0 ut_inv_head [OF inv] by (cases es) auto
  qed
  have d1: "HASH_TO_BKT (hashv src) (num_buckets t) = HASH_TO_BKT (hash_of (heap d1) a) (num_buckets t)" "a \<in> dom (heap d1)"
    "tbl d1 = Some t" "heap d1 = h" by (simp_all add: d1_def hv hdom n domI)
  obtain h' t' where e: "HASH_ADD_TO_BKT (HASH_TO_BKT (hashv src) (num_buckets t)) a d1 = Some (d1\<lparr>heap := h', tbl := Some t'\<rparr>)"
    "tbl_ok h' (insert a (set es)) t'" "chain_frame h h'" "num_items t' = length es" "tail t' = hd (es @ [a])"
  proof (cases "es = []")
    case True
    then have m: "t = HASH_MAKE_TABLE a" by (simp add: t_def)
    show ?thesis by (rule add_first [OF d1(2) _ d1(1) [unfolded m]]) (use that True tab m d1(3,4) in auto)
  next
    case False
    show ?thesis by (rule HASH_ADD_TO_BKT_effect [OF d1(3) _ _ a d1(2,1)]) (use that False tab d1(4) in auto)
  qed
  define d' where "d' = d1\<lparr>heap := h', tbl := Some (t'\<lparr>num_items := num_items t' + 1\<rparr>)\<rparr>"
  have hh: "\<exists>x. first_ptr (es @ [a]) None = Some x \<and> x \<in> dom (heap d)" using dom n by (cases es) auto
  have "dom h' = dom h" using chain_frame_same(4) [OF e(3)] .
  then have ht: "head_tbl d1 = Some t" "head_tbl (d1\<lparr>heap := h', tbl := Some t'\<rparr>) = Some t'"
  proof -
    obtain x where "first_ptr (es @ [a]) None = Some x" "x \<in> dom h" "x \<in> dom h'" using hh hdom \<open>dom h' = dom h\<close> by auto
    then show "head_tbl d1 = Some t" "head_tbl (d1\<lparr>heap := h', tbl := Some t'\<rparr>) = Some t'"
      by (auto simp: head_tbl_def d1_def)
  qed
  have w1: "hh_write a (\<lambda>h. h\<lparr>keylen := keylen src, hashv := hashv src, el_prev := last_ptr None es, el_next := None\<rparr>) d =
      Some (d\<lparr>heap := (heap d)(a \<mapsto> add_node key klen es n)\<rparr>)"
    using n src by (cases "hh n") (simp add: hh_write_def add_node_def key_def klen_def)
  have w2: "(case last_ptr None es of None \<Rightarrow> Some x | Some l \<Rightarrow> hh_write l (\<lambda>h. h\<lparr>el_next := Some a\<rparr>) x) = Some (d\<lparr>heap := h\<rparr>)"
    if "x = d\<lparr>heap := (heap d)(a \<mapsto> add_node key klen es n)\<rparr>" for x
    using hh_write_opt [of "last_ptr None es" x] lp dom by (auto simp: that h_def)
  have w3: "(case head (d\<lparr>heap := h\<rparr>) of None \<Rightarrow> (d\<lparr>heap := h\<rparr>)\<lparr>head := Some a, tbl := Some (HASH_MAKE_TABLE a)\<rparr> | Some _ \<Rightarrow> d\<lparr>heap := h\<rparr>) = d1"
    using tab hh by (cases "es = []") (auto simp: d1_def t_def)
  have "HASH_SELECT_one a src (d, last_ptr None es) = Some (d', Some a)"
    by (simp add: HASH_SELECT_one_def w1 w2 w3 [simplified] Let_def ht e(1) d'_def)
  moreover have "selected kf d' (es @ [a])"
  proof -
    have f: "fix_tail (es @ [a]) d' = (fix_tail es d)\<lparr>heap := h', head := first_ptr (es @ [a]) None,
        tbl := Some (t'\<lparr>num_items := num_items t' + 1, tail := a\<rparr>)\<rparr>"
      by (simp add: fix_tail_def d'_def d1_def)
    have "ut_inv kf (fix_tail (es @ [a]) d') (es @ [a])" unfolding f
    proof (rule ut_inv_snocI [OF inv a _ _ key_def klen_def])
      show "heap (fix_tail es d) a = Some n" using n by simp
      show "h = upd_at ((heap (fix_tail es d))(a \<mapsto> add_node key klen es n)) (last_ptr None es) (\<lambda>h. h\<lparr>el_next := Some a\<rparr>)"
        by (simp add: h_def)
      show "tbl_ok h' (insert a (set es)) (t'\<lparr>num_items := num_items t' + 1, tail := a\<rparr>)"
        unfolding tbl_ok_counts by (rule e(2))
    qed (use e in simp_all)
    then show ?thesis using e(5) by (simp add: selected_def d'_def)
  qed
  moreover have "map_option elt (heap d' b) = map_option elt (heap d b)" for b
    using chain_frame_same(5) [OF e(3), of b] n by (simp add: d'_def h_def add_node_def)
  ultimately show ?thesis using that by blast
qed

section \<open>All elements\<close>

definition holds_at :: "('e \<Rightarrow> bool) \<Rightarrow> ('e, 'm) ut_scheme \<Rightarrow> addr \<Rightarrow> bool" where
  "holds_at cond s a \<longleftrightarrow> (case heap s a of None \<Rightarrow> False | Some n \<Rightarrow> cond (elt n))"

lemma HASH_SELECT_while_effect:
  assumes "dlist (ptr hh_next (heap s)) (ptr hh_prev (heap s)) p x xs None" and "\<forall>a\<in>set xs. keyed kf (heap s) a"
    and "distinct xs" and "selected kf d es" and "set es \<inter> set xs = {}"
    and "\<forall>a. map_option elt (heap d a) = elts a" and "\<forall>a\<in>set xs. elts a = map_option elt (heap s a)"
  shows "\<exists>d'. HASH_SELECT_while cond s x (d, last_ptr None es) = Some (d', last_ptr None (es @ filter (holds_at cond s) xs)) \<and>
    selected kf d' (es @ filter (holds_at cond s) xs) \<and> (\<forall>a. map_option elt (heap d' a) = elts a)"
  using assms
proof (induction xs arbitrary: p x d es)
  case Nil
  then have "x = None" by simp
  then show ?case using Nil.prems by (subst HASH_SELECT_while.simps) auto
next
  case (Cons a xs)
  then have x: "x = Some a" and rest: "dlist (ptr hh_next (heap s)) (ptr hh_prev (heap s)) (Some a) (ptr hh_next (heap s) a) xs None" by auto
  obtain n where n: "heap s a = Some n" "keylen (hh n) = c_strlen (kf (elt n))"
    "hashv (hh n) = HASH_JEN (kf (elt n)) (c_strlen (kf (elt n)))"
    using Cons.prems(2) by (auto simp: keyed_def split: option.splits)
  obtain m where m: "heap d a = Some m" "elt m = elt n"
    using Cons.prems(6,7) n(1) by (metis list.set_intros(1) map_option_eq_Some option.simps(9))
  have nx: "ptr hh_next (heap s) a = hh_next (hh n)" using n(1) by (simp add: ptr_Some)
  show ?case
  proof (cases "cond (elt n)")
    case True
    obtain d1 where d1: "HASH_SELECT_one a (hh n) (d, last_ptr None es) = Some (d1, Some a)" "selected kf d1 (es @ [a])"
      "\<And>b. map_option elt (heap d1 b) = map_option elt (heap d b)"
      using HASH_SELECT_one_effect [OF Cons.prems(4) _ m(1), of "hh n"] Cons.prems(5) m(2) n(2,3) by auto
    have "\<exists>d'. HASH_SELECT_while cond s (ptr hh_next (heap s) a) (d1, last_ptr None (es @ [a])) =
        Some (d', last_ptr None ((es @ [a]) @ filter (holds_at cond s) xs)) \<and>
      selected kf d' ((es @ [a]) @ filter (holds_at cond s) xs) \<and> (\<forall>a. map_option elt (heap d' a) = elts a)"
      by (rule Cons.IH [OF rest]) (use Cons.prems d1 in auto)
    then show ?thesis using x n(1) True d1(1) nx by (subst HASH_SELECT_while.simps) (auto simp: holds_at_def)
  next
    case False
    have "\<exists>d'. HASH_SELECT_while cond s (ptr hh_next (heap s) a) (d, last_ptr None es) =
        Some (d', last_ptr None (es @ filter (holds_at cond s) xs)) \<and>
      selected kf d' (es @ filter (holds_at cond s) xs) \<and> (\<forall>a. map_option elt (heap d' a) = elts a)"
      by (rule Cons.IH [OF rest]) (use Cons.prems in auto)
    then show ?thesis using x n(1) False nx by (subst HASH_SELECT_while.simps) (auto simp: holds_at_def)
  qed
qed

lemma HASH_SELECT_for_effect:
  assumes "bkts_ok (heap s) M nb bs bks" and "\<forall>a\<in>M. keyed kf (heap s) a" and "distinct js" and "\<forall>j\<in>set js. j < nb"
    and "selected kf d es" and "set es \<inter> (\<Union>j\<in>set js. set (bks ! j)) = {}"
    and "\<forall>a. map_option elt (heap d a) = elts a" and "\<forall>a\<in>M. elts a = map_option elt (heap s a)"
  shows "\<exists>d'. HASH_SELECT_for cond s bs js (d, last_ptr None es) =
      Some (d', last_ptr None (es @ filter (holds_at cond s) (concat (map ((!) bks) js)))) \<and>
    selected kf d' (es @ filter (holds_at cond s) (concat (map ((!) bks) js)))"
  using assms(3-7)
proof (induction js arbitrary: d es)
  case (Cons j js)
  have j: "j < nb" "length bs = nb" and sets: "\<And>i. i < nb \<Longrightarrow> set (bks ! i) = {a \<in> M. HASH_TO_BKT (hash_of (heap s) a) nb = i}"
    using Cons.prems(2) assms(1) by (auto simp: bkts_ok_def)
  have c: "dlist (ptr hh_next (heap s)) (ptr hh_prev (heap s)) None (hh_head (bs ! j)) (bks ! j) None" "distinct (bks ! j)"
    using j assms(1) by (auto simp: bkts_ok_def chain_ok_def)
  obtain d1 where d1: "HASH_SELECT_while cond s (hh_head (bs ! j)) (d, last_ptr None es) =
      Some (d1, last_ptr None (es @ filter (holds_at cond s) (bks ! j)))"
    "selected kf d1 (es @ filter (holds_at cond s) (bks ! j))" "\<forall>a. map_option elt (heap d1 a) = elts a"
    using HASH_SELECT_while_effect [OF c(1) _ c(2) Cons.prems(3) _ Cons.prems(5), where cond = cond] sets [OF j(1)] assms(2,8) Cons.prems(4)
    by auto
  have "set (bks ! j) \<inter> (\<Union>i\<in>set js. set (bks ! i)) = {}" using sets Cons.prems(1,2) by auto
  then have dis: "set (es @ filter (holds_at cond s) (bks ! j)) \<inter> (\<Union>i\<in>set js. set (bks ! i)) = {}" using Cons.prems(4) by auto
  have "distinct js" "\<forall>j\<in>set js. j < nb" using Cons.prems(1,2) by auto
  from Cons.IH [OF this d1(2) dis d1(3)] show ?case using d1(1) j by (auto simp: bucket_at_def)
qed simp

lemma selected_empty: "head d = None \<Longrightarrow> tbl d = None \<Longrightarrow> selected kf d []"
  by (simp add: selected_def ut_inv_def fix_tail_def)

text \<open>C26: HASH_SELECT into an empty table adds exactly the elements of the first table that satisfy the
  condition, whatever order the buckets give them: their second handles form a consistent table, so
  its lookups, count and traversal are those of a table the elements were added to, but for one field:
  the tail still is the first of them, not the last.
\<close>

theorem HASH_SELECT_selects:
  assumes "ut_inv kf s xs" and "head d = None" and "tbl d = None"
    and "\<forall>a\<in>set xs. map_option elt (heap d a) = map_option elt (heap s a)"
  shows "\<exists>d' es. HASH_SELECT cond s d = Some d' \<and> distinct es \<and> set es = {a \<in> set xs. holds_at cond s a} \<and>
    ut_inv kf (fix_tail es d') es \<and> (\<forall>t. tbl d' = Some t \<longrightarrow> tail t = hd es)"
proof (cases "xs = []")
  case True
  then have "HASH_SELECT cond s d = Some d" using assms(1) by (simp add: HASH_SELECT_def ut_inv_def)
  then show ?thesis using True selected_empty [OF assms(2,3), of kf] by (auto simp: selected_def intro: exI [of _ "[]"])
next
  case False
  obtain t where t: "head_tbl s = Some t" "tbl_ok (heap s) (set xs) t" using ut_inv_head_tbl [OF assms(1) False] by blast
  obtain h where h: "head s = Some h" using ut_inv_head [OF assms(1)] False by (cases xs) auto
  obtain bks where bks: "bkts_ok (heap s) (set xs) (num_buckets t) (buckets t) bks" using t(2) by (auto simp: tbl_ok_def)
  have keyed: "\<forall>a\<in>set xs. keyed kf (heap s) a" using assms(1) by (simp add: ut_inv_def)
  have len: "length bks = num_buckets t" using bks by (simp add: bkts_ok_def)
  then have cat: "concat (map ((!) bks) [0..<num_buckets t]) = concat bks" by (metis map_nth)
  define es where "es = filter (holds_at cond s) (concat bks)"
  have "\<exists>d'. HASH_SELECT_for cond s (buckets t) [0..<num_buckets t] (d, last_ptr None []) =
      Some (d', last_ptr None ([] @ filter (holds_at cond s) (concat (map ((!) bks) [0..<num_buckets t])))) \<and>
    selected kf d' ([] @ filter (holds_at cond s) (concat (map ((!) bks) [0..<num_buckets t])))"
    by (rule HASH_SELECT_for_effect [OF bks keyed _ _ selected_empty [OF assms(2,3)], where elts = "\<lambda>a. map_option elt (heap d a)"])
       (use assms(4) in simp_all)
  then obtain d' where d': "HASH_SELECT_for cond s (buckets t) [0..<num_buckets t] (d, None) = Some (d', last_ptr None es)" "selected kf d' es"
    by (auto simp: cat es_def)
  have "HASH_SELECT cond s d = Some d'" using h t(1) d'(1) by (simp add: HASH_SELECT_def)
  moreover have "set es = {a \<in> set xs. holds_at cond s a}" "distinct es"
    using bkts_ok_concat [OF bks tbl_ok_index [OF t(2)]] by (auto simp: es_def)
  ultimately show ?thesis using d'(2) by (auto simp: selected_def)
qed


end
