(* ===== verification/Uthash_Props.thy ===== *)
theory Uthash_Props
  imports Uthash_Sort Uthash_Fsck Edf_Correct Uthash_Select
begin

text \<open>
  The properties of the hash table as a library: sorting, the consistency check, the
  dictionary operations. The witnesses run on the table of deadline tasks of \<open>Edf_Demo\<close>,
  which the driver built by creating two tasks.
\<close>

lemma edf_state_dict: "edf_state env s ts \<Longrightarrow> dict_inv dname s (map fst ts) \<and> (\<forall>(a, d)\<in>set ts. elt_read a s = Some d)"
  by (simp add: edf_state_def rep_def)

lemma demo_dict:
  obtains s :: edf where "dict_inv dname s [1, 3]"
    and "elt_read 1 s = Some (demo_dtask 0 5002000 4991000 5000000 2)"
    and "elt_read 3 s = Some (demo_dtask 1 3009000 2998000 3000000 4)"
proof -
  obtain s :: edf where "edf_state demo s demo_ts" using demo_edf_state by blast
  from edf_state_dict [OF this] have "dict_inv dname s [1, 3]"
    "elt_read 1 s = Some (demo_dtask 0 5002000 4991000 5000000 2)"
    "elt_read 3 s = Some (demo_dtask 1 3009000 2998000 3000000 4)"
    by (simp_all add: demo_ts_def)
  then show ?thesis by (rule that)
qed

section \<open>Sorting\<close>

text \<open>C9: The merge sort is the stable sort. When the comparison orders the elements by some key
  \<open>k\<close> into a linear order, sorting returns, and relinks the table so that it is traversed in the
  order of the library's stable \<open>sort_key\<close>: sorted, a permutation, elements with equal keys in
  their old order. What the elements hold, the result of every lookup and the rest of the
  state do not change.\<close>

theorem HASH_SRT_sorts:
  assumes "dict_inv kf s es" and "\<And>x y. (cmpfcn x y \<le> 0) = (k x \<le> k y)"
  shows "\<exists>s'. HASH_SRT cmpfcn s = Some s' \<and>
    dict_inv kf s' (sort_key (\<lambda>a. k (the (elt_read a s))) es) \<and>
    (\<forall>a. elt_read a s' = elt_read a s) \<and> ut.more s' = ut.more s \<and>
    (\<forall>buf. HASH_FIND_STR kf buf s' = HASH_FIND_STR kf buf s)"
  by (rule HASH_SRT_dict [OF assms])

theorem HASH_SRT_sorts_witness:
  "\<exists>(s :: edf) s'. dict_inv dname s [1, 3] \<and>
    HASH_SRT (\<lambda>x y. if deadline x \<le> deadline y then 0 else 1) s = Some s' \<and> dict_inv dname s' [3, 1]"
proof -
  obtain s :: edf where s: "dict_inv dname s [1, 3]"
    "elt_read 1 s = Some (demo_dtask 0 5002000 4991000 5000000 2)"
    "elt_read 3 s = Some (demo_dtask 1 3009000 2998000 3000000 4)"
    by (rule demo_dict)
  let ?cmp = "\<lambda>x y :: RT_DEADLINE_TASK. if deadline x \<le> deadline y then 0 else 1 :: int"
  have c: "(?cmp x y \<le> 0) = (deadline x \<le> deadline y)" for x y by simp
  obtain s' where s': "HASH_SRT ?cmp s = Some s'"
    "dict_inv dname s' (sort_key (\<lambda>a. deadline (the (elt_read a s))) [1, 3])"
    using HASH_SRT_sorts [of dname s "[1, 3]" ?cmp deadline, OF s(1) c] by blast
  have "sort_key (\<lambda>a. deadline (the (elt_read a s))) [1, 3] = [3, 1]"
    using s(2,3) by (simp add: demo_dtask_def)
  then show ?thesis using s' s(1) by metis
qed

section \<open>The consistency check\<close>

text \<open>C11: What the consistency check accepts. It returns without a complaint if and only if the
  table is empty, or every bucket's handles form a null-terminated chain with correct back
  pointers and the count the bucket records, the elements do so from the head, and both
  have as many members as the table records.\<close>

theorem HASH_FSCK_exact: "HASH_FSCK s = Some (Inr ()) \<longleftrightarrow> fsck_ok s"
  by (rule HASH_FSCK_iff)

text \<open>C10: Insertion and deletion, checked. Inserting an element whose key is not in the table
  makes it the last in traversal order and the one a lookup of its key finds, and leaves every
  other lookup alone; deleting it again brings back the order and the lookups of before. After
  either, the consistency check has nothing to complain about.\<close>

theorem insert_delete_roundtrip:
  assumes inv: "dict_inv kf s es" and a: "a \<notin> set es" "elt_read a s = Some e"
    and new: "HASH_FIND_STR kf (kf e) s = Some None"
  shows "\<exists>s1 s2. HASH_ADD_STR kf a s = Some s1 \<and> dict_inv kf s1 (es @ [a]) \<and> HASH_FSCK s1 = Some (Inr ()) \<and>
    (\<forall>buf. HASH_FIND_STR kf buf s1 = (if c_str buf = c_str (kf e) then Some (Some a) else HASH_FIND_STR kf buf s)) \<and>
    HASH_DELETE a s1 = Some s2 \<and> dict_inv kf s2 es \<and> HASH_FSCK s2 = Some (Inr ()) \<and>
    (\<forall>buf. HASH_FIND_STR kf buf s2 = HASH_FIND_STR kf buf s)"
proof -
  have "map_option (\<lambda>e. c_str (kf e)) (elt_read b s) \<noteq> Some (c_str (kf e))" if "b \<in> set es" for b
    using new that ut.lookup_law [OF inv, of "kf e"] by (simp add: find_eq_None)
  then obtain s1 where s1: "HASH_ADD_STR kf a s = Some s1" "dict_inv kf s1 (es @ [a])" "\<forall>b. elt_read b s1 = elt_read b s"
    using ut.insert_law [OF inv a] by blast
  obtain s2 where s2: "HASH_DELETE a s1 = Some s2" "dict_inv kf s2 es" "\<forall>b. elt_read b s2 = elt_read b s"
    using ut.delete_law [OF s1(2), of a] a(1) s1(3) by (auto simp: remove1_append)
  have fa: "find P (xs @ ys) = (case find P xs of None \<Rightarrow> find P ys | Some x \<Rightarrow> Some x)" for P and xs ys :: "addr list"
    by (induction xs) auto
  have chk: "HASH_FSCK s' = Some (Inr ())" if "dict_inv kf s' es'" for s' es'
    using that ut_inv_fsck HASH_FSCK_iff by (auto simp: dict_inv_def)
  have "HASH_FIND_STR kf buf s1 = (if c_str buf = c_str (kf e) then Some (Some a) else HASH_FIND_STR kf buf s)" for buf
  proof -
    have "HASH_FIND_STR kf buf s1 = Some (case find (\<lambda>b. map_option (\<lambda>e. c_str (kf e)) (elt_read b s) = Some (c_str buf)) es of
        None \<Rightarrow> if c_str (kf e) = c_str buf then Some a else None | Some b \<Rightarrow> Some b)"
      unfolding ut.lookup_law [OF s1(2)] using s1(3) a(2) by (simp add: fa split: option.split)
    then show ?thesis using ut.lookup_law [OF inv, of buf] new ut.lookup_law [OF inv, of "kf e"]
      by (cases "c_str buf = c_str (kf e)") (auto split: option.splits)
  qed
  moreover have "HASH_FIND_STR kf buf s2 = HASH_FIND_STR kf buf s" for buf
    unfolding ut.lookup_law [OF inv] ut.lookup_law [OF s2(2)] using s2(3) by simp
  ultimately show ?thesis using s1(1,2) s2(1,2) chk by blast
qed

theorem insert_delete_roundtrip_witness:
  "\<exists>(s :: edf) s1 s2. dict_inv dname s [1, 3] \<and> HASH_ADD_STR dname 9 s = Some s1 \<and> dict_inv dname s1 [1, 3, 9] \<and>
    HASH_FIND_STR dname ''C'' s1 = Some (Some 9) \<and> HASH_DELETE 9 s1 = Some s2 \<and> dict_inv dname s2 [1, 3]"
proof -
  obtain s0 :: edf where s0: "dict_inv dname s0 [1, 3]"
    "elt_read 1 s0 = Some (demo_dtask 0 5002000 4991000 5000000 2)"
    "elt_read 3 s0 = Some (demo_dtask 1 3009000 2998000 3000000 4)"
    by (rule demo_dict)
  let ?d = "demo_dtask 2 0 0 0 10"
  define s where "s = s0\<lparr>heap := (heap s0)(9 \<mapsto> demo_node\<lparr>elt := ?d\<rparr>)\<rparr>"
  have d: "dict_inv dname s [1, 3]" unfolding s_def by (rule dict_inv_heap_cong [OF s0(1)]) auto
  have e: "elt_read 9 s = Some ?d" "elt_read 1 s = elt_read 1 s0" "elt_read 3 s = elt_read 3 s0"
    by (simp_all add: s_def elt_read_def)
  have k: "c_str (dname ?d) = ''C''" by (simp add: demo_dtask_def dname_def demo_name_def c_str_def)
  have "HASH_FIND_STR dname (dname ?d) s = Some None"
    unfolding ut.lookup_law [OF d] using e s0(2,3)
    by (simp add: demo_dtask_def dname_def demo_name_def c_str_def)
  moreover have "c_str ''C'' = ''C''" by (simp add: c_str_def)
  ultimately show ?thesis using insert_delete_roundtrip [OF d _ e(1)] d k by fastforce
qed

section \<open>Selection\<close>

text \<open>The tasks with a deadline before 4000000, of the two of the demonstration.\<close>

theorem HASH_SELECT_selects_witness:
  "\<exists>(s :: edf) d'. dict_inv dname s [1, 3] \<and>
    HASH_SELECT (\<lambda>d. deadline d < 4000000) s (s\<lparr>head := None, tbl := None\<rparr>) = Some d' \<and> ut_inv dname (fix_tail [3] d') [3]"
proof -
  obtain s :: edf where s: "dict_inv dname s [1, 3]"
    "elt_read 1 s = Some (demo_dtask 0 5002000 4991000 5000000 2)"
    "elt_read 3 s = Some (demo_dtask 1 3009000 2998000 3000000 4)"
    by (rule demo_dict)
  then have inv: "ut_inv dname s [1, 3]" by (simp add: dict_inv_def)
  have h: "holds_at (\<lambda>d. deadline d < 4000000) s 3" "\<not> holds_at (\<lambda>d. deadline d < 4000000) s 1"
    using s(2,3) by (auto simp: holds_at_def elt_read_def demo_dtask_def)
  obtain d' es where d: "HASH_SELECT (\<lambda>d. deadline d < 4000000) s (s\<lparr>head := None, tbl := None\<rparr>) = Some d'" "distinct es"
    "set es = {a \<in> set [1, 3]. holds_at (\<lambda>d. deadline d < 4000000) s a}" "ut_inv dname (fix_tail es d') es"
    using HASH_SELECT_selects [OF inv, of "s\<lparr>head := None, tbl := None\<rparr>" "\<lambda>d. deadline d < 4000000"] by auto
  have "set es = {3}" using d(3) h by auto
  then have "length es = 1" using distinct_card [OF d(2)] by simp
  then have "es = [3]" using \<open>set es = {3}\<close> by (cases es) auto
  then show ?thesis using s(1) d(1,4) by blast
qed


end
