(* ===== verification/Uthash_Bloom.thy ===== *)
theory Uthash_Bloom
  imports Uthash_Fsck
begin

text \<open>
  The Bloom filter of datastructures/uthash.h, which a table has when \<open>HASH_BLOOM\<close> is defined:
  a bit vector in which insertion sets the bit that the low \<open>n\<close> bits of a hash value address, and that
  a lookup tests before it searches the bucket. The fields that the filter adds to the table
  are a value beside the table's state here, \<open>None\<close> when the table has not been allocated or has been freed;
  nothing else in the header reads or writes them. The table with the filter is a
  dictionary too, and gives the same results as the one without.
\<close>

unbundle bit_operations_syntax

section \<open>The code\<close>

type_synonym u8 = "8 word"

record UT_bloom =
  bloom_sig :: u32
  bloom_bv :: "u8 list"
  bloom_nbits :: nat

definition HASH_BLOOM_SIGNATURE :: u32 where "HASH_BLOOM_SIGNATURE = 0xb12220f2"

definition HASH_BLOOM_BITLEN :: "nat \<Rightarrow> u64" where "HASH_BLOOM_BITLEN n = push_bit n 1"

definition HASH_BLOOM_BYTELEN :: "nat \<Rightarrow> u64" where
  "HASH_BLOOM_BYTELEN n = HASH_BLOOM_BITLEN n div 8 + (if HASH_BLOOM_BITLEN n mod 8 \<noteq> 0 then 1 else 0)"

text \<open>A shift of a 64-bit number by 64 bits or more is undefined.\<close>

definition HASH_BLOOM_MAKE :: "nat \<Rightarrow> UT_bloom option" where
  "HASH_BLOOM_MAKE n = (if n < 64 then Some \<lparr>bloom_sig = HASH_BLOOM_SIGNATURE,
     bloom_bv = replicate (unat (HASH_BLOOM_BYTELEN n)) 0, bloom_nbits = n\<rparr> else None)"

definition HASH_BLOOM_BITSET :: "u8 list \<Rightarrow> u32 \<Rightarrow> 8 word list option" where
  "HASH_BLOOM_BITSET bv idx = (let i = unat (idx div 8) in if i < length bv
     then Some (bv[i := ucast (ucast (bv ! i) OR push_bit (unat (idx mod 8)) (1 :: u32))]) else None)"

definition HASH_BLOOM_BITTEST :: "u8 list \<Rightarrow> u32 \<Rightarrow> bool option" where
  "HASH_BLOOM_BITTEST bv idx = (let i = unat (idx div 8) in if i < length bv
     then Some (ucast (bv ! i) AND push_bit (unat (idx mod 8)) (1 :: u32) \<noteq> 0) else None)"

definition bloom_idx :: "nat \<Rightarrow> u32 \<Rightarrow> u32" where
  "bloom_idx n hv = hv AND ucast (push_bit n (1 :: u64) - 1)"

definition HASH_BLOOM_ADD :: "UT_bloom \<Rightarrow> u32 \<Rightarrow> UT_bloom option" where
  "HASH_BLOOM_ADD t hv = (case HASH_BLOOM_BITSET (bloom_bv t) (bloom_idx (bloom_nbits t) hv) of
     None \<Rightarrow> None | Some bv \<Rightarrow> Some (t\<lparr>bloom_bv := bv\<rparr>))"

definition HASH_BLOOM_TEST :: "UT_bloom \<Rightarrow> u32 \<Rightarrow> bool option" where
  "HASH_BLOOM_TEST t hv = HASH_BLOOM_BITTEST (bloom_bv t) (bloom_idx (bloom_nbits t) hv)"

text \<open>The operations of the table that use the filter.\<close>

type_synonym ('e, 'm) bloom_table = "('e, 'm) ut_scheme \<times> UT_bloom option"

definition HASH_FIND_bloom :: "('e \<Rightarrow> char list) \<Rightarrow> char list \<Rightarrow> nat \<Rightarrow> ('e, 'm) bloom_table \<Rightarrow> addr option option" where
  "HASH_FIND_bloom kf key klen = (\<lambda>(s, bl). case head s of None \<Rightarrow> Some None
     | Some _ \<Rightarrow> do {
         t \<leftarrow> head_tbl s;
         bl \<leftarrow> bl;
         hit \<leftarrow> HASH_BLOOM_TEST bl (HASH_JEN key klen);
         if hit then do {
           b \<leftarrow> bucket_at (buckets t) (HASH_TO_BKT (HASH_JEN key klen) (num_buckets t));
           HASH_FIND_IN_BKT kf key klen s (hh_head b) }
         else Some None })"

definition HASH_ADD_KEYPTR_bloom :: "nat \<Rightarrow> char list \<Rightarrow> nat \<Rightarrow> addr \<Rightarrow> ('e, 'm) bloom_table \<Rightarrow> ('e, 'm) bloom_table option" where
  "HASH_ADD_KEYPTR_bloom n key klen a = (\<lambda>(s, bl). do {
     bl \<leftarrow> (case head s of None \<Rightarrow> HASH_BLOOM_MAKE n | Some _ \<Rightarrow> bl);
     s \<leftarrow> HASH_ADD_KEYPTR key klen a s;
     bl \<leftarrow> HASH_BLOOM_ADD bl (HASH_JEN key klen);
     Some (s, Some bl) })"

text \<open>The last deletion, and clearing, free the filter with the table.\<close>

definition HASH_DELETE_bloom :: "addr \<Rightarrow> ('e, 'm) bloom_table \<Rightarrow> ('e, 'm) bloom_table option" where
  "HASH_DELETE_bloom a = (\<lambda>(s, bl). do {
     s \<leftarrow> HASH_DELETE a s;
     case head s of None \<Rightarrow> do { _ \<leftarrow> bl; Some (s, None) } | Some _ \<Rightarrow> Some (s, bl) })"

definition HASH_CLEAR_bloom :: "('e, 'm) bloom_table \<Rightarrow> ('e, 'm) bloom_table option" where
  "HASH_CLEAR_bloom = (\<lambda>(s, bl). case head s of None \<Rightarrow> Some (s, bl)
     | Some _ \<Rightarrow> do { s \<leftarrow> HASH_CLEAR s; _ \<leftarrow> bl; Some (s, None) })"

definition HASH_FIND_STR_bloom :: "('e \<Rightarrow> char list) \<Rightarrow> char list \<Rightarrow> ('e, 'm) bloom_table \<Rightarrow> addr option option" where
  "HASH_FIND_STR_bloom kf findstr = HASH_FIND_bloom kf findstr (c_strlen findstr)"

definition HASH_ADD_STR_bloom :: "nat \<Rightarrow> ('e \<Rightarrow> char list) \<Rightarrow> addr \<Rightarrow> ('e, 'm) bloom_table \<Rightarrow> ('e, 'm) bloom_table option" where
  "HASH_ADD_STR_bloom n kf a = (\<lambda>(s, bl). do {
     m \<leftarrow> heap s a;
     HASH_ADD_KEYPTR_bloom n (kf (elt m)) (c_strlen (kf (elt m))) a (s, bl) })"

section \<open>The bit vector\<close>

definition bv_bit :: "u8 list \<Rightarrow> nat \<Rightarrow> bool" where
  "bv_bit bv j = bit (bv ! (j div 8)) (j mod 8)"

lemma unat_split: "unat (idx div 8) = unat idx div 8" "unat (idx mod 8) = unat idx mod 8" for idx :: u32
  by (simp_all add: unat_div unat_mod)

lemma less_32: "unat (idx :: u32) mod 8 < 32"
  by (rule less_trans [of _ 8]) simp_all

lemma in_vector: "j div 8 < length bv \<longleftrightarrow> j < 8 * length bv" for j :: nat
  by (simp add: div_less_iff_less_mult mult.commute)

lemma BITTEST_bit:
  assumes "unat idx < 8 * length bv"
  shows "HASH_BLOOM_BITTEST bv idx = Some (bv_bit bv (unat idx))"
proof -
  have "ucast (bv ! (unat idx div 8)) AND push_bit (unat idx mod 8) (1 :: u32) \<noteq> 0 \<longleftrightarrow>
      bit (ucast (bv ! (unat idx div 8)) :: u32) (unat idx mod 8)"
    by (simp only: bit_iff_and_push_bit_not_eq_0)
  also have "\<dots> = bv_bit bv (unat idx)" by (simp add: bv_bit_def bit_ucast_iff less_32)
  finally show ?thesis using assms by (simp add: HASH_BLOOM_BITTEST_def unat_split in_vector)
qed

lemma BITSET_bit:
  assumes "unat idx < 8 * length bv"
  obtains bv' where "HASH_BLOOM_BITSET bv idx = Some bv'" and "length bv' = length bv"
    and "\<And>j. j < 8 * length bv \<Longrightarrow> bv_bit bv' j = (j = unat idx \<or> bv_bit bv j)"
proof -
  have bit_2p: "bit ((2 :: u32) ^ k) m = (m = k)" if "k < 32" for k m
    using that bit_exp_iff [where 'a = u32, of k m] by auto
  let ?i = "unat idx div 8" and ?k = "unat idx mod 8"
  let ?w = "ucast (ucast (bv ! ?i) OR push_bit ?k (1 :: u32)) :: u8"
  have i: "?i < length bv" using assms by (simp add: in_vector)
  have w: "bit ?w m = (m = ?k \<or> bit (bv ! ?i) m)" if "m < 8" for m
    using that by (auto simp: bit_ucast_iff bit_or_iff bit_2p less_32)
  have "bv_bit (bv[?i := ?w]) j = (j = unat idx \<or> bv_bit bv j)" if "j < 8 * length bv" for j
  proof (cases "j div 8 = ?i")
    case True
    then have "j = unat idx \<longleftrightarrow> j mod 8 = ?k" by (metis div_mult_mod_eq)
    then show ?thesis using w [of "j mod 8"] i True by (simp add: bv_bit_def)
  next
    case False
    then show ?thesis by (auto simp: bv_bit_def)
  qed
  then show thesis using that [of "bv[?i := ?w]"] i by (simp add: HASH_BLOOM_BITSET_def unat_split Let_def)
qed

lemma bloom_idx_mod: "n < 64 \<Longrightarrow> unat (bloom_idx n hv) = unat hv mod 2 ^ n"
proof -
  assume n: "n < 64"
  have "ucast (push_bit n (1 :: u64) - 1) = (mask n :: u32)"
    unfolding mask_eq_exp_minus_1 [symmetric, where 'a = u64] push_bit_of_1
    by (rule bit_word_eqI) (auto simp: bit_ucast_iff bit_mask_iff)
  then have "bloom_idx n hv = take_bit n hv" by (simp add: bloom_idx_def take_bit_eq_mask)
  then have "unat (bloom_idx n hv) = take_bit n (unat hv)" by (simp only: unsigned_take_bit_eq)
  then show ?thesis by (simp add: take_bit_eq_mod)
qed

lemma bytelen_enough: "n < 64 \<Longrightarrow> 2 ^ n \<le> 8 * unat (HASH_BLOOM_BYTELEN n)"
proof -
  assume n: "n < 64"
  have p: "(2 :: nat) ^ n < 2 ^ 64" using n by (simp only: power_strict_increasing_iff)
  have b: "unat (HASH_BLOOM_BITLEN n) = 2 ^ n"
  proof -
    have "HASH_BLOOM_BITLEN n = of_nat (2 ^ n)" by (simp add: HASH_BLOOM_BITLEN_def push_bit_eq_mult)
    then show ?thesis using p by (simp only: unat_of_nat) (simp add: take_bit_eq_mod)
  qed
  have d: "unat (HASH_BLOOM_BITLEN n div 8) = 2 ^ n div 8" "(HASH_BLOOM_BITLEN n mod 8 = 0) = ((2 :: nat) ^ n mod 8 = 0)"
    using b by (simp_all add: unat_div unat_mod word_unat_eq_iff)
  have "unat (HASH_BLOOM_BYTELEN n) = 2 ^ n div 8 + (if (2 :: nat) ^ n mod 8 \<noteq> 0 then 1 else 0)"
    using d p by (auto simp: HASH_BLOOM_BYTELEN_def unat_word_ariths)
  then show ?thesis by auto
qed

section \<open>What a filter holds\<close>

definition bloom_ok :: "nat \<Rightarrow> UT_bloom \<Rightarrow> nat set \<Rightarrow> bool" where
  "bloom_ok n bl xs \<longleftrightarrow> bloom_nbits bl = n \<and> n < 64 \<and> 2 ^ n \<le> 8 * length (bloom_bv bl) \<and>
     (\<forall>j<2 ^ n. bv_bit (bloom_bv bl) j = (j \<in> xs))"

lemma bloom_idx_less: "n < 64 \<Longrightarrow> unat (bloom_idx n hv) < 2 ^ n"
  by (simp add: bloom_idx_mod)

lemma MAKE_effect:
  assumes "n < 64"
  obtains bl where "HASH_BLOOM_MAKE n = Some bl" and "bloom_ok n bl {}"
proof -
  have "\<not> bv_bit (replicate k 0) j" if "j < 8 * k" for j k
    using that by (simp add: bv_bit_def in_vector [of j "replicate k 0", simplified])
  then show thesis using that assms bytelen_enough [OF assms]
    by (simp add: HASH_BLOOM_MAKE_def bloom_ok_def)
qed

lemma ADD_effect:
  assumes "bloom_ok n bl xs"
  obtains bl' where "HASH_BLOOM_ADD bl hv = Some bl'" and "bloom_ok n bl' (insert (unat hv mod 2 ^ n) xs)"
proof -
  have i: "unat (bloom_idx n hv) < 8 * length (bloom_bv bl)"
    using assms bloom_idx_less [of n hv] by (simp add: bloom_ok_def)
  obtain bv where "HASH_BLOOM_BITSET (bloom_bv bl) (bloom_idx n hv) = Some bv" "length bv = length (bloom_bv bl)"
    "\<And>j. j < 8 * length (bloom_bv bl) \<Longrightarrow> bv_bit bv j = (j = unat (bloom_idx n hv) \<or> bv_bit (bloom_bv bl) j)"
    using BITSET_bit [OF i] by blast
  then show thesis using that assms by (auto simp: HASH_BLOOM_ADD_def bloom_ok_def bloom_idx_mod)
qed

lemma TEST_effect:
  assumes "bloom_ok n bl xs"
  shows "HASH_BLOOM_TEST bl hv = Some (unat hv mod 2 ^ n \<in> xs)"
proof -
  have n: "n < 64" and i: "unat hv mod 2 ^ n < 2 ^ n" using assms by (simp_all add: bloom_ok_def)
  have "unat (bloom_idx n hv) < 8 * length (bloom_bv bl)"
    using less_le_trans [OF i, of "8 * length (bloom_bv bl)"] assms n by (simp add: bloom_ok_def bloom_idx_mod)
  from BITTEST_bit [OF this] show ?thesis using assms i n by (simp add: HASH_BLOOM_TEST_def bloom_ok_def bloom_idx_mod)
qed

section \<open>The table with a filter is a dictionary\<close>

definition key_bit :: "nat \<Rightarrow> char list \<Rightarrow> nat" where
  "key_bit n key = unat (HASH_JEN key (c_strlen key)) mod 2 ^ n"

text \<open>The filter has at least the bits of the elements; those of deleted ones stay.\<close>

definition bloom_inv :: "nat \<Rightarrow> ('e \<Rightarrow> char list) \<Rightarrow> ('e, 'm) bloom_table \<Rightarrow> addr list \<Rightarrow> bool" where
  "bloom_inv n kf = (\<lambda>(s, bl) es. n < 64 \<and> dict_inv kf s es \<and> (case bl of None \<Rightarrow> es = []
     | Some bl \<Rightarrow> es \<noteq> [] \<and> (\<exists>xs. bloom_ok n bl xs \<and>
         (\<forall>a\<in>set es. \<forall>e. elt_read a s = Some e \<longrightarrow> key_bit n (kf e) \<in> xs))))"

lemma key_bit_cong: "c_str k = c_str k' \<Longrightarrow> key_bit n k = key_bit n k'"
  using HASH_JEN_prefix [of "c_strlen k" k k'] take_c_strlen [of k] take_c_strlen [of k']
  by (simp add: key_bit_def c_strlen_def)

lemma dict_head: "dict_inv kf s es \<Longrightarrow> head s = None \<longleftrightarrow> es = []"
  using ut_inv_head [of kf s es] by (cases es) (auto simp: dict_inv_def)

lemma FIND_bloom:
  assumes "bloom_inv n kf (s, bl) es"
  shows "HASH_FIND_STR_bloom kf buf (s, bl) = HASH_FIND_STR kf buf s"
proof (cases "es = []")
  case True
  then show ?thesis using assms dict_head [of kf s es]
    by (simp add: bloom_inv_def HASH_FIND_STR_bloom_def HASH_FIND_bloom_def HASH_FIND_STR_def HASH_FIND_def)
next
  case False
  then obtain b xs where b: "bl = Some b" "bloom_ok n b xs"
    "\<forall>a\<in>set es. \<forall>e. elt_read a s = Some e \<longrightarrow> key_bit n (kf e) \<in> xs" and d: "dict_inv kf s es"
    using assms by (auto simp: bloom_inv_def split: option.splits)
  have "ut_inv kf s es" using d by (simp add: dict_inv_def)
  then obtain h t where t: "head s = Some h" "head_tbl s = Some t"
    using ut_inv_head_tbl [OF _ False] dict_head [OF d] False by blast
  have test: "HASH_BLOOM_TEST b (HASH_JEN buf (c_strlen buf)) = Some (key_bit n buf \<in> xs)"
    using TEST_effect [OF b(2)] by (simp add: key_bit_def)
  show ?thesis
  proof (cases "key_bit n buf \<in> xs")
    case True
    then show ?thesis using t b(1) test
      by (simp add: HASH_FIND_STR_bloom_def HASH_FIND_bloom_def HASH_FIND_STR_def HASH_FIND_def)
  next
    case False
    have "HASH_FIND_STR kf buf s = Some None"
      using d by (rule ut.lookup_missing) (use b(3) False key_bit_cong in metis)
    then show ?thesis using t b(1) test False by (simp add: HASH_FIND_STR_bloom_def HASH_FIND_bloom_def)
  qed
qed

lemma ADD_bloom:
  assumes inv: "bloom_inv n kf (s, bl) es" and a: "elt_read a s = Some e"
    and s': "HASH_ADD_STR kf a s = Some s'" "dict_inv kf s' (es @ [a])" "\<And>b. elt_read b s' = elt_read b s"
  shows "\<exists>bl'. HASH_ADD_STR_bloom n kf a (s, bl) = Some (s', bl') \<and> bloom_inv n kf (s', bl') (es @ [a])"
proof -
  have d: "dict_inv kf s es" "n < 64" using inv by (simp_all add: bloom_inv_def)
  obtain b xs where b: "(case head s of None \<Rightarrow> HASH_BLOOM_MAKE n | Some _ \<Rightarrow> bl) = Some b" "bloom_ok n b xs"
    "\<forall>a\<in>set es. \<forall>e. elt_read a s = Some e \<longrightarrow> key_bit n (kf e) \<in> xs"
  proof (cases "es = []")
    case True
    obtain b where "HASH_BLOOM_MAKE n = Some b" "bloom_ok n b {}" using MAKE_effect [OF d(2)] .
    then show thesis using that [of b "{}"] True dict_head [OF d(1)] by simp
  next
    case False
    then show thesis using inv that dict_head [OF d(1)] by (auto simp: bloom_inv_def split: option.splits)
  qed
  obtain b' where b': "HASH_BLOOM_ADD b (HASH_JEN (kf e) (c_strlen (kf e))) = Some b'" "bloom_ok n b' (insert (key_bit n (kf e)) xs)"
    using ADD_effect [OF b(2), of "HASH_JEN (kf e) (c_strlen (kf e))"] by (auto simp: key_bit_def)
  obtain m where m: "heap s a = Some m" "elt m = e" using a by (auto simp: elt_read_def)
  have "HASH_ADD_KEYPTR (kf e) (c_strlen (kf e)) a s = Some s'" using s'(1) m by (simp add: HASH_ADD_STR_def)
  then have "HASH_ADD_STR_bloom n kf a (s, bl) = Some (s', Some b')"
    using m b(1) b'(1) by (simp add: HASH_ADD_STR_bloom_def HASH_ADD_KEYPTR_bloom_def)
  moreover have "bloom_inv n kf (s', Some b') (es @ [a])"
    using d(2) s'(2,3) b'(2) b(3) a by (auto simp: bloom_inv_def intro!: exI [of _ "insert (key_bit n (kf e)) xs"])
  ultimately show ?thesis by blast
qed

lemma DELETE_bloom:
  assumes inv: "bloom_inv n kf (s, bl) es" and a: "a \<in> set es"
    and s': "HASH_DELETE a s = Some s'" "dict_inv kf s' (remove1 a es)" "\<And>b. elt_read b s' = elt_read b s"
  shows "\<exists>bl'. HASH_DELETE_bloom a (s, bl) = Some (s', bl') \<and> bloom_inv n kf (s', bl') (remove1 a es)"
proof -
  have n: "n < 64" using inv by (simp add: bloom_inv_def)
  obtain b xs where b: "bl = Some b" "bloom_ok n b xs"
    "\<forall>a\<in>set es. \<forall>e. elt_read a s = Some e \<longrightarrow> key_bit n (kf e) \<in> xs"
    using inv a by (auto simp: bloom_inv_def split: option.splits)
  show ?thesis
  proof (cases "remove1 a es = []")
    case True
    then have "HASH_DELETE_bloom a (s, bl) = Some (s', None)"
      using s'(1) b(1) dict_head [OF s'(2)] by (simp add: HASH_DELETE_bloom_def)
    then show ?thesis using True s'(2) n by (simp add: bloom_inv_def)
  next
    case False
    then obtain h where "head s' = Some h" using dict_head [OF s'(2)] by blast
    then have "HASH_DELETE_bloom a (s, bl) = Some (s', Some b)" using s'(1) b(1) by (simp add: HASH_DELETE_bloom_def)
    moreover have "bloom_inv n kf (s', Some b) (remove1 a es)"
      using False n s'(2,3) b(2,3) set_remove1_subset [of a es] by (auto simp: bloom_inv_def intro!: exI [of _ xs])
    ultimately show ?thesis by blast
  qed
qed

lemma CLEAR_bloom:
  assumes "bloom_inv n kf (s, bl) es" and "HASH_CLEAR s = Some s'" and "dict_inv kf s' []"
  shows "HASH_CLEAR_bloom (s, bl) = Some (s', None) \<and> bloom_inv n kf (s', None) []"
proof -
  have d: "dict_inv kf s es" using assms(1) by (simp add: bloom_inv_def)
  show ?thesis using assms dict_head [OF d]
    by (cases "head s"; cases bl) (auto simp: bloom_inv_def HASH_CLEAR_bloom_def HASH_CLEAR_def)
qed

definition bloom_write :: "addr \<Rightarrow> ('e \<Rightarrow> 'e) \<Rightarrow> ('e, 'm) bloom_table \<Rightarrow> ('e, 'm) bloom_table option" where
  "bloom_write a f = (\<lambda>(s, bl). map_option (\<lambda>s. (s, bl)) (elt_write a f s))"

interpretation bloom: ordered_dict "bloom_inv n kf" "\<lambda>a (s, bl). elt_read a s" "\<lambda>(s, bl). ut.more s" "\<lambda>e. c_str (kf e)"
  "HASH_FIND_STR_bloom kf" "\<lambda>(s, bl). HASH_COUNT s" "HASH_ADD_STR_bloom n kf" HASH_DELETE_bloom bloom_write for n kf
proof (unfold_locales, goal_cases)
  case (1 s es) then show ?case by (cases s) (auto simp: bloom_inv_def dest: ut.inv_distinct)
next
  case (2 s es a) then show ?case by (cases s) (auto simp: bloom_inv_def dest: ut.inv_contents)
next
  case (3 s es a b e e') then show ?case by (cases s) (auto simp: bloom_inv_def intro: ut.inv_keys)
next
  case (4 s es buf)
  then obtain s0 bl where s: "s = (s0, bl)" "bloom_inv n kf (s0, bl) es" by (cases s) simp
  then show ?case using FIND_bloom [OF s(2), of buf] ut.lookup_law [of kf s0 es buf] by (simp add: bloom_inv_def)
next
  case (5 s es) then show ?case by (cases s) (auto simp: bloom_inv_def dest: ut.size_law)
next
  case (6 s es a e)
  then obtain s0 bl where s: "s = (s0, bl)" "bloom_inv n kf (s0, bl) es" "elt_read a s0 = Some e" by (cases s) simp
  have "dict_inv kf s0 es" using s(2) by (simp add: bloom_inv_def)
  from ut.insert_law [OF this 6(2) s(3)] 6(4) s(1) obtain s' where s': "HASH_ADD_STR kf a s0 = Some s'"
    "dict_inv kf s' (es @ [a])" "\<And>b. elt_read b s' = elt_read b s0" "ut.more s' = ut.more s0" by auto
  from ADD_bloom [OF s(2,3) s'(1-3)] s(1) s'(3,4) show ?case by auto
next
  case (7 s es a)
  then obtain s0 bl where s: "s = (s0, bl)" "bloom_inv n kf (s0, bl) es" by (cases s) simp
  have "dict_inv kf s0 es" using s(2) by (simp add: bloom_inv_def)
  from ut.delete_law [OF this 7(2)] obtain s' where s': "HASH_DELETE a s0 = Some s'"
    "dict_inv kf s' (remove1 a es)" "\<And>b. elt_read b s' = elt_read b s0" "ut.more s' = ut.more s0" by blast
  from DELETE_bloom [OF s(2) 7(2) s'(1-3)] s(1) s'(3,4) show ?case by auto
next
  case (8 s es a e f)
  then obtain s0 bl where s: "s = (s0, bl)" "bloom_inv n kf (s0, bl) es" "elt_read a s0 = Some e" by (cases s) simp
  have "dict_inv kf s0 es" using s(2) by (simp add: bloom_inv_def)
  from ut.write_law [where f = f, OF this s(3) 8(3)] obtain s' where s': "elt_write a f s0 = Some s'" "dict_inv kf s' es"
    "elt_read a s' = Some (f e)" "\<forall>b. b \<noteq> a \<longrightarrow> elt_read b s' = elt_read b s0" "ut.more s' = ut.more s0" by blast
  have "key_bit n (kf (f e)) = key_bit n (kf e)" using 8(3) by (rule key_bit_cong)
  then have "bloom_inv n kf (s', bl) es" using s(2,3) s'(2-4)
    by (auto simp: bloom_inv_def split: option.splits) (metis option.inject)+
  then show ?case using s(1) s' by (auto simp: bloom_write_def)
qed

section \<open>The same results with and without a filter\<close>

datatype tab_cmd = Tab_add addr | Tab_del addr | Tab_clear | Tab_find "char list"

text \<open>The results of the lookups, and the last state; \<open>tab_spec\<close> has them from the list of addresses,
  and is \<open>None\<close> when a key is inserted twice or what is deleted is not in the table.\<close>

fun tab_run :: "(addr \<Rightarrow> 's \<Rightarrow> 's option) \<Rightarrow> (addr \<Rightarrow> 's \<Rightarrow> 's option) \<Rightarrow> ('s \<Rightarrow> 's option) \<Rightarrow>
    (char list \<Rightarrow> 's \<Rightarrow> addr option option) \<Rightarrow> tab_cmd list \<Rightarrow> 's \<Rightarrow> (addr option list \<times> 's) option" where
  "tab_run ins del clr look [] s = Some ([], s)"
| "tab_run ins del clr look (Tab_add a # cs) s = Option.bind (ins a s) (tab_run ins del clr look cs)"
| "tab_run ins del clr look (Tab_del a # cs) s = Option.bind (del a s) (tab_run ins del clr look cs)"
| "tab_run ins del clr look (Tab_clear # cs) s = Option.bind (clr s) (tab_run ins del clr look cs)"
| "tab_run ins del clr look (Tab_find buf # cs) s = do {
     r \<leftarrow> look buf s; (rs, s) \<leftarrow> tab_run ins del clr look cs s; Some (r # rs, s) }"

fun tab_spec :: "(addr \<Rightarrow> char list option) \<Rightarrow> addr list \<Rightarrow> tab_cmd list \<Rightarrow> addr option list option" where
  "tab_spec c es [] = Some []"
| "tab_spec c es (Tab_add a # cs) =
     (if a \<notin> set es \<and> c a \<noteq> None \<and> c a \<notin> c ` set es then tab_spec c (es @ [a]) cs else None)"
| "tab_spec c es (Tab_del a # cs) = (if a \<in> set es then tab_spec c (remove1 a es) cs else None)"
| "tab_spec c es (Tab_clear # cs) = tab_spec c [] cs"
| "tab_spec c es (Tab_find buf # cs) = map_option (Cons (find (\<lambda>a. c a = Some (c_str buf)) es)) (tab_spec c es cs)"

abbreviation plain_run :: "('e \<Rightarrow> char list) \<Rightarrow> tab_cmd list \<Rightarrow> ('e, 'm) ut_scheme \<Rightarrow> (addr option list \<times> ('e, 'm) ut_scheme) option" where
  "plain_run kf \<equiv> tab_run (HASH_ADD_STR kf) HASH_DELETE HASH_CLEAR (HASH_FIND_STR kf)"

abbreviation bloom_run :: "nat \<Rightarrow> ('e \<Rightarrow> char list) \<Rightarrow> tab_cmd list \<Rightarrow> ('e, 'm) bloom_table \<Rightarrow>
    (addr option list \<times> ('e, 'm) bloom_table) option" where
  "bloom_run n kf \<equiv> tab_run (HASH_ADD_STR_bloom n kf) HASH_DELETE_bloom HASH_CLEAR_bloom (HASH_FIND_STR_bloom kf)"

lemma bloom_runs:
  assumes "bloom_inv n kf (s, bl) es" and "tab_spec (\<lambda>a. map_option (\<lambda>e. c_str (kf e)) (elt_read a s)) es cmds = Some rs"
  shows "\<exists>s' bl'. plain_run kf cmds s = Some (rs, s') \<and> bloom_run n kf cmds (s, bl) = Some (rs, (s', bl'))"
  using assms
proof (induction cmds arbitrary: s bl es rs)
  case Nil
  then show ?case by simp
next
  case (Cons c cmds)
  have d: "dict_inv kf s es" using Cons.prems(1) by (simp add: bloom_inv_def)
  have reads: "tab_spec (\<lambda>a. map_option (\<lambda>e. c_str (kf e)) (elt_read a s')) =
      tab_spec (\<lambda>a. map_option (\<lambda>e. c_str (kf e)) (elt_read a s))" if "\<And>b. elt_read b s' = elt_read b s" for s'
    using that by simp
  show ?case
  proof (cases c)
    case (Tab_add a)
    then obtain e where a: "a \<notin> set es" "elt_read a s = Some e"
      "\<And>b. b \<in> set es \<Longrightarrow> map_option (\<lambda>e. c_str (kf e)) (elt_read b s) \<noteq> Some (c_str (kf e))"
      using Cons.prems(2) by (force split: if_splits)
    obtain s' where s': "HASH_ADD_STR kf a s = Some s'" "dict_inv kf s' (es @ [a])" "\<And>b. elt_read b s' = elt_read b s"
      using ut.insert_law [OF d a] by blast
    obtain bl' where b: "HASH_ADD_STR_bloom n kf a (s, bl) = Some (s', bl')" "bloom_inv n kf (s', bl') (es @ [a])"
      using ADD_bloom [OF Cons.prems(1) a(2) s'] by blast
    show ?thesis using Cons.IH [OF b(2)] Cons.prems(2) Tab_add s'(1) b(1) reads [OF s'(3)] by (auto split: if_splits)
  next
    case (Tab_del a)
    then have a: "a \<in> set es" using Cons.prems(2) by (simp split: if_splits)
    obtain s' where s': "HASH_DELETE a s = Some s'" "dict_inv kf s' (remove1 a es)" "\<And>b. elt_read b s' = elt_read b s"
      using ut.delete_law [OF d a] by blast
    obtain bl' where b: "HASH_DELETE_bloom a (s, bl) = Some (s', bl')" "bloom_inv n kf (s', bl') (remove1 a es)"
      using DELETE_bloom [OF Cons.prems(1) a s'] by blast
    show ?thesis using Cons.IH [OF b(2)] Cons.prems(2) Tab_del a s'(1) b(1) reads [OF s'(3)] by auto
  next
    case Tab_clear
    obtain s' where s': "HASH_CLEAR s = Some s'" "dict_inv kf s' []" "\<And>b. elt_read b s' = elt_read b s"
      using HASH_CLEAR_dict [OF d] by blast
    have b: "HASH_CLEAR_bloom (s, bl) = Some (s', None)" "bloom_inv n kf (s', None) []"
      using CLEAR_bloom [OF Cons.prems(1) s'(1,2)] by blast+
    show ?thesis using Cons.IH [OF b(2)] Cons.prems(2) Tab_clear s'(1) b(1) reads [OF s'(3)] by auto
  next
    case (Tab_find buf)
    then obtain rs' where rs: "rs = find (\<lambda>a. map_option (\<lambda>e. c_str (kf e)) (elt_read a s) = Some (c_str buf)) es # rs'"
      "tab_spec (\<lambda>a. map_option (\<lambda>e. c_str (kf e)) (elt_read a s)) es cmds = Some rs'" using Cons.prems(2) by auto
    show ?thesis using Cons.IH [OF Cons.prems(1) rs(2)] ut.lookup_law [OF d, of buf] FIND_bloom [OF Cons.prems(1), of buf] rs(1) Tab_find
      by auto
  qed
qed

text \<open>C24: A table with a Bloom filter, of any size that the macro can be given, is
  indistinguishable from one without: in every sequence of insertions of new keys, deletions of elements
  of the table, clearings and lookups, from the empty table on, neither goes wrong, every lookup gives
  the same result with the filter as without, the one of the specification, and both end in the same
  table.\<close>

theorem bloom_transparent:
  assumes "n < 64" and "head s = None" and "tbl s = None"
    and "tab_spec (\<lambda>a. map_option (\<lambda>e. c_str (kf e)) (elt_read a s)) [] cmds = Some rs"
  shows "\<exists>s' bl. plain_run kf cmds s = Some (rs, s') \<and> bloom_run n kf cmds (s, None) = Some (rs, (s', bl))"
proof (rule bloom_runs [OF _ assms(4)])
  show "bloom_inv n kf (s, None) []" using assms(1) dict_inv_Nil [OF assms(2,3)] by (simp add: bloom_inv_def)
qed

text \<open>Two elements, and a filter of eight bits.\<close>

definition bloom_node :: "char list \<Rightarrow> char list node" where
  "bloom_node k = \<lparr>elt = k, hh = \<lparr>el_prev = None, el_next = None, hh_prev = None, hh_next = None, keylen = 0, hashv = 0\<rparr>\<rparr>"

theorem bloom_transparent_witness:
  "\<exists>s' bl. bloom_run 3 id [Tab_add 1, Tab_find ''A'', Tab_add 2, Tab_del 1, Tab_find ''A'', Tab_find ''B'']
      (\<lparr>heap = [1 \<mapsto> bloom_node ''A'', 2 \<mapsto> bloom_node ''B''], head = None, tbl = None\<rparr> :: char list ut, None)
    = Some ([Some 1, None, Some 2], (s', bl))"
proof -
  let ?s = "\<lparr>heap = [1 \<mapsto> bloom_node ''A'', 2 \<mapsto> bloom_node ''B''], head = None, tbl = None\<rparr> :: char list ut"
  let ?cmds = "[Tab_add 1, Tab_find ''A'', Tab_add 2, Tab_del 1, Tab_find ''A'', Tab_find ''B'']"
  have "tab_spec (\<lambda>a. map_option (\<lambda>e. c_str (id e)) (elt_read a ?s)) [] ?cmds = Some [Some 1, None, Some 2]"
    by (simp add: elt_read_def bloom_node_def c_str_def)
  then show ?thesis using bloom_transparent [of 3 ?s id ?cmds] by auto
qed

end
