(* ===== verification/Utlist.thy ===== *)
theory Utlist
  imports Edf_Prelude
begin

text \<open>
  datastructures/utlist.h: the macros for singly linked lists (\<open>LL_\<close>), doubly linked lists (\<open>DL_\<close>)
  and circular doubly linked lists (\<open>CDL_\<close>), on a heap with one function per field of an
  element. A macro's \<open>head\<close> argument, which it may assign, is an argument and a result of the
  function. \<open>None\<close> means a NULL or dangling pointer, a failed assertion, or a loop that does not
  end. The macros with a 2 at the end of their names, which take the names of the pointer
  fields, and the ones without, which fill in \<open>prev\<close> and \<open>next\<close>, are one function here.
\<close>

section \<open>Elements\<close>

record 'e lheap =
  alive :: "addr \<Rightarrow> bool"
  item :: "addr \<Rightarrow> 'e"
  lnext :: "addr \<Rightarrow> addr option"
  lprev :: "addr \<Rightarrow> addr option"

definition rd :: "('e lheap \<Rightarrow> addr \<Rightarrow> 'v) \<Rightarrow> addr option \<Rightarrow> 'e lheap \<Rightarrow> 'v option" where
  "rd f p h = (case p of None \<Rightarrow> None | Some a \<Rightarrow> if alive h a then Some (f h a) else None)"

definition set_next :: "addr option \<Rightarrow> addr option \<Rightarrow> 'e lheap \<Rightarrow> 'e lheap option" where
  "set_next p v h = (case p of None \<Rightarrow> None
     | Some a \<Rightarrow> if alive h a then Some (h\<lparr>lnext := (lnext h)(a := v)\<rparr>) else None)"

definition set_prev :: "addr option \<Rightarrow> addr option \<Rightarrow> 'e lheap \<Rightarrow> 'e lheap option" where
  "set_prev p v h = (case p of None \<Rightarrow> None
     | Some a \<Rightarrow> if alive h a then Some (h\<lparr>lprev := (lprev h)(a := v)\<rparr>) else None)"

type_synonym 'e list_op = "(addr option \<times> 'e lheap) option"

section \<open>Singly linked lists\<close>

definition LL_PREPEND :: "addr option \<Rightarrow> addr option \<Rightarrow> 'e lheap \<Rightarrow> 'e list_op" where
  "LL_PREPEND head add h = do { h \<leftarrow> set_next add head h; Some (add, h) }"

text \<open>\<open>while (_tmp->next) _tmp = _tmp->next\<close>, and the same loop stopping before an element.\<close>

partial_function (option) LL_last :: "addr option \<Rightarrow> 'e lheap \<Rightarrow> addr option option" where
  "LL_last p h = (case rd lnext p h of None \<Rightarrow> None
     | Some n \<Rightarrow> if n = None then Some p else LL_last n h)"

partial_function (option) LL_before :: "addr option \<Rightarrow> addr option \<Rightarrow> 'e lheap \<Rightarrow> addr option option" where
  "LL_before d p h = (case rd lnext p h of None \<Rightarrow> None
     | Some n \<Rightarrow> if n \<noteq> None \<and> n \<noteq> d then LL_before d n h else Some p)"

definition LL_CONCAT :: "addr option \<Rightarrow> addr option \<Rightarrow> 'e lheap \<Rightarrow> 'e list_op" where
  "LL_CONCAT head1 head2 h =
     (if head1 \<noteq> None then do { tmp \<leftarrow> LL_last head1 h; h \<leftarrow> set_next tmp head2 h; Some (head1, h) }
      else Some (head2, h))"

definition LL_APPEND :: "addr option \<Rightarrow> addr option \<Rightarrow> 'e lheap \<Rightarrow> 'e list_op" where
  "LL_APPEND head add h = do {
     h \<leftarrow> set_next add None h;
     if head \<noteq> None then do { tmp \<leftarrow> LL_last head h; h \<leftarrow> set_next tmp add h; Some (head, h) }
     else Some (add, h) }"

definition LL_DELETE :: "addr option \<Rightarrow> addr option \<Rightarrow> 'e lheap \<Rightarrow> 'e list_op" where
  "LL_DELETE head del h =
     (if head = del then do { n \<leftarrow> rd lnext head h; Some (n, h) }
      else do {
        tmp \<leftarrow> LL_before del head h;
        n \<leftarrow> rd lnext tmp h;
        if n \<noteq> None then do { d \<leftarrow> rd lnext del h; h \<leftarrow> set_next tmp d h; Some (head, h) }
        else Some (head, h) })"

text \<open>For compilers without \<open>decltype\<close>: \<open>add->next\<close>, or the head itself, is the loop variable.\<close>

partial_function (option) LL_APPEND_VS2008_while :: "addr option \<Rightarrow> 'e lheap \<Rightarrow> 'e lheap option" where
  "LL_APPEND_VS2008_while add h = (case rd lnext add h of None \<Rightarrow> None
     | Some p \<Rightarrow> (case rd lnext p h of None \<Rightarrow> None
         | Some n \<Rightarrow> if n = None then Some h
             else (case set_next add n h of None \<Rightarrow> None | Some h \<Rightarrow> LL_APPEND_VS2008_while add h)))"

definition LL_APPEND_VS2008 :: "addr option \<Rightarrow> addr option \<Rightarrow> 'e lheap \<Rightarrow> 'e list_op" where
  "LL_APPEND_VS2008 head add h =
     (if head \<noteq> None
      then do {
        h \<leftarrow> set_next add head h;
        h \<leftarrow> LL_APPEND_VS2008_while add h;
        p \<leftarrow> rd lnext add h;
        h \<leftarrow> set_next p add h;
        h \<leftarrow> set_next add None h;
        Some (head, h) }
      else do { h \<leftarrow> set_next add None h; Some (add, h) })"

definition LL_DELETE_VS2008 :: "addr option \<Rightarrow> addr option \<Rightarrow> 'e lheap \<Rightarrow> 'e list_op" where
  "LL_DELETE_VS2008 head del h =
     (if head = del then do { n \<leftarrow> rd lnext head h; Some (n, h) }
      else do {
        let tmp = head;
        head \<leftarrow> LL_before del head h;
        n \<leftarrow> rd lnext head h;
        h \<leftarrow> (if n \<noteq> None then do { d \<leftarrow> rd lnext del h; set_next head d h } else Some h);
        Some (tmp, h) })"

text \<open>The loops over the elements, with a body that may change the list in the safe version.\<close>

partial_function (option) LL_FOREACH :: "(addr \<Rightarrow> 'a \<Rightarrow> 'a) \<Rightarrow> addr option \<Rightarrow> 'e lheap \<Rightarrow> 'a \<Rightarrow> 'a option" where
  "LL_FOREACH body el h x = (case el of None \<Rightarrow> Some x
     | Some a \<Rightarrow> (case rd lnext el h of None \<Rightarrow> None | Some n \<Rightarrow> LL_FOREACH body n h (body a x)))"

partial_function (option) LL_FOREACH_SAFE :: "(addr \<Rightarrow> 'a \<times> 'e lheap \<Rightarrow> ('a \<times> 'e lheap) option) \<Rightarrow> addr option \<Rightarrow>
    'a \<times> 'e lheap \<Rightarrow> ('a \<times> 'e lheap) option" where
  "LL_FOREACH_SAFE body el s = (case el of None \<Rightarrow> Some s
     | Some a \<Rightarrow> (case rd lnext el (snd s) of None \<Rightarrow> None
         | Some tmp \<Rightarrow> (case body a s of None \<Rightarrow> None | Some s' \<Rightarrow> LL_FOREACH_SAFE body tmp s')))"

partial_function (option) LL_SEARCH :: "('e \<Rightarrow> bool) \<Rightarrow> addr option \<Rightarrow> 'e lheap \<Rightarrow> addr option option" where
  "LL_SEARCH found out h = (case out of None \<Rightarrow> Some None
     | Some _ \<Rightarrow> (case rd item out h of None \<Rightarrow> None
         | Some x \<Rightarrow> if found x then Some out
             else (case rd lnext out h of None \<Rightarrow> None | Some n \<Rightarrow> LL_SEARCH found n h)))"

definition LL_REPLACE_ELEM :: "addr option \<Rightarrow> addr option \<Rightarrow> addr option \<Rightarrow> 'e lheap \<Rightarrow> 'e list_op" where
  "LL_REPLACE_ELEM head el add h =
     (if head = None \<or> el = None \<or> add = None then None
      else do {
        n \<leftarrow> rd lnext el h;
        h \<leftarrow> set_next add n h;
        if head = el then Some (add, h)
        else do {
          tmp \<leftarrow> LL_before el head h;
          n \<leftarrow> rd lnext tmp h;
          if n \<noteq> None then do { h \<leftarrow> set_next tmp add h; Some (head, h) } else Some (head, h) } })"

definition LL_PREPEND_ELEM :: "addr option \<Rightarrow> addr option \<Rightarrow> addr option \<Rightarrow> 'e lheap \<Rightarrow> 'e list_op" where
  "LL_PREPEND_ELEM head el add h =
     (if head = None \<or> el = None \<or> add = None then None
      else do {
        h \<leftarrow> set_next add el h;
        if head = el then Some (add, h)
        else do {
          tmp \<leftarrow> LL_before el head h;
          n \<leftarrow> rd lnext tmp h;
          if n \<noteq> None then do { h \<leftarrow> set_next tmp add h; Some (head, h) } else Some (head, h) } })"

section \<open>Doubly linked lists\<close>

definition DL_PREPEND :: "addr option \<Rightarrow> addr option \<Rightarrow> 'e lheap \<Rightarrow> 'e list_op" where
  "DL_PREPEND head add h = do {
     h \<leftarrow> set_next add head h;
     h \<leftarrow> (if head \<noteq> None
          then do { p \<leftarrow> rd lprev head h; h \<leftarrow> set_prev add p h; set_prev head add h }
          else set_prev add add h);
     Some (add, h) }"

definition DL_APPEND :: "addr option \<Rightarrow> addr option \<Rightarrow> 'e lheap \<Rightarrow> 'e list_op" where
  "DL_APPEND head add h =
     (if head \<noteq> None
      then do {
        p \<leftarrow> rd lprev head h;
        h \<leftarrow> set_prev add p h;
        p \<leftarrow> rd lprev head h;
        h \<leftarrow> set_next p add h;
        h \<leftarrow> set_prev head add h;
        h \<leftarrow> set_next add None h;
        Some (head, h) }
      else do {
        let head = add;
        h \<leftarrow> set_prev head head h;
        h \<leftarrow> set_next head None h;
        Some (head, h) })"

definition DL_CONCAT :: "addr option \<Rightarrow> addr option \<Rightarrow> 'e lheap \<Rightarrow> 'e list_op" where
  "DL_CONCAT head1 head2 h =
     (if head2 \<noteq> None
      then if head1 \<noteq> None
        then do {
          tmp \<leftarrow> rd lprev head2 h;
          p \<leftarrow> rd lprev head1 h;
          h \<leftarrow> set_prev head2 p h;
          p \<leftarrow> rd lprev head1 h;
          h \<leftarrow> set_next p head2 h;
          h \<leftarrow> set_prev head1 tmp h;
          Some (head1, h) }
        else Some (head2, h)
      else Some (head1, h))"

definition DL_DELETE :: "addr option \<Rightarrow> addr option \<Rightarrow> 'e lheap \<Rightarrow> 'e list_op" where
  "DL_DELETE head del h = do {
     p \<leftarrow> rd lprev del h;
     if p = None then None
     else if p = del then Some (None, h)
     else do {
       n \<leftarrow> rd lnext del h;
       if del = head then do { h \<leftarrow> set_prev n p h; n \<leftarrow> rd lnext del h; Some (n, h) }
       else do {
         h \<leftarrow> set_next p n h;
         n \<leftarrow> rd lnext del h;
         p \<leftarrow> rd lprev del h;
         h \<leftarrow> (if n \<noteq> None then set_prev n p h else set_prev head p h);
         Some (head, h) } } }"

definition DL_REPLACE_ELEM :: "addr option \<Rightarrow> addr option \<Rightarrow> addr option \<Rightarrow> 'e lheap \<Rightarrow> 'e list_op" where
  "DL_REPLACE_ELEM head el add h =
     (if head = None \<or> el = None \<or> add = None then None
      else if head = el
      then do {
        n \<leftarrow> rd lnext el h;
        h \<leftarrow> set_next add n h;
        n \<leftarrow> rd lnext el h;
        h \<leftarrow> (if n = None then set_prev add add h
             else do { p \<leftarrow> rd lprev el h; h \<leftarrow> set_prev add p h; n \<leftarrow> rd lnext add h; set_prev n add h });
        Some (add, h) }
      else do {
        n \<leftarrow> rd lnext el h;
        h \<leftarrow> set_next add n h;
        p \<leftarrow> rd lprev el h;
        h \<leftarrow> set_prev add p h;
        p \<leftarrow> rd lprev add h;
        h \<leftarrow> set_next p add h;
        n \<leftarrow> rd lnext el h;
        h \<leftarrow> (if n = None then set_prev head add h
             else do { n \<leftarrow> rd lnext add h; set_prev n add h });
        Some (head, h) })"

definition DL_PREPEND_ELEM :: "addr option \<Rightarrow> addr option \<Rightarrow> addr option \<Rightarrow> 'e lheap \<Rightarrow> 'e list_op" where
  "DL_PREPEND_ELEM head el add h =
     (if head = None \<or> el = None \<or> add = None then None
      else do {
        h \<leftarrow> set_next add el h;
        p \<leftarrow> rd lprev el h;
        h \<leftarrow> set_prev add p h;
        h \<leftarrow> set_prev el add h;
        if head = el then Some (add, h)
        else do { p \<leftarrow> rd lprev add h; h \<leftarrow> set_next p add h; Some (head, h) } })"

section \<open>Circular lists\<close>

definition CDL_PREPEND :: "addr option \<Rightarrow> addr option \<Rightarrow> 'e lheap \<Rightarrow> 'e list_op" where
  "CDL_PREPEND head add h = do {
     h \<leftarrow> (if head \<noteq> None
          then do {
            p \<leftarrow> rd lprev head h;
            h \<leftarrow> set_prev add p h;
            h \<leftarrow> set_next add head h;
            h \<leftarrow> set_prev head add h;
            p \<leftarrow> rd lprev add h;
            set_next p add h }
          else do { h \<leftarrow> set_prev add add h; set_next add add h });
     Some (add, h) }"

definition CDL_DELETE :: "addr option \<Rightarrow> addr option \<Rightarrow> 'e lheap \<Rightarrow> 'e list_op" where
  "CDL_DELETE head del h = do {
     single \<leftarrow> (if head = del then do { n \<leftarrow> rd lnext head h; Some (n = head) } else Some False);
     if single then Some (None, h)
     else do {
       n \<leftarrow> rd lnext del h;
       p \<leftarrow> rd lprev del h;
       h \<leftarrow> set_prev n p h;
       p \<leftarrow> rd lprev del h;
       n \<leftarrow> rd lnext del h;
       h \<leftarrow> set_next p n h;
       if del = head then do { n \<leftarrow> rd lnext del h; Some (n, h) } else Some (head, h) } }"

partial_function (option) CDL_FOREACH :: "(addr \<Rightarrow> 'a \<Rightarrow> 'a) \<Rightarrow> addr option \<Rightarrow> addr option \<Rightarrow> 'e lheap \<Rightarrow> 'a \<Rightarrow> 'a option" where
  "CDL_FOREACH body head el h x = (case el of None \<Rightarrow> Some x
     | Some a \<Rightarrow> (case rd lnext el h of None \<Rightarrow> None
         | Some n \<Rightarrow> CDL_FOREACH body head (if n = head then None else n) h (body a x)))"

partial_function (option) CDL_FOREACH_SAFE_loop :: "(addr \<Rightarrow> 'a \<times> 'e lheap \<Rightarrow> ('a \<times> 'e lheap) option) \<Rightarrow> addr option \<Rightarrow>
    addr option \<Rightarrow> 'a \<times> 'e lheap \<Rightarrow> ('a \<times> 'e lheap) option" where
  "CDL_FOREACH_SAFE_loop body tmp1 el s = (case el of None \<Rightarrow> Some s
     | Some a \<Rightarrow> (case rd lnext el (snd s) of None \<Rightarrow> None
         | Some tmp2 \<Rightarrow> (case body a s of None \<Rightarrow> None
             | Some s' \<Rightarrow> CDL_FOREACH_SAFE_loop body tmp1 (if el = tmp1 then None else tmp2) s')))"

definition CDL_FOREACH_SAFE :: "(addr \<Rightarrow> 'a \<times> 'e lheap \<Rightarrow> ('a \<times> 'e lheap) option) \<Rightarrow> addr option \<Rightarrow>
    'a \<times> 'e lheap \<Rightarrow> ('a \<times> 'e lheap) option" where
  "CDL_FOREACH_SAFE body head s = do {
     tmp1 \<leftarrow> (if head \<noteq> None then rd lprev head (snd s) else Some None);
     CDL_FOREACH_SAFE_loop body tmp1 head s }"

partial_function (option) CDL_SEARCH :: "('e \<Rightarrow> bool) \<Rightarrow> addr option \<Rightarrow> addr option \<Rightarrow> 'e lheap \<Rightarrow> addr option option" where
  "CDL_SEARCH found head out h = (case out of None \<Rightarrow> Some None
     | Some _ \<Rightarrow> (case rd item out h of None \<Rightarrow> None
         | Some x \<Rightarrow> if found x then Some out
             else (case rd lnext out h of None \<Rightarrow> None
               | Some n \<Rightarrow> CDL_SEARCH found head (if n = head then None else n) h)))"

definition CDL_REPLACE_ELEM :: "addr option \<Rightarrow> addr option \<Rightarrow> addr option \<Rightarrow> 'e lheap \<Rightarrow> 'e list_op" where
  "CDL_REPLACE_ELEM head el add h =
     (if head = None \<or> el = None \<or> add = None then None
      else do {
        n \<leftarrow> rd lnext el h;
        if n = el
        then do { h \<leftarrow> set_next add add h; h \<leftarrow> set_prev add add h; Some (add, h) }
        else do {
          h \<leftarrow> set_next add n h;
          p \<leftarrow> rd lprev el h;
          h \<leftarrow> set_prev add p h;
          n \<leftarrow> rd lnext add h;
          h \<leftarrow> set_prev n add h;
          p \<leftarrow> rd lprev add h;
          h \<leftarrow> set_next p add h;
          Some (if head = el then add else head, h) } })"

definition CDL_PREPEND_ELEM :: "addr option \<Rightarrow> addr option \<Rightarrow> addr option \<Rightarrow> 'e lheap \<Rightarrow> 'e list_op" where
  "CDL_PREPEND_ELEM head el add h =
     (if head = None \<or> el = None \<or> add = None then None
      else do {
        h \<leftarrow> set_next add el h;
        p \<leftarrow> rd lprev el h;
        h \<leftarrow> set_prev add p h;
        h \<leftarrow> set_prev el add h;
        p \<leftarrow> rd lprev add h;
        h \<leftarrow> set_next p add h;
        Some (if head = el then add else head, h) })"

end
