(* ===== verification/Utlist_Rep.thy ===== *)
theory Utlist_Rep
  imports Utlist
begin

text \<open>
  What the pointers of a list of each kind represent: the addresses of its elements, in order.
  Forward pointers and back pointers are described separately.
\<close>

section \<open>Forward and back pointers\<close>

primrec seg :: "(addr \<Rightarrow> addr option) \<Rightarrow> addr option \<Rightarrow> addr list \<Rightarrow> addr option \<Rightarrow> bool" where
  "seg nx x [] q \<longleftrightarrow> x = q"
| "seg nx x (a # as) q \<longleftrightarrow> x = Some a \<and> seg nx (nx a) as q"

primrec backs :: "(addr \<Rightarrow> addr option) \<Rightarrow> addr option \<Rightarrow> addr list \<Rightarrow> bool" where
  "backs pv p [] \<longleftrightarrow> True"
| "backs pv p (a # as) \<longleftrightarrow> pv a = p \<and> backs pv (Some a) as"

lemma seg_first: "seg nx x as q \<Longrightarrow> x = first_ptr as q"
  by (cases as) auto

lemma seg_at: "seg nx x as q \<Longrightarrow> seg nx (first_ptr as q) as q"
  by (cases as) auto

lemma seg_append [simp]: "seg nx x (as @ bs) q \<longleftrightarrow> seg nx x as (first_ptr bs q) \<and> seg nx (first_ptr bs q) bs q"
  by (induction as arbitrary: x) (auto dest: seg_first)

lemma backs_append [simp]: "backs pv p (as @ bs) \<longleftrightarrow> backs pv p as \<and> backs pv (last_ptr p as) bs"
  by (induction as arbitrary: p) auto

lemma seg_upd [simp]: "a \<notin> set as \<Longrightarrow> seg (nx(a := v)) x as q = seg nx x as q"
  by (induction as arbitrary: x) auto

lemma backs_upd [simp]: "a \<notin> set as \<Longrightarrow> backs (pv(a := v)) p as = backs pv p as"
  by (induction as arbitrary: p) auto

lemma seg_cong: "(\<And>a. a \<in> set as \<Longrightarrow> nx' a = nx a) \<Longrightarrow> seg nx' x as q = seg nx x as q"
  by (induction as arbitrary: x) auto

lemma backs_cong: "(\<And>a. a \<in> set as \<Longrightarrow> pv' a = pv a) \<Longrightarrow> backs pv' p as = backs pv p as"
  by (induction as arbitrary: p) auto

lemma last_ptr_append [simp]: "last_ptr p (as @ bs) = last_ptr (last_ptr p as) bs"
  by (induction as arbitrary: p) simp_all

section \<open>Memory accesses\<close>

lemma rd_alive [simp]: "alive h a \<Longrightarrow> rd f (Some a) h = Some (f h a)" "rd f None h = None"
  by (simp_all add: rd_def)

lemma set_next_alive [simp]: "alive h a \<Longrightarrow> set_next (Some a) v h = Some (h\<lparr>lnext := (lnext h)(a := v)\<rparr>)" "set_next None v h = None"
  by (simp_all add: set_next_def)

lemma set_prev_alive [simp]: "alive h a \<Longrightarrow> set_prev (Some a) v h = Some (h\<lparr>lprev := (lprev h)(a := v)\<rparr>)" "set_prev None v h = None"
  by (simp_all add: set_prev_def)

section \<open>Lists\<close>

datatype list_kind = LL | DL | CDL

definition list_rep :: "list_kind \<Rightarrow> 'e lheap \<Rightarrow> addr option \<Rightarrow> addr list \<Rightarrow> bool" where
  "list_rep kind h x as \<longleftrightarrow> distinct as \<and> (\<forall>a\<in>set as. alive h a) \<and>
     seg (lnext h) x as (if kind = CDL then first_ptr as None else None) \<and>
     (kind \<noteq> LL \<longrightarrow> backs (lprev h) (last_ptr None as) as)"

text \<open>An operation touches the pointers of some elements only.\<close>

definition touches :: "addr set \<Rightarrow> 'e lheap \<Rightarrow> 'e lheap \<Rightarrow> bool" where
  "touches M h h' \<longleftrightarrow> alive h' = alive h \<and> item h' = item h \<and>
     (\<forall>a. a \<notin> M \<longrightarrow> lnext h' a = lnext h a \<and> lprev h' a = lprev h a)"

lemma list_rep_first: "list_rep kind h x as \<Longrightarrow> x = first_ptr as None"
  by (cases as) (auto simp: list_rep_def)

lemma list_rep_distinct: "list_rep kind h x as \<Longrightarrow> distinct as"
  by (simp add: list_rep_def)

lemma list_rep_alive: "list_rep kind h x as \<Longrightarrow> a \<in> set as \<Longrightarrow> alive h a"
  by (simp add: list_rep_def)

lemma list_rep_Nil [simp]: "list_rep kind h x [] \<longleftrightarrow> x = None"
  by (auto simp: list_rep_def)

lemma list_rep_touches:
  assumes "list_rep kind h x as" and "touches M h h'" and "M \<inter> set as = {}"
  shows "list_rep kind h' x as"
proof -
  have "\<And>a. a \<in> set as \<Longrightarrow> lnext h' a = lnext h a" "\<And>a. a \<in> set as \<Longrightarrow> lprev h' a = lprev h a" "alive h' = alive h"
    using assms(2,3) by (auto simp: touches_def)
  then show ?thesis using assms(1) seg_cong [of as "lnext h'" "lnext h"] backs_cong [of as "lprev h'" "lprev h"]
    by (simp add: list_rep_def)
qed

lemma touches_refl: "touches M h h"
  by (simp add: touches_def)

lemma touches_trans: "touches M h h' \<Longrightarrow> touches M h' h'' \<Longrightarrow> touches M h h''"
  by (simp add: touches_def)

lemma touches_mono: "touches M h h' \<Longrightarrow> M \<subseteq> N \<Longrightarrow> touches N h h'"
  by (auto simp: touches_def)

section \<open>Singly linked lists\<close>

lemma LL_last_run:
  assumes "seg (lnext h) x as None" and "\<forall>a\<in>set as. alive h a" and "as \<noteq> []"
  shows "LL_last x h = Some (Some (last as))"
  using assms
proof (induction as arbitrary: x)
  case (Cons a as)
  then show ?case
    by (cases as) (subst LL_last.simps; simp)+
qed simp

lemma LL_before_run:
  assumes "seg (lnext h) x (as @ b # bs) None" and "\<forall>a\<in>set (as @ b # bs). alive h a"
    and "distinct (as @ b # bs)" and "as \<noteq> []"
  shows "LL_before (Some b) x h = Some (Some (last as))"
  using assms
proof (induction as arbitrary: x)
  case (Cons a as)
  then show ?case
    by (cases as) (subst LL_before.simps; simp)+
qed simp

lemma LL_before_missing:
  assumes "seg (lnext h) x as None" and "\<forall>a\<in>set as. alive h a" and "d \<notin> set as" and "as \<noteq> []"
  shows "LL_before (Some d) x h = Some (Some (last as))"
  using assms
proof (induction as arbitrary: x)
  case (Cons a as)
  then show ?case
    by (cases as) (subst LL_before.simps; simp)+
qed simp

lemma LL_prepend:
  assumes "list_rep LL h x as" and "alive h a" and "a \<notin> set as"
  shows "\<exists>h'. LL_PREPEND x (Some a) h = Some (Some a, h') \<and> list_rep LL h' (Some a) (a # as) \<and>
    touches (insert a (set as)) h h'"
  using assms by (simp add: LL_PREPEND_def list_rep_def touches_def)

lemma LL_append:
  assumes "list_rep LL h x as" and "alive h a" and "a \<notin> set as"
  shows "\<exists>h'. LL_APPEND x (Some a) h = Some (first_ptr (as @ [a]) None, h') \<and>
    list_rep LL h' (first_ptr (as @ [a]) None) (as @ [a]) \<and> touches (insert a (set as)) h h'"
proof (cases as rule: rev_cases)
  case Nil
  then show ?thesis using assms by (simp add: LL_APPEND_def list_rep_def touches_def)
next
  case (snoc bs b)
  let ?h = "h\<lparr>lnext := (lnext h)(a := None)\<rparr>"
  have "seg (lnext ?h) x as None" "\<forall>a\<in>set as. alive ?h a" using assms by (simp_all add: list_rep_def)
  from LL_last_run [OF this] have "LL_last x ?h = Some (Some b)" using snoc by simp
  then show ?thesis using assms snoc list_rep_first [OF assms(1)]
    by (cases bs) (auto simp: LL_APPEND_def list_rep_def touches_def)
qed

lemma LL_concat:
  assumes "list_rep LL h x as" and "list_rep LL h y bs" and "set as \<inter> set bs = {}"
  shows "\<exists>h'. LL_CONCAT x y h = Some (first_ptr (as @ bs) None, h') \<and>
    list_rep LL h' (first_ptr (as @ bs) None) (as @ bs) \<and> touches (set as \<union> set bs) h h'"
proof (cases as rule: rev_cases)
  case Nil
  then show ?thesis using assms list_rep_first [OF assms(2)] by (simp add: LL_CONCAT_def touches_refl)
next
  case (snoc cs c)
  have "LL_last x h = Some (Some c)" using LL_last_run [of h x as] assms(1) snoc by (simp add: list_rep_def)
  then show ?thesis using assms snoc list_rep_first [OF assms(1)] list_rep_first [OF assms(2)]
    by (cases cs) (auto simp: LL_CONCAT_def list_rep_def touches_def first_ptr_append)
qed

lemma LL_delete:
  assumes "list_rep LL h x (as @ a # bs)"
  shows "\<exists>h'. LL_DELETE x (Some a) h = Some (first_ptr (as @ bs) None, h') \<and>
    list_rep LL h' (first_ptr (as @ bs) None) (as @ bs) \<and> touches (set (as @ a # bs)) h h'"
proof (cases as rule: rev_cases)
  case Nil
  then show ?thesis using assms by (auto simp: LL_DELETE_def list_rep_def touches_def intro: seg_first seg_at)
next
  case (snoc cs c)
  have "LL_before (Some a) x h = Some (Some c)" using LL_before_run [of h x as a bs] assms snoc by (simp add: list_rep_def)
  then show ?thesis using assms snoc
    by (cases cs) (auto simp: LL_DELETE_def list_rep_def touches_def first_ptr_append dest: seg_first)
qed

text \<open>An element that is not in the list: nothing is deleted. An empty list is a fault.\<close>

lemma LL_delete_missing:
  assumes "list_rep LL h x as" and "a \<notin> set as" and "as \<noteq> []"
  shows "LL_DELETE x (Some a) h = Some (x, h)"
proof -
  have "LL_before (Some a) x h = Some (Some (last as))"
    using LL_before_missing [of h x as a] assms by (simp add: list_rep_def)
  moreover have "lnext h (last as) = None" "alive h (last as)"
    using assms by (cases as rule: rev_cases; simp add: list_rep_def)+
  moreover have "x \<noteq> Some a" using assms by (cases as) (auto simp: list_rep_def)
  ultimately show ?thesis by (simp add: LL_DELETE_def)
qed

lemma LL_replace:
  assumes "list_rep LL h x (as @ a # bs)" and "alive h b" and "b \<notin> set (as @ a # bs)"
  shows "\<exists>h'. LL_REPLACE_ELEM x (Some a) (Some b) h = Some (first_ptr (as @ [b]) None, h') \<and>
    list_rep LL h' (first_ptr (as @ [b]) None) (as @ b # bs) \<and> touches (insert b (set (as @ a # bs))) h h'"
proof (cases as rule: rev_cases)
  case Nil
  then show ?thesis using assms by (auto simp: LL_REPLACE_ELEM_def list_rep_def touches_def)
next
  case (snoc cs c)
  let ?h = "h\<lparr>lnext := (lnext h)(b := lnext h a)\<rparr>"
  have "LL_before (Some a) x ?h = Some (Some c)"
    using LL_before_run [of ?h x as a bs] assms snoc by (simp add: list_rep_def)
  then show ?thesis using assms snoc
    by (cases cs) (auto simp: LL_REPLACE_ELEM_def list_rep_def touches_def first_ptr_append dest: seg_first)
qed

lemma LL_prepend_elem:
  assumes "list_rep LL h x (as @ a # bs)" and "alive h b" and "b \<notin> set (as @ a # bs)"
  shows "\<exists>h'. LL_PREPEND_ELEM x (Some a) (Some b) h = Some (first_ptr (as @ [b]) None, h') \<and>
    list_rep LL h' (first_ptr (as @ [b]) None) (as @ b # a # bs) \<and> touches (insert b (set (as @ a # bs))) h h'"
proof (cases as rule: rev_cases)
  case Nil
  then show ?thesis using assms by (auto simp: LL_PREPEND_ELEM_def list_rep_def touches_def)
next
  case (snoc cs c)
  let ?h = "h\<lparr>lnext := (lnext h)(b := Some a)\<rparr>"
  have "LL_before (Some a) x ?h = Some (Some c)"
    using LL_before_run [of ?h x as a bs] assms snoc by (simp add: list_rep_def)
  then show ?thesis using assms snoc
    by (cases cs) (auto simp: LL_PREPEND_ELEM_def list_rep_def touches_def first_ptr_append dest: seg_first)
qed

section \<open>Doubly linked lists\<close>

lemma DL_prepend:
  assumes "list_rep DL h x as" and "alive h a" and "a \<notin> set as"
  shows "\<exists>h'. DL_PREPEND x (Some a) h = Some (Some a, h') \<and> list_rep DL h' (Some a) (a # as) \<and>
    touches (insert a (set as)) h h'"
  using assms by (cases as) (auto simp: DL_PREPEND_def list_rep_def touches_def)

lemma DL_append:
  assumes "list_rep DL h x as" and "alive h a" and "a \<notin> set as"
  shows "\<exists>h'. DL_APPEND x (Some a) h = Some (first_ptr (as @ [a]) None, h') \<and>
    list_rep DL h' (first_ptr (as @ [a]) None) (as @ [a]) \<and> touches (insert a (set as)) h h'"
proof (cases as rule: rev_cases)
  case Nil
  then show ?thesis using assms by (simp add: DL_APPEND_def list_rep_def touches_def Let_def)
next
  case (snoc bs b)
  then show ?thesis using assms
    by (cases bs) (auto simp: DL_APPEND_def list_rep_def touches_def)
qed

lemma DL_concat:
  assumes "list_rep DL h x as" and "list_rep DL h y bs" and "set as \<inter> set bs = {}"
  shows "\<exists>h'. DL_CONCAT x y h = Some (first_ptr (as @ bs) None, h') \<and>
    list_rep DL h' (first_ptr (as @ bs) None) (as @ bs) \<and> touches (set as \<union> set bs) h h'"
proof (cases "as = [] \<or> bs = []")
  case True
  then show ?thesis using assms list_rep_first [OF assms(1)] list_rep_first [OF assms(2)]
    by (cases as; cases bs) (auto simp: DL_CONCAT_def touches_refl)
next
  case False
  then obtain cs c ds d where "as = cs @ [c]" "bs = d # ds" by (metis neq_Nil_conv rev_exhaust)
  then show ?thesis using assms
    by (cases cs; cases ds rule: rev_cases) (auto simp: DL_CONCAT_def list_rep_def touches_def)
qed

lemma DL_delete:
  assumes "list_rep DL h x (as @ a # bs)"
  shows "\<exists>h'. DL_DELETE x (Some a) h = Some (first_ptr (as @ bs) None, h') \<and>
    list_rep DL h' (first_ptr (as @ bs) None) (as @ bs) \<and> touches (set (as @ a # bs)) h h'"
proof (cases as rule: rev_cases)
  case Nil
  then show ?thesis using assms
    by (cases bs; cases "tl bs" rule: rev_cases) (auto simp: DL_DELETE_def list_rep_def touches_def)
next
  case (snoc cs c)
  then show ?thesis using assms
    by (cases cs; cases bs; cases "tl bs" rule: rev_cases) (auto simp: DL_DELETE_def list_rep_def touches_def)
qed

lemma DL_replace:
  assumes "list_rep DL h x (as @ a # bs)" and "alive h b" and "b \<notin> set (as @ a # bs)"
  shows "\<exists>h'. DL_REPLACE_ELEM x (Some a) (Some b) h = Some (first_ptr (as @ [b]) None, h') \<and>
    list_rep DL h' (first_ptr (as @ [b]) None) (as @ b # bs) \<and> touches (insert b (set (as @ a # bs))) h h'"
proof (cases as rule: rev_cases)
  case Nil
  then show ?thesis using assms
    by (cases bs; cases "tl bs" rule: rev_cases) (auto simp: DL_REPLACE_ELEM_def list_rep_def touches_def)
next
  case (snoc cs c)
  then show ?thesis using assms
    by (cases cs; cases bs; cases "tl bs" rule: rev_cases) (auto simp: DL_REPLACE_ELEM_def list_rep_def touches_def)
qed

lemma DL_prepend_elem:
  assumes "list_rep DL h x (as @ a # bs)" and "alive h b" and "b \<notin> set (as @ a # bs)"
  shows "\<exists>h'. DL_PREPEND_ELEM x (Some a) (Some b) h = Some (first_ptr (as @ [b]) None, h') \<and>
    list_rep DL h' (first_ptr (as @ [b]) None) (as @ b # a # bs) \<and> touches (insert b (set (as @ a # bs))) h h'"
proof (cases as rule: rev_cases)
  case Nil
  then show ?thesis using assms
    by (cases bs) (auto simp: DL_PREPEND_ELEM_def list_rep_def touches_def)
next
  case (snoc cs c)
  then show ?thesis using assms
    by (cases cs; cases bs) (auto simp: DL_PREPEND_ELEM_def list_rep_def touches_def)
qed

end
