(* ===== verification/Utlist_Ops.thy ===== *)
theory Utlist_Ops
  imports Utlist_Rep
begin

text \<open>
  The circular lists, and the interface that the three kinds of list share: an element put
  first, taken out, replaced, or put before another. Singly and doubly linked lists extend it with
  appending and concatenation.
\<close>

section \<open>Circular lists\<close>

lemma CDL_prepend:
  assumes "list_rep CDL h x as" and "alive h a" and "a \<notin> set as"
  shows "\<exists>h'. CDL_PREPEND x (Some a) h = Some (Some a, h') \<and> list_rep CDL h' (Some a) (a # as) \<and>
    touches (insert a (set as)) h h'"
  using assms by (cases as; cases "tl as" rule: rev_cases) (auto simp: CDL_PREPEND_def list_rep_def touches_def)

lemma CDL_delete:
  assumes "list_rep CDL h x (as @ a # bs)"
  shows "\<exists>h'. CDL_DELETE x (Some a) h = Some (first_ptr (as @ bs) None, h') \<and>
    list_rep CDL h' (first_ptr (as @ bs) None) (as @ bs) \<and> touches (set (as @ a # bs)) h h'"
proof (cases as rule: rev_cases)
  case Nil
  then show ?thesis using assms
    by (cases bs; cases "tl bs" rule: rev_cases) (auto simp: CDL_DELETE_def list_rep_def touches_def)
next
  case (snoc cs c)
  then show ?thesis using assms
    by (cases cs; cases bs; cases "tl bs" rule: rev_cases) (auto simp: CDL_DELETE_def list_rep_def touches_def)
qed

lemma CDL_replace:
  assumes "list_rep CDL h x (as @ a # bs)" and "alive h b" and "b \<notin> set (as @ a # bs)"
  shows "\<exists>h'. CDL_REPLACE_ELEM x (Some a) (Some b) h = Some (first_ptr (as @ [b]) None, h') \<and>
    list_rep CDL h' (first_ptr (as @ [b]) None) (as @ b # bs) \<and> touches (insert b (set (as @ a # bs))) h h'"
proof (cases as rule: rev_cases)
  case Nil
  then show ?thesis using assms
    by (cases bs; cases "tl bs" rule: rev_cases) (auto simp: CDL_REPLACE_ELEM_def list_rep_def touches_def)
next
  case (snoc cs c)
  then show ?thesis using assms
    by (cases cs; cases bs; cases "tl bs" rule: rev_cases) (auto simp: CDL_REPLACE_ELEM_def list_rep_def touches_def)
qed

lemma CDL_prepend_elem:
  assumes "list_rep CDL h x (as @ a # bs)" and "alive h b" and "b \<notin> set (as @ a # bs)"
  shows "\<exists>h'. CDL_PREPEND_ELEM x (Some a) (Some b) h = Some (first_ptr (as @ [b]) None, h') \<and>
    list_rep CDL h' (first_ptr (as @ [b]) None) (as @ b # a # bs) \<and> touches (insert b (set (as @ a # bs))) h h'"
proof (cases as rule: rev_cases)
  case Nil
  then show ?thesis using assms
    by (cases bs; cases "tl bs" rule: rev_cases) (auto simp: CDL_PREPEND_ELEM_def list_rep_def touches_def)
next
  case (snoc cs c)
  then show ?thesis using assms
    by (cases cs; cases bs; cases "tl bs" rule: rev_cases) (auto simp: CDL_PREPEND_ELEM_def list_rep_def touches_def)
qed

section \<open>The shared interface\<close>

locale linked_list =
  fixes rep :: "'e lheap \<Rightarrow> addr option \<Rightarrow> addr list \<Rightarrow> bool"
    and prepend delete :: "addr option \<Rightarrow> addr option \<Rightarrow> 'e lheap \<Rightarrow> 'e list_op"
    and replace before :: "addr option \<Rightarrow> addr option \<Rightarrow> addr option \<Rightarrow> 'e lheap \<Rightarrow> 'e list_op"
  assumes rep_empty: "rep h x [] \<longleftrightarrow> x = None"
    and rep_distinct: "rep h x as \<Longrightarrow> distinct as"
    and rep_alive: "rep h x as \<Longrightarrow> a \<in> set as \<Longrightarrow> alive h a"
    and rep_touches: "rep h x as \<Longrightarrow> touches M h h' \<Longrightarrow> M \<inter> set as = {} \<Longrightarrow> rep h' x as"
    and prepend: "rep h x as \<Longrightarrow> alive h a \<Longrightarrow> a \<notin> set as \<Longrightarrow>
      \<exists>h'. prepend x (Some a) h = Some (Some a, h') \<and> rep h' (Some a) (a # as) \<and> touches (insert a (set as)) h h'"
    and delete: "rep h x (as @ a # bs) \<Longrightarrow>
      \<exists>h'. delete x (Some a) h = Some (first_ptr (as @ bs) None, h') \<and> rep h' (first_ptr (as @ bs) None) (as @ bs) \<and>
        touches (set (as @ a # bs)) h h'"
    and replace: "rep h x (as @ a # bs) \<Longrightarrow> alive h b \<Longrightarrow> b \<notin> set (as @ a # bs) \<Longrightarrow>
      \<exists>h'. replace x (Some a) (Some b) h = Some (first_ptr (as @ [b]) None, h') \<and>
        rep h' (first_ptr (as @ [b]) None) (as @ b # bs) \<and> touches (insert b (set (as @ a # bs))) h h'"
    and before: "rep h x (as @ a # bs) \<Longrightarrow> alive h b \<Longrightarrow> b \<notin> set (as @ a # bs) \<Longrightarrow>
      \<exists>h'. before x (Some a) (Some b) h = Some (first_ptr (as @ [b]) None, h') \<and>
        rep h' (first_ptr (as @ [b]) None) (as @ b # a # bs) \<and> touches (insert b (set (as @ a # bs))) h h'"
begin

text \<open>Deleting by value: the list loses the element.\<close>

lemma delete_remove1:
  assumes "rep h x as" and "a \<in> set as"
  shows "\<exists>h'. delete x (Some a) h = Some (first_ptr (remove1 a as) None, h') \<and>
    rep h' (first_ptr (remove1 a as) None) (remove1 a as) \<and> touches (set as) h h'"
proof -
  obtain us vs where s: "as = us @ a # vs" using assms(2) by (meson split_list)
  then have "remove1 a as = us @ vs" using rep_distinct [OF assms(1)] by (simp add: remove1_append)
  then show ?thesis using delete [of h x us a vs] assms(1) s by simp
qed

text \<open>Putting an element first and taking it out again, and replacing in two steps.\<close>

lemma prepend_delete:
  assumes "rep h x as" and "alive h a" and "a \<notin> set as"
  shows "\<exists>h1 h2. prepend x (Some a) h = Some (Some a, h1) \<and> delete (Some a) (Some a) h1 = Some (first_ptr as None, h2) \<and>
    rep h2 (first_ptr as None) as \<and> touches (insert a (set as)) h h2"
proof -
  obtain h1 where h1: "prepend x (Some a) h = Some (Some a, h1)" "rep h1 (Some a) (a # as)" "touches (insert a (set as)) h h1"
    using prepend [OF assms] by blast
  obtain h2 where "delete (Some a) (Some a) h1 = Some (first_ptr as None, h2)" "rep h2 (first_ptr as None) as"
    "touches (insert a (set as)) h1 h2"
    using delete [of h1 "Some a" "[]" a as] h1(2) by auto
  then show ?thesis using h1 touches_trans by blast
qed

lemma before_delete:
  assumes "rep h x (as @ a # bs)" and "alive h b" and "b \<notin> set (as @ a # bs)"
  shows "\<exists>x1 h1 h2. before x (Some a) (Some b) h = Some (x1, h1) \<and>
    delete x1 (Some a) h1 = Some (first_ptr (as @ b # bs) None, h2) \<and>
    rep h2 (first_ptr (as @ b # bs) None) (as @ b # bs) \<and> touches (insert b (set (as @ a # bs))) h h2"
proof -
  obtain x1 h1 where h1: "before x (Some a) (Some b) h = Some (x1, h1)" "rep h1 x1 ((as @ [b]) @ a # bs)"
    "touches (insert b (set (as @ a # bs))) h h1"
    using before [OF assms] by auto
  have "set ((as @ [b]) @ a # bs) = insert b (set (as @ a # bs))" by auto
  then obtain h2 where "delete x1 (Some a) h1 = Some (first_ptr (as @ b # bs) None, h2)"
    "rep h2 (first_ptr (as @ b # bs) None) (as @ b # bs)" "touches (insert b (set (as @ a # bs))) h1 h2"
    using delete [OF h1(2)] by auto
  then show ?thesis using h1 touches_trans by blast
qed

text \<open>A list built by putting elements first.\<close>

fun prepend_all :: "addr option \<Rightarrow> addr list \<Rightarrow> 'e lheap \<Rightarrow> 'e list_op" where
  "prepend_all x [] h = Some (x, h)"
| "prepend_all x (a # as) h = (case prepend x (Some a) h of None \<Rightarrow> None | Some (x', h') \<Rightarrow> prepend_all x' as h')"

lemma prepend_all_rep:
  assumes "rep h x bs" and "\<forall>a\<in>set as. alive h a" and "distinct as" and "set as \<inter> set bs = {}"
  shows "\<exists>x' h'. prepend_all x as h = Some (x', h') \<and> rep h' x' (rev as @ bs)"
  using assms
proof (induction as arbitrary: x bs h)
  case (Cons a as)
  then obtain h1 where h1: "prepend x (Some a) h = Some (Some a, h1)" "rep h1 (Some a) (a # bs)" "alive h1 = alive h"
    using prepend [of h x bs a] by (auto simp: touches_def)
  then show ?case using Cons.IH [of h1 "Some a" "a # bs"] Cons.prems by auto
qed simp

end

locale queue_list = linked_list rep prepend delete replace before
  for rep :: "'e lheap \<Rightarrow> addr option \<Rightarrow> addr list \<Rightarrow> bool" and prepend delete replace before +
  fixes append :: "addr option \<Rightarrow> addr option \<Rightarrow> 'e lheap \<Rightarrow> 'e list_op"
    and concatenate :: "addr option \<Rightarrow> addr option \<Rightarrow> 'e lheap \<Rightarrow> 'e list_op"
  assumes append: "rep h x as \<Longrightarrow> alive h a \<Longrightarrow> a \<notin> set as \<Longrightarrow>
      \<exists>h'. append x (Some a) h = Some (first_ptr (as @ [a]) None, h') \<and> rep h' (first_ptr (as @ [a]) None) (as @ [a]) \<and>
        touches (insert a (set as)) h h'"
    and concatenate: "rep h x as \<Longrightarrow> rep h y bs \<Longrightarrow> set as \<inter> set bs = {} \<Longrightarrow>
      \<exists>h'. concatenate x y h = Some (first_ptr (as @ bs) None, h') \<and> rep h' (first_ptr (as @ bs) None) (as @ bs) \<and>
        touches (set as \<union> set bs) h h'"
begin

text \<open>A queue: what is appended is taken out first in, first out.\<close>

lemma append_delete_first:
  assumes "rep h x (b # bs)" and "alive h a" and "a \<notin> set (b # bs)"
  shows "\<exists>h1 h2. append x (Some a) h = Some (Some b, h1) \<and> delete (Some b) (Some b) h1 = Some (first_ptr (bs @ [a]) None, h2) \<and>
    rep h2 (first_ptr (bs @ [a]) None) (bs @ [a])"
proof -
  obtain h1 where h1: "append x (Some a) h = Some (Some b, h1)" "rep h1 (Some b) ((b # bs) @ [a])"
    using append [OF assms] by auto
  then show ?thesis using delete [of h1 "Some b" "[]" b "bs @ [a]"] by auto
qed

text \<open>Two lists at once: what is done to one leaves the other.\<close>

lemma append_other:
  assumes "rep h x as" and "rep h y bs" and "alive h a" and "a \<notin> set as \<union> set bs" and "set as \<inter> set bs = {}"
  shows "\<exists>x' h'. append x (Some a) h = Some (x', h') \<and> rep h' x' (as @ [a]) \<and> rep h' y bs"
proof -
  obtain x' h' where a: "append x (Some a) h = Some (x', h')" "rep h' x' (as @ [a])" "touches (insert a (set as)) h h'"
    using append [OF assms(1,3)] assms(4) by auto
  then show ?thesis using rep_touches [OF assms(2) a(3)] assms(4,5) by auto
qed

end

interpretation ll: queue_list "list_rep LL" LL_PREPEND LL_DELETE LL_REPLACE_ELEM LL_PREPEND_ELEM LL_APPEND LL_CONCAT
  by unfold_locales (rule list_rep_Nil list_rep_distinct list_rep_alive list_rep_touches LL_prepend LL_delete LL_replace
      LL_prepend_elem LL_append LL_concat; assumption)+

interpretation dl: queue_list "list_rep DL" DL_PREPEND DL_DELETE DL_REPLACE_ELEM DL_PREPEND_ELEM DL_APPEND DL_CONCAT
  by unfold_locales (rule list_rep_Nil list_rep_distinct list_rep_alive list_rep_touches DL_prepend DL_delete DL_replace
      DL_prepend_elem DL_append DL_concat; assumption)+

interpretation cdl: linked_list "list_rep CDL" CDL_PREPEND CDL_DELETE CDL_REPLACE_ELEM CDL_PREPEND_ELEM
  by unfold_locales (rule list_rep_Nil list_rep_distinct list_rep_alive list_rep_touches CDL_prepend CDL_delete CDL_replace
      CDL_prepend_elem; assumption)+

end
