(* ===== verification/Utlist_Iter.thy ===== *)
theory Utlist_Iter
  imports Utlist_Ops
begin

text \<open>
  The loops over a list: visiting every element, also while the list is taken apart, and
  searching. Then the versions of the macros for compilers without \<open>decltype\<close>.
\<close>

section \<open>Visiting and searching\<close>

lemma LL_FOREACH_seg:
  assumes "seg (lnext h) x as None" and "\<forall>a\<in>set as. alive h a"
  shows "LL_FOREACH body x h acc = Some (fold body as acc)"
  using assms
proof (induction as arbitrary: x acc)
  case (Cons a as)
  then show ?case by (subst LL_FOREACH.simps) simp
qed (simp add: LL_FOREACH.simps)

lemma LL_SEARCH_seg:
  assumes "seg (lnext h) x as None" and "\<forall>a\<in>set as. alive h a"
  shows "LL_SEARCH found x h = Some (find (\<lambda>a. found (item h a)) as)"
  using assms
proof (induction as arbitrary: x)
  case (Cons a as)
  then show ?case by (subst LL_SEARCH.simps) simp
qed (simp add: LL_SEARCH.simps)

lemma CDL_FOREACH_seg:
  assumes "seg (lnext h) (first_ptr as c) as c" and "\<forall>a\<in>set as. alive h a" and "c \<notin> Some ` set as"
  shows "CDL_FOREACH body c (first_ptr as None) h acc = Some (fold body as acc)"
  using assms
proof (induction as arbitrary: acc)
  case (Cons a as)
  have "lnext h a = first_ptr as c" "seg (lnext h) (first_ptr as c) as c"
    using Cons.prems(1) seg_first [of "lnext h" "lnext h a" as c] by auto
  then have "(if lnext h a = c then None else lnext h a) = first_ptr as None"
    using Cons.prems(3) by (cases as) auto
  then show ?case using Cons.prems Cons.IH [of "body a acc"] \<open>seg (lnext h) (first_ptr as c) as c\<close>
    by (subst CDL_FOREACH.simps) simp
qed (simp add: CDL_FOREACH.simps)

lemma CDL_SEARCH_seg:
  assumes "seg (lnext h) (first_ptr as c) as c" and "\<forall>a\<in>set as. alive h a" and "c \<notin> Some ` set as"
  shows "CDL_SEARCH found c (first_ptr as None) h = Some (find (\<lambda>a. found (item h a)) as)"
  using assms
proof (induction as)
  case (Cons a as)
  have "lnext h a = first_ptr as c" "seg (lnext h) (first_ptr as c) as c"
    using Cons.prems(1) seg_first [of "lnext h" "lnext h a" as c] by auto
  then have "(if lnext h a = c then None else lnext h a) = first_ptr as None"
    using Cons.prems(3) by (cases as) auto
  then show ?case using Cons.prems Cons.IH \<open>seg (lnext h) (first_ptr as c) as c\<close>
    by (subst CDL_SEARCH.simps) simp
qed (simp add: CDL_SEARCH.simps)

text \<open>In a circular list the first element is visited on entry, the others until it comes again.\<close>

lemma CDL_FOREACH_rep:
  assumes "list_rep CDL h x as"
  shows "CDL_FOREACH body x x h acc = Some (fold body as acc)"
proof (cases as)
  case Nil
  then show ?thesis using assms by (simp add: CDL_FOREACH.simps)
next
  case (Cons a bs)
  have s: "x = Some a" "alive h a" "seg (lnext h) (lnext h a) bs (Some a)" "\<forall>b\<in>set bs. alive h b" "a \<notin> set bs"
    using assms Cons by (auto simp: list_rep_def)
  have n: "(if lnext h a = Some a then None else lnext h a) = first_ptr bs None"
    using s(3,5) by (cases bs) auto
  have "CDL_FOREACH body x x h acc =
      CDL_FOREACH body (Some a) (if lnext h a = Some a then None else lnext h a) h (body a acc)"
    using s(1,2) by (subst CDL_FOREACH.simps) simp
  also have "\<dots> = Some (fold body bs (body a acc))"
    unfolding n by (rule CDL_FOREACH_seg) (use s seg_at in auto)
  finally show ?thesis using Cons by simp
qed

lemma CDL_SEARCH_rep:
  assumes "list_rep CDL h x as"
  shows "CDL_SEARCH found x x h = Some (find (\<lambda>a. found (item h a)) as)"
proof (cases as)
  case Nil
  then show ?thesis using assms by (simp add: CDL_SEARCH.simps)
next
  case (Cons a bs)
  have s: "x = Some a" "alive h a" "seg (lnext h) (lnext h a) bs (Some a)" "\<forall>b\<in>set bs. alive h b" "a \<notin> set bs"
    using assms Cons by (auto simp: list_rep_def)
  have n: "(if lnext h a = Some a then None else lnext h a) = first_ptr bs None"
    using s(3,5) by (cases bs) auto
  have "CDL_SEARCH found x x h = (if found (item h a) then Some (Some a)
      else CDL_SEARCH found (Some a) (if lnext h a = Some a then None else lnext h a) h)"
    using s(1,2) by (subst CDL_SEARCH.simps) simp
  also have "CDL_SEARCH found (Some a) (if lnext h a = Some a then None else lnext h a) h =
      Some (find (\<lambda>a. found (item h a)) bs)"
    unfolding n by (rule CDL_SEARCH_seg) (use s seg_at in auto)
  finally show ?thesis using Cons by simp
qed

lemma LL_FOREACH_rep: "list_rep kind h x as \<Longrightarrow> kind \<noteq> CDL \<Longrightarrow> LL_FOREACH body x h acc = Some (fold body as acc)"
  by (rule LL_FOREACH_seg) (auto simp: list_rep_def)

lemma LL_SEARCH_rep: "list_rep kind h x as \<Longrightarrow> kind \<noteq> CDL \<Longrightarrow> LL_SEARCH found x h = Some (find (\<lambda>a. found (item h a)) as)"
  by (rule LL_SEARCH_seg) (auto simp: list_rep_def)

section \<open>Visiting while the list changes\<close>

text \<open>The safe loops fetch the next element before the body runs. \<open>P\<close> relates the elements that
  are left to the state.\<close>

lemma FOREACH_SAFE_rule:
  assumes "P as s"
    and "\<And>a bs s. P (a # bs) s \<Longrightarrow> rd lnext (Some a) (snd s) = Some (first_ptr bs None) \<and> (\<exists>s'. body a s = Some s' \<and> P bs s')"
  shows "\<exists>s'. LL_FOREACH_SAFE body (first_ptr as None) s = Some s' \<and> P [] s'"
  using assms(1)
proof (induction as arbitrary: s)
  case Nil
  then show ?case by (simp add: LL_FOREACH_SAFE.simps)
next
  case (Cons a as)
  obtain s1 where s1: "rd lnext (Some a) (snd s) = Some (first_ptr as None)" "body a s = Some s1" "P as s1"
    using assms(2) [OF Cons.prems] by blast
  show ?case using Cons.IH [OF s1(3)] s1(1,2) by (subst LL_FOREACH_SAFE.simps) simp
qed

lemma CDL_FOREACH_SAFE_rule:
  assumes "P (as @ [z]) s" and "distinct (as @ [z])"
    and "\<And>a bs s. P (a # bs) s \<Longrightarrow> (\<exists>n. rd lnext (Some a) (snd s) = Some n \<and> (bs \<noteq> [] \<longrightarrow> n = first_ptr bs None)) \<and>
      (\<exists>s'. body a s = Some s' \<and> P bs s')"
  shows "\<exists>s'. CDL_FOREACH_SAFE_loop body (Some z) (first_ptr (as @ [z]) None) s = Some s' \<and> P [] s'"
  using assms(1,2)
proof (induction as arbitrary: s)
  case Nil
  then obtain n s1 where "rd lnext (Some z) (snd s) = Some n" "body z s = Some s1" "P [] s1"
    using assms(3) [of z "[]" s] by auto
  then show ?case by (subst CDL_FOREACH_SAFE_loop.simps) (simp add: CDL_FOREACH_SAFE_loop.simps)
next
  case (Cons a as)
  obtain s1 where s1: "rd lnext (Some a) (snd s) = Some (first_ptr (as @ [z]) None)" "body a s = Some s1" "P (as @ [z]) s1"
    using assms(3) [of a "as @ [z]" s] Cons.prems(1) by auto
  have "Some a \<noteq> Some z" "distinct (as @ [z])" using Cons.prems(2) by auto
  then show ?case using Cons.IH [OF s1(3)] s1(1,2) by (subst CDL_FOREACH_SAFE_loop.simps) simp
qed

text \<open>Emptying a list by deleting every element that is visited.\<close>

lemma LL_delete_all:
  assumes "list_rep LL h x as"
  shows "\<exists>h'. LL_FOREACH_SAFE (\<lambda>a (x, h). LL_DELETE x (Some a) h) x (x, h) = Some (None, h')"
proof -
  have "\<exists>s'. LL_FOREACH_SAFE (\<lambda>a (x, h). LL_DELETE x (Some a) h) (first_ptr as None) (x, h) = Some s' \<and>
      list_rep LL (snd s') (fst s') []"
  proof (rule FOREACH_SAFE_rule [where P = "\<lambda>bs s. list_rep LL (snd s) (fst s) bs"])
    fix a :: addr and bs and s :: "addr option \<times> 'a lheap"
    assume r: "list_rep LL (snd s) (fst s) (a # bs)"
    then have "rd lnext (Some a) (snd s) = Some (first_ptr bs None)" by (auto simp: list_rep_def dest: seg_first)
    then show "rd lnext (Some a) (snd s) = Some (first_ptr bs None) \<and>
        (\<exists>s'. (case s of (x, h) \<Rightarrow> LL_DELETE x (Some a) h) = Some s' \<and> list_rep LL (snd s') (fst s') bs)"
      using ll.delete_remove1 [OF r, of a] by (auto simp: case_prod_unfold)
  qed (use assms in simp)
  then show ?thesis using list_rep_first [OF assms] by auto
qed

lemma DL_delete_all:
  assumes "list_rep DL h x as"
  shows "\<exists>h'. LL_FOREACH_SAFE (\<lambda>a (x, h). DL_DELETE x (Some a) h) x (x, h) = Some (None, h')"
proof -
  have "\<exists>s'. LL_FOREACH_SAFE (\<lambda>a (x, h). DL_DELETE x (Some a) h) (first_ptr as None) (x, h) = Some s' \<and>
      list_rep DL (snd s') (fst s') []"
  proof (rule FOREACH_SAFE_rule [where P = "\<lambda>bs s. list_rep DL (snd s) (fst s) bs"])
    fix a :: addr and bs and s :: "addr option \<times> 'a lheap"
    assume r: "list_rep DL (snd s) (fst s) (a # bs)"
    then have "rd lnext (Some a) (snd s) = Some (first_ptr bs None)" by (auto simp: list_rep_def dest: seg_first)
    then show "rd lnext (Some a) (snd s) = Some (first_ptr bs None) \<and>
        (\<exists>s'. (case s of (x, h) \<Rightarrow> DL_DELETE x (Some a) h) = Some s' \<and> list_rep DL (snd s') (fst s') bs)"
      using dl.delete_remove1 [OF r, of a] by (auto simp: case_prod_unfold)
  qed (use assms in simp)
  then show ?thesis using list_rep_first [OF assms] by auto
qed

lemma CDL_delete_all:
  assumes "list_rep CDL h x as"
  shows "\<exists>h'. CDL_FOREACH_SAFE (\<lambda>a (x, h). CDL_DELETE x (Some a) h) x (x, h) = Some (None, h')"
proof (cases as rule: rev_cases)
  case Nil
  then show ?thesis using assms by (simp add: CDL_FOREACH_SAFE_def CDL_FOREACH_SAFE_loop.simps)
next
  case (snoc bs z)
  have "\<exists>s'. CDL_FOREACH_SAFE_loop (\<lambda>a (x, h). CDL_DELETE x (Some a) h) (Some z) (first_ptr (bs @ [z]) None) (x, h) = Some s' \<and>
      list_rep CDL (snd s') (fst s') []"
  proof (rule CDL_FOREACH_SAFE_rule [where P = "\<lambda>bs s. list_rep CDL (snd s) (fst s) bs"])
    fix a :: addr and bs and s :: "addr option \<times> 'a lheap"
    assume r: "list_rep CDL (snd s) (fst s) (a # bs)"
    then have "\<exists>n. rd lnext (Some a) (snd s) = Some n \<and> (bs \<noteq> [] \<longrightarrow> n = first_ptr bs None)"
      by (cases bs) (auto simp: list_rep_def)
    then show "(\<exists>n. rd lnext (Some a) (snd s) = Some n \<and> (bs \<noteq> [] \<longrightarrow> n = first_ptr bs None)) \<and>
        (\<exists>s'. (case s of (x, h) \<Rightarrow> CDL_DELETE x (Some a) h) = Some s' \<and> list_rep CDL (snd s') (fst s') bs)"
      using cdl.delete_remove1 [OF r, of a] by (auto simp: case_prod_unfold)
  qed (use assms snoc list_rep_distinct [OF assms] in simp_all)
  moreover have "x \<noteq> None" "rd lprev x h = Some (Some z)" "x = first_ptr (bs @ [z]) None"
    using assms snoc by (cases bs; auto simp: list_rep_def)+
  ultimately show ?thesis by (auto simp: CDL_FOREACH_SAFE_def)
qed

section \<open>Without decltype\<close>

lemma LL_APPEND_VS2008_while_run:
  assumes "seg (lnext h) (Some b) (b # bs) None" and "\<forall>c\<in>set (b # bs). alive h c" and "alive h a" and "a \<notin> set (b # bs)"
  shows "LL_APPEND_VS2008_while (Some a) (h\<lparr>lnext := (lnext h)(a := Some b)\<rparr>) =
    Some (h\<lparr>lnext := (lnext h)(a := Some (last (b # bs)))\<rparr>)"
  using assms
proof (induction bs arbitrary: b)
  case Nil
  then show ?case by (subst LL_APPEND_VS2008_while.simps) simp
next
  case (Cons c bs)
  have "LL_APPEND_VS2008_while (Some a) (h\<lparr>lnext := (lnext h)(a := Some b)\<rparr>) =
      LL_APPEND_VS2008_while (Some a) (h\<lparr>lnext := (lnext h)(a := Some c)\<rparr>)"
    using Cons.prems by (subst LL_APPEND_VS2008_while.simps) simp
  also have "\<dots> = Some (h\<lparr>lnext := (lnext h)(a := Some (last (c # bs)))\<rparr>)" using Cons.prems by (intro Cons.IH) simp_all
  also have "last (c # bs) = last (b # c # bs)" by simp
  finally show ?case .
qed

lemma LL_APPEND_VS2008_eq:
  assumes "list_rep LL h x as" and "alive h a" and "a \<notin> set as"
  shows "LL_APPEND_VS2008 x (Some a) h = LL_APPEND x (Some a) h"
proof (cases as)
  case Nil
  then show ?thesis using assms by (simp add: LL_APPEND_VS2008_def LL_APPEND_def)
next
  case (Cons b bs)
  let ?h = "h\<lparr>lnext := (lnext h)(a := None)\<rparr>"
  have s: "seg (lnext h) (Some b) (b # bs) None" "\<forall>c\<in>set (b # bs). alive h c" "a \<notin> set (b # bs)" "x = Some b"
    using assms Cons by (simp_all add: list_rep_def)
  then have "LL_last x ?h = Some (Some (last (b # bs)))" by (intro LL_last_run) simp_all
  moreover have "a \<noteq> last (b # bs)" "alive h (last (b # bs))" using s(2,3) last_in_set [of "b # bs"] by fastforce+
  ultimately show ?thesis using LL_APPEND_VS2008_while_run [OF s(1,2) assms(2) s(3)] s(4) assms(2)
    by (simp add: LL_APPEND_VS2008_def LL_APPEND_def fun_upd_twist)
qed

lemma LL_DELETE_VS2008_eq: "LL_DELETE_VS2008 x del h = LL_DELETE x del h"
  by (auto simp: LL_DELETE_VS2008_def LL_DELETE_def Let_def split: option.splits bind_splits)

end
