(* ===== verification/Utlist_Sort.thy ===== *)
theory Utlist_Sort
  imports Utlist_Ops Uthash_Msort
begin

text \<open>
  \<open>LL_SORT2\<close>, \<open>DL_SORT2\<close> and \<open>CDL_SORT2\<close> of utlist.h. The three macros are the same lines, except
  that the first does not write back pointers and the last recognises the end of the list by
  the old head instead of NULL, and closes the circle after every pass; the kind of list is an
  argument here. \<open>cmp\<close> orders the contents of two elements. The pointers are those of the
  code: \<open>p\<close> and \<open>q\<close>, the first elements of the two runs being merged, \<open>list\<close> and \<open>tail\<close>, the
  ends of the list built so far.
\<close>

section \<open>The code\<close>

text \<open>The next element, which in a circular list is none after the last one.\<close>

definition SORT_next :: "list_kind \<Rightarrow> addr option \<Rightarrow> 'e lheap \<Rightarrow> addr \<Rightarrow> addr option" where
  "SORT_next kind oldhead h a = (if kind = CDL \<and> lnext h a = oldhead then None else lnext h a)"

fun SORT_for :: "list_kind \<Rightarrow> addr option \<Rightarrow> nat \<Rightarrow> addr option \<Rightarrow> nat \<Rightarrow> 'e lheap \<Rightarrow> (addr option \<times> nat) option" where
  "SORT_for kind oldhead 0 q psize h = Some (q, psize)"
| "SORT_for kind oldhead (Suc k) q psize h = (case q of None \<Rightarrow> None
     | Some a \<Rightarrow> if \<not> alive h a then None
         else (case SORT_next kind oldhead h a of
               None \<Rightarrow> Some (None, psize + 1)
             | Some b \<Rightarrow> SORT_for kind oldhead k (Some b) (psize + 1) h))"

text \<open>Whether the next element is taken from the first run.\<close>

definition SORT_pick :: "('e \<Rightarrow> 'e \<Rightarrow> int) \<Rightarrow> addr option \<Rightarrow> nat \<Rightarrow> addr option \<Rightarrow> nat \<Rightarrow> 'e lheap \<Rightarrow> bool option" where
  "SORT_pick cmp p psize q qsize h =
     (if psize = 0 then Some False
      else if qsize = 0 \<or> q = None then Some True
      else do { x \<leftarrow> rd item p h; y \<leftarrow> rd item q h; Some (cmp x y \<le> 0) })"

definition SORT_append :: "list_kind \<Rightarrow> addr \<Rightarrow> addr option \<Rightarrow> addr option \<Rightarrow> 'e lheap \<Rightarrow> 'e list_op" where
  "SORT_append kind e list tailp h = do {
     h \<leftarrow> (if tailp \<noteq> None then set_next tailp (Some e) h else Some h);
     let list = (if tailp \<noteq> None then list else Some e);
     h \<leftarrow> (if kind = LL then Some h else set_prev (Some e) tailp h);
     Some (list, h) }"

partial_function (option) SORT_merge :: "list_kind \<Rightarrow> ('e \<Rightarrow> 'e \<Rightarrow> int) \<Rightarrow> addr option \<Rightarrow> addr option \<Rightarrow> nat \<Rightarrow> addr option \<Rightarrow> nat \<Rightarrow>
    addr option \<Rightarrow> addr option \<Rightarrow> 'e lheap \<Rightarrow> (addr option \<times> addr option \<times> addr option \<times> 'e lheap) option" where
  "SORT_merge kind cmp oldhead p psize q qsize list tailp h =
     (if 0 < psize \<or> (0 < qsize \<and> q \<noteq> None)
      then (case SORT_pick cmp p psize q qsize h of None \<Rightarrow> None
        | Some fromp \<Rightarrow> (case (if fromp then p else q) of None \<Rightarrow> None
          | Some e \<Rightarrow> if \<not> alive h e then None
              else (case SORT_append kind e list tailp h of None \<Rightarrow> None
                | Some (list', h') \<Rightarrow>
                    if fromp then SORT_merge kind cmp oldhead (SORT_next kind oldhead h e) (psize - 1) q qsize list' (Some e) h'
                    else SORT_merge kind cmp oldhead p psize (SORT_next kind oldhead h e) (qsize - 1) list' (Some e) h')))
      else Some (q, list, tailp, h))"

partial_function (option) SORT_while :: "list_kind \<Rightarrow> ('e \<Rightarrow> 'e \<Rightarrow> int) \<Rightarrow> addr option \<Rightarrow> nat \<Rightarrow> addr option \<Rightarrow> nat \<Rightarrow>
    addr option \<Rightarrow> addr option \<Rightarrow> 'e lheap \<Rightarrow> (nat \<times> addr option \<times> addr option \<times> 'e lheap) option" where
  "SORT_while kind cmp oldhead insize p nmerges list tailp h = (case p of
       None \<Rightarrow> Some (nmerges, list, tailp, h)
     | Some _ \<Rightarrow> (case SORT_for kind oldhead insize p 0 h of None \<Rightarrow> None
         | Some (q, psize) \<Rightarrow> (case SORT_merge kind cmp oldhead p psize q insize list tailp h of None \<Rightarrow> None
             | Some (q', list', tailp', h') \<Rightarrow> SORT_while kind cmp oldhead insize q' (nmerges + 1) list' tailp' h')))"

text \<open>The ends of the list after a pass.\<close>

definition SORT_close :: "list_kind \<Rightarrow> addr option \<Rightarrow> addr option \<Rightarrow> 'e lheap \<Rightarrow> 'e lheap option" where
  "SORT_close kind list tailp h = do {
     h \<leftarrow> (if kind = LL then Some h else set_prev list tailp h);
     set_next tailp (if kind = CDL then list else None) h }"

partial_function (option) SORT_loop :: "list_kind \<Rightarrow> ('e \<Rightarrow> 'e \<Rightarrow> int) \<Rightarrow> nat \<Rightarrow> addr option \<Rightarrow> 'e lheap \<Rightarrow> 'e list_op" where
  "SORT_loop kind cmp insize list h = (case SORT_while kind cmp list insize list 0 None None h of None \<Rightarrow> None
     | Some (nmerges, list', tailp', h') \<Rightarrow> (case SORT_close kind list' tailp' h' of None \<Rightarrow> None
         | Some h'' \<Rightarrow> if nmerges \<le> 1 then Some (list', h'') else SORT_loop kind cmp (insize * 2) list' h''))"

definition list_sort :: "list_kind \<Rightarrow> ('e \<Rightarrow> 'e \<Rightarrow> int) \<Rightarrow> addr option \<Rightarrow> 'e lheap \<Rightarrow> 'e list_op" where
  "list_sort kind cmp list h = (if list \<noteq> None then SORT_loop kind cmp 1 list h else Some (list, h))"

definition LL_SORT :: "('e \<Rightarrow> 'e \<Rightarrow> int) \<Rightarrow> addr option \<Rightarrow> 'e lheap \<Rightarrow> 'e list_op" where
  "LL_SORT = list_sort LL"

definition DL_SORT :: "('e \<Rightarrow> 'e \<Rightarrow> int) \<Rightarrow> addr option \<Rightarrow> 'e lheap \<Rightarrow> 'e list_op" where
  "DL_SORT = list_sort DL"

definition CDL_SORT :: "('e \<Rightarrow> 'e \<Rightarrow> int) \<Rightarrow> addr option \<Rightarrow> 'e lheap \<Rightarrow> 'e list_op" where
  "CDL_SORT = list_sort CDL"

section \<open>The list built so far\<close>

text \<open>
  \<open>chained kind h l D\<close>: the elements \<open>D\<close> are linked from \<open>l\<close>; where the last one points to, and the
  back pointer of the first, do not matter yet.
\<close>

definition chained :: "list_kind \<Rightarrow> 'e lheap \<Rightarrow> addr option \<Rightarrow> addr list \<Rightarrow> bool" where
  "chained kind h l D \<longleftrightarrow> (if D = [] then l = None
     else seg (lnext h) l (butlast D) (Some (last D)) \<and> (kind \<noteq> LL \<longrightarrow> backs (lprev h) None D))"

lemma chained_Nil [simp]: "chained kind h l [] \<longleftrightarrow> l = None"
  by (simp add: chained_def)

lemma sort_append_run:
  assumes "chained kind h l D" and "distinct (D @ [e])" and "\<forall>a\<in>set (D @ [e]). alive h a"
  shows "\<exists>l' h'. SORT_append kind e l (last_ptr None D) h = Some (l', h') \<and> touches (set (D @ [e])) h h' \<and>
    chained kind h' l' (D @ [e]) \<and> (\<forall>a. a \<notin> set D \<longrightarrow> lnext h' a = lnext h a)"
proof (cases D rule: rev_cases)
  case Nil
  then show ?thesis using assms by (auto simp: SORT_append_def chained_def touches_def)
next
  case (snoc cs c)
  then show ?thesis using assms by (auto simp: SORT_append_def chained_def touches_def butlast_append)
qed

section \<open>Merging two runs\<close>

lemma seg_walk: "seg nx x (as @ bs) q \<Longrightarrow> walk nx x as"
  by (induction as arbitrary: x) auto

lemma seg_drop: "seg nx x as None \<Longrightarrow> seg nx (first_ptr (drop n as) None) (drop n as) None"
  by (metis append_take_drop_id seg_append)

text \<open>The comparison orders the elements \<open>M\<close> by a key \<open>f\<close> of their addresses.\<close>

definition orders :: "('e \<Rightarrow> 'e \<Rightarrow> int) \<Rightarrow> (addr \<Rightarrow> 'k::linorder) \<Rightarrow> 'e lheap \<Rightarrow> addr set \<Rightarrow> bool" where
  "orders cmp f h M \<longleftrightarrow> (\<forall>a\<in>M. alive h a) \<and> (\<forall>a\<in>M. \<forall>b\<in>M. (cmp (item h a) (item h b) \<le> 0) = (f a \<le> f b))"

lemma orders_touches: "orders cmp f h M \<Longrightarrow> touches N h h' \<Longrightarrow> orders cmp f h' M"
  by (simp add: orders_def touches_def)

lemma sort_pick_run:
  assumes "orders cmp f h M" and "set (P @ Q) \<subseteq> M" and "walk nx p P" and "seg nx q Q None"
    and "P \<noteq> [] \<or> (0 < m \<and> Q \<noteq> [])"
  shows "SORT_pick cmp p (length P) q m h = Some (P \<noteq> [] \<and> (m = 0 \<or> Q = [] \<or> f (hd P) \<le> f (hd Q)))"
  using assms by (cases P; cases Q) (auto simp: SORT_pick_def orders_def)

lemma sort_merge_run:
  assumes "orders cmp f h (set (D @ P @ Q))" and "distinct (D @ P @ Q)" and "chained kind h l D"
    and "walk (SORT_next kind old h) p P" and "seg (SORT_next kind old h) q Q None"
  shows "\<exists>l' h'. SORT_merge kind cmp old p (length P) q m l (last_ptr None D) h =
      Some (first_ptr (drop m Q) None, l', last_ptr None (D @ merge_by f P (take m Q)), h') \<and>
    touches (set (D @ P @ Q)) h h' \<and> chained kind h' l' (D @ merge_by f P (take m Q)) \<and>
    seg (SORT_next kind old h') (first_ptr (drop m Q) None) (drop m Q) None"
  using assms
proof (induction "length P + length (take m Q)" arbitrary: p P q m Q l D h)
  case 0
  then have e: "P = []" "take m Q = []" by (auto simp: min_def split: if_splits)
  then have "m = 0 \<or> Q = []" by auto
  then have "\<not> (0 < m \<and> q \<noteq> None)" "drop m Q = Q" using "0.prems"(5) by auto
  then show ?case using e "0.prems"(3,5) seg_first [OF "0.prems"(5)] touches_refl
    by (subst SORT_merge.simps) auto
next
  case (Suc k)
  let ?nx = "SORT_next kind old h" and ?R = "take m Q"
  have ne: "P \<noteq> [] \<or> (0 < m \<and> Q \<noteq> [])" using Suc.hyps(2) by (cases P; cases m; cases Q) auto
  have go: "0 < length P \<or> (0 < m \<and> q \<noteq> None)" using ne Suc.prems(5) by (cases Q) auto
  define fromp where "fromp \<longleftrightarrow> P \<noteq> [] \<and> (m = 0 \<or> Q = [] \<or> f (hd P) \<le> f (hd Q))"
  have pick: "SORT_pick cmp p (length P) q m h = Some fromp"
    unfolding fromp_def using sort_pick_run [OF Suc.prems(1) _ Suc.prems(4,5) ne] by simp
  define e where "e = (if fromp then hd P else hd Q)"
  have fe: "(if fromp then p else q) = Some e"
    using ne Suc.prems(4,5) unfolding e_def fromp_def by (cases P; cases Q) auto
  have ein: "e \<in> set (P @ Q)" using ne unfolding e_def fromp_def by (cases P; cases Q) auto
  then have al: "alive h e" using Suc.prems(1) by (auto simp: orders_def)
  have "distinct (D @ [e])" "\<forall>a\<in>set (D @ [e]). alive h a" using Suc.prems(1,2) ein by (auto simp: orders_def)
  from sort_append_run [OF Suc.prems(3) this] obtain l1 h1 where
    ap: "SORT_append kind e l (last_ptr None D) h = Some (l1, h1)" "touches (set (D @ [e])) h h1" "chained kind h1 l1 (D @ [e])"
    and nx: "\<And>a. a \<notin> set D \<Longrightarrow> SORT_next kind old h1 a = ?nx a"
    by (auto simp: SORT_next_def)
  let ?P = "if fromp then tl P else P" and ?Q = "if fromp then Q else tl Q" and ?m = "if fromp then m else m - 1"
  have Rne: "\<not> fromp \<Longrightarrow> 0 < m \<and> Q \<noteq> []" using ne unfolding fromp_def by auto
  have Q: "\<not> fromp \<Longrightarrow> Q = e # tl Q" and P: "fromp \<Longrightarrow> P = e # tl P"
    using Rne unfolding e_def fromp_def by auto
  have mb: "D @ merge_by f P ?R = (D @ [e]) @ merge_by f ?P (take ?m ?Q)" and dr: "drop ?m ?Q = drop m Q"
    using merge_by_step [OF ne, of f] Rne unfolding e_def fromp_def by (auto simp: drop_Suc dest!: gr0_implies_Suc)
  have sz: "k = length ?P + length (take ?m ?Q)"
    using Suc.hyps(2) P Q Rne by (cases fromp; cases P; cases Q; cases m) auto
  have "fromp \<Longrightarrow> mset P = add_mset e (mset (tl P))" "\<not> fromp \<Longrightarrow> mset Q = add_mset e (mset (tl Q))"
    using P Q by (metis mset.simps(2))+
  then have "mset ((D @ [e]) @ ?P @ ?Q) = mset (D @ P @ Q)" by (cases fromp) simp_all
  then have sub: "set ((D @ [e]) @ ?P @ ?Q) = set (D @ P @ Q)" "distinct ((D @ [e]) @ ?P @ ?Q)"
    using Suc.prems(2) by (metis mset_eq_setD, metis mset_eq_imp_distinct_iff)
  have walk': "walk (SORT_next kind old h1) (if fromp then ?nx e else p) ?P"
  proof (rule walk_cong)
    show "walk ?nx (if fromp then ?nx e else p) ?P" using Suc.prems(4) P by (cases fromp; cases P) auto
    show "SORT_next kind old h1 a = ?nx a" if "a \<in> set ?P" for a
      using that Suc.prems(2) by (intro nx) (cases P; auto split: if_splits)
  qed
  have path': "seg (SORT_next kind old h1) (if fromp then q else ?nx e) ?Q None"
  proof -
    have "seg ?nx (if fromp then q else ?nx e) ?Q None" using Suc.prems(5) Q by (cases fromp; cases Q) auto
    moreover have "SORT_next kind old h1 a = ?nx a" if "a \<in> set ?Q" for a
      using that Suc.prems(2) by (intro nx) (cases Q; auto split: if_splits)
    ultimately show ?thesis using seg_cong [of ?Q "SORT_next kind old h1" ?nx] by blast
  qed
  have "orders cmp f h1 (set ((D @ [e]) @ ?P @ ?Q))" unfolding sub(1) by (rule orders_touches [OF Suc.prems(1) ap(2)])
  from Suc.hyps(1) [OF sz this sub(2) ap(3) walk' path'] obtain l' h' where
    ih: "SORT_merge kind cmp old (if fromp then ?nx e else p) (length ?P) (if fromp then q else ?nx e) ?m l1 (Some e) h1 =
      Some (first_ptr (drop m Q) None, l', last_ptr None (D @ merge_by f P ?R), h')" "touches (set (D @ P @ Q)) h1 h'"
    "chained kind h' l' (D @ merge_by f P ?R)" "seg (SORT_next kind old h') (first_ptr (drop m Q) None) (drop m Q) None"
    unfolding mb dr sub(1) by auto
  have "SORT_merge kind cmp old p (length P) q m l (last_ptr None D) h =
      Some (first_ptr (drop m Q) None, l', last_ptr None (D @ merge_by f P ?R), h')"
    using ih(1) go fe al ap(1) pick by (subst SORT_merge.simps) (cases fromp; simp)
  moreover have "touches (set (D @ P @ Q)) h h'"
    by (rule touches_trans [OF touches_mono [OF ap(2)] ih(2)]) (use ein in auto)
  ultimately show ?case using ih(3,4) by blast
qed

section \<open>A pass\<close>

lemma sort_for_run:
  assumes "seg (SORT_next kind old h) (first_ptr L None) L None" and "\<forall>a\<in>set L. alive h a" and "L \<noteq> []"
  shows "SORT_for kind old k (first_ptr L None) psize h = Some (first_ptr (drop k L) None, psize + length (take k L))"
  using assms
proof (induction k arbitrary: L psize)
  case (Suc k)
  then obtain a as where L: "L = a # as" by (cases L) auto
  have nn: "SORT_next kind old h a = first_ptr as None" "seg (SORT_next kind old h) (first_ptr as None) as None"
    using Suc.prems(1) L seg_first [of "SORT_next kind old h" "SORT_next kind old h a" as None] by auto
  show ?case
  proof (cases as)
    case Nil
    then show ?thesis using L nn Suc.prems(2) by simp
  next
    case (Cons b bs)
    have "\<forall>a\<in>set as. alive h a" "as \<noteq> []" using Suc.prems(2) L Cons by auto
    from Suc.IH [OF nn(2) this, of "psize + 1"] show ?thesis using L nn(1) Suc.prems(2) Cons by simp
  qed
qed (cases L; simp)

lemma sort_while_run:
  assumes "orders cmp f h (set (D @ L))" and "distinct (D @ L)" and "chained kind h l D"
    and "seg (SORT_next kind old h) (first_ptr L None) L None" and "0 < n"
  shows "\<exists>l' h'. SORT_while kind cmp old n (first_ptr L None) nm l (last_ptr None D) h =
      Some (nm + merges n L, l', last_ptr None (D @ merge_pass f n L), h') \<and>
    touches (set (D @ L)) h h' \<and> chained kind h' l' (D @ merge_pass f n L)"
  using assms
proof (induction "length L" arbitrary: L D l h nm rule: less_induct)
  case less
  show ?case
  proof (cases "L = []")
    case True
    then show ?thesis using less.prems(3) touches_refl by (subst SORT_while.simps) auto
  next
    case False
    let ?P = "take n L" and ?Q = "drop n L"
    let ?M = "merge_by f ?P (take n ?Q)" and ?L = "drop n (drop n L)"
    have L: "L = ?P @ ?Q" by simp
    have al: "\<forall>a\<in>set L. alive h a" using less.prems(1) by (auto simp: orders_def)
    have fr: "SORT_for kind old n (first_ptr L None) 0 h = Some (first_ptr ?Q None, length ?P)"
      using sort_for_run [OF less.prems(4) al False, of n 0] by simp
    have w: "walk (SORT_next kind old h) (first_ptr L None) ?P" "seg (SORT_next kind old h) (first_ptr ?Q None) ?Q None"
      using less.prems(4) L seg_walk seg_drop by metis+
    have c: "orders cmp f h (set (D @ ?P @ ?Q))" "distinct (D @ ?P @ ?Q)" using less.prems(1,2) L by metis+
    obtain l1 h1 where h1: "SORT_merge kind cmp old (first_ptr L None) (length ?P) (first_ptr ?Q None) n l (last_ptr None D) h =
        Some (first_ptr ?L None, l1, last_ptr None (D @ ?M), h1)"
      "touches (set (D @ L)) h h1" "chained kind h1 l1 (D @ ?M)" "seg (SORT_next kind old h1) (first_ptr ?L None) ?L None"
      using sort_merge_run [OF c less.prems(3) w, of n] L by auto
    have "mset ((D @ ?M) @ ?L) = mset (D @ L)"
    proof -
      have "mset ?P + (mset (take n ?Q) + mset ?L) = mset (?P @ take n ?Q @ ?L)" by simp
      also have "\<dots> = mset L" by (metis append_take_drop_id)
      finally show ?thesis by (simp add: add.assoc)
    qed
    then have sub: "set ((D @ ?M) @ ?L) = set (D @ L)" "distinct ((D @ ?M) @ ?L)"
      using less.prems(2) by (metis mset_eq_setD, metis mset_eq_imp_distinct_iff)
    have "orders cmp f h1 (set ((D @ ?M) @ ?L))"
      unfolding sub(1) by (rule orders_touches [OF less.prems(1) h1(2)])
    moreover have "length ?L < length L" using False less.prems(5) by (cases L) auto
    ultimately obtain l' h' where ih: "SORT_while kind cmp old n (first_ptr ?L None) (nm + 1) l1 (last_ptr None (D @ ?M)) h1 =
        Some (nm + 1 + merges n ?L, l', last_ptr None ((D @ ?M) @ merge_pass f n ?L), h')" "touches (set (D @ L)) h1 h'"
      "chained kind h' l' ((D @ ?M) @ merge_pass f n ?L)"
      using less.hyps [OF _ _ sub(2) h1(3,4) less.prems(5), of "nm + 1"] unfolding sub(1) by blast
    have mp: "merge_pass f n L = ?M @ merge_pass f n ?L" "merges n L = Suc (merges n ?L)"
      using False less.prems(5) by (simp_all add: merge_pass.simps [of f n L] merges.simps [of n L])
    have "SORT_while kind cmp old n (first_ptr L None) nm l (last_ptr None D) h =
        Some (nm + merges n L, l', last_ptr None (D @ merge_pass f n L), h')"
      using False fr h1(1) ih(1) mp by (subst SORT_while.simps) (cases L; simp)
    then show ?thesis using ih(2,3) touches_trans [OF h1(2) ih(2)] mp(1) by auto
  qed
qed

section \<open>The sort\<close>

text \<open>After a pass the list is one of its kind again; and such a list is walked to its end.\<close>

lemma sort_close_run:
  assumes "chained kind h l D" and "D \<noteq> []" and "distinct D" and "\<forall>a\<in>set D. alive h a"
  shows "\<exists>h'. SORT_close kind l (last_ptr None D) h = Some h' \<and> touches (set D) h h' \<and> list_rep kind h' l D"
proof (cases D rule: rev_cases)
  case (snoc cs c)
  then show ?thesis using assms
    by (cases cs; cases kind) (auto simp: SORT_close_def chained_def list_rep_def touches_def)
qed (use assms in simp)

lemma SORT_next_seg:
  assumes "seg (lnext h) (first_ptr as c) as c" and "c \<notin> Some ` set as"
  shows "seg (SORT_next CDL c h) (first_ptr as None) as None"
  using assms
proof (induction as)
  case (Cons a as)
  have "lnext h a = first_ptr as c" using Cons.prems(1) seg_first by fastforce
  then have "SORT_next CDL c h a = first_ptr as None"
    using Cons.prems(2) by (cases as) (auto simp: SORT_next_def)
  then show ?case using Cons seg_at by fastforce
qed simp

lemma list_rep_SORT_next:
  assumes "list_rep kind h l es"
  shows "seg (SORT_next kind l h) (first_ptr es None) es None"
proof (cases "kind = CDL \<and> es \<noteq> []")
  case True
  then obtain a as where es: "es = a # as" by (cases es) auto
  have s: "l = Some a" "seg (lnext h) (lnext h a) as (Some a)" "a \<notin> set as"
    using assms True es by (auto simp: list_rep_def)
  have f: "lnext h a = first_ptr as (Some a)" using seg_first [OF s(2)] .
  then have "SORT_next CDL (Some a) h a = first_ptr as None"
    using s(3) by (cases as) (auto simp: SORT_next_def)
  then show ?thesis using SORT_next_seg [of h as "Some a"] s f True es by auto
next
  case False
  then have "kind = CDL \<Longrightarrow> es = []" by blast
  moreover have "kind \<noteq> CDL \<Longrightarrow> SORT_next kind l h = lnext h" by (auto simp: SORT_next_def)
  ultimately show ?thesis using assms list_rep_first [OF assms] by (cases "kind = CDL") (simp_all add: list_rep_def)
qed

lemma sort_loop_run:
  assumes "orders cmp f h (set es)" and "distinct es" and "es \<noteq> []" and "0 < n" and "list_rep kind h l (runs f n es)"
  shows "\<exists>h'. SORT_loop kind cmp n l h = Some (first_ptr (sort_key f es) None, h') \<and>
    list_rep kind h' (first_ptr (sort_key f es) None) (sort_key f es) \<and> touches (set es) h h'"
  using assms
proof (induction "length es - n" arbitrary: n l h rule: less_induct)
  case less
  let ?L = "runs f n es" and ?R = "runs f (2 * n) es"
  have l: "l = first_ptr ?L None" using less.prems(5) by (rule list_rep_first)
  have "orders cmp f h (set ([] @ ?L))" "distinct ([] @ ?L)" "chained kind h None []" using less.prems(1,2) by simp_all
  from sort_while_run [OF this list_rep_SORT_next [OF less.prems(5)] less.prems(4), of 0] obtain l1 h1 where
    h1: "SORT_while kind cmp l n l 0 None None h = Some (merges n ?L, l1, last_ptr None ?R, h1)" "touches (set es) h h1"
    "chained kind h1 l1 ?R"
    using l less.prems(4) by (auto simp: merge_pass_runs)
  have ne: "?R \<noteq> []" using less.prems(3) by (metis length_0_conv length_runs)
  have "\<forall>a\<in>set ?R. alive h1 a" using less.prems(1) h1(2) by (auto simp: orders_def touches_def)
  then obtain h2 where h2: "SORT_close kind l1 (last_ptr None ?R) h1 = Some h2" "touches (set es) h1 h2" "list_rep kind h2 l1 ?R"
    using sort_close_run [OF h1(3) ne] less.prems(2) by auto
  note t2 = touches_trans [OF h1(2) h2(2)]
  have m: "merges n ?L \<le> 1 \<longleftrightarrow> length es \<le> 2 * n" using merges_le_1 [OF less.prems(4), of ?L] by simp
  show ?case
  proof (cases "length es \<le> 2 * n")
    case True
    have R: "?R = sort_key f es" by (rule runs_all [OF less.prems(3) True])
    have "SORT_loop kind cmp n l h = Some (l1, h2)"
      using h1(1) h2(1) True m by (subst SORT_loop.simps) simp
    then show ?thesis using t2 h2(3) list_rep_first [OF h2(3)] unfolding R by auto
  next
    case False
    have "length es - n * 2 < length es - n" using False less.prems(4) by simp
    moreover have "runs f (n * 2) es = ?R" by (simp add: mult.commute)
    ultimately obtain h' where ih: "SORT_loop kind cmp (n * 2) l1 h2 = Some (first_ptr (sort_key f es) None, h')"
      "list_rep kind h' (first_ptr (sort_key f es) None) (sort_key f es)" "touches (set es) h2 h'"
      using less.hyps [OF _ orders_touches [OF less.prems(1) t2] less.prems(2,3), of "n * 2" l1] h2(3) less.prems(4) by auto
    have "SORT_loop kind cmp n l h = SORT_loop kind cmp (n * 2) l1 h2"
      using h1(1) h2(1) False m by (subst SORT_loop.simps) simp
    then show ?thesis using ih touches_trans [OF t2 ih(3)] by auto
  qed
qed

text \<open>Every kind of list is sorted stably, and nothing but the list's pointers changes.\<close>

lemma list_sort_run:
  assumes "list_rep kind h x as" and "\<And>a b. a \<in> set as \<Longrightarrow> b \<in> set as \<Longrightarrow> (cmp (item h a) (item h b) \<le> 0) = (k (item h a) \<le> k (item h b))"
  shows "\<exists>h'. list_sort kind cmp x h = Some (first_ptr (sort_key (\<lambda>a. k (item h a)) as) None, h') \<and>
    list_rep kind h' (first_ptr (sort_key (\<lambda>a. k (item h a)) as) None) (sort_key (\<lambda>a. k (item h a)) as) \<and>
    touches (set as) h h'"
proof (cases "as = []")
  case True
  then show ?thesis using assms(1) by (simp add: list_sort_def touches_refl)
next
  case False
  have "orders cmp (\<lambda>a. k (item h a)) h (set as)" using assms by (simp add: orders_def list_rep_alive)
  moreover have "list_rep kind h x (runs (\<lambda>a. k (item h a)) 1 as)" using assms(1) by (simp only: runs_one)
  moreover have "x \<noteq> None" using False list_rep_first [OF assms(1)] by (cases as) auto
  ultimately show ?thesis
    using sort_loop_run [of cmp "\<lambda>a. k (item h a)" h as 1 kind x] False list_rep_distinct [OF assms(1)]
    by (simp add: list_sort_def)
qed

end
