(* ===== verification/Utstring_Kmp.thy ===== *)
theory Utstring_Kmp
  imports Edf_Prelude
begin

text \<open>
  The substring search of datastructures/utstring.h: the Knuth-Morris-Pratt tables and
  searches in both directions. Arrays are lists, and an access out of bounds is \<open>None\<close>, as is a loop
  that does not end. C integers are mathematical integers; where the code converts between
  \<open>int\<close> (32 bits), \<open>long\<close> and \<open>size_t\<close> (64 bits) the conversions are written out.
\<close>

section \<open>Arrays and conversions\<close>

definition arr_get :: "'a list \<Rightarrow> int \<Rightarrow> 'a option" where
  "arr_get xs i = (if 0 \<le> i \<and> i < int (length xs) then Some (xs ! nat i) else None)"

definition arr_set :: "'a list \<Rightarrow> int \<Rightarrow> 'a \<Rightarrow> 'a list option" where
  "arr_set xs i v = (if 0 \<le> i \<and> i < int (length xs) then Some (xs[nat i := v]) else None)"

definition to_int :: "int \<Rightarrow> int" where "to_int x = signed_take_bit 31 x"
definition to_uint :: "int \<Rightarrow> int" where "to_uint x = take_bit 32 x"
definition to_long :: "int \<Rightarrow> int" where "to_long x = signed_take_bit 63 x"
definition to_size :: "int \<Rightarrow> int" where "to_size x = take_bit 64 x"

section \<open>From left to right\<close>

partial_function (option) BuildTable_inner :: "char list \<Rightarrow> int list \<Rightarrow> int \<Rightarrow> int \<Rightarrow> int option" where
  "BuildTable_inner needle tab i j =
     (if j > -1
      then do {
        a \<leftarrow> arr_get needle i;
        b \<leftarrow> arr_get needle j;
        if a \<noteq> b then do { k \<leftarrow> arr_get tab j; BuildTable_inner needle tab i k } else Some j }
      else Some j)"

text \<open>The entry for \<open>i\<close>, when \<open>j\<close> characters before \<open>i\<close> are those at the start.\<close>

definition BuildTable_entry :: "char list \<Rightarrow> int \<Rightarrow> int list \<Rightarrow> int \<Rightarrow> int \<Rightarrow> int list option" where
  "BuildTable_entry needle len tab i j =
     (if i < len
      then do {
        a \<leftarrow> arr_get needle i;
        b \<leftarrow> arr_get needle j;
        v \<leftarrow> (if a = b then arr_get tab j else Some j);
        arr_set tab i v }
      else arr_set tab i j)"

partial_function (option) BuildTable_while :: "char list \<Rightarrow> int \<Rightarrow> int list \<Rightarrow> int \<Rightarrow> int \<Rightarrow> int list option" where
  "BuildTable_while needle len tab i j =
     (if i < len
      then do {
        j \<leftarrow> BuildTable_inner needle tab i j;
        tab \<leftarrow> BuildTable_entry needle len tab (i + 1) (j + 1);
        BuildTable_while needle len tab (i + 1) (j + 1) }
      else Some tab)"

definition utstring_BuildTable :: "char list \<Rightarrow> int \<Rightarrow> int list \<Rightarrow> int list option" where
  "utstring_BuildTable needle len tab = do {
     let i = 0;
     let j = i - 1;
     tab \<leftarrow> arr_set tab i j;
     BuildTable_while needle len tab i j }"

text \<open>The haystack starts at the offset \<open>off\<close> of the buffer \<open>buf\<close>.\<close>

partial_function (option) find_inner :: "char list \<Rightarrow> int \<Rightarrow> char list \<Rightarrow> int list \<Rightarrow> int \<Rightarrow> int \<Rightarrow> int option" where
  "find_inner buf off needle tab i j =
     (if i > -1
      then do {
        a \<leftarrow> arr_get needle i;
        b \<leftarrow> arr_get buf (off + j);
        if a \<noteq> b then do { k \<leftarrow> arr_get tab i; find_inner buf off needle tab (to_int k) j } else Some i }
      else Some i)"

partial_function (option) find_while :: "char list \<Rightarrow> int \<Rightarrow> int \<Rightarrow> char list \<Rightarrow> int \<Rightarrow> int list \<Rightarrow> int \<Rightarrow> int \<Rightarrow> int option" where
  "find_while buf off hlen needle len tab i j =
     (if j < to_int hlen \<and> len \<le> to_size (to_size (hlen - j) + i)
      then do {
        i \<leftarrow> find_inner buf off needle tab i j;
        if to_int len \<le> i + 1 then Some ((j + 1) - (i + 1))
        else find_while buf off hlen needle len tab (i + 1) (j + 1) }
      else Some (-1))"

definition KMP_find :: "char list \<Rightarrow> int \<Rightarrow> int \<Rightarrow> char list \<Rightarrow> int \<Rightarrow> int list \<Rightarrow> int option" where
  "KMP_find buf off hlen needle len tab = find_while buf off hlen needle len tab 0 0"

section \<open>From right to left\<close>

partial_function (option) BuildTableR_inner :: "char list \<Rightarrow> int \<Rightarrow> int list \<Rightarrow> int \<Rightarrow> int \<Rightarrow> int option" where
  "BuildTableR_inner needle len tab i j =
     (if j < len
      then do {
        a \<leftarrow> arr_get needle i;
        b \<leftarrow> arr_get needle j;
        if a \<noteq> b then do { k \<leftarrow> arr_get tab (j + 1); BuildTableR_inner needle len tab i k } else Some j }
      else Some j)"

definition BuildTableR_entry :: "char list \<Rightarrow> int list \<Rightarrow> int \<Rightarrow> int \<Rightarrow> int list option" where
  "BuildTableR_entry needle tab i j =
     (if i \<ge> 0
      then do {
        a \<leftarrow> arr_get needle i;
        b \<leftarrow> arr_get needle j;
        v \<leftarrow> (if a = b then arr_get tab (j + 1) else Some j);
        arr_set tab (i + 1) v }
      else arr_set tab (i + 1) j)"

partial_function (option) BuildTableR_while :: "char list \<Rightarrow> int \<Rightarrow> int list \<Rightarrow> int \<Rightarrow> int \<Rightarrow> int list option" where
  "BuildTableR_while needle len tab i j =
     (if i \<ge> 0
      then do {
        j \<leftarrow> BuildTableR_inner needle len tab i j;
        tab \<leftarrow> BuildTableR_entry needle tab (i - 1) (j - 1);
        BuildTableR_while needle len tab (i - 1) (j - 1) }
      else Some tab)"

definition utstring_BuildTableR :: "char list \<Rightarrow> int \<Rightarrow> int list \<Rightarrow> int list option" where
  "utstring_BuildTableR needle len tab = do {
     let i = to_uint (len - 1);
     let j = i + 1;
     tab \<leftarrow> arr_set tab (i + 1) j;
     BuildTableR_while needle len tab i j }"

partial_function (option) findR_inner :: "char list \<Rightarrow> char list \<Rightarrow> int \<Rightarrow> int list \<Rightarrow> int \<Rightarrow> int \<Rightarrow> int option" where
  "findR_inner buf needle len tab i j =
     (if i < to_int len
      then do {
        a \<leftarrow> arr_get needle i;
        b \<leftarrow> arr_get buf j;
        if a \<noteq> b then do { k \<leftarrow> arr_get tab (i + 1); findR_inner buf needle len tab (to_int k) j } else Some i }
      else Some i)"

partial_function (option) findR_while :: "char list \<Rightarrow> char list \<Rightarrow> int \<Rightarrow> int list \<Rightarrow> int \<Rightarrow> int \<Rightarrow> int option" where
  "findR_while buf needle len tab i j =
     (if j \<ge> 0 \<and> j \<ge> i
      then do {
        i \<leftarrow> findR_inner buf needle len tab i j;
        if i - 1 < 0 then Some ((j - 1) + 1)
        else findR_while buf needle len tab (i - 1) (j - 1) }
      else Some (-1))"

definition KMP_findR :: "char list \<Rightarrow> int \<Rightarrow> char list \<Rightarrow> int \<Rightarrow> int list \<Rightarrow> int option" where
  "KMP_findR buf hlen needle len tab =
     findR_while buf needle len tab (to_int (to_size (len - 1))) (to_int (to_size (hlen - 1)))"

end
