(* ===== verification/Utstring_Forward.thy ===== *)
theory Utstring_Forward
  imports Utstring_Kmp
begin

text \<open>
  The search from left to right finds the first occurrence. An entry of the table for \<open>i\<close> is the
  length of a border of the first \<open>i\<close> characters, and at least that of every border that is not
  followed by the character at \<open>i\<close>.
\<close>

section \<open>Borders\<close>

text \<open>\<open>tails p h j b\<close>: the \<open>b\<close> characters of \<open>h\<close> before \<open>j\<close> are the first ones of \<open>p\<close>.\<close>

definition tails :: "'a list \<Rightarrow> 'a list \<Rightarrow> nat \<Rightarrow> nat \<Rightarrow> bool" where
  "tails p h j b \<longleftrightarrow> b \<le> j \<and> (\<forall>x<b. p ! x = h ! (j - b + x))"

definition border :: "'a list \<Rightarrow> nat \<Rightarrow> nat \<Rightarrow> bool" where
  "border p i b \<longleftrightarrow> b < i \<and> tails p p i b"

lemma tails_0 [simp]: "tails p h j 0"
  by (simp add: tails_def)

lemma tails_Suc: "tails p h (Suc j) (Suc b) \<longleftrightarrow> tails p h j b \<and> p ! b = h ! j"
  by (auto simp: tails_def less_Suc_eq)

lemma tails_border: "tails p h j i \<Longrightarrow> border p i b \<Longrightarrow> tails p h j b"
proof -
  assume a: "tails p h j i" "border p i b"
  have "p ! x = h ! (j - b + x)" if "x < b" for x
  proof -
    have "p ! x = p ! (i - b + x)" using a(2) that by (simp add: border_def tails_def)
    also have "i - b + x < i" using a(2) that unfolding border_def by linarith
    then have "p ! (i - b + x) = h ! (j - i + (i - b + x))" using a(1) unfolding tails_def by blast
    also have "j - i + (i - b + x) = j - b + x" using a by (simp add: border_def tails_def)
    finally show ?thesis .
  qed
  then show ?thesis using a by (simp add: border_def tails_def)
qed

lemma tails_nested: "tails p h j i \<Longrightarrow> tails p h j b \<Longrightarrow> b < i \<Longrightarrow> border p i b"
proof -
  assume a: "tails p h j i" "tails p h j b" "b < i"
  have "p ! x = p ! (i - b + x)" if "x < b" for x
  proof -
    have "p ! x = h ! (j - b + x)" using a(2) that by (simp add: tails_def)
    also have "j - b + x = j - i + (i - b + x)" using a by (simp add: tails_def)
    also have "i - b + x < i" using a(3) that by linarith
    then have "h ! (j - i + (i - b + x)) = p ! (i - b + x)" using a(1) unfolding tails_def by metis
    finally show ?thesis .
  qed
  then show ?thesis using a(3) by (simp add: border_def tails_def)
qed

lemma border_trans: "border p i j \<Longrightarrow> border p j b \<Longrightarrow> border p i b"
  using tails_border [of p p i j b] by (auto simp: border_def)

lemma border_nested: "border p i j \<Longrightarrow> border p i b \<Longrightarrow> b < j \<Longrightarrow> border p j b"
  using tails_nested [of p p i j b] by (auto simp: border_def)

section \<open>Table entries\<close>

definition fail_ok :: "'a list \<Rightarrow> nat \<Rightarrow> int \<Rightarrow> bool" where
  "fail_ok p i t \<longleftrightarrow> -1 \<le> t \<and> t < int i \<and> (0 \<le> t \<longrightarrow> border p i (nat t)) \<and>
     (\<forall>b. border p i b \<and> p ! b \<noteq> p ! i \<longrightarrow> int b \<le> t)"

definition longest :: "'a list \<Rightarrow> nat \<Rightarrow> int \<Rightarrow> bool" where
  "longest p i j \<longleftrightarrow> -1 \<le> j \<and> j < int i \<and> (0 \<le> j \<longrightarrow> border p i (nat j)) \<and> (\<forall>b. border p i b \<longrightarrow> int b \<le> j)"

lemma fail_ok_0: "fail_ok p 0 (-1)"
  by (simp add: fail_ok_def border_def)

lemma longest_0: "longest p 0 (-1)"
  by (simp add: longest_def border_def)

text \<open>The optimised entry: when the characters at \<open>i\<close> and \<open>j\<close> agree, the entry for \<open>j\<close> will do.\<close>

lemma fail_ok_same: "longest p i (int j) \<Longrightarrow> p ! i = p ! j \<Longrightarrow> fail_ok p j t \<Longrightarrow> fail_ok p i t"
proof -
  assume a: "longest p i (int j)" "p ! i = p ! j" "fail_ok p j t"
  have ij: "border p i j" using a(1) by (simp add: longest_def)
  have "int b \<le> t" if b: "border p i b" "p ! b \<noteq> p ! i" for b
  proof -
    have "b < j" using a(1,2) b by (cases "b = j") (auto simp: longest_def)
    then show ?thesis using border_nested [OF ij b(1)] a(2,3) b(2) by (simp add: fail_ok_def)
  qed
  then show ?thesis using a(3) ij border_trans [OF ij] by (auto simp: fail_ok_def border_def)
qed

lemma fail_ok_differ: "longest p i j \<Longrightarrow> fail_ok p i j"
  by (simp add: longest_def fail_ok_def)

section \<open>Stepping back\<close>

text \<open>
  \<open>cand p h j Q i\<close>: \<open>i\<close> characters before \<open>j\<close> match, or \<open>i\<close> is \<open>-1\<close>, and none of the lengths \<open>Q\<close> that
  can still be extended is longer.
\<close>

definition cand :: "'a list \<Rightarrow> 'a list \<Rightarrow> nat \<Rightarrow> (nat \<Rightarrow> bool) \<Rightarrow> int \<Rightarrow> bool" where
  "cand p h j Q i \<longleftrightarrow> -1 \<le> i \<and> i < int (length p) \<and> (0 \<le> i \<longrightarrow> tails p h j (nat i)) \<and> (\<forall>b. Q b \<longrightarrow> int b \<le> i)"

definition extendable :: "'a list \<Rightarrow> 'a list \<Rightarrow> nat \<Rightarrow> (nat \<Rightarrow> bool) \<Rightarrow> bool" where
  "extendable p h j Q \<longleftrightarrow> (\<forall>b. Q b \<longrightarrow> tails p h j b \<and> p ! b = h ! j)"

lemma cand_step:
  assumes "cand p h j Q (int i)" and "extendable p h j Q" and "p ! i \<noteq> h ! j" and "fail_ok p i t"
  shows "cand p h j Q t"
proof -
  have ti: "tails p h j i" using assms(1) by (simp add: cand_def)
  have "int b \<le> t" if "Q b" for b
  proof -
    have b: "tails p h j b" "p ! b = h ! j" "b \<le> i" using assms(1,2) that by (auto simp: cand_def extendable_def)
    then have "b < i" using assms(3) by (cases "b = i") auto
    then show ?thesis using tails_nested [OF ti b(1)] b(2) assms(3,4) by (simp add: fail_ok_def)
  qed
  then show ?thesis using assms(1,4) tails_border [OF ti] by (auto simp: cand_def fail_ok_def)
qed

lemma arr_get_nat [simp]: "i < length xs \<Longrightarrow> arr_get xs (int i) = Some (xs ! i)"
  by (simp add: arr_get_def)

lemma arr_set_nat [simp]: "i < length xs \<Longrightarrow> arr_set xs (int i) v = Some (xs[i := v])"
  by (simp add: arr_set_def)

lemma BuildTable_inner_run:
  assumes "cand p p i Q j" and "extendable p p i Q" and "i < length p" and "length p < length tab"
    and "\<And>k. k \<le> nat j \<Longrightarrow> 0 \<le> j \<Longrightarrow> fail_ok p k (tab ! k)"
  shows "\<exists>j'. BuildTable_inner p tab (int i) j = Some j' \<and> cand p p i Q j' \<and> j' \<le> j \<and> (0 \<le> j' \<longrightarrow> p ! nat j' = p ! i)"
  using assms(1,5)
proof (induction "nat (j + 1)" arbitrary: j rule: less_induct)
  case less
  show ?case
  proof (cases "0 \<le> j")
    case True
    then obtain k where k: "j = int k" by (metis nat_0_le)
    have kp: "k < length p" using less.prems(1) k by (simp add: cand_def)
    show ?thesis
    proof (cases "p ! i = p ! k")
      case True
      then show ?thesis using less.prems(1) k kp assms(3) by (subst BuildTable_inner.simps) simp
    next
      case False
      have f: "fail_ok p k (tab ! k)" using less.prems(2) [of k] k by simp
      have c: "cand p p i Q (tab ! k)" using cand_step [OF _ assms(2) _ f] less.prems(1) k False by simp
      have m: "nat (tab ! k + 1) < nat (j + 1)" using f k by (simp add: fail_ok_def)
      have "\<exists>j'. BuildTable_inner p tab (int i) (tab ! k) = Some j' \<and> cand p p i Q j' \<and> j' \<le> tab ! k \<and> (0 \<le> j' \<longrightarrow> p ! nat j' = p ! i)"
        by (rule less.hyps [OF m c]) (use less.prems(2) m k in auto)
      moreover have "BuildTable_inner p tab (int i) j = BuildTable_inner p tab (int i) (tab ! k)"
        using k kp assms(3,4) False by (subst BuildTable_inner.simps) simp
      ultimately show ?thesis using f k by (auto simp: fail_ok_def)
    qed
  next
    case False
    then show ?thesis using less.prems(1) by (subst BuildTable_inner.simps) auto
  qed
qed

section \<open>The table\<close>

lemma longest_extendable: "longest p i j \<Longrightarrow> i < length p \<Longrightarrow> cand p p i (\<lambda>b. border p i b \<and> p ! b = p ! i) j"
  by (auto simp: longest_def cand_def border_def)

lemma border_extendable: "extendable p p i (\<lambda>b. border p i b \<and> p ! b = p ! i)"
  by (simp add: extendable_def border_def)

lemma longest_Suc:
  assumes "cand p p i (\<lambda>b. border p i b \<and> p ! b = p ! i) j" and "j < int i" and "0 \<le> j \<longrightarrow> p ! nat j = p ! i"
  shows "longest p (Suc i) (j + 1)"
proof -
  have j: "-1 \<le> j" "0 \<le> j \<Longrightarrow> tails p p i (nat j)" using assms(1) by (auto simp: cand_def)
  have "border p (Suc i) (nat (j + 1))"
  proof (cases "0 \<le> j")
    case True
    then have "nat (j + 1) = Suc (nat j)" by simp
    then show ?thesis using j(2) assms(2,3) True by (simp add: border_def tails_Suc nat_less_iff)
  next
    case False
    then have "j = -1" using j(1) by simp
    then show ?thesis by (simp add: border_def)
  qed
  moreover have "int b \<le> j + 1" if "border p (Suc i) b" for b
  proof (cases b)
    case (Suc c)
    then have "border p i c \<and> p ! c = p ! i" using that by (simp add: border_def tails_Suc)
    then show ?thesis using assms(1) Suc by (force simp: cand_def)
  qed (use j(1) in simp)
  ultimately show ?thesis using j(1) assms(2) by (simp add: longest_def)
qed

lemma BuildTable_entry_run:
  assumes "longest p i (int j)" and "i \<le> length p" and "length tab = Suc (length p)"
    and "\<And>k. k < i \<Longrightarrow> fail_ok p k (tab ! k)"
  shows "\<exists>tab'. BuildTable_entry p (int (length p)) tab (int i) (int j) = Some tab' \<and> length tab' = Suc (length p) \<and>
    (\<forall>k\<le>i. k < length p \<longrightarrow> fail_ok p k (tab' ! k))"
proof (cases "i < length p")
  case True
  have j: "j < i" "j < length p" using assms(1,2) by (auto simp: longest_def)
  define v where "v = (if p ! i = p ! j then tab ! j else int j)"
  have "fail_ok p i v"
    using fail_ok_same [OF assms(1)] fail_ok_differ [OF assms(1)] assms(4) [OF j(1)] by (simp add: v_def)
  moreover have "BuildTable_entry p (int (length p)) tab (int i) (int j) = Some (tab[i := v])"
    using True j assms(3) by (simp add: BuildTable_entry_def v_def)
  ultimately show ?thesis using assms(3,4) True by (auto simp: nth_list_update)
next
  case False
  then have "i = length p" using assms(2) by simp
  then show ?thesis using assms(3,4) by (auto simp: BuildTable_entry_def nth_list_update)
qed

lemma BuildTable_while_run:
  assumes "longest p i j" and "i \<le> length p" and "length tab = Suc (length p)"
    and "\<forall>k\<le>i. k < length p \<longrightarrow> fail_ok p k (tab ! k)"
  shows "\<exists>tab'. BuildTable_while p (int (length p)) tab (int i) j = Some tab' \<and> length tab' = Suc (length p) \<and>
    (\<forall>k<length p. fail_ok p k (tab' ! k))"
  using assms
proof (induction "length p - i" arbitrary: i j tab)
  case 0
  then show ?case by (subst BuildTable_while.simps) simp
next
  case (Suc n)
  then have i: "i < length p" by simp
  have jl: "-1 \<le> j" "j < int i" using Suc.prems(1) by (auto simp: longest_def)
  have "\<exists>j'. BuildTable_inner p tab (int i) j = Some j' \<and> cand p p i (\<lambda>b. border p i b \<and> p ! b = p ! i) j' \<and> j' \<le> j \<and>
      (0 \<le> j' \<longrightarrow> p ! nat j' = p ! i)"
    using BuildTable_inner_run [OF longest_extendable [OF Suc.prems(1) i] border_extendable i, of tab]
      Suc.prems(3,4) jl i by simp
  then obtain j' where j': "BuildTable_inner p tab (int i) j = Some j'" "longest p (Suc i) (j' + 1)" "-1 \<le> j'"
    using longest_Suc jl by (metis cand_def le_less_trans)
  have jn: "int (nat (j' + 1)) = j' + 1" using j'(3) by simp
  have si: "int (Suc i) = int i + 1" by simp
  obtain tab' where tab': "BuildTable_entry p (int (length p)) tab (int i + 1) (j' + 1) = Some tab'"
    "length tab' = Suc (length p)" "\<forall>k\<le>Suc i. k < length p \<longrightarrow> fail_ok p k (tab' ! k)"
    using BuildTable_entry_run [of p "Suc i" "nat (j' + 1)" tab] j'(2) i Suc.prems(3,4) unfolding jn si
    by (auto simp: less_Suc_eq_le)
  have "n = length p - Suc i" "Suc i \<le> length p" using Suc.hyps(2) i by auto
  from Suc.hyps(1) [OF this(1) j'(2) this(2) tab'(2,3)] show ?case
    using j'(1) tab'(1) i unfolding si by (subst BuildTable_while.simps) simp
qed

lemma BuildTable_run:
  assumes "length tab = Suc (length p)"
  shows "\<exists>tab'. utstring_BuildTable p (int (length p)) tab = Some tab' \<and> length tab' = Suc (length p) \<and>
    (\<forall>k<length p. fail_ok p k (tab' ! k))"
proof -
  have "\<forall>k\<le>0. k < length p \<longrightarrow> fail_ok p k (tab[0 := -1] ! k)" using assms by (simp add: fail_ok_0)
  from BuildTable_while_run [OF longest_0 _ _ this] show ?thesis
    using assms by (simp add: utstring_BuildTable_def arr_set_def Let_def)
qed

section \<open>The search\<close>

definition occurs :: "'a list \<Rightarrow> 'a list \<Rightarrow> nat \<Rightarrow> bool" where
  "occurs p h k \<longleftrightarrow> k + length p \<le> length h \<and> take (length p) (drop k h) = p"

lemma occurs_nth: "occurs p h k \<longleftrightarrow> k + length p \<le> length h \<and> (\<forall>x<length p. p ! x = h ! (k + x))"
proof -
  have "k + length p \<le> length h \<Longrightarrow> take (length p) (drop k h) = p \<longleftrightarrow> (\<forall>x<length p. p ! x = h ! (k + x))"
    by (auto simp: list_eq_iff_nth_eq)
  then show ?thesis by (auto simp: occurs_def)
qed

lemma occurs_tails: "occurs p h k \<Longrightarrow> b \<le> length p \<Longrightarrow> tails p h (k + b) b"
  by (simp add: occurs_nth tails_def)

lemma tails_occurs: "tails p h j (length p) \<Longrightarrow> j \<le> length h \<Longrightarrow> occurs p h (j - length p)"
  by (auto simp: occurs_nth tails_def)

lemma to_int_id: "-1 \<le> x \<Longrightarrow> x < 2 ^ 31 \<Longrightarrow> to_int x = x"
  unfolding to_int_def by (rule signed_take_bit_int_eq_self) auto

lemma to_size_id: "0 \<le> x \<Longrightarrow> x < 2 ^ 64 \<Longrightarrow> to_size x = x"
  unfolding to_size_def by (rule take_bit_int_eq_self) auto

lemma to_long_id: "- (2 ^ 63) \<le> x \<Longrightarrow> x < 2 ^ 63 \<Longrightarrow> to_long x = x"
  unfolding to_long_def by (rule signed_take_bit_int_eq_self) auto

text \<open>The buffer \<open>buf\<close> holds the haystack \<open>h\<close> from \<open>off\<close> on.\<close>

lemma find_inner_run:
  assumes "cand p h j Q i" and "extendable p h j Q" and "j < length h" and "length p < length tab" and "length p < 2 ^ 31"
    and "\<And>k. k < length p \<Longrightarrow> fail_ok p k (tab ! k)"
    and "off + length h \<le> length buf" and "\<And>x. x < length h \<Longrightarrow> buf ! (off + x) = h ! x"
  shows "\<exists>i'. find_inner buf (int off) p tab i (int j) = Some i' \<and> cand p h j Q i' \<and> i' \<le> i \<and> (0 \<le> i' \<longrightarrow> p ! nat i' = h ! j)"
  using assms(1)
proof (induction "nat (i + 1)" arbitrary: i rule: less_induct)
  case less
  have b: "arr_get buf (int off + int j) = Some (h ! j)"
    using assms(3,7,8) arr_get_nat [of "off + j" buf] by simp
  show ?case
  proof (cases "0 \<le> i")
    case True
    then obtain k where k: "i = int k" by (metis nat_0_le)
    have kp: "k < length p" using less.prems(1) k by (simp add: cand_def)
    show ?thesis
    proof (cases "p ! k = h ! j")
      case True
      then show ?thesis using less.prems(1) k kp b by (subst find_inner.simps) simp
    next
      case False
      have f: "fail_ok p k (tab ! k)" using assms(6) [OF kp] .
      have c: "cand p h j Q (tab ! k)" using cand_step [OF _ assms(2) False f] less.prems(1) k by simp
      have m: "nat (tab ! k + 1) < nat (i + 1)" using f k by (simp add: fail_ok_def)
      have "to_int (tab ! k) = tab ! k" using f kp assms(5) by (intro to_int_id) (auto simp: fail_ok_def)
      then have "find_inner buf (int off) p tab i (int j) = find_inner buf (int off) p tab (tab ! k) (int j)"
        using k kp assms(4) False b by (subst find_inner.simps) simp
      then show ?thesis using less.hyps [OF m c] f k by (auto simp: fail_ok_def)
    qed
  next
    case False
    then show ?thesis using less.prems(1) by (subst find_inner.simps) auto
  qed
qed

text \<open>The first occurrence, or \<open>-1\<close>.\<close>

definition first_occ :: "'a list \<Rightarrow> 'a list \<Rightarrow> int" where
  "first_occ p h = (case find (occurs p h) [0..<Suc (length h)] of None \<Rightarrow> -1 | Some k \<Rightarrow> int k)"

lemma first_occ_None: "(\<And>k. \<not> occurs p h k) \<Longrightarrow> first_occ p h = -1"
proof -
  assume "\<And>k. \<not> occurs p h k"
  then have "find (occurs p h) [0..<Suc (length h)] = None" unfolding find_eq_None by blast
  then show ?thesis by (simp add: first_occ_def del: upt_Suc)
qed

lemma find_upt: "P k \<Longrightarrow> k < n \<Longrightarrow> (\<And>x. x < k \<Longrightarrow> \<not> P x) \<Longrightarrow> find P [0..<n] = Some k"
  by (auto simp: find_Some_iff)

lemma first_occ_Some: "occurs p h k \<Longrightarrow> (\<And>x. x < k \<Longrightarrow> \<not> occurs p h x) \<Longrightarrow> first_occ p h = int k"
  using find_upt [of "occurs p h" k "Suc (length h)"] by (auto simp: first_occ_def occurs_def)

lemma find_while_run:
  assumes "length p < length tab" and "0 < length p" and "length p < 2 ^ 31" and "length h < 2 ^ 31"
    and "\<And>k. k < length p \<Longrightarrow> fail_ok p k (tab ! k)"
    and "off + length h \<le> length buf" and "\<And>x. x < length h \<Longrightarrow> buf ! (off + x) = h ! x"
    and "i < length p" and "tails p h j i" and "j \<le> length h" and "\<And>k. occurs p h k \<Longrightarrow> j \<le> k + i"
  shows "find_while buf (int off) (int (length h)) p (int (length p)) tab (int i) (int j) = Some (first_occ p h)"
  using assms(8-11)
proof (induction "length h - j" arbitrary: i j rule: less_induct)
  case less
  let ?N = "length h" and ?M = "length p"
  have conv: "to_int (int ?N) = int ?N" "to_int (int ?M) = int ?M" using assms(3,4) by (simp_all add: to_int_id)
  have ij: "i \<le> j" using less.prems(2) by (simp add: tails_def)
  have "to_size (int ?N - int j) = int ?N - int j" using less.prems(3) assms(4) by (intro to_size_id) auto
  moreover have "to_size (int ?N - int j + int i) = int ?N - int j + int i"
    using less.prems(1,3) assms(3,4) by (intro to_size_id) auto
  ultimately have cond: "(int j < to_int (int ?N) \<and> int ?M \<le> to_size (to_size (int ?N - int j) + int i)) \<longleftrightarrow> j < ?N \<and> ?M + j \<le> ?N + i"
    unfolding conv by auto
  show ?case
  proof (cases "j < ?N \<and> ?M + j \<le> ?N + i")
    case False
    have "\<not> occurs p h k" for k
    proof
      assume o: "occurs p h k"
      then have "j \<le> k + i" "k + ?M \<le> ?N" using less.prems(4) by (auto simp: occurs_def)
      then show False using False less.prems(1,3) by auto
    qed
    then have "first_occ p h = -1" by (rule first_occ_None)
    moreover have "\<not> (int j < to_int (int ?N) \<and> int ?M \<le> to_size (to_size (int ?N - int j) + int i))"
      unfolding cond using False .
    ultimately show ?thesis by (subst find_while.simps) auto
  next
    case True
    define Q where "Q b \<longleftrightarrow> b \<le> j \<and> b < ?M \<and> occurs p h (j - b)" for b
    have ext: "extendable p h j Q"
      unfolding extendable_def
    proof (intro allI impI)
      fix b assume b: "Q b"
      then have "tails p h (j - b + Suc b) (Suc b)" unfolding Q_def by (intro occurs_tails) auto
      then have "tails p h (Suc j) (Suc b)" using b by (simp add: Q_def)
      then show "tails p h j b \<and> p ! b = h ! j" by (simp add: tails_Suc)
    qed
    have "int b \<le> int i" if "Q b" for b using less.prems(4) [of "j - b"] that by (auto simp: Q_def)
    then have "cand p h j Q (int i)" using less.prems(1,2) by (simp add: cand_def)
    from find_inner_run [OF this ext _ assms(1,3,5,6,7)] True obtain i' where
      i': "find_inner buf (int off) p tab (int i) (int j) = Some i'" "cand p h j Q i'" "i' \<le> int i" "0 \<le> i' \<longrightarrow> p ! nat i' = h ! j"
      by blast
    define n where "n = nat (i' + 1)"
    have n: "int n = i' + 1" "n \<le> ?M" using i'(2) by (auto simp: cand_def n_def)
    have tn: "tails p h (Suc j) n"
    proof (cases n)
      case (Suc m)
      then have "nat i' = m" "0 \<le> i'" using n(1) by auto
      then show ?thesis using i'(2,4) Suc by (simp add: cand_def tails_Suc)
    qed simp
    have before: "Suc j \<le> k + n" if o: "occurs p h k" for k
    proof (rule ccontr)
      assume a: "\<not> Suc j \<le> k + n"
      then have k: "k \<le> j" "j - k \<le> i" using less.prems(4) [OF o] by auto
      then have "Q (j - k)" using o less.prems(1) by (simp add: Q_def)
      then have "int (j - k) \<le> i'" using i'(2) by (simp add: cand_def)
      then show False using a n(1) k(1) by auto
    qed
    have step: "find_while buf (int off) (int ?N) p (int ?M) tab (int i) (int j) =
        (if ?M \<le> n then Some (int (Suc j) - int n) else find_while buf (int off) (int ?N) p (int ?M) tab (int n) (int (Suc j)))"
      using True cond i'(1) n(1) conv(2) by (subst find_while.simps) (simp add: algebra_simps)
    show ?thesis
    proof (cases "?M \<le> n")
      case True
      then have M: "n = ?M" using n(2) by simp
      have "n \<le> Suc j" using tn by (simp add: tails_def)
      moreover have "occurs p h (Suc j - n)" using tn \<open>j < ?N \<and> _\<close> unfolding M by (intro tails_occurs) auto
      moreover have "\<not> occurs p h x" if "x < Suc j - n" for x using before [of x] that by auto
      ultimately have "first_occ p h = int (Suc j - n)" using first_occ_Some by blast
      then show ?thesis using step True \<open>n \<le> Suc j\<close> by simp
    next
      case False
      have "find_while buf (int off) (int ?N) p (int ?M) tab (int n) (int (Suc j)) = Some (first_occ p h)"
        using True False tn before by (intro less.hyps) auto
      then show ?thesis using step False by simp
    qed
  qed
qed

lemma KMP_find_run:
  assumes "length p < length tab" and "0 < length p" and "length p < 2 ^ 31" and "length h < 2 ^ 31"
    and "\<And>k. k < length p \<Longrightarrow> fail_ok p k (tab ! k)"
    and "off + length h \<le> length buf" and "\<And>x. x < length h \<Longrightarrow> buf ! (off + x) = h ! x"
  shows "KMP_find buf (int off) (int (length h)) p (int (length p)) tab = Some (first_occ p h)"
  using find_while_run [OF assms, of 0 0] assms(2) by (simp add: KMP_find_def)

end
