(* ===== verification/Utstring_Backward.thy ===== *)
theory Utstring_Backward
  imports Utstring_Forward
begin

text \<open>
  The search from right to left is the search from left to right on the reversed strings: an index
  \<open>i\<close> of a string of length \<open>m\<close> becomes \<open>m - 1 - i\<close>, an index \<open>i\<close> of the table \<open>m - i\<close>. Every
  run from left to right is mirrored by one from right to left, which therefore ends, too.
\<close>

section \<open>Mirrored arrays\<close>

lemma arr_get_rev: "arr_get (rev xs) (int (length xs) - 1 - i) = arr_get xs i"
proof (cases "0 \<le> i \<and> i < int (length xs)")
  case True
  then obtain k where "i = int k" "k < length xs" by (metis nat_0_le nat_less_iff)
  moreover from this have "nat (int (length xs) - 1 - int k) = length xs - Suc k" by auto
  ultimately show ?thesis by (auto simp: arr_get_def rev_nth)
qed (auto simp: arr_get_def)

definition mirror :: "nat \<Rightarrow> int list \<Rightarrow> int list" where
  "mirror m tab = rev (map (\<lambda>v. int m - 1 - v) tab)"

lemma length_mirror [simp]: "length (mirror m tab) = length tab"
  by (simp add: mirror_def)

lemma arr_get_map: "arr_get (map f xs) i = map_option f (arr_get xs i)"
  by (auto simp: arr_get_def)

lemma arr_get_mirror:
  assumes "length tab = Suc m"
  shows "arr_get (mirror m tab) (int m - i) = map_option (\<lambda>v. int m - 1 - v) (arr_get tab i)"
  using arr_get_rev [of "map (\<lambda>v. int m - 1 - v) tab" i] assms by (simp add: mirror_def arr_get_map)

lemma arr_set_mirror:
  assumes "length tab = Suc m"
  shows "arr_set (mirror m tab) (int m - i) (int m - 1 - v) = map_option (mirror m) (arr_set tab i v)"
proof (cases "0 \<le> i \<and> i \<le> int m")
  case True
  then obtain k where k: "i = int k" "k \<le> m" by (metis nat_0_le nat_le_iff)
  then have "nat (int m - int k) = m - k" by auto
  moreover have "(rev (map (\<lambda>v. int m - 1 - v) tab))[m - k := int m - 1 - v] = rev (map (\<lambda>v. int m - 1 - v) (tab[k := v]))"
    using k(2) assms by (auto simp: list_eq_iff_nth_eq rev_nth nth_list_update)
  ultimately show ?thesis using k assms by (auto simp: arr_set_def mirror_def)
qed (use assms in \<open>auto simp: arr_set_def\<close>)

lemma length_arr_set: "arr_set xs i v = Some ys \<Longrightarrow> length ys = length xs"
  by (auto simp: arr_set_def split: if_splits)

section \<open>The table\<close>

lemma BuildTableR_inner_mirror:
  assumes "BuildTable_inner p tab i j = Some r" and "length tab = Suc (length p)"
  shows "BuildTableR_inner (rev p) (int (length p)) (mirror (length p) tab) (int (length p) - 1 - i) (int (length p) - 1 - j) =
    Some (int (length p) - 1 - r)"
proof -
  have "length tab = Suc (length p) \<longrightarrow>
    BuildTableR_inner (rev p) (int (length p)) (mirror (length p) tab) (int (length p) - 1 - i) (int (length p) - 1 - j) =
    Some (int (length p) - 1 - r)"
  proof (rule BuildTable_inner.raw_induct [where P = "\<lambda>p tab i j r. length tab = Suc (length p) \<longrightarrow>
      BuildTableR_inner (rev p) (int (length p)) (mirror (length p) tab) (int (length p) - 1 - i) (int (length p) - 1 - j) =
      Some (int (length p) - 1 - r)", OF _ assms(1)], intro impI)
    fix rec p tab i j r
    assume ih: "\<And>p tab i j r. rec p tab i j = Some r \<Longrightarrow> length tab = Suc (length p) \<longrightarrow>
        BuildTableR_inner (rev p) (int (length p)) (mirror (length p) tab) (int (length p) - 1 - i) (int (length p) - 1 - j) =
        Some (int (length p) - 1 - r)"
      and run: "(if j > -1 then do {
        a \<leftarrow> arr_get p i;
        b \<leftarrow> arr_get p j;
        if a \<noteq> b then do { k \<leftarrow> arr_get tab j; rec p tab i k } else Some j }
      else Some j) = Some r"
      and len: "length tab = Suc (length p)"
    have t: "arr_get (mirror (length p) tab) (int (length p) - 1 - j + 1) = map_option (\<lambda>v. int (length p) - 1 - v) (arr_get tab j)"
      using arr_get_mirror [OF len, of j] by simp
    have c: "int (length p) - 1 - j < int (length p) \<longleftrightarrow> j > -1" by auto
    show "BuildTableR_inner (rev p) (int (length p)) (mirror (length p) tab) (int (length p) - 1 - i) (int (length p) - 1 - j) =
        Some (int (length p) - 1 - r)"
    proof (cases "j > -1")
      case True
      then show ?thesis using run ih [of p tab i] len t
        by (subst BuildTableR_inner.simps) (auto simp: arr_get_rev split: if_splits elim!: bind_eq_SomeE)
    next
      case False
      then show ?thesis using run by (subst BuildTableR_inner.simps) auto
    qed
  qed
  then show ?thesis using assms(2) by blast
qed

lemma BuildTableR_entry_mirror:
  assumes "BuildTable_entry p (int (length p)) tab i j = Some tab'" and "length tab = Suc (length p)"
  shows "BuildTableR_entry (rev p) (mirror (length p) tab) (int (length p) - 1 - i) (int (length p) - 1 - j) =
    Some (mirror (length p) tab')" and "length tab' = Suc (length p)"
proof -
  have t: "arr_get (mirror (length p) tab) (int (length p) - 1 - j + 1) = map_option (\<lambda>v. int (length p) - 1 - v) (arr_get tab j)"
    using arr_get_mirror [OF assms(2), of j] by simp
  have w: "arr_set (mirror (length p) tab) (int (length p) - 1 - i + 1) (int (length p) - 1 - v) =
      map_option (mirror (length p)) (arr_set tab i v)" for v
    using arr_set_mirror [OF assms(2), of i v] by simp
  have c: "int (length p) - 1 - i \<ge> 0 \<longleftrightarrow> i < int (length p)" by auto
  show "BuildTableR_entry (rev p) (mirror (length p) tab) (int (length p) - 1 - i) (int (length p) - 1 - j) =
    Some (mirror (length p) tab')"
    using assms(1) w unfolding BuildTableR_entry_def BuildTable_entry_def c arr_get_rev t
    by (auto split: if_splits elim!: bind_eq_SomeE)
  show "length tab' = Suc (length p)"
    using assms unfolding BuildTable_entry_def
    by (auto split: if_splits elim!: bind_eq_SomeE dest: length_arr_set)
qed

lemma BuildTableR_while_mirror:
  assumes "BuildTable_while p l tab i j = Some tab'" and "l = int (length p)" and "length tab = Suc (length p)"
  shows "BuildTableR_while (rev p) l (mirror (length p) tab) (int (length p) - 1 - i) (int (length p) - 1 - j) =
    Some (mirror (length p) tab')"
proof -
  have "l = int (length p) \<longrightarrow> length tab = Suc (length p) \<longrightarrow>
    BuildTableR_while (rev p) l (mirror (length p) tab) (int (length p) - 1 - i) (int (length p) - 1 - j) =
    Some (mirror (length p) tab')"
  proof (rule BuildTable_while.raw_induct [where P = "\<lambda>p l tab i j tab'. l = int (length p) \<longrightarrow> length tab = Suc (length p) \<longrightarrow>
      BuildTableR_while (rev p) l (mirror (length p) tab) (int (length p) - 1 - i) (int (length p) - 1 - j) =
      Some (mirror (length p) tab')", OF _ assms(1)], intro impI)
    fix rec p l tab i j tab'
    assume ih: "\<And>p l tab i j tab'. rec p l tab i j = Some tab' \<Longrightarrow> l = int (length p) \<longrightarrow> length tab = Suc (length p) \<longrightarrow>
        BuildTableR_while (rev p) l (mirror (length p) tab) (int (length p) - 1 - i) (int (length p) - 1 - j) =
        Some (mirror (length p) tab')"
      and run: "(if i < l then do {
        j \<leftarrow> BuildTable_inner p tab i j;
        tab \<leftarrow> BuildTable_entry p l tab (i + 1) (j + 1);
        rec p l tab (i + 1) (j + 1) } else Some tab) = Some tab'"
      and l: "l = int (length p)" and len: "length tab = Suc (length p)"
    show "BuildTableR_while (rev p) l (mirror (length p) tab) (int (length p) - 1 - i) (int (length p) - 1 - j) =
        Some (mirror (length p) tab')"
    proof (cases "i < l")
      case True
      then obtain j1 tab1 where 1: "BuildTable_inner p tab i j = Some j1" "BuildTable_entry p l tab (i + 1) (j1 + 1) = Some tab1"
        "rec p l tab1 (i + 1) (j1 + 1) = Some tab'"
        using run by (auto elim!: bind_eq_SomeE)
      have e: "int (length p) - 1 - (x + 1) = int (length p) - 1 - x - 1" for x by simp
      note E = BuildTableR_entry_mirror [OF 1(2) [unfolded l] len, unfolded e]
      show ?thesis
        using True BuildTableR_inner_mirror [OF 1(1) len] E(1) ih [OF 1(3), unfolded e] E(2) l
        by (subst BuildTableR_while.simps) simp
    next
      case False
      then show ?thesis using run l by (subst BuildTableR_while.simps) auto
    qed
  qed
  then show ?thesis using assms(2,3) by blast
qed

lemma BuildTableR_mirror:
  assumes "utstring_BuildTable p (int (length p)) tab = Some tab'" and "length tab = Suc (length p)"
    and "0 < length p" and "length p < 2 ^ 32"
  shows "utstring_BuildTableR (rev p) (int (length p)) (mirror (length p) tab) = Some (mirror (length p) tab')"
proof -
  have u: "to_uint (int (length p) - 1) = int (length p) - 1"
    unfolding to_uint_def by (rule take_bit_int_eq_self) (use assms(3,4) in auto)
  obtain tab1 where 1: "arr_set tab 0 (-1) = Some tab1" "BuildTable_while p (int (length p)) tab1 0 (-1) = Some tab'"
    using assms(1) by (auto simp: utstring_BuildTable_def Let_def elim!: bind_eq_SomeE)
  have "arr_set (mirror (length p) tab) (int (length p)) (int (length p)) = Some (mirror (length p) tab1)"
    using arr_set_mirror [OF assms(2), of 0 "-1"] 1(1) by simp
  moreover have "length tab1 = Suc (length p)" using length_arr_set [OF 1(1)] assms(2) by simp
  ultimately show ?thesis using BuildTableR_while_mirror [OF 1(2) refl]
    by (simp add: utstring_BuildTableR_def u)
qed

section \<open>The search\<close>

lemma arr_get_rev_append: "arr_get g j = Some b \<Longrightarrow> arr_get (rev g @ rest) (int (length g) - 1 - j) = Some b"
  using arr_get_rev [of g j] by (auto simp: arr_get_def nth_append split: if_splits)

lemma arr_get_SomeD: "arr_get xs i = Some x \<Longrightarrow> 0 \<le> i \<and> i < int (length xs) \<and> x = xs ! nat i"
  by (simp add: arr_get_def split: if_splits)

lemma findR_inner_mirror:
  assumes "find_inner g 0 q tab i j = Some r" and "length tab = Suc (length q)" and "length q < 2 ^ 31"
    and "\<forall>k<length q. -1 \<le> tab ! k \<and> tab ! k < int k" and "-1 \<le> i" and "i < int (length q)"
  shows "findR_inner (rev g @ rest) (rev q) (int (length q)) (mirror (length q) tab) (int (length q) - 1 - i) (int (length g) - 1 - j) =
    Some (int (length q) - 1 - r) \<and> -1 \<le> r \<and> r \<le> i"
proof -
  have "z = 0 \<longrightarrow> length tab = Suc (length q) \<longrightarrow> length q < 2 ^ 31 \<longrightarrow>
    (\<forall>k<length q. -1 \<le> tab ! k \<and> tab ! k < int k) \<longrightarrow> -1 \<le> i \<longrightarrow> i < int (length q) \<longrightarrow>
    findR_inner (rev g @ rest) (rev q) (int (length q)) (mirror (length q) tab) (int (length q) - 1 - i) (int (length g) - 1 - j) =
    Some (int (length q) - 1 - r) \<and> -1 \<le> r \<and> r \<le> i" if "find_inner g z q tab i j = Some r" for z
  proof (rule find_inner.raw_induct [where P = "\<lambda>g z q tab i j r. z = 0 \<longrightarrow> length tab = Suc (length q) \<longrightarrow> length q < 2 ^ 31 \<longrightarrow>
      (\<forall>k<length q. -1 \<le> tab ! k \<and> tab ! k < int k) \<longrightarrow> -1 \<le> i \<longrightarrow> i < int (length q) \<longrightarrow>
      findR_inner (rev g @ rest) (rev q) (int (length q)) (mirror (length q) tab) (int (length q) - 1 - i) (int (length g) - 1 - j) =
      Some (int (length q) - 1 - r) \<and> -1 \<le> r \<and> r \<le> i", OF _ that], intro impI)
    fix rec g z q tab i j r
    assume ih: "\<And>g z q tab i j r. rec g z q tab i j = Some r \<Longrightarrow> z = 0 \<longrightarrow> length tab = Suc (length q) \<longrightarrow> length q < 2 ^ 31 \<longrightarrow>
        (\<forall>k<length q. -1 \<le> tab ! k \<and> tab ! k < int k) \<longrightarrow> -1 \<le> i \<longrightarrow> i < int (length q) \<longrightarrow>
        findR_inner (rev g @ rest) (rev q) (int (length q)) (mirror (length q) tab) (int (length q) - 1 - i) (int (length g) - 1 - j) =
        Some (int (length q) - 1 - r) \<and> -1 \<le> r \<and> r \<le> i"
      and run: "(if i > -1 then do {
        a \<leftarrow> arr_get q i;
        b \<leftarrow> arr_get g (z + j);
        if a \<noteq> b then do { k \<leftarrow> arr_get tab i; rec g z q tab (to_int k) j } else Some i }
      else Some i) = Some r"
      and z: "z = 0" and len: "length tab = Suc (length q)" and m: "length q < 2 ^ 31"
      and tab: "\<forall>k<length q. -1 \<le> tab ! k \<and> tab ! k < int k" and i: "-1 \<le> i" "i < int (length q)"
    have mi: "to_int (int (length q)) = int (length q)" using m by (simp add: to_int_id)
    show "findR_inner (rev g @ rest) (rev q) (int (length q)) (mirror (length q) tab) (int (length q) - 1 - i) (int (length g) - 1 - j) =
        Some (int (length q) - 1 - r) \<and> -1 \<le> r \<and> r \<le> i"
    proof (cases "i > -1")
      case True
      then obtain a b where ab: "arr_get q i = Some a" "arr_get g j = Some b"
        and next_i: "(if a \<noteq> b then do { k \<leftarrow> arr_get tab i; rec g z q tab (to_int k) j } else Some i) = Some r"
        using run z by (auto elim!: bind_eq_SomeE)
      note ab' = arr_get_rev [of q i, unfolded ab(1)] arr_get_rev_append [OF ab(2), of rest]
      show ?thesis
      proof (cases "a = b")
        case True
        then show ?thesis using next_i ab' i \<open>i > -1\<close> mi by (subst findR_inner.simps) simp
      next
        case False
        then obtain k where k: "arr_get tab i = Some k" "rec g z q tab (to_int k) j = Some r"
          using next_i by (auto elim!: bind_eq_SomeE)
        have kb: "-1 \<le> k" "k < i" using arr_get_SomeD [OF k(1)] spec [OF tab, of "nat i"] i(2) by auto
        have conv: "to_int k = k" "to_int (int (length q) - 1 - k) = int (length q) - 1 - k"
          using kb i m by (auto intro!: to_int_id)
        have t: "arr_get (mirror (length q) tab) (int (length q) - 1 - i + 1) = Some (int (length q) - 1 - k)"
          using arr_get_mirror [OF len, of i] k(1) by simp
        show ?thesis
          using ih [OF k(2) [unfolded conv(1)]] kb i z len m tab False ab' t \<open>i > -1\<close> mi conv(2)
          by (subst findR_inner.simps) simp
      qed
    next
      case False
      then show ?thesis using run i mi by (subst findR_inner.simps) auto
    qed
  qed
  from this [OF assms(1)] show ?thesis using assms(2-6) by simp
qed

text \<open>The last occurrence, or \<open>-1\<close>.\<close>

definition last_occ :: "'a list \<Rightarrow> 'a list \<Rightarrow> int" where
  "last_occ p h = (case find (occurs p h) (rev [0..<Suc (length h)]) of None \<Rightarrow> -1 | Some k \<Rightarrow> int k)"

lemma findR_while_mirror:
  assumes "find_while g 0 (int (length g)) q (int (length q)) tab i j = Some r"
    and "length tab = Suc (length q)" and "length q < 2 ^ 31" and "length g < 2 ^ 31"
    and "\<forall>k<length q. -1 \<le> tab ! k \<and> tab ! k < int k" and "0 \<le> i" and "i < int (length q)" and "i \<le> j" and "j \<le> int (length g)"
  shows "findR_while (rev g @ rest) (rev q) (int (length q)) (mirror (length q) tab) (int (length q) - 1 - i) (int (length g) - 1 - j) =
    Some (if r = -1 then -1 else int (length g) - int (length q) - r)"
proof -
  let ?P = "\<lambda>(g :: char list) z n (q :: char list) l tab i j r. z = 0 \<longrightarrow> n = int (length g) \<longrightarrow> l = int (length q) \<longrightarrow>
    length tab = Suc (length q) \<longrightarrow> length q < 2 ^ 31 \<longrightarrow> length g < 2 ^ 31 \<longrightarrow>
    (\<forall>k<length q. -1 \<le> tab ! k \<and> tab ! k < int k) \<longrightarrow> 0 \<le> i \<longrightarrow> i < int (length q) \<longrightarrow> i \<le> j \<longrightarrow> j \<le> int (length g) \<longrightarrow>
    findR_while (rev g @ rest) (rev q) (int (length q)) (mirror (length q) tab) (int (length q) - 1 - i) (int (length g) - 1 - j) =
    Some (if r = -1 then -1 else int (length g) - int (length q) - r)"
  have "?P g z n q l tab i j r" if "find_while g z n q l tab i j = Some r" for z n l
  proof (rule find_while.raw_induct [where P = ?P, OF _ that], intro impI)
    fix rec g z n q l tab i j r
    assume ih: "\<And>g z n q l tab i j r. rec g z n q l tab i j = Some r \<Longrightarrow> ?P g z n q l tab i j r"
      and run: "(if j < to_int n \<and> l \<le> to_size (to_size (n - j) + i)
        then do {
          i \<leftarrow> find_inner g z q tab i j;
          if to_int l \<le> i + 1 then Some ((j + 1) - (i + 1))
          else rec g z n q l tab (i + 1) (j + 1) }
        else Some (-1)) = Some r"
      and eqs: "z = 0" "n = int (length g)" "l = int (length q)"
      and len: "length tab = Suc (length q)" and m: "length q < 2 ^ 31" and ng: "length g < 2 ^ 31"
      and tab: "\<forall>k<length q. -1 \<le> tab ! k \<and> tab ! k < int k" and i: "0 \<le> i" "i < int (length q)" "i \<le> j" "j \<le> int (length g)"
    have conv: "to_int (int (length q)) = int (length q)" "to_int (int (length g)) = int (length g)"
      "to_size (int (length g) - j) = int (length g) - j" "to_size (int (length g) - j + i) = int (length g) - j + i"
      using m ng i by (auto intro!: to_int_id to_size_id)
    show "findR_while (rev g @ rest) (rev q) (int (length q)) (mirror (length q) tab) (int (length q) - 1 - i) (int (length g) - 1 - j) =
      Some (if r = -1 then -1 else int (length g) - int (length q) - r)"
    proof (cases "j < int (length g) \<and> int (length q) \<le> int (length g) - j + i")
      case False
      then have "r = -1" using run by (auto simp: eqs conv)
      then show ?thesis using False by (subst findR_while.simps) auto
    next
      case True
      then obtain i1 where i1: "find_inner g 0 q tab i j = Some i1"
        and next_i: "(if int (length q) \<le> i1 + 1 then Some ((j + 1) - (i1 + 1)) else rec g z n q l tab (i1 + 1) (j + 1)) = Some r"
        using run by (auto simp: eqs conv elim!: bind_eq_SomeE)
      have R: "findR_inner (rev g @ rest) (rev q) (int (length q)) (mirror (length q) tab) (int (length q) - 1 - i) (int (length g) - 1 - j) =
          Some (int (length q) - 1 - i1)" "-1 \<le> i1" "i1 \<le> i"
        using findR_inner_mirror [OF i1 len m tab, of rest] i by auto
      show ?thesis
      proof (cases "int (length q) \<le> i1 + 1")
        case whole: True
        then show ?thesis using True R next_i i by (subst findR_while.simps) auto
      next
        case False
        then have "rec g z n q l tab (i1 + 1) (j + 1) = Some r" using next_i by simp
        from ih [OF this] have "findR_while (rev g @ rest) (rev q) (int (length q)) (mirror (length q) tab)
            (int (length q) - 1 - (i1 + 1)) (int (length g) - 1 - (j + 1)) =
            Some (if r = -1 then -1 else int (length g) - int (length q) - r)"
          using eqs len m ng tab i R(2,3) True False by simp
        then show ?thesis using True False R by (subst findR_while.simps) (simp add: algebra_simps)
      qed
    qed
  qed
  from this [OF assms(1)] show ?thesis using assms(2-9) by simp
qed

section \<open>The last occurrence\<close>

lemma first_occ_cases:
  obtains "first_occ p h = -1" "\<And>k. \<not> occurs p h k"
  | k where "first_occ p h = int k" "occurs p h k" "\<And>x. x < k \<Longrightarrow> \<not> occurs p h x"
proof (cases "\<exists>k. occurs p h k")
  case True
  then obtain k where k: "occurs p h k" "\<And>x. x < k \<Longrightarrow> \<not> occurs p h x"
    using exists_least_iff [of "occurs p h"] by blast
  show ?thesis by (rule that(2) [OF first_occ_Some [OF k] k])
next
  case False
  then show ?thesis by (intro that(1) first_occ_None) auto
qed

lemma last_occ_None: "(\<And>k. \<not> occurs p h k) \<Longrightarrow> last_occ p h = -1"
proof -
  assume "\<And>k. \<not> occurs p h k"
  then have "find (occurs p h) (rev [0..<Suc (length h)]) = None" unfolding find_eq_None by blast
  then show ?thesis by (simp add: last_occ_def del: upt_Suc)
qed

lemma find_rev_upt: "P k \<Longrightarrow> k < n \<Longrightarrow> (\<And>x. k < x \<Longrightarrow> x < n \<Longrightarrow> \<not> P x) \<Longrightarrow> find P (rev [0..<n]) = Some k"
proof -
  assume a: "P k" "k < n" "\<And>x. k < x \<Longrightarrow> x < n \<Longrightarrow> \<not> P x"
  have "n - 1 - k < length (rev [0..<n])" "rev [0..<n] ! (n - 1 - k) = k" "\<forall>j<n - 1 - k. \<not> P (rev [0..<n] ! j)"
    using a by (auto simp: rev_nth)
  then show ?thesis unfolding find_Some_iff using a(1) by metis
qed

lemma last_occ_Some: "occurs p h k \<Longrightarrow> (\<And>x. k < x \<Longrightarrow> \<not> occurs p h x) \<Longrightarrow> last_occ p h = int k"
  using find_rev_upt [of "occurs p h" k "Suc (length h)"] by (auto simp: last_occ_def occurs_def simp del: upt_Suc)

lemma occurs_rev:
  assumes "k + length p \<le> length h"
  shows "occurs (rev p) (rev h) k \<longleftrightarrow> occurs p h (length h - length p - k)"
proof -
  have "take (length p) (drop k (rev h)) = rev (take (length p) (drop (length h - length p - k) h))"
    using assms by (intro nth_equalityI) (auto simp: rev_nth intro!: arg_cong [of _ _ "(!) h"])
  then show ?thesis using assms by (simp add: occurs_def)
qed

lemma last_occ_rev:
  "last_occ p h = (if first_occ (rev p) (rev h) = -1 then -1 else int (length h) - int (length p) - first_occ (rev p) (rev h))"
proof (rule first_occ_cases [of "rev p" "rev h"])
  assume a: "first_occ (rev p) (rev h) = -1" "\<And>k. \<not> occurs (rev p) (rev h) k"
  have "\<not> occurs p h k" for k
    using occurs_rev [of "length h - length p - k" p h] a(2) by (auto simp: occurs_def)
  then show ?thesis using a(1) last_occ_None by auto
next
  fix k assume a: "first_occ (rev p) (rev h) = int k" "occurs (rev p) (rev h) k" "\<And>x. x < k \<Longrightarrow> \<not> occurs (rev p) (rev h) x"
  have k: "k + length p \<le> length h" using a(2) by (simp add: occurs_def)
  have "\<not> occurs p h x" if x: "length h - length p - k < x" for x
  proof
    assume o: "occurs p h x"
    then have "x + length p \<le> length h" by (simp add: occurs_def)
    then have "occurs (rev p) (rev h) (length h - length p - x)" using occurs_rev [of "length h - length p - x" p h] o by simp
    moreover have "length h - length p - x < k" using x k \<open>x + length p \<le> length h\<close> by auto
    ultimately show False using a(3) by blast
  qed
  then have "last_occ p h = int (length h - length p - k)"
    using a(2) occurs_rev [OF k] by (intro last_occ_Some) auto
  then show ?thesis using a(1) k by simp
qed

lemma mirror_mirror [simp]: "mirror m (mirror m tab) = tab"
  by (simp add: mirror_def rev_map comp_def)

lemma KMP_findR_run:
  assumes "length tab = Suc (length p)" and "0 < length p" and "length p < 2 ^ 31" and "0 < length h" and "length h < 2 ^ 31"
  shows "\<exists>tab'. utstring_BuildTableR p (int (length p)) tab = Some tab' \<and> length tab' = Suc (length p) \<and>
    KMP_findR (h @ rest) (int (length h)) p (int (length p)) tab' = Some (last_occ p h)"
proof -
  have "length (mirror (length p) tab) = Suc (length (rev p))" using assms(1) by simp
  from BuildTable_run [OF this] obtain t where t: "utstring_BuildTable (rev p) (int (length p)) (mirror (length p) tab) = Some t"
    "length t = Suc (length p)" "\<And>k. k < length p \<Longrightarrow> fail_ok (rev p) k (t ! k)" by auto
  have B: "utstring_BuildTableR p (int (length p)) tab = Some (mirror (length p) t)"
    using BuildTableR_mirror [of "rev p" "mirror (length p) tab" t] t assms(1,2,3) by simp
  have "KMP_find (rev h) (int 0) (int (length (rev h))) (rev p) (int (length (rev p))) t = Some (first_occ (rev p) (rev h))"
    using t assms by (intro KMP_find_run) auto
  then have "find_while (rev h) 0 (int (length (rev h))) (rev p) (int (length (rev p))) t 0 0 = Some (first_occ (rev p) (rev h))"
    by (simp add: KMP_find_def)
  moreover have "\<forall>k<length (rev p). -1 \<le> t ! k \<and> t ! k < int k" using t(3) by (simp add: fail_ok_def)
  ultimately have "findR_while (h @ rest) p (int (length p)) (mirror (length p) t) (int (length p) - 1) (int (length h) - 1) =
      Some (last_occ p h)"
    using findR_while_mirror [of "rev h" "rev p" t 0 0 "first_occ (rev p) (rev h)" rest] t(2) assms(2,3,5)
    by (simp add: last_occ_rev)
  moreover have "to_int (to_size (int n - 1)) = int n - 1" if "0 < n" "n < 2 ^ 31" for n
    using that by (simp add: to_int_id to_size_id)
  ultimately show ?thesis using B t(2) assms(2-5) by (simp add: KMP_findR_def)
qed

end
