(* ===== verification/Utstring.thy ===== *)
theory Utstring
  imports Utstring_Backward
begin

text \<open>
  The dynamic strings of datastructures/utstring.h. A string is its buffer \<open>d\<close>, the allocated size
  \<open>n\<close> and the index \<open>i\<close> of the first unused byte. \<open>realloc\<close> is a parameter: it gets the bytes of the old
  block (none for \<open>NULL\<close>) and the new size, and returns the bytes of the new block or \<open>None\<close>. An
  access outside the buffer, or to a block that was freed, is the error \<open>Overrun\<close>; the arrays of utarray.h use
  \<open>Hangs\<close> for a loop that does not end.
\<close>

section \<open>Buffers\<close>

datatype ut_error = Oom | Overrun | Hangs

datatype 'e buffer = Null | Freed | Bytes "'e list"

record UT_string =
  sd :: "char buffer"
  sn :: "64 word"
  si :: "64 word"

type_synonym 'a ut = "ut_error + 'a"
type_synonym reallocator = "char list \<Rightarrow> 64 word \<Rightarrow> char list option"

definition ut_bind :: "'a ut \<Rightarrow> ('a \<Rightarrow> 'b ut) \<Rightarrow> 'b ut" where
  "ut_bind r f = (case r of Inl e \<Rightarrow> Inl e | Inr x \<Rightarrow> f x)"

lemma ut_bind_simps [simp]: "ut_bind (Inl e) f = Inl e" "ut_bind (Inr x) f = f x"
  by (simp_all add: ut_bind_def)

definition bytes_of :: "'e buffer \<Rightarrow> 'e list ut" where
  "bytes_of d = (case d of Bytes xs \<Rightarrow> Inr xs | _ \<Rightarrow> Inl Overrun)"

definition realloc_buffer :: "('e list \<Rightarrow> 'n \<Rightarrow> 'e list option) \<Rightarrow> 'e buffer \<Rightarrow> 'n \<Rightarrow> 'e list ut" where
  "realloc_buffer realloc d bytes =
     ut_bind (case d of Null \<Rightarrow> Inr [] | _ \<Rightarrow> bytes_of d) (\<lambda>old.
     case realloc old bytes of None \<Rightarrow> Inl Oom | Some new \<Rightarrow> Inr new)"

text \<open>The store of \<open>ys\<close> from the byte \<open>k\<close> on.\<close>

definition store_bytes :: "UT_string \<Rightarrow> 64 word \<Rightarrow> char list \<Rightarrow> UT_string ut" where
  "store_bytes s k ys = ut_bind (bytes_of (sd s)) (\<lambda>xs.
     if unat k + length ys \<le> length xs
     then Inr (s\<lparr>sd := Bytes (take (unat k) xs @ ys @ drop (unat k + length ys) xs)\<rparr>)
     else Inl Overrun)"

definition load_bytes :: "char list \<Rightarrow> 64 word \<Rightarrow> char list ut" where
  "load_bytes xs l = (if unat l \<le> length xs then Inr (take (unat l) xs) else Inl Overrun)"

abbreviation nul :: char where "nul \<equiv> CHR 0x00"

section \<open>The operations\<close>

definition utstring_reserve :: "reallocator \<Rightarrow> UT_string \<Rightarrow> 64 word \<Rightarrow> UT_string ut" where
  "utstring_reserve realloc s amt =
     (if sn s - si s < amt
      then ut_bind (realloc_buffer realloc (sd s) (sn s + amt)) (\<lambda>d.
           Inr (s\<lparr>sd := Bytes d, sn := sn s + amt\<rparr>))
      else Inr s)"

definition utstring_init :: "reallocator \<Rightarrow> UT_string \<Rightarrow> UT_string ut" where
  "utstring_init realloc s =
     ut_bind (utstring_reserve realloc (s\<lparr>sn := 0, si := 0, sd := Null\<rparr>) 100) (\<lambda>s.
     store_bytes s 0 [nul])"

definition utstring_done :: "UT_string \<Rightarrow> UT_string ut" where
  "utstring_done s =
     ut_bind (if sd s \<noteq> Null then ut_bind (bytes_of (sd s)) (\<lambda>_. Inr (s\<lparr>sd := Freed\<rparr>)) else Inr s) (\<lambda>s.
     Inr (s\<lparr>sn := 0\<rparr>))"

text \<open>A pointer to a string: \<open>NULL\<close>, to freed memory, or to a string.\<close>

datatype str_ptr = SNull | SFreed | SAt UT_string

definition utstring_free :: "str_ptr \<Rightarrow> str_ptr ut" where
  "utstring_free p = (case p of SAt s \<Rightarrow> ut_bind (utstring_done s) (\<lambda>_. Inr SFreed) | _ \<Rightarrow> Inl Overrun)"

text \<open>\<open>calloc_ok\<close> tells whether the allocation of the structure succeeds.\<close>

definition utstring_new :: "bool \<Rightarrow> reallocator \<Rightarrow> str_ptr ut" where
  "utstring_new calloc_ok realloc =
     (if calloc_ok
      then ut_bind (utstring_init realloc \<lparr>sd = Null, sn = 0, si = 0\<rparr>) (\<lambda>s. Inr (SAt s))
      else Inl Oom)"

definition utstring_clear :: "UT_string \<Rightarrow> UT_string ut" where
  "utstring_clear s = store_bytes (s\<lparr>si := 0\<rparr>) 0 [nul]"

definition utstring_renew :: "bool \<Rightarrow> reallocator \<Rightarrow> str_ptr \<Rightarrow> str_ptr ut" where
  "utstring_renew calloc_ok realloc p =
     (case p of
        SNull \<Rightarrow> utstring_new calloc_ok realloc
      | SFreed \<Rightarrow> Inl Overrun
      | SAt s \<Rightarrow> ut_bind (utstring_clear s) (\<lambda>s. Inr (SAt s)))"

definition utstring_bincpy :: "reallocator \<Rightarrow> UT_string \<Rightarrow> char list \<Rightarrow> 64 word \<Rightarrow> UT_string ut" where
  "utstring_bincpy realloc s b l =
     ut_bind (utstring_reserve realloc s (l + 1)) (\<lambda>s.
     ut_bind (if l \<noteq> 0 then ut_bind (load_bytes b l) (store_bytes s (si s)) else Inr s) (\<lambda>s.
     let s = s\<lparr>si := si s + l\<rparr> in store_bytes s (si s) [nul]))"

text \<open>
  \<open>utstring_concat\<close> gets two pointers, which may be the same: the strings are in a store, and the
  source is read again after each change of the destination.
\<close>

definition utstring_concat :: "reallocator \<Rightarrow> (nat \<Rightarrow> UT_string) \<Rightarrow> nat \<Rightarrow> nat \<Rightarrow> (nat \<Rightarrow> UT_string) ut" where
  "utstring_concat realloc S dst src =
     ut_bind (utstring_reserve realloc (S dst) (si (S src) + 1)) (\<lambda>s. let S = S(dst := s) in
     ut_bind (if si (S src) \<noteq> 0
              then ut_bind (bytes_of (sd (S src))) (\<lambda>xs.
                   ut_bind (load_bytes xs (si (S src))) (\<lambda>ys.
                   ut_bind (store_bytes (S dst) (si (S dst)) ys) (\<lambda>s. Inr (S(dst := s)))))
              else Inr S) (\<lambda>S.
     let S = S(dst := (S dst)\<lparr>si := si (S dst) + si (S src)\<rparr>) in
     ut_bind (store_bytes (S dst) (si (S dst)) [nul]) (\<lambda>s. Inr (S(dst := s)))))"

definition utstring_len :: "UT_string \<Rightarrow> 32 word" where
  "utstring_len s = ucast (si s)"

definition utstring_body :: "UT_string \<Rightarrow> char buffer" where
  "utstring_body s = sd s"

section \<open>Formatted output\<close>

text \<open>
  \<open>vsnprintf\<close> of the C library, for a format and arguments that print as \<open>text\<close>: what it returns and
  what it writes into a buffer of \<open>room\<close> bytes. The older convention, which the code provides for,
  returns \<open>-1\<close> when the text is cut.
\<close>

definition vsnprintf :: "bool \<Rightarrow> char list \<Rightarrow> 64 word \<Rightarrow> int \<times> char list" where
  "vsnprintf c99 text room =
     (if 2 ^ 31 \<le> length text \<or> (\<not> c99 \<and> unat room \<le> length text) then -1 else int (length text),
      if room = 0 then [] else take (unat room - 1) text @ [nul])"

partial_function (option) utstring_printf_va :: "reallocator \<Rightarrow> bool \<Rightarrow> UT_string \<Rightarrow> char list \<Rightarrow> UT_string ut option" where
  "utstring_printf_va realloc c99 s text =
     (let (n, out) = vsnprintf c99 text (sn s - si s) in
      case store_bytes s (si s) out of
        Inl e \<Rightarrow> Some (Inl e)
      | Inr s \<Rightarrow>
          if n > -1 \<and> n < to_int (uint (sn s - si s))
          then Some (Inr (s\<lparr>si := si s + word_of_int n\<rparr>))
          else case (if n > -1 then utstring_reserve realloc s (word_of_int (to_int (n + 1)))
                     else utstring_reserve realloc s (sn s * 2)) of
                 Inl e \<Rightarrow> Some (Inl e)
               | Inr s \<Rightarrow> utstring_printf_va realloc c99 s text)"

definition utstring_printf :: "reallocator \<Rightarrow> bool \<Rightarrow> UT_string \<Rightarrow> char list \<Rightarrow> UT_string ut option" where
  "utstring_printf realloc c99 s text = utstring_printf_va realloc c99 s text"

section \<open>Substring search\<close>

text \<open>
  \<open>malloc\<close> gives the table its first contents, or fails. The result is \<open>None\<close> when the search reads
  outside the buffer or does not end.
\<close>

definition start_position :: "UT_string \<Rightarrow> int \<Rightarrow> int" where
  "start_position s pos = (if pos < 0 then to_long (to_size (uint (si s) + pos)) else pos)"

definition utstring_find :: "(nat \<Rightarrow> int list option) \<Rightarrow> UT_string \<Rightarrow> int \<Rightarrow> char list \<Rightarrow> 64 word \<Rightarrow> int option" where
  "utstring_find malloc s pos needle len =
     (let start = start_position s pos;
          hlen = to_long (to_size (uint (si s) - start)) in
      if uint len \<le> to_size hlen \<and> uint len > 0
      then case malloc (unat len + 1) of
             None \<Rightarrow> Some (-1)
           | Some tab \<Rightarrow> do {
               tab \<leftarrow> utstring_BuildTable needle (to_uint (uint len)) tab;
               buf \<leftarrow> (case sd s of Bytes xs \<Rightarrow> Some xs | _ \<Rightarrow> None);
               r \<leftarrow> KMP_find buf start (to_size hlen) needle (uint len) tab;
               Some (if r \<ge> 0 then r + start else r) }
      else Some (-1))"

definition utstring_findR :: "(nat \<Rightarrow> int list option) \<Rightarrow> UT_string \<Rightarrow> int \<Rightarrow> char list \<Rightarrow> 64 word \<Rightarrow> int option" where
  "utstring_findR malloc s pos needle len =
     (let start = start_position s pos;
          hlen = to_long (start + 1) in
      if uint len \<le> to_size hlen \<and> uint len > 0
      then case malloc (unat len + 1) of
             None \<Rightarrow> Some (-1)
           | Some tab \<Rightarrow> do {
               tab \<leftarrow> utstring_BuildTableR needle (to_uint (uint len)) tab;
               buf \<leftarrow> (case sd s of Bytes xs \<Rightarrow> Some xs | _ \<Rightarrow> None);
               KMP_findR buf (to_size hlen) needle (uint len) tab }
      else Some (-1))"

end
