(* ===== verification/Utstring_Ops.thy ===== *)
theory Utstring_Ops
  imports Utstring
begin

text \<open>
  What the operations on dynamic strings do to the text a string holds, for every allocator that
  keeps the contents of a block and refuses sizes above some limit below \<open>2 ^ 63\<close>.
\<close>

section \<open>The text of a string\<close>

text \<open>\<open>room_for s v rest\<close>: the text \<open>v\<close>, then the bytes \<open>rest\<close> of the buffer.\<close>

definition room_for :: "UT_string \<Rightarrow> char list \<Rightarrow> char list \<Rightarrow> bool" where
  "room_for s v rest \<longleftrightarrow> sd s = Bytes (v @ rest) \<and> unat (sn s) = length v + length rest \<and> unat (si s) = length v"

definition str_ok :: "UT_string \<Rightarrow> bool" where
  "str_ok s \<longleftrightarrow> (case sd s of
     Bytes xs \<Rightarrow> length xs = unat (sn s) \<and> unat (si s) < length xs \<and> xs ! unat (si s) = nul
   | _ \<Rightarrow> False)"

definition str_val :: "UT_string \<Rightarrow> char list" where
  "str_val s = (case sd s of Bytes xs \<Rightarrow> take (unat (si s)) xs | _ \<Rightarrow> [])"

lemma str_ok_room: "str_ok s \<Longrightarrow> \<exists>rest. room_for s (str_val s) (nul # rest)"
proof -
  assume ok: "str_ok s"
  then obtain xs where xs: "sd s = Bytes xs" "length xs = unat (sn s)" "unat (si s) < length xs" "xs ! unat (si s) = nul"
    by (auto simp: str_ok_def split: buffer.splits)
  then have "xs = take (unat (si s)) xs @ nul # drop (Suc (unat (si s))) xs" by (metis id_take_nth_drop)
  then show ?thesis using xs by (auto simp: room_for_def str_val_def intro!: exI [of _ "drop (Suc (unat (si s))) xs"])
qed

lemma room_str_ok: "room_for s v (nul # rest) \<Longrightarrow> str_ok s \<and> str_val s = v"
  by (simp add: room_for_def str_ok_def str_val_def)

section \<open>The allocator\<close>

definition realloc_ok :: "nat \<Rightarrow> reallocator \<Rightarrow> bool" where
  "realloc_ok lim realloc \<longleftrightarrow> lim < 2 ^ 63 \<and> (\<forall>xs bytes ys. realloc xs bytes = Some ys \<longrightarrow>
     length ys = unat bytes \<and> unat bytes \<le> lim \<and> take (min (length xs) (length ys)) ys = take (min (length xs) (length ys)) xs)"

lemma realloc_okD:
  "realloc_ok lim ra \<Longrightarrow> ra xs bytes = Some ys \<Longrightarrow>
    length ys = unat bytes \<and> unat bytes \<le> lim \<and> take (min (length xs) (length ys)) ys = take (min (length xs) (length ys)) xs"
  unfolding realloc_ok_def by blast

lemma unat_add_small: "unat (a :: 64 word) + unat b < 2 ^ 64 \<Longrightarrow> unat (a + b) = unat a + unat b"
  by (simp add: unat_word_ariths)

lemma unat_diff: "unat (b :: 64 word) \<le> unat a \<Longrightarrow> unat (a - b) = unat a - unat b"
  by (simp add: unat_sub word_le_nat_alt)

lemma unat_small: "m < 2 ^ 64 \<Longrightarrow> unat (word_of_nat m :: 64 word) = m"
  by (simp add: unat_of_nat take_bit_nat_eq_self)

lemma room_for_room: "room_for s v rest \<Longrightarrow> unat (sn s - si s) = length rest"
  by (simp add: room_for_def unat_diff)

lemma reserve_room:
  assumes "realloc_ok lim ra" and "room_for s v rest" and "unat (sn s) \<le> lim" and "unat amt < 2 ^ 63"
  obtains "utstring_reserve ra s amt = Inl Oom"
  | s' rest' where "utstring_reserve ra s amt = Inr s'" "room_for s' v rest'" "unat (sn s') \<le> lim" "unat amt \<le> length rest'"
      "take (length rest) rest' = rest" "length rest < unat amt \<longrightarrow> length rest' = length rest + unat amt"
proof (cases "sn s - si s < amt")
  case False
  then have "unat amt \<le> length rest" using room_for_room [OF assms(2)] by (simp add: word_less_nat_alt)
  then show ?thesis using False assms(2,3) that(2) [of s rest] by (simp add: utstring_reserve_def)
next
  case True
  have sz: "unat (sn s + amt) = length v + length rest + unat amt"
    using assms by (subst unat_add_small) (auto simp: realloc_ok_def room_for_def)
  show ?thesis
  proof (cases "ra (v @ rest) (sn s + amt)")
    case None
    then show ?thesis using True assms(2) that(1) by (simp add: utstring_reserve_def realloc_buffer_def bytes_of_def room_for_def)
  next
    case (Some ys)
    then have ys: "length ys = length v + length rest + unat amt" "length v + length rest + unat amt \<le> lim"
      "take (length v + length rest) ys = v @ rest"
      using realloc_okD [OF assms(1) Some] by (auto simp: sz min_def)
    define r where "r = drop (length v) ys"
    have "take (length v) ys = v" using arg_cong [OF ys(3), of "take (length v)"] by (simp add: min_def)
    then have split: "ys = v @ r" unfolding r_def by (metis append_take_drop_id)
    then have "take (length rest) r = rest" "length r = length rest + unat amt" using ys by auto
    then show ?thesis
      using True Some assms(2) ys sz split that(2) [of "s\<lparr>sd := Bytes ys, sn := sn s + amt\<rparr>" r]
      by (simp add: utstring_reserve_def realloc_buffer_def bytes_of_def room_for_def)
  qed
qed

section \<open>Stores at the end of the text\<close>

lemma store_end:
  assumes "room_for s v rest" and "length ys \<le> length rest"
  shows "store_bytes s (si s) ys = Inr (s\<lparr>sd := Bytes (v @ ys @ drop (length ys) rest)\<rparr>)"
  using assms by (simp add: store_bytes_def bytes_of_def room_for_def)

lemma append_end:
  assumes "room_for s v rest" and "length ys < length rest" and "unat l = length ys"
  shows "\<exists>s'. ut_bind (if l \<noteq> 0 then store_bytes s (si s) ys else Inr s) (\<lambda>s. let s = s\<lparr>si := si s + l\<rparr> in store_bytes s (si s) [nul]) =
      Inr s' \<and> room_for s' (v @ ys) (nul # drop (Suc (length ys)) rest) \<and> sn s' = sn s"
proof -
  have "unat (sn s) < 2 ^ 64" using unsigned_less [where ?'a = nat, of "sn s"] by simp
  then have "unat (si s) + unat l < 2 ^ 64" using assms by (simp add: room_for_def)
  then have i: "unat (si s + l) = length v + length ys" using assms by (simp add: unat_add_small room_for_def)
  define s1 where "s1 = s\<lparr>sd := Bytes (v @ ys @ drop (length ys) rest), si := si s + l\<rparr>"
  have 1: "(if l \<noteq> 0 then store_bytes s (si s) ys else Inr s) = Inr (s1\<lparr>si := si s\<rparr>)"
    using store_end [OF assms(1), of ys] assms by (cases "ys = []") (auto simp: s1_def room_for_def unat_eq_0)
  have r: "room_for s1 (v @ ys) (drop (length ys) rest)" using assms i by (simp add: room_for_def s1_def)
  have "store_bytes s1 (si s1) [nul] = Inr (s1\<lparr>sd := Bytes (v @ ys @ nul # drop (Suc (length ys)) rest)\<rparr>)"
    using store_end [OF r, of "[nul]"] assms(2) by simp
  moreover have "room_for (s1\<lparr>sd := Bytes (v @ ys @ nul # drop (Suc (length ys)) rest)\<rparr>) (v @ ys) (nul # drop (Suc (length ys)) rest)"
    using r assms(2) by (simp add: room_for_def)
  moreover have "s1\<lparr>si := si s, si := si (s1\<lparr>si := si s\<rparr>) + l\<rparr> = s1" by (simp add: s1_def)
  ultimately show ?thesis unfolding 1 by (simp add: Let_def s1_def)
qed

section \<open>Whole operations\<close>

text \<open>\<open>holds lim s v\<close>: the string holds the text \<open>v\<close>, terminated, in a block the allocator gave.\<close>

definition holds :: "nat \<Rightarrow> UT_string \<Rightarrow> char list \<Rightarrow> bool" where
  "holds lim s v \<longleftrightarrow> str_ok s \<and> str_val s = v \<and> unat (sn s) \<le> lim"

lemma holds_room: "holds lim s v \<Longrightarrow> \<exists>rest. room_for s v (nul # rest)"
  using str_ok_room [of s] by (auto simp: holds_def)

lemma room_holds: "room_for s v (nul # rest) \<Longrightarrow> unat (sn s) \<le> lim \<Longrightarrow> holds lim s v"
  using room_str_ok by (auto simp: holds_def)

lemma holds_clear:
  assumes "holds lim s v"
  shows "\<exists>s'. utstring_clear s = Inr s' \<and> holds lim s' []"
proof -
  obtain rest where r: "room_for s v (nul # rest)" using holds_room [OF assms] by blast
  then obtain c xs where c: "v @ nul # rest = c # xs" "length xs = length v + length rest" by (cases v) auto
  have "room_for (s\<lparr>si := 0, sd := Bytes (nul # xs)\<rparr>) [] (nul # xs)" using r c(2) by (simp add: room_for_def)
  then have "holds lim (s\<lparr>si := 0, sd := Bytes (nul # xs)\<rparr>) []"
    by (rule room_holds) (use assms in \<open>simp add: holds_def\<close>)
  then show ?thesis using r c by (simp add: utstring_clear_def store_bytes_def bytes_of_def room_for_def)
qed

lemma holds_init:
  assumes "realloc_ok lim ra"
  shows "utstring_init ra s = Inl Oom \<or> (\<exists>s'. utstring_init ra s = Inr s' \<and> holds lim s' [])"
proof -
  let ?s = "s\<lparr>sn := 0, si := 0, sd := Null\<rparr>"
  have c: "sn ?s - si ?s < 100" "sn ?s + 100 = 100" by simp_all
  show ?thesis
  proof (cases "ra [] 100")
    case None
    then show ?thesis by (simp add: utstring_init_def utstring_reserve_def realloc_buffer_def)
  next
    case (Some ys)
    then have ys: "length ys = 100" "100 \<le> lim" using realloc_okD [OF assms Some] by auto
    then obtain c xs where cx: "ys = c # xs" by (cases ys) auto
    have "room_for (s\<lparr>si := 0, sn := 100, sd := Bytes (nul # xs)\<rparr>) [] (nul # xs)" using ys cx by (simp add: room_for_def)
    then have "holds lim (s\<lparr>si := 0, sn := 100, sd := Bytes (nul # xs)\<rparr>) []" by (rule room_holds) (use ys in simp)
    then show ?thesis using Some ys cx
      by (simp add: utstring_init_def utstring_reserve_def realloc_buffer_def store_bytes_def bytes_of_def)
  qed
qed

lemma holds_reserve:
  assumes "realloc_ok lim ra" and "holds lim s v" and "unat amt < 2 ^ 63"
  shows "utstring_reserve ra s amt = Inl Oom \<or> (\<exists>s'. utstring_reserve ra s amt = Inr s' \<and> holds lim s' v)"
proof -
  obtain rest where r: "room_for s v (nul # rest)" using holds_room [OF assms(2)] by blast
  show ?thesis
  proof (rule reserve_room [OF assms(1) r _ assms(3)])
    show "unat (sn s) \<le> lim" using assms(2) by (simp add: holds_def)
  next
    fix s' rest' assume a: "utstring_reserve ra s amt = Inr s'" "room_for s' v rest'" "unat (sn s') \<le> lim"
      "take (length (nul # rest)) rest' = nul # rest"
    then obtain rs where "rest' = nul # rs" by (cases rest') auto
    then show ?thesis using a room_holds by blast
  qed simp
qed

text \<open>The bytes \<open>ys\<close> appended after room for one more than them was reserved.\<close>

lemma holds_append:
  assumes "room_for s v rest" and "unat (sn s) \<le> lim" and "unat l + 1 \<le> length rest" and "length ys = unat l"
  shows "\<exists>s'. ut_bind (if l \<noteq> 0 then store_bytes s (si s) ys else Inr s) (\<lambda>s. let s = s\<lparr>si := si s + l\<rparr> in store_bytes s (si s) [nul]) =
      Inr s' \<and> holds lim s' (v @ ys)"
  using append_end [OF assms(1), of ys l] assms(2-4) room_holds by fastforce

lemma unat_add_1: "unat l < 2 ^ 63 \<Longrightarrow> unat (l + 1 :: 64 word) = unat l + 1"
  by (subst unat_add_small) auto

lemma holds_bincpy:
  assumes "realloc_ok lim ra" and "holds lim s v" and "unat l \<le> length b" and "unat l + 1 < 2 ^ 63"
  shows "utstring_bincpy ra s b l = Inl Oom \<or> (\<exists>s'. utstring_bincpy ra s b l = Inr s' \<and> holds lim s' (v @ take (unat l) b))"
proof -
  obtain rest where r: "room_for s v (nul # rest)" using holds_room [OF assms(2)] by blast
  have l1: "unat (l + 1) = unat l + 1" using assms(4) by (intro unat_add_1) simp
  show ?thesis
  proof (rule reserve_room [OF assms(1) r, of "l + 1"])
    show "unat (sn s) \<le> lim" using assms(2) by (simp add: holds_def)
    show "unat (l + 1) < 2 ^ 63" using l1 assms(4) by simp
  next
    fix s' rest' assume a: "utstring_reserve ra s (l + 1) = Inr s'" "room_for s' v rest'" "unat (sn s') \<le> lim" "unat (l + 1) \<le> length rest'"
    have e: "ut_bind (load_bytes b l) (store_bytes s' (si s')) = store_bytes s' (si s') (take (unat l) b)"
      using assms(3) by (simp add: load_bytes_def)
    have "length (take (unat l) b) = unat l" using assms(3) by simp
    from holds_append [OF a(2,3) _ this] show ?thesis
      using a(4) l1 by (auto simp: utstring_bincpy_def a(1) e)
  qed (simp add: utstring_bincpy_def)
qed

lemma holds_value: "holds lim s v \<Longrightarrow> unat (si s) = length v"
  using holds_room [of lim s v] by (auto simp: room_for_def)

lemma load_text: "room_for s w r \<Longrightarrow> sd s = Bytes (w @ r) \<and> load_bytes (w @ r) (si s) = Inr w"
  by (simp add: room_for_def load_bytes_def)

lemma holds_concat:
  assumes "realloc_ok lim ra" and "holds lim (S d) v" and "holds lim (S c) w"
  shows "utstring_concat ra S d c = Inl Oom \<or>
    (\<exists>s'. utstring_concat ra S d c = Inr (S(d := s')) \<and> holds lim s' (v @ w))"
proof -
  obtain rest rc where r: "room_for (S d) v (nul # rest)" "room_for (S c) w (nul # rc)"
    using holds_room assms(2,3) by metis
  have lim: "unat (sn (S d)) \<le> lim" "unat (sn (S c)) \<le> lim" "lim < 2 ^ 63"
    using assms by (auto simp: holds_def realloc_ok_def)
  define l where "l = si (S c)"
  have l: "unat l = length w" "unat l < 2 ^ 63" using r(2) lim by (auto simp: l_def room_for_def)
  have l1: "unat (l + 1) = unat l + 1" by (rule unat_add_1 [OF l(2)])
  have "unat (l + 1) < 2 ^ 63" using l1 l(1) r(2) lim by (simp add: room_for_def)
  then show ?thesis
  proof (rule reserve_room [OF assms(1) r(1) lim(1)])
    assume "utstring_reserve ra (S d) (l + 1) = Inl Oom"
    then show ?thesis by (simp add: utstring_concat_def l_def)
  next
    fix s' rest' assume a: "utstring_reserve ra (S d) (l + 1) = Inr s'" "room_for s' v rest'" "unat (sn s') \<le> lim"
      "unat (l + 1) \<le> length rest'"
    define T where "T = S(d := s')"
    have Td: "T d = s'" "T(d := s') = T" and Tu: "T(d := x) = S(d := x)" for x by (simp_all add: T_def)
    have "d = c \<Longrightarrow> v = w" using assms(2,3) by (simp add: holds_def)
    then obtain rt where rt: "room_for (T c) w rt" using a(2) r(2) by (cases "d = c") (auto simp: T_def)
    then have Tl: "si (T c) = l" using l(1) by (simp add: room_for_def word_unat_eq_iff)
    define s2 where "s2 = (if l \<noteq> 0 then s'\<lparr>sd := Bytes (v @ w @ drop (length w) rest')\<rparr> else s')"
    have copy: "store_bytes s' (si s') w = Inr (s'\<lparr>sd := Bytes (v @ w @ drop (length w) rest')\<rparr>)"
      using store_end [OF a(2)] a(4) l1 l(1) by simp
    have 1: "(if l \<noteq> 0 then store_bytes s' (si s') w else Inr s') = Inr s2" by (simp add: copy s2_def)
    have 2: "(if si (T c) \<noteq> 0
        then ut_bind (bytes_of (sd (T c))) (\<lambda>xs. ut_bind (load_bytes xs (si (T c))) (\<lambda>ys.
             ut_bind (store_bytes (T d) (si (T d)) ys) (\<lambda>s. Inr (T(d := s)))))
        else Inr T) = Inr (T(d := s2))"
      using load_text [OF rt, unfolded Tl] copy by (auto simp: Td Tl bytes_of_def s2_def)
    have 3: "si ((T(d := s2)) c) = l"
      using Tl by (auto simp: T_def s2_def)
    obtain s3 where s3: "store_bytes (s2\<lparr>si := si s2 + l\<rparr>) (si (s2\<lparr>si := si s2 + l\<rparr>)) [nul] = Inr s3" "holds lim s3 (v @ w)"
      using holds_append [OF a(2,3) _ l(1) [symmetric]] a(4) l1 unfolding 1 by (auto simp: Let_def)
    have "utstring_concat ra S d c = Inr (S(d := s3))"
      unfolding utstring_concat_def Let_def l_def [symmetric] a(1) ut_bind_simps T_def [symmetric] 2
      unfolding 3 using s3(1) by (simp add: Tu)
    then show ?thesis using s3(2) by blast
  qed
qed

end
