(* ===== verification/Utstring_Printf.thy ===== *)
theory Utstring_Printf
  imports Utstring_Props
begin

text \<open>
  Formatted output: the loop that prints into the free bytes and, when the text does not fit, asks
  for more of them, with the \<open>vsnprintf\<close> of C99 and with the older one that returns \<open>-1\<close>.
\<close>

section \<open>One round\<close>

lemma reserve_grow:
  assumes "realloc_ok lim ra" and "lim < 2 ^ 31" and "room_for s v rest" and "unat (sn s) \<le> lim"
    and "length rest < unat amt" and "unat amt \<le> 2 ^ 64 - 2 ^ 31"
  shows "utstring_reserve ra s amt = Inl Oom \<or>
    (\<exists>s' rest'. utstring_reserve ra s amt = Inr s' \<and> room_for s' v rest' \<and> unat (sn s) < unat (sn s') \<and> unat (sn s') \<le> lim)"
proof (cases "unat amt < 2 ^ 63")
  case True
  show ?thesis
  proof (rule reserve_room [OF assms(1,3,4) True])
    fix s' rest' assume "utstring_reserve ra s amt = Inr s'" "room_for s' v rest'" "unat (sn s') \<le> lim"
      "length rest < unat amt \<longrightarrow> length rest' = length rest + unat amt"
    then show ?thesis using assms(3,5) by (intro disjI2 exI [of _ s'] exI [of _ rest']) (auto simp: room_for_def)
  qed simp
next
  case False
  have "unat (sn s + amt) = unat (sn s) + unat amt" using assms(2,4,6) by (intro unat_add_small) simp
  then have "\<not> unat (sn s + amt) \<le> lim" using False assms(2) by simp
  then have "ra xs (sn s + amt) = None" for xs using realloc_okD [OF assms(1), of xs "sn s + amt"] by (cases "ra xs (sn s + amt)") auto
  moreover have "sn s - si s < amt" using room_for_room [OF assms(3)] assms(5) by (simp add: word_less_nat_alt)
  ultimately show ?thesis using assms(3)
    by (simp add: utstring_reserve_def realloc_buffer_def bytes_of_def room_for_def)
qed

lemma printf_store:
  assumes "room_for s v rest" and "vsnprintf c99 text (sn s - si s) = (n, out)"
  shows "\<exists>s1. store_bytes s (si s) out = Inr s1 \<and> sn s1 = sn s \<and> si s1 = si s \<and>
    room_for s1 v (out @ drop (length out) rest)"
proof -
  have "sn s - si s \<noteq> 0 \<longrightarrow> 0 < length rest" using room_for_room [OF assms(1)] by (auto simp: unat_eq_0 [symmetric])
  then have out: "length out \<le> length rest"
    using assms(2) room_for_room [OF assms(1)] by (cases "sn s - si s = 0"; cases rest) (auto simp: vsnprintf_def)
  then show ?thesis using store_end [OF assms(1) out] assms(1) by (simp add: room_for_def)
qed

text \<open>The number of bytes asked for when the text did not fit.\<close>

definition printf_more :: "UT_string \<Rightarrow> int \<Rightarrow> 64 word" where
  "printf_more s n = (if n > -1 then word_of_int (to_int (n + 1)) else sn s * 2)"

lemma printf_va_step:
  assumes "vsnprintf c99 text (sn s - si s) = (n, out)" and "store_bytes s (si s) out = Inr s1" and "sn s1 = sn s" "si s1 = si s"
  shows "utstring_printf_va ra c99 s text =
    (if n > -1 \<and> n < to_int (uint (sn s - si s)) then Some (Inr (s1\<lparr>si := si s + word_of_int n\<rparr>))
     else case utstring_reserve ra s1 (printf_more s n) of
            Inl e \<Rightarrow> Some (Inl e) | Inr s \<Rightarrow> utstring_printf_va ra c99 s text)"
  by (subst utstring_printf_va.simps) (auto simp: assms printf_more_def Let_def split: sum.splits)

lemma printf_more_big:
  assumes "vsnprintf c99 text (sn s - si s) = (n, out)" and "room_for s v rest" and "unat (sn s) < 2 ^ 31" and "0 < unat (sn s)"
    and "length rest \<le> length text"
  shows "length rest < unat (printf_more s n) \<and> unat (printf_more s n) \<le> 2 ^ 64 - 2 ^ 31"
proof (cases "n > -1")
  case True
  then have n: "n = int (length text)" "length text < 2 ^ 31" using assms(1) by (auto simp: vsnprintf_def split: if_splits)
  show ?thesis
  proof (cases "length text + 1 < 2 ^ 31")
    case True
    then have "to_int (n + 1) = int (length text + 1)" using n by (simp add: to_int_id)
    moreover have "unat (word_of_nat (length text + 1) :: 64 word) = length text + 1" by (rule unat_small) (use True in simp)
    ultimately have "unat (printf_more s n) = length text + 1"
      using \<open>n > -1\<close> by (simp add: printf_more_def del: of_nat_add of_nat_Suc)
    then show ?thesis using assms(5) True by simp
  next
    case False
    then have "n + 1 = 2 ^ 31" using n by auto
    then have "printf_more s n = word_of_int (to_int (2 ^ 31))" using \<open>n > -1\<close> by (simp add: printf_more_def)
    also have "to_int (2 ^ 31) = - (2 ^ 31)" by code_simp
    also have "(word_of_int (- (2 ^ 31)) :: 64 word) = 18446744071562067968" by simp
    finally show ?thesis using assms(2,3) by (simp add: room_for_def)
  qed
next
  case False
  have "unat (sn s * 2) = unat (sn s) * 2" using assms(3) by (simp add: unat_word_ariths)
  then show ?thesis using False assms(2-4) by (auto simp: printf_more_def room_for_def)
qed

lemma printf_va_run:
  assumes "realloc_ok lim ra" and "lim < 2 ^ 31" and "room_for s v rest" and "unat (sn s) \<le> lim" and "0 < unat (sn s)"
  shows "utstring_printf_va ra c99 s text = Some (Inl Oom) \<or>
    (\<exists>s'. utstring_printf_va ra c99 s text = Some (Inr s') \<and> holds lim s' (v @ text))"
  using assms(3-5)
proof (induction "lim - unat (sn s)" arbitrary: s rest rule: less_induct)
  case less
  obtain n out where v: "vsnprintf c99 text (sn s - si s) = (n, out)" by fastforce
  obtain s1 where s1: "store_bytes s (si s) out = Inr s1" "sn s1 = sn s" "si s1 = si s" "room_for s1 v (out @ drop (length out) rest)"
    using printf_store [OF less.prems(1) v] by blast
  note step = printf_va_step [OF v s1(1-3), of ra]
  have m: "unat (sn s - si s) = length rest" using room_for_room [OF less.prems(1)] .
  have lr: "length rest < 2 ^ 31" using less.prems(1,2) assms(2) by (simp add: room_for_def)
  then have ti: "to_int (uint (sn s - si s)) = int (length rest)"
    using m by (simp add: to_int_id uint_nat)
  show ?case
  proof (cases "length text < length rest")
    case True
    then have n: "n = int (length text)" "out = text @ [nul]"
      using v m lr by (auto simp: vsnprintf_def unat_eq_0 split: if_splits)
    have "unat (sn s) = length v + length rest" using less.prems(1) by (simp add: room_for_def)
    then have "unat (si s + word_of_nat (length text)) = length v + length text"
      using True less.prems(1,2) assms(2) by (subst unat_add_small) (auto simp: room_for_def unat_small)
    then have "room_for (s1\<lparr>si := si s + word_of_nat (length text)\<rparr>) (v @ text) (nul # drop (Suc (length text)) rest)"
      using s1(4) n(2) by (simp add: room_for_def)
    then have "holds lim (s1\<lparr>si := si s + word_of_nat (length text)\<rparr>) (v @ text)"
      by (rule room_holds) (use s1(2) less.prems(2) in simp)
    then show ?thesis using True n step ti by simp
  next
    case False
    then have nn: "\<not> (n > -1 \<and> n < to_int (uint (sn s - si s)))"
      using v ti by (auto simp: vsnprintf_def split: if_splits)
    have big: "length rest < unat (printf_more s n)" "unat (printf_more s n) \<le> 2 ^ 64 - 2 ^ 31"
      using printf_more_big [OF v less.prems(1)] False less.prems(2,3) assms(2) by auto
    have lo: "length (out @ drop (length out) rest) = length rest" using s1(2-4) less.prems(1) by (simp add: room_for_def)
    show ?thesis
      using reserve_grow [OF assms(1,2) s1(4) less.prems(2) [folded s1(2)] _ big(2), unfolded lo, OF big(1)]
    proof (elim disjE exE conjE)
      assume "utstring_reserve ra s1 (printf_more s n) = Inl Oom"
      then show ?thesis using step nn by auto
    next
      fix s' rest'
      assume a: "utstring_reserve ra s1 (printf_more s n) = Inr s'" "room_for s' v rest'" "unat (sn s1) < unat (sn s')" "unat (sn s') \<le> lim"
      then have "lim - unat (sn s') < lim - unat (sn s)" using s1(2) by simp
      from less.hyps [OF this a(2,4)] show ?thesis using a(1,3) step nn by simp
    qed
  qed
qed

section \<open>Appending and hanging\<close>

text \<open>C20: Printing into a utstring ends, with the vsnprintf of C99 and with the one that returns -1 when
  the text is cut: either realloc returned NULL, or the string is well formed and holds its text
  followed by the whole printed text, however often the loop had to ask for more space. The bound on
  the sizes realloc grants is below 2 ^ 31.
\<close>

theorem utstring_printf_appends:
  assumes "realloc_ok lim realloc" and "lim < 2 ^ 31" and "holds lim s v"
  shows "utstring_printf realloc c99 s text = Some (Inl Oom) \<or>
    (\<exists>s'. utstring_printf realloc c99 s text = Some (Inr s') \<and> str_ok s' \<and> str_val s' = v @ text)"
proof -
  obtain rest where r: "room_for s v (nul # rest)" using holds_room [OF assms(3)] by blast
  then have "0 < unat (sn s)" "unat (sn s) \<le> lim" using assms(3) by (simp_all add: room_for_def holds_def)
  then show ?thesis using printf_va_run [OF assms(1,2) r, of c99 "text"] by (auto simp: utstring_printf_def holds_def)
qed

theorem utstring_printf_appends_witness:
  "\<exists>s'. utstring_printf demo_realloc False demo_string ''xyz'' = Some (Inr s') \<and> str_val s' = ''abxyz''"
proof -
  let ?s = "\<lparr>sd = Bytes (''ab'' @ replicate 7 nul), sn = 9, si = 2\<rparr>"
  let ?t = "\<lparr>sd = Bytes (''abxyz'' @ replicate 4 nul), sn = 9, si = 2\<rparr>"
  have r: "utstring_reserve demo_realloc demo_string (printf_more demo_string (-1)) = Inr ?s" by code_simp
  have c: "\<not> 3 < to_int (uint (sn demo_string - si demo_string))" "3 < to_int (uint (sn ?s - si ?s))" by code_simp+
  have v: "vsnprintf False ''xyz'' (sn demo_string - si demo_string) = (-1, [nul])"
    "vsnprintf False ''xyz'' (sn ?s - si ?s) = (3, ''xyz'' @ [nul])" by (simp_all add: vsnprintf_def demo_string_def)
  have e: "sn ?t = sn ?s" "si ?t = si ?s" by simp_all
  have w: "store_bytes demo_string (si demo_string) [nul] = Inr demo_string" "store_bytes ?s (si ?s) (''xyz'' @ [nul]) = Inr ?t"
    by code_simp+
  have "utstring_printf_va demo_realloc False demo_string ''xyz'' = utstring_printf_va demo_realloc False ?s ''xyz''"
    unfolding printf_va_step [OF v(1) w(1) refl refl] r by simp
  also have "\<dots> \<noteq> Some (Inl Oom)"
    using c(2) unfolding printf_va_step [OF v(2) w(2) e] by simp
  finally show ?thesis
    using utstring_printf_appends [OF demo_realloc_ok _ demo_holds, of False "''xyz''"] by (auto simp: utstring_printf_def)
qed

lemma printf_va_stuck:
  assumes "utstring_printf_va ra True s text = Some r" and "\<exists>v rest. room_for s v rest \<and> length text < length rest"
    and "length text + 1 < 2 ^ 31" and "to_int (uint (sn s - si s)) \<le> int (length text)"
  shows False
proof -
  let ?P = "\<lambda>ra c99 s text (r :: UT_string ut). c99 \<longrightarrow> (\<exists>v rest. room_for s v rest \<and> length text < length rest) \<longrightarrow>
    length text + 1 < 2 ^ 31 \<longrightarrow> to_int (uint (sn s - si s)) \<le> int (length text) \<longrightarrow> False"
  have "?P ra True s text r"
  proof (rule utstring_printf_va.raw_induct [where P = ?P, OF _ assms(1)], intro impI)
    fix rec ra c99 s "text" r
    assume ih: "\<And>ra c99 s text r. rec ra c99 s text = Some r \<Longrightarrow> ?P ra c99 s text r" and c99
      and run: "(let (n, out) = vsnprintf c99 text (sn s - si s) in
        case store_bytes s (si s) out of
          Inl e \<Rightarrow> Some (Inl e)
        | Inr s \<Rightarrow>
            if n > -1 \<and> n < to_int (uint (sn s - si s)) then Some (Inr (s\<lparr>si := si s + word_of_int n\<rparr>))
            else case (if n > -1 then utstring_reserve ra s (word_of_int (to_int (n + 1))) else utstring_reserve ra s (sn s * 2)) of
                   Inl e \<Rightarrow> Some (Inl e) | Inr s \<Rightarrow> rec ra c99 s text) = Some r"
      and room: "\<exists>v rest. room_for s v rest \<and> length text < length rest"
      and l: "length text + 1 < 2 ^ 31" and neg: "to_int (uint (sn s - si s)) \<le> int (length text)"
    from room obtain v rest where vr: "room_for s v rest" "length text < length rest" by blast
    obtain n out where o: "vsnprintf c99 text (sn s - si s) = (n, out)" by fastforce
    then have n: "n = int (length text)" using \<open>c99\<close> l by (auto simp: vsnprintf_def)
    obtain s1 where s1: "store_bytes s (si s) out = Inr s1" "sn s1 = sn s" "si s1 = si s" "room_for s1 v (out @ drop (length out) rest)"
      using printf_store [OF vr(1) o] by blast
    have lo: "length (out @ drop (length out) rest) = length rest" using s1(2-4) vr(1) by (simp add: room_for_def)
    have "to_int (n + 1) = int (length text + 1)" using n l by (simp add: to_int_id)
    moreover have "unat (word_of_nat (length text + 1) :: 64 word) = length text + 1" by (rule unat_small) (use l in simp)
    moreover have "unat (sn s1 - si s1) = length rest" using room_for_room [OF s1(4)] lo by simp
    ultimately have "utstring_reserve ra s1 (word_of_int (to_int (n + 1))) = Inr s1"
      using vr(2) by (simp add: utstring_reserve_def word_less_nat_alt del: of_nat_add of_nat_Suc)
    then have "rec ra c99 s1 text = Some r" using run o s1 n neg by (simp split: if_splits)
    moreover have "\<exists>v rest. room_for s1 v rest \<and> length text < length rest" using s1(4) vr(2) lo by (metis lo)
    ultimately show False using ih [of ra c99 s1 "text" r] \<open>c99\<close> l neg s1(2,3) by simp
  qed
  then show False using assms(2-4) by blast
qed

text \<open>With 2 ^ 31 bytes or more free in the buffer the conversion of their number to int is
  negative: the comparison with the length of the printed text fails although the text fits,
  utstring_reserve sees enough space and does nothing, and the loop never ends.
\<close>

theorem utstring_printf_hangs:
  assumes "sd s = Bytes xs" and "length xs = unat (sn s)" and "unat (si s) < unat (sn s)"
    and "length text < unat (sn s) - unat (si s)" and "length text + 1 < 2 ^ 31"
    and "to_int (uint (sn s - si s)) \<le> int (length text)"
  shows "utstring_printf realloc True s text = None"
proof (rule ccontr)
  assume "utstring_printf realloc True s text \<noteq> None"
  then obtain r where "utstring_printf_va realloc True s text = Some r" by (auto simp: utstring_printf_def)
  moreover have "\<exists>v rest. room_for s v rest \<and> length text < length rest"
    using assms by (intro exI [of _ "take (unat (si s)) xs"] exI [of _ "drop (unat (si s)) xs"]) (auto simp: room_for_def)
  ultimately show False using printf_va_stuck assms(5,6) by blast
qed

theorem utstring_printf_hangs_witness:
  "utstring_printf demo_realloc True \<lparr>sd = Bytes (replicate (2 ^ 31) nul), sn = 2147483648, si = 0\<rparr> ''a'' = None"
proof -
  have "to_int 2147483648 = - 2147483648" by code_simp
  then show ?thesis by (intro utstring_printf_hangs [where xs = "replicate (2 ^ 31) nul"]) simp_all
qed

end
