(* ===== verification/Utstring_Find.thy ===== *)
theory Utstring_Find
  imports Utstring_Printf
begin

text \<open>
  The searches for a substring in a dynamic string, from a start position that may be negative, which
  then counts from the end: the first occurrence from there on and the last one up to there. The
  position is not checked against the length of the string.
\<close>

section \<open>The start position\<close>

definition from_end :: "nat \<Rightarrow> int \<Rightarrow> int" where
  "from_end n pos = (if pos < 0 then int n + pos else pos)"

lemma start_position_eq:
  assumes "unat (si s) < 2 ^ 31" and "- (2 ^ 31) < pos" and "pos < 2 ^ 31"
  shows "start_position s pos = from_end (unat (si s)) pos"
proof (cases "pos < 0 \<and> uint (si s) + pos < 0")
  case True
  have "to_long (to_size x) = x" if "- (2 ^ 31) < x" "x < 0" for x
  proof -
    have "to_long (to_size x) = signed_take_bit 63 x"
      unfolding to_long_def to_size_def by (simp add: signed_take_bit_take_bit)
    then show ?thesis using to_long_id [of x] that by (simp add: to_long_def)
  qed
  moreover have "- (2 ^ 31) < uint (si s) + pos" using assms(2) uint_ge_0 [of "si s"] by linarith
  ultimately show ?thesis using True by (simp add: start_position_def from_end_def)
next
  case False
  have "to_long (to_size x) = x" if "0 \<le> x" "x < 2 ^ 31" for x
    using that to_size_id [of x] to_long_id [of x] by simp
  moreover have "int (unat (si s)) < int (2 ^ 31)" using assms(1) by (subst of_nat_less_iff)
  then have "uint (si s) < 2 ^ 31" by simp
  ultimately have "pos < 0 \<longrightarrow> to_long (to_size (uint (si s) + pos)) = uint (si s) + pos" using False by auto
  then show ?thesis by (simp add: start_position_def from_end_def)
qed

definition malloc_ok :: "(nat \<Rightarrow> int list option) \<Rightarrow> bool" where
  "malloc_ok malloc \<longleftrightarrow> (\<forall>n tab. malloc n = Some tab \<longrightarrow> length tab = n)"

lemma uint_length: "length p < 2 ^ 64 \<Longrightarrow> uint (word_of_nat (length p) :: 64 word) = int (length p)"
  by (metis uint_nat unat_small)

lemma to_uint_id: "0 \<le> x \<Longrightarrow> x < 2 ^ 32 \<Longrightarrow> to_uint x = x"
  unfolding to_uint_def by (rule take_bit_int_eq_self) auto

section \<open>From left to right\<close>

text \<open>The first occurrence of \<open>p\<close> in \<open>v\<close> from the position \<open>st\<close> on, or \<open>-1\<close>.\<close>

definition first_from :: "'a list \<Rightarrow> 'a list \<Rightarrow> nat \<Rightarrow> int" where
  "first_from p v st = (case find (\<lambda>k. st \<le> k \<and> occurs p v k) [0..<Suc (length v)] of None \<Rightarrow> -1 | Some k \<Rightarrow> int k)"

lemma occurs_drop: "st \<le> length v \<Longrightarrow> occurs p (drop st v) k \<longleftrightarrow> occurs p v (st + k)"
  by (auto simp: occurs_def add.commute)

lemma first_from_drop:
  assumes "st \<le> length v"
  shows "first_from p v st = (if first_occ p (drop st v) \<ge> 0 then first_occ p (drop st v) + int st else first_occ p (drop st v))"
proof (rule first_occ_cases [of p "drop st v"])
  assume a: "first_occ p (drop st v) = -1" "\<And>k. \<not> occurs p (drop st v) k"
  have "\<not> (st \<le> k \<and> occurs p v k)" for k
    using a(2) [of "k - st"] occurs_drop [OF assms, of p "k - st"] by auto
  then have "find (\<lambda>k. st \<le> k \<and> occurs p v k) [0..<Suc (length v)] = None" unfolding find_None_iff by blast
  then show ?thesis using a(1) by (simp add: first_from_def del: upt_Suc)
next
  fix k assume a: "first_occ p (drop st v) = int k" "occurs p (drop st v) k" "\<And>x. x < k \<Longrightarrow> \<not> occurs p (drop st v) x"
  have "\<not> (st \<le> x \<and> occurs p v x)" if "x < st + k" for x
  proof
    assume x: "st \<le> x \<and> occurs p v x"
    then have "x - st < k" using that by linarith
    then show False using a(3) [of "x - st"] occurs_drop [OF assms, of p "x - st"] x by auto
  qed
  moreover have "occurs p v (st + k)" using a(2) occurs_drop [OF assms] by simp
  moreover from this have "st + k < Suc (length v)" by (simp add: occurs_def)
  ultimately have "find (\<lambda>k. st \<le> k \<and> occurs p v k) [0..<Suc (length v)] = Some (st + k)" by (intro find_upt) auto
  then show ?thesis using a(1) by (simp add: first_from_def del: upt_Suc)
qed

lemma first_from_short: "length v < st + length p \<Longrightarrow> first_from p v st = -1"
proof -
  assume "length v < st + length p"
  then have "find (\<lambda>k. st \<le> k \<and> occurs p v k) [0..<Suc (length v)] = None" unfolding find_None_iff by (auto simp: occurs_def)
  then show ?thesis by (simp add: first_from_def del: upt_Suc)
qed

lemma to_long_to_size: "- (2 ^ 63) \<le> x \<Longrightarrow> x < 2 ^ 63 \<Longrightarrow> to_long (to_size x) = x"
proof -
  assume a: "- (2 ^ 63) \<le> x" "x < 2 ^ 63"
  have "to_long (to_size x) = to_long x" unfolding to_long_def to_size_def by (simp add: signed_take_bit_take_bit)
  then show ?thesis using to_long_id [OF a] by simp
qed

lemma to_int_to_size: "- (2 ^ 31) \<le> x \<Longrightarrow> x < 2 ^ 31 \<Longrightarrow> to_int (to_size x) = x"
proof -
  assume a: "- (2 ^ 31) \<le> x" "x < 2 ^ 31"
  have "to_int (to_size x) = signed_take_bit 31 x" unfolding to_int_def to_size_def by (simp add: signed_take_bit_take_bit)
  also have "\<dots> = x" by (rule signed_take_bit_int_eq_self) (use a in auto)
  finally show ?thesis .
qed

lemma to_size_neg: "- (2 ^ 64) \<le> x \<Longrightarrow> x < 0 \<Longrightarrow> to_size x = x + 2 ^ 64"
proof -
  assume a: "- (2 ^ 64) \<le> x" "x < 0"
  have "to_size x = (x + 2 ^ 64) mod 2 ^ 64" by (simp add: to_size_def take_bit_eq_mod)
  also have "\<dots> = x + 2 ^ 64" using a by (intro mod_pos_pos_trivial) auto
  finally show ?thesis .
qed

text \<open>The search once the start position and the length of the rest are known.\<close>

lemma find_run:
  assumes "malloc_ok malloc" and "start_position s pos = st" and "to_long (to_size (uint (si s) - st)) = hlen"
    and "p \<noteq> []" and "length p < 2 ^ 31" and "int (length p) \<le> to_size hlen" and "sd s = Bytes buf"
    and "\<And>tab. length tab = Suc (length p) \<Longrightarrow> (\<And>k. k < length p \<Longrightarrow> fail_ok p k (tab ! k)) \<Longrightarrow>
      KMP_find buf st (to_size hlen) p (int (length p)) tab = r"
  shows "utstring_find malloc s pos p (word_of_nat (length p)) =
    (if malloc (length p + 1) = None then Some (-1) else map_option (\<lambda>r. if r \<ge> 0 then r + st else r) r)"
proof (cases "malloc (length p + 1)")
  case None
  have "unat (word_of_nat (length p) :: 64 word) = length p" by (rule unat_small) (use assms(5) in simp)
  then show ?thesis unfolding utstring_find_def Let_def using None by simp
next
  case (Some tab)
  have l: "unat (word_of_nat (length p) :: 64 word) = length p" by (rule unat_small) (use assms(5) in simp)
  have u: "uint (word_of_nat (length p) :: 64 word) = int (length p)" by (rule uint_length) (use assms(5) in simp)
  have "length tab = Suc (length p)" using assms(1) Some by (auto simp: malloc_ok_def)
  from BuildTable_run [OF this] obtain t where t: "utstring_BuildTable p (int (length p)) tab = Some t"
    "length t = Suc (length p)" "\<And>k. k < length p \<Longrightarrow> fail_ok p k (t ! k)" by blast
  have "to_uint (int (length p)) = int (length p)" using assms(5) by (intro to_uint_id) auto
  then show ?thesis
    unfolding utstring_find_def Let_def assms(2,3) l u using assms(4,6,7) Some t assms(8) [OF t(2,3)]
    by (cases r) simp_all
qed

lemma search_length:
  assumes "room_for s v (nul # rest)" and "length v < 2 ^ 31" and "st < 2 ^ 31"
  shows "to_long (to_size (uint (si s) - int st)) = int (length v) - int st"
proof -
  have "uint (si s) = int (length v)" using assms(1) by (simp add: room_for_def uint_nat del: of_nat_unat)
  then show ?thesis using assms(2,3) by (simp only:) (intro to_long_to_size; simp)
qed

lemma find_inside:
  assumes "malloc_ok malloc" and r: "room_for s v (nul # rest)" and "length v < 2 ^ 31" and sp: "start_position s pos = int st"
    and "p \<noteq> []" and "st + length p \<le> length v"
  shows "utstring_find malloc s pos p (word_of_nat (length p)) =
    Some (if malloc (length p + 1) = None then -1 else first_from p v st)"
proof -
  have st: "st \<le> length v" "length p < 2 ^ 31" "st < 2 ^ 31" using assms(3,6) by simp_all
  have hs: "to_size (int (length v) - int st) = int (length (drop st v))" using st assms(3) by (subst to_size_id) auto
  have buf: "sd s = Bytes (v @ nul # rest)" using r by (simp add: room_for_def)
  have run: "KMP_find (v @ nul # rest) (int st) (to_size (int (length v) - int st)) p (int (length p)) tab = Some (first_occ p (drop st v))"
    if "length tab = Suc (length p)" "\<And>k. k < length p \<Longrightarrow> fail_ok p k (tab ! k)" for tab
    unfolding hs using that assms(3,5,6) by (intro KMP_find_run) (auto simp: nth_append)
  have "int (length p) \<le> to_size (int (length v) - int st)" using hs assms(6) by simp
  from find_run [OF assms(1) sp search_length [OF r assms(3) st(3)] assms(5) st(2) this buf run]
  show ?thesis using first_from_drop [OF st(1), of p] by simp
qed

lemma find_beyond:
  assumes "malloc_ok malloc" and r: "room_for s v (nul # rest)" and "length v < 2 ^ 31" and sp: "start_position s pos = int st"
    and "p \<noteq> []" and "length v < st" and "st < 2 ^ 31" and "length p < 2 ^ 31"
  shows "utstring_find malloc s pos p (word_of_nat (length p)) = Some (-1)"
proof -
  have hs: "to_size (int (length v) - int st) = int (length v) - int st + 2 ^ 64"
    using assms(6,7) by (intro to_size_neg) auto
  have buf: "sd s = Bytes (v @ nul # rest)" using r by (simp add: room_for_def)
  have "to_int (to_size (int (length v) - int st)) = int (length v) - int st"
    using assms(3,7) by (intro to_int_to_size) auto
  then have run: "KMP_find (v @ nul # rest) (int st) (to_size (int (length v) - int st)) p (int (length p)) tab = Some (-1)" for tab
    using assms(6) unfolding KMP_find_def by (subst find_while.simps) simp
  have "int (length p) \<le> to_size (int (length v) - int st)" using hs assms(7,8) by simp
  from find_run [OF assms(1) sp search_length [OF r assms(3,7)] assms(5,8) this buf run] show ?thesis by simp
qed


definition demo_malloc :: "nat \<Rightarrow> int list option" where
  "demo_malloc n = Some (replicate n 0)"

lemma demo_malloc_ok: "malloc_ok demo_malloc"
  by (auto simp: malloc_ok_def demo_malloc_def)

definition demo_text :: UT_string where
  "demo_text = \<lparr>sd = Bytes (''abab'' @ [nul]), sn = 5, si = 4\<rparr>"

lemma demo_text_holds: "holds 1000 demo_text ''abab''"
  by (simp add: holds_def str_ok_def str_val_def demo_text_def)


text \<open>A negative start position that reaches before the start of the string is not noticed:
  utstring_find then reads the byte before the buffer, already with position -1 on the empty string.
\<close>

theorem find_before_start:
  assumes "malloc_ok malloc" and "sd s = Bytes xs" and "unat (si s) < 2 ^ 31" and "- (2 ^ 31) < pos" and "pos < 2 ^ 31"
    and "from_end (unat (si s)) pos < 0" and "p \<noteq> []" and "int (length p) \<le> - pos" and "malloc (length p + 1) \<noteq> None"
  shows "utstring_find malloc s pos p (word_of_nat (length p)) = None"
proof -
  define st where "st = from_end (unat (si s)) pos"
  have "pos < 0" by (rule ccontr) (use assms(6) in \<open>simp add: from_end_def\<close>)
  then have pos: "st = uint (si s) + pos" "pos < 0" "st < 0" using assms(6) by (simp_all add: st_def from_end_def)
  have sp: "start_position s pos = st" using start_position_eq [OF assms(3-5)] by (simp add: st_def)
  have hl: "to_long (to_size (uint (si s) - st)) = - pos" unfolding pos(1) using assms(4) pos(2) by (subst to_long_to_size) auto
  have m: "length p < 2 ^ 31" using assms(4,8) by auto
  have hs: "to_size (- pos) = - pos" using assms(4) pos(2) by (intro to_size_id) auto
  have ti: "to_int (- pos) = - pos" using assms(4) pos(2) by (intro to_int_id) auto
  have run: "KMP_find xs st (to_size (- pos)) p (int (length p)) tab = None" for tab
  proof -
    have "find_inner xs st p tab 0 0 = None"
      using pos(3) by (subst find_inner.simps) (simp add: arr_get_def)
    then show ?thesis using ti pos(2) assms(8) unfolding KMP_find_def hs by (subst find_while.simps) (simp add: hs)
  qed
  from find_run [OF assms(1) sp hl assms(7) m _ assms(2) run] show ?thesis using assms(8,9) hs by simp
qed

theorem find_before_start_witness:
  "utstring_find demo_malloc \<lparr>sd = Bytes [nul], sn = 1, si = 0\<rparr> (-1) ''a'' (word_of_nat (length ''a'')) = None"
  by (rule find_before_start [OF demo_malloc_ok]) (simp_all add: from_end_def demo_malloc_def)

section \<open>From right to left\<close>



end
