(* ===== verification/Utarray.thy ===== *)
theory Utarray
  imports Utstring
begin

text \<open>
  The dynamic arrays of datastructures/utarray.h. An array has \<open>n\<close> slots, of which the first \<open>i\<close> are
  in use; its functions \<open>init\<close>, \<open>copy\<close> and \<open>dtor\<close> may be missing, and they may act on other memory,
  the world \<open>'w\<close>; they return \<open>None\<close> when they go wrong there. A slot is one value \<open>'e\<close> instead of \<open>sz\<close> bytes. \<open>realloc\<close> gets the old slots and
  the new number of them. \<open>zero\<close> is the element all of whose bytes are 0.
\<close>

section \<open>Arrays\<close>

type_synonym u32 = "32 word"

record ('e, 'w) UT_icd =
  icd_init :: "('w \<Rightarrow> 'e \<times> 'w) option"
  icd_copy :: "('e \<Rightarrow> 'w \<Rightarrow> ('e \<times> 'w) option) option"
  icd_dtor :: "('e \<Rightarrow> 'w \<Rightarrow> 'w option) option"

record ('e, 'w) UT_array =
  ai :: u32
  an :: u32
  aicd :: "('e, 'w) UT_icd"
  ad :: "'e buffer"

type_synonym 'e slots_realloc = "'e list \<Rightarrow> u32 \<Rightarrow> 'e list option"

definition get_block :: "('e, 'w) UT_array \<Rightarrow> nat \<Rightarrow> nat \<Rightarrow> 'e list ut" where
  "get_block a j len = ut_bind (bytes_of (ad a)) (\<lambda>xs.
     if j + len \<le> length xs then Inr (take len (drop j xs)) else Inl Overrun)"

definition put_block :: "('e, 'w) UT_array \<Rightarrow> nat \<Rightarrow> 'e list \<Rightarrow> ('e, 'w) UT_array ut" where
  "put_block a j ys = ut_bind (bytes_of (ad a)) (\<lambda>xs.
     if j + length ys \<le> length xs
     then Inr (a\<lparr>ad := Bytes (take j xs @ ys @ drop (j + length ys) xs)\<rparr>)
     else Inl Overrun)"

definition move_block :: "('e, 'w) UT_array \<Rightarrow> nat \<Rightarrow> nat \<Rightarrow> nat \<Rightarrow> ('e, 'w) UT_array ut" where
  "move_block a dst src len = ut_bind (get_block a src len) (put_block a dst)"

text \<open>\<open>utarray_eltptr\<close>: the index of the slot, or \<open>NULL\<close> when it is not in use.\<close>

definition utarray_eltptr :: "('e, 'w) UT_array \<Rightarrow> nat \<Rightarrow> nat option" where
  "utarray_eltptr a j = (if j < unat (ai a) then Some j else None)"

text \<open>The destructor of an element; \<open>None\<close> is the call with \<open>NULL\<close>.\<close>

definition call_dtor :: "('e, 'w) UT_array \<Rightarrow> ('e \<Rightarrow> 'w \<Rightarrow> 'w option) \<Rightarrow> nat option \<Rightarrow> 'w \<Rightarrow> 'w ut" where
  "call_dtor a f p w = (case p of
     None \<Rightarrow> Inl Overrun
   | Some j \<Rightarrow> ut_bind (get_block a j 1) (\<lambda>xs. case f (hd xs) w of None \<Rightarrow> Inl Overrun | Some w \<Rightarrow> Inr w))"

primrec dtor_for :: "('e, 'w) UT_array \<Rightarrow> nat list \<Rightarrow> 'w \<Rightarrow> 'w ut" where
  "dtor_for a [] w = Inr w"
| "dtor_for a (j # js) w = (case icd_dtor (aicd a) of
     None \<Rightarrow> Inr w
   | Some f \<Rightarrow> ut_bind (call_dtor a f (utarray_eltptr a j) w) (dtor_for a js))"

section \<open>The operations\<close>

definition utarray_init :: "('e, 'w) UT_icd \<Rightarrow> ('e, 'w) UT_array" where
  "utarray_init icd = \<lparr>ai = 0, an = 0, aicd = icd, ad = Null\<rparr>"

definition utarray_done :: "('e, 'w) UT_array \<Rightarrow> 'w \<Rightarrow> (('e, 'w) UT_array \<times> 'w) ut" where
  "utarray_done a w =
     (if an a \<noteq> 0
      then ut_bind (dtor_for a [0..<unat (ai a)] w) (\<lambda>w.
           ut_bind (bytes_of (ad a)) (\<lambda>_. Inr (a\<lparr>ad := Freed, an := 0\<rparr>, w)))
      else Inr (a\<lparr>an := 0\<rparr>, w))"

partial_function (option) reserve_while :: "u32 \<Rightarrow> u32 \<Rightarrow> u32 option" where
  "reserve_while need n = (if n < need then reserve_while need (if n \<noteq> 0 then 2 * n else 8) else Some n)"

declare reserve_while.simps [code]

definition utarray_reserve :: "'e slots_realloc \<Rightarrow> ('e, 'w) UT_array \<Rightarrow> u32 \<Rightarrow> ('e, 'w) UT_array ut" where
  "utarray_reserve realloc a by_n =
     (if an a < ai a + by_n
      then case reserve_while (ai a + by_n) (an a) of
             None \<Rightarrow> Inl Hangs
           | Some n \<Rightarrow> ut_bind (realloc_buffer realloc (ad a) n) (\<lambda>d. Inr (a\<lparr>an := n, ad := Bytes d\<rparr>))
      else Inr a)"

definition copy_in :: "('e, 'w) UT_array \<Rightarrow> nat \<Rightarrow> 'e \<Rightarrow> 'w \<Rightarrow> (('e, 'w) UT_array \<times> 'w) ut" where
  "copy_in a j p w = (case icd_copy (aicd a) of
     Some f \<Rightarrow> (case f p w of
         None \<Rightarrow> Inl Overrun
       | Some (e, w) \<Rightarrow> ut_bind (put_block a j [e]) (\<lambda>a. Inr (a, w)))
   | None \<Rightarrow> ut_bind (put_block a j [p]) (\<lambda>a. Inr (a, w)))"

definition utarray_push_back ::
    "'e slots_realloc \<Rightarrow> ('e, 'w) UT_array \<Rightarrow> 'e \<Rightarrow> 'w \<Rightarrow> (('e, 'w) UT_array \<times> 'w) ut" where
  "utarray_push_back realloc a p w =
     ut_bind (utarray_reserve realloc a 1) (\<lambda>a.
     let j = ai a; a = a\<lparr>ai := ai a + 1\<rparr> in copy_in a (unat j) p w)"

definition utarray_pop_back :: "('e, 'w) UT_array \<Rightarrow> 'w \<Rightarrow> (('e, 'w) UT_array \<times> 'w) ut" where
  "utarray_pop_back a w =
     (let a = a\<lparr>ai := ai a - 1\<rparr> in
      case icd_dtor (aicd a) of
        Some f \<Rightarrow> ut_bind (call_dtor a f (Some (unat (ai a))) w) (\<lambda>w. Inr (a, w))
      | None \<Rightarrow> Inr (a, w))"

definition utarray_extend_back ::
    "'e \<Rightarrow> 'e slots_realloc \<Rightarrow> ('e, 'w) UT_array \<Rightarrow> 'w \<Rightarrow> (('e, 'w) UT_array \<times> 'w) ut" where
  "utarray_extend_back zero realloc a w =
     ut_bind (utarray_reserve realloc a 1) (\<lambda>a.
     let (e, w) = (case icd_init (aicd a) of Some f \<Rightarrow> f w | None \<Rightarrow> (zero, w)) in
     ut_bind (put_block a (unat (ai a)) [e]) (\<lambda>a. Inr (a\<lparr>ai := ai a + 1\<rparr>, w)))"

definition utarray_len :: "('e, 'w) UT_array \<Rightarrow> u32" where
  "utarray_len a = ai a"

definition utarray_insert ::
    "'e slots_realloc \<Rightarrow> ('e, 'w) UT_array \<Rightarrow> 'e \<Rightarrow> u32 \<Rightarrow> 'w \<Rightarrow> (('e, 'w) UT_array \<times> 'w) ut" where
  "utarray_insert realloc a p j w =
     ut_bind (utarray_reserve realloc a 1) (\<lambda>a.
     if j > ai a then Inr (a, w)
     else ut_bind (if j < ai a then move_block a (unat (j + 1)) (unat j) (unat (ai a - j)) else Inr a) (\<lambda>a.
          ut_bind (copy_in a (unat j) p w) (\<lambda>(a, w). Inr (a\<lparr>ai := ai a + 1\<rparr>, w))))"

text \<open>
  \<open>utarray_inserta\<close> gets two arrays, which may be the same: they are in a store, and the source is
  read when it is copied.
\<close>

primrec inserta_for :: "(nat \<Rightarrow> ('e, 'w) UT_array) \<Rightarrow> nat \<Rightarrow> nat \<Rightarrow> nat \<Rightarrow> nat list \<Rightarrow> 'w \<Rightarrow> ((nat \<Rightarrow> ('e, 'w) UT_array) \<times> 'w) ut" where
  "inserta_for S a b j [] w = Inr (S, w)"
| "inserta_for S a b j (k # ks) w =
     ut_bind (get_block (S b) k 1) (\<lambda>ys.
     ut_bind (copy_in (S a) (j + k) (hd ys) w) (\<lambda>(s, w). inserta_for (S(a := s)) a b j ks w))"

definition utarray_inserta ::
    "'e slots_realloc \<Rightarrow> (nat \<Rightarrow> ('e, 'w) UT_array) \<Rightarrow> nat \<Rightarrow> nat \<Rightarrow> u32 \<Rightarrow> 'w \<Rightarrow> ((nat \<Rightarrow> ('e, 'w) UT_array) \<times> 'w) ut" where
  "utarray_inserta realloc S a b j w =
     (if utarray_len (S b) = 0 then Inr (S, w)
      else if j > ai (S a) then Inr (S, w)
      else ut_bind (utarray_reserve realloc (S a) (utarray_len (S b))) (\<lambda>s. let S = S(a := s) in
           ut_bind (if j < ai (S a)
                    then move_block (S a) (unat (j + utarray_len (S b))) (unat j) (unat (ai (S a) - j))
                    else Inr (S a)) (\<lambda>s. let S = S(a := s) in
           ut_bind (case icd_copy (aicd (S a)) of
                      Some f \<Rightarrow> inserta_for S a b (unat j) [0..<unat (ai (S b))] w
                    | None \<Rightarrow> ut_bind (get_block (S b) 0 (unat (utarray_len (S b)))) (\<lambda>ys.
                              ut_bind (put_block (S a) (unat j) ys) (\<lambda>s. Inr (S(a := s), w)))) (\<lambda>(S, w).
           Inr (S(a := (S a)\<lparr>ai := ai (S a) + utarray_len (S b)\<rparr>), w)))))"

definition utarray_concat ::
    "'e slots_realloc \<Rightarrow> (nat \<Rightarrow> ('e, 'w) UT_array) \<Rightarrow> nat \<Rightarrow> nat \<Rightarrow> 'w \<Rightarrow> ((nat \<Rightarrow> ('e, 'w) UT_array) \<times> 'w) ut" where
  "utarray_concat realloc S dst src w = utarray_inserta realloc S dst src (utarray_len (S dst)) w"

text \<open>The new elements are initialised through \<open>utarray_eltptr\<close>, while \<open>i\<close> is still the old one.\<close>

primrec init_for :: "('e, 'w) UT_array \<Rightarrow> ('w \<Rightarrow> 'e \<times> 'w) \<Rightarrow> nat list \<Rightarrow> 'w \<Rightarrow> (('e, 'w) UT_array \<times> 'w) ut" where
  "init_for a f [] w = Inr (a, w)"
| "init_for a f (j # js) w = (case utarray_eltptr a j of
     None \<Rightarrow> Inl Overrun
   | Some p \<Rightarrow> (let (e, w) = f w in ut_bind (put_block a p [e]) (\<lambda>a. init_for a f js w)))"

definition utarray_resize ::
    "'e \<Rightarrow> 'e slots_realloc \<Rightarrow> ('e, 'w) UT_array \<Rightarrow> u32 \<Rightarrow> 'w \<Rightarrow> (('e, 'w) UT_array \<times> 'w) ut" where
  "utarray_resize zero realloc a num w =
     ut_bind (if ai a > num then ut_bind (dtor_for a [unat num..<unat (ai a)] w) (\<lambda>w. Inr (a, w))
              else if ai a < num
              then ut_bind (utarray_reserve realloc a (num - ai a)) (\<lambda>a.
                   case icd_init (aicd a) of
                     Some f \<Rightarrow> init_for a f [unat (ai a)..<unat num] w
                   | None \<Rightarrow> ut_bind (put_block a (unat (ai a)) (replicate (unat (num - ai a)) zero)) (\<lambda>a. Inr (a, w)))
              else Inr (a, w)) (\<lambda>(a, w).
     Inr (a\<lparr>ai := num\<rparr>, w))"

definition utarray_erase :: "('e, 'w) UT_array \<Rightarrow> u32 \<Rightarrow> u32 \<Rightarrow> 'w \<Rightarrow> (('e, 'w) UT_array \<times> 'w) ut" where
  "utarray_erase a pos len w =
     ut_bind (dtor_for a [unat pos..<unat pos + unat len] w) (\<lambda>w.
     ut_bind (if ai a > pos + len
              then move_block a (unat pos) (unat (pos + len)) (unat (ai a - (pos + len)))
              else Inr a) (\<lambda>a.
     Inr (a\<lparr>ai := ai a - len\<rparr>, w)))"

definition utarray_clear :: "('e, 'w) UT_array \<Rightarrow> 'w \<Rightarrow> (('e, 'w) UT_array \<times> 'w) ut" where
  "utarray_clear a w =
     (if ai a > 0 then ut_bind (dtor_for a [0..<unat (ai a)] w) (\<lambda>w. Inr (a\<lparr>ai := 0\<rparr>, w)) else Inr (a, w))"

section \<open>Pointers to arrays and to elements\<close>

datatype ('e, 'w) arr_ptr = ANull | AFreed | AAt "('e, 'w) UT_array"

text \<open>\<open>malloc_ok\<close> tells whether the allocation of the structure succeeds; the code does not test it.\<close>

definition utarray_new :: "bool \<Rightarrow> ('e, 'w) UT_icd \<Rightarrow> ('e, 'w) arr_ptr ut" where
  "utarray_new allocated icd = (if allocated then Inr (AAt (utarray_init icd)) else Inl Overrun)"

definition utarray_free :: "('e, 'w) arr_ptr \<Rightarrow> 'w \<Rightarrow> (('e, 'w) arr_ptr \<times> 'w) ut" where
  "utarray_free p w = (case p of AAt a \<Rightarrow> ut_bind (utarray_done a w) (\<lambda>(_, w). Inr (AFreed, w)) | _ \<Rightarrow> Inl Overrun)"

definition utarray_renew :: "bool \<Rightarrow> ('e, 'w) UT_icd \<Rightarrow> ('e, 'w) arr_ptr \<Rightarrow> 'w \<Rightarrow> (('e, 'w) arr_ptr \<times> 'w) ut" where
  "utarray_renew allocated icd p w = (case p of
     ANull \<Rightarrow> ut_bind (utarray_new allocated icd) (\<lambda>p. Inr (p, w))
   | AFreed \<Rightarrow> Inl Overrun
   | AAt a \<Rightarrow> ut_bind (utarray_clear a w) (\<lambda>(a, w). Inr (AAt a, w)))"

text \<open>A pointer to an element is the index of its slot.\<close>

definition utarray_front :: "('e, 'w) UT_array \<Rightarrow> nat option" where
  "utarray_front a = (if ai a \<noteq> 0 then Some 0 else None)"

definition utarray_back :: "('e, 'w) UT_array \<Rightarrow> nat option" where
  "utarray_back a = (if ai a \<noteq> 0 then Some (unat (ai a - 1)) else None)"

definition utarray_next :: "('e, 'w) UT_array \<Rightarrow> nat option \<Rightarrow> nat option" where
  "utarray_next a e = (case e of
     None \<Rightarrow> utarray_front a
   | Some k \<Rightarrow> if unat (ai a) > k + 1 then Some (k + 1) else None)"

definition utarray_prev :: "('e, 'w) UT_array \<Rightarrow> nat option \<Rightarrow> nat option" where
  "utarray_prev a e = (case e of
     None \<Rightarrow> utarray_back a
   | Some k \<Rightarrow> if k > 0 then Some (k - 1) else None)"

text \<open>\<open>qsort\<close> and \<open>bsearch\<close> of the C library are parameters.\<close>

definition utarray_sort :: "(('e \<Rightarrow> 'e \<Rightarrow> int) \<Rightarrow> 'e list \<Rightarrow> 'e list) \<Rightarrow> ('e, 'w) UT_array \<Rightarrow> ('e \<Rightarrow> 'e \<Rightarrow> int) \<Rightarrow> ('e, 'w) UT_array ut" where
  "utarray_sort qsort a cmp =
     (if ai a = 0 then Inr a
      else ut_bind (get_block a 0 (unat (ai a))) (\<lambda>xs. put_block a 0 (qsort cmp xs)))"

definition utarray_find :: "(('e \<Rightarrow> 'e \<Rightarrow> int) \<Rightarrow> 'e \<Rightarrow> 'e list \<Rightarrow> nat option) \<Rightarrow> ('e, 'w) UT_array \<Rightarrow> 'e \<Rightarrow> ('e \<Rightarrow> 'e \<Rightarrow> int) \<Rightarrow> nat option ut" where
  "utarray_find bsearch a v cmp =
     (if ai a = 0 then Inr None
      else ut_bind (get_block a 0 (unat (ai a))) (\<lambda>xs. Inr (bsearch cmp v xs)))"

section \<open>Arrays of strings\<close>

text \<open>
  The elements are pointers to strings in a heap; \<open>fresh\<close> is the address \<open>strdup\<close> returns, \<open>None\<close>
  when there is no memory.
\<close>

type_synonym str_heap = "nat \<Rightarrow> string option"

definition utarray_str_cpy :: "(str_heap \<Rightarrow> nat option) \<Rightarrow> nat option \<Rightarrow> str_heap \<Rightarrow> (nat option \<times> str_heap) option" where
  "utarray_str_cpy fresh src h = (case src of
     None \<Rightarrow> Some (None, h)
   | Some p \<Rightarrow> (case h p of
       None \<Rightarrow> None
     | Some str \<Rightarrow> (case fresh h of None \<Rightarrow> Some (None, h) | Some q \<Rightarrow> Some (Some q, h(q := Some str)))))"

definition utarray_str_dtor :: "nat option \<Rightarrow> str_heap \<Rightarrow> str_heap option" where
  "utarray_str_dtor elt h = (case elt of
     None \<Rightarrow> Some h
   | Some p \<Rightarrow> (case h p of None \<Rightarrow> None | Some _ \<Rightarrow> Some (h(p := None))))"

definition ut_str_icd :: "(str_heap \<Rightarrow> nat option) \<Rightarrow> (nat option, str_heap) UT_icd" where
  "ut_str_icd fresh = \<lparr>icd_init = None, icd_copy = Some (utarray_str_cpy fresh), icd_dtor = Some utarray_str_dtor\<rparr>"

definition ut_int_icd :: "('e, 'w) UT_icd" where
  "ut_int_icd = \<lparr>icd_init = None, icd_copy = None, icd_dtor = None\<rparr>"

end
