(* ===== verification/Utarray_Ops.thy ===== *)
theory Utarray_Ops
  imports Utarray
begin

text \<open>
  What the operations on dynamic arrays do to the list of elements in use, for every allocator that
  keeps the contents of a block and refuses more than \<open>2 ^ 30\<close> slots.
\<close>

section \<open>Growing\<close>

lemma reserve_while_ends:
  assumes "unat need \<le> 2 ^ 31"
  shows "\<exists>n'. reserve_while need n = Some n' \<and> unat need \<le> unat n' \<and> unat n \<le> unat n'"
proof (induction "unat need - unat n" arbitrary: n rule: less_induct)
  case less
  show ?case
  proof (cases "n < need")
    case True
    then have nn: "unat n < unat need" by (simp add: word_less_nat_alt)
    have up: "unat n < unat (if n \<noteq> 0 then 2 * n else 8)"
    proof (cases "n = 0")
      case False
      then have "unat (2 * n) = 2 * unat n" using nn assms by (simp add: unat_word_ariths)
      then show ?thesis using False by (simp add: unat_gt_0)
    qed simp
    then have "unat need - unat (if n \<noteq> 0 then 2 * n else 8) < unat need - unat n" using nn by linarith
    from less.hyps [OF this] obtain n' where "reserve_while need (if n \<noteq> 0 then 2 * n else 8) = Some n'"
      "unat need \<le> unat n'" "unat (if n \<noteq> 0 then 2 * n else 8) \<le> unat n'" by blast
    then show ?thesis using True up by (subst reserve_while.simps) auto
  next
    case False
    then show ?thesis by (subst reserve_while.simps) (simp add: word_less_nat_alt)
  qed
qed

definition realloc_slots_ok :: "nat \<Rightarrow> 'e slots_realloc \<Rightarrow> bool" where
  "realloc_slots_ok lim realloc \<longleftrightarrow> lim \<le> 2 ^ 30 \<and> (\<forall>xs n ys. realloc xs n = Some ys \<longrightarrow>
     length ys = unat n \<and> unat n \<le> lim \<and> take (min (length xs) (length ys)) ys = take (min (length xs) (length ys)) xs)"

lemma realloc_slots_okD:
  "realloc_slots_ok lim ra \<Longrightarrow> ra xs n = Some ys \<Longrightarrow>
    length ys = unat n \<and> unat n \<le> lim \<and> take (min (length xs) (length ys)) ys = take (min (length xs) (length ys)) xs"
  unfolding realloc_slots_ok_def by blast

text \<open>\<open>slots a xs rest\<close>: the elements \<open>xs\<close> are in use, the slots \<open>rest\<close> are free.\<close>

definition slots :: "('e, 'w) UT_array \<Rightarrow> 'e list \<Rightarrow> 'e list \<Rightarrow> bool" where
  "slots a xs rest \<longleftrightarrow> (ad a = Bytes (xs @ rest) \<or> ad a = Null \<and> xs = [] \<and> rest = []) \<and>
     unat (an a) = length xs + length rest \<and> unat (ai a) = length xs"

lemma slots_BytesD: "slots a xs rest \<Longrightarrow> xs \<noteq> [] \<or> rest \<noteq> [] \<Longrightarrow> ad a = Bytes (xs @ rest)"
  by (auto simp: slots_def)

lemma unat_add32: "unat (x :: u32) + unat y < 2 ^ 32 \<Longrightarrow> unat (x + y) = unat x + unat y"
  by (simp add: unat_word_ariths)

lemma unat_sub32: "unat (y :: u32) \<le> unat x \<Longrightarrow> unat (x - y) = unat x - unat y"
  by (simp add: unat_sub word_le_nat_alt)

lemma reserve_slots:
  assumes "realloc_slots_ok lim ra" and "slots a xs rest" and "unat (an a) \<le> lim" and "unat m \<le> 2 ^ 30"
  obtains "utarray_reserve ra a m = Inl Oom"
  | a' rest' where "utarray_reserve ra a m = Inr a'" "slots a' xs rest'" "unat (an a') \<le> lim" "unat m \<le> length rest'" "aicd a' = aicd a"
proof (cases "an a < ai a + m")
  case False
  have "unat (ai a + m) = length xs + unat m" using assms by (subst unat_add32) (auto simp: realloc_slots_ok_def slots_def)
  then have "unat m \<le> length rest" using False assms(2) by (simp add: word_less_nat_alt slots_def)
  then show ?thesis using False assms(2,3) that(2) [of a rest] by (simp add: utarray_reserve_def)
next
  case True
  have "length xs \<le> 2 ^ 30" using assms by (simp add: realloc_slots_ok_def slots_def)
  moreover from this have "unat (ai a + m) = length xs + unat m" using assms by (subst unat_add32) (auto simp: slots_def)
  ultimately have need: "unat (ai a + m) = length xs + unat m" "length xs + unat m \<le> 2 ^ 31" using assms(4) by simp_all
  then obtain n where n: "reserve_while (ai a + m) (an a) = Some n" "length xs + unat m \<le> unat n" "unat (an a) \<le> unat n"
    using reserve_while_ends [of "ai a + m" "an a"] by auto
  have rb: "realloc_buffer ra (ad a) n = (case ra (xs @ rest) n of None \<Rightarrow> Inl Oom | Some ys \<Rightarrow> Inr ys)"
    using assms(2) by (auto simp: realloc_buffer_def bytes_of_def slots_def)
  show ?thesis
  proof (cases "ra (xs @ rest) n")
    case None
    then show ?thesis using True n(1) that(1) by (simp add: utarray_reserve_def rb)
  next
    case (Some ys)
    have "length (xs @ rest) \<le> unat n" using n(3) assms(2) by (simp add: slots_def)
    then have ys: "length ys = unat n" "unat n \<le> lim" "take (length xs + length rest) ys = xs @ rest"
      using realloc_slots_okD [OF assms(1) Some] by (auto simp: min_def)
    have "take (length xs) ys = xs" using arg_cong [OF ys(3), of "take (length xs)"] by (simp add: min_def)
    then have split: "ys = xs @ drop (length xs) ys" by (metis append_take_drop_id)
    show ?thesis
    proof (rule that(2) [of "a\<lparr>an := n, ad := Bytes ys\<rparr>" "drop (length xs) ys"])
      show "utarray_reserve ra a m = Inr (a\<lparr>an := n, ad := Bytes ys\<rparr>)"
        using True n(1) Some by (simp add: utarray_reserve_def rb)
      show "slots (a\<lparr>an := n, ad := Bytes ys\<rparr>) xs (drop (length xs) ys)"
        using split ys(1) n(2) assms(2) by (simp add: slots_def)
    qed (use ys n(2) in auto)
  qed
qed

section \<open>Copies and destructors\<close>

primrec copies :: "('e, 'w) UT_icd \<Rightarrow> 'e list \<Rightarrow> 'w \<Rightarrow> ('e list \<times> 'w) option" where
  "copies icd [] w = Some ([], w)"
| "copies icd (x # xs) w = (case (case icd_copy icd of Some f \<Rightarrow> f x w | None \<Rightarrow> Some (x, w)) of
     None \<Rightarrow> None
   | Some (y, w) \<Rightarrow> map_option (\<lambda>(ys, w). (y # ys, w)) (copies icd xs w))"

primrec destroys :: "('e, 'w) UT_icd \<Rightarrow> 'e list \<Rightarrow> 'w \<Rightarrow> 'w option" where
  "destroys icd [] w = Some w"
| "destroys icd (x # xs) w = (case icd_dtor icd of None \<Rightarrow> Some w | Some f \<Rightarrow> Option.bind (f x w) (destroys icd xs))"

lemma copies_none: "icd_copy icd = None \<Longrightarrow> copies icd xs w = Some (xs, w)"
  by (induction xs) auto

lemma destroys_none: "icd_dtor icd = None \<Longrightarrow> destroys icd xs w = Some w"
  by (cases xs) auto

lemma length_copies: "copies icd xs w = Some (ys, w') \<Longrightarrow> length ys = length xs"
  by (induction xs arbitrary: w ys) (auto split: option.splits)

text \<open>The elements from \<open>j\<close> up to \<open>k\<close> are destroyed.\<close>

lemma dtor_for_run:
  assumes "slots a xs rest" and "destroys (aicd a) (take (k - j) (drop j xs)) w = Some w'" and "k \<le> length xs"
  shows "dtor_for a [j..<k] w = Inr w'"
  using assms(2)
proof (induction "k - j" arbitrary: j w)
  case (Suc m)
  then have jk: "j < k" by simp
  have m: "m = k - Suc j" using Suc.hyps(2) by simp
  have b: "ad a = Bytes (xs @ rest)" using slots_BytesD [OF assms(1)] assms(3) jk by fastforce
  have d: "take (k - j) (drop j xs) = xs ! j # take (k - Suc j) (drop (Suc j) xs)"
    using jk assms(3) by (metis Cons_nth_drop_Suc Suc_diff_Suc less_le_trans take_Suc_Cons)
  show ?case
  proof (cases "icd_dtor (aicd a)")
    case None
    then show ?thesis using Suc.prems destroys_none [OF None] jk by (simp add: upt_conv_Cons)
  next
    case (Some f)
    then obtain w1 where w1: "f (xs ! j) w = Some w1" "destroys (aicd a) (take (k - Suc j) (drop (Suc j) xs)) w1 = Some w'"
      using Suc.prems unfolding d by (auto elim!: bind_eq_SomeE)
    have "take 1 (drop j (xs @ rest)) = [xs ! j]" using jk assms(3) by (simp add: take_Suc_conv_app_nth drop_append nth_append hd_drop_conv_nth take_Suc)
    then have "get_block a j 1 = Inr [xs ! j]" using b jk assms(3) by (simp add: get_block_def bytes_of_def)
    moreover have "utarray_eltptr a j = Some j" using jk assms(1,3) by (simp add: utarray_eltptr_def slots_def)
    ultimately show ?thesis using Some w1 jk Suc.hyps(1) [OF m w1(2)] by (simp add: upt_conv_Cons call_dtor_def)
  qed
qed simp

lemma copy_in_run:
  assumes "copies (aicd a) [p] w = Some (ys, w')" and "ad a = Bytes l" and "j < length l"
  shows "copy_in a j p w = Inr (a\<lparr>ad := Bytes (take j l @ ys @ drop (Suc j) l)\<rparr>, w')"
  using assms by (auto simp: copy_in_def put_block_def bytes_of_def split: option.splits)

text \<open>The loop that copies the elements of an array, which may be the one that receives them.\<close>

lemma inserta_for_run:
  assumes "ad (S a) = Bytes la" and "ad (S b) = Bytes lb" and "length ys \<le> length lb" and "take (length ys) lb = ys"
    and "j + length ys \<le> length la" and "a = b \<longrightarrow> length ys \<le> j"
    and "copies (aicd (S a)) (drop k ys) w = Some (zs, w')" and "k \<le> length ys"
  shows "inserta_for S a b j [k..<length ys] w =
    Inr (S(a := (S a)\<lparr>ad := Bytes (take (j + k) la @ zs @ drop (j + length ys) la)\<rparr>), w')"
  using assms
proof (induction "length ys - k" arbitrary: k S la lb w zs)
  case 0
  have "(S a)\<lparr>ad := Bytes la\<rparr> = S a" using 0(2) by (cases "S a") simp
  then show ?case using 0 by (simp add: fun_upd_idem)
next
  case (Suc m)
  then have k: "k < length ys" "m = length ys - Suc k" by auto
  have d: "drop k ys = ys ! k # drop (Suc k) ys" using k(1) by (simp add: Cons_nth_drop_Suc)
  obtain y w1 zs1 where c: "copies (aicd (S a)) [ys ! k] w = Some ([y], w1)" "copies (aicd (S a)) (drop (Suc k) ys) w1 = Some (zs1, w')" "zs = y # zs1"
    using Suc.prems(7) unfolding d by (auto split: option.splits)
  have "lb ! k = ys ! k" using Suc.prems(4) k(1) by (metis nth_take)
  then have g: "get_block (S b) k 1 = Inr [ys ! k]"
    using Suc.prems(2,3) k(1) by (simp add: get_block_def bytes_of_def take_Suc hd_drop_conv_nth)
  define la1 where "la1 = take (j + k) la @ [y] @ drop (Suc (j + k)) la"
  define S1 where "S1 = S(a := (S a)\<lparr>ad := Bytes la1\<rparr>)"
  have ci: "copy_in (S a) (j + k) (ys ! k) w = Inr ((S a)\<lparr>ad := Bytes la1\<rparr>, w1)"
    using copy_in_run [OF c(1) Suc.prems(1), of "j + k"] Suc.prems(5) k(1) by (simp add: la1_def)
  have len: "length la1 = length la" using Suc.prems(5) k(1) by (simp add: la1_def)
  have "ad (S1 b) = Bytes (if a = b then la1 else lb)" using Suc.prems(2) by (simp add: S1_def)
  moreover have "take (length ys) (if a = b then la1 else lb) = ys"
    using Suc.prems(1-4,6) by (auto simp: la1_def)
  moreover have "length ys \<le> length (if a = b then la1 else lb)" using Suc.prems(3,5) len by simp
  ultimately have "inserta_for S1 a b j [Suc k..<length ys] w1 =
      Inr (S1(a := (S1 a)\<lparr>ad := Bytes (take (j + Suc k) la1 @ zs1 @ drop (j + length ys) la1)\<rparr>), w')"
    using Suc.hyps(1) [OF k(2), of S1 la1 "if a = b then la1 else lb" w1 zs1] Suc.prems(5,6) len c(2) k(1)
    by (simp add: S1_def)
  moreover have "la1 = la[j + k := y]" using Suc.prems(5) k(1) by (simp add: la1_def upd_conv_take_nth_drop)
  then have "drop (j + length ys) la1 = drop (j + length ys) la" using k(1) by simp
  moreover have "take (j + Suc k) la1 = take (j + k) la @ [y]" using Suc.prems(5) k(1) by (simp add: la1_def)
  ultimately show ?case using g ci c(3) k(1) by (simp add: upt_conv_Cons S1_def)
qed

section \<open>Operations on one array\<close>

text \<open>\<open>arr_holds lim icd a xs\<close>: the array is well formed and its elements are \<open>xs\<close>.\<close>

definition arr_ok :: "('e, 'w) UT_array \<Rightarrow> bool" where
  "arr_ok a \<longleftrightarrow> (case ad a of
     Null \<Rightarrow> an a = 0 \<and> ai a = 0
   | Freed \<Rightarrow> False
   | Bytes l \<Rightarrow> length l = unat (an a) \<and> unat (ai a) \<le> length l)"

definition arr_val :: "('e, 'w) UT_array \<Rightarrow> 'e list" where
  "arr_val a = (case ad a of Bytes l \<Rightarrow> take (unat (ai a)) l | _ \<Rightarrow> [])"

definition arr_holds :: "nat \<Rightarrow> ('e, 'w) UT_icd \<Rightarrow> ('e, 'w) UT_array \<Rightarrow> 'e list \<Rightarrow> bool" where
  "arr_holds lim icd a xs \<longleftrightarrow> arr_ok a \<and> arr_val a = xs \<and> aicd a = icd \<and> unat (an a) \<le> lim"

lemma arr_holds_slots: "arr_holds lim icd a xs \<Longrightarrow> \<exists>rest. slots a xs rest \<and> aicd a = icd \<and> unat (an a) \<le> lim"
proof (cases "ad a")
  case (Bytes l)
  assume "arr_holds lim icd a xs"
  then have "slots a xs (drop (unat (ai a)) l) \<and> aicd a = icd \<and> unat (an a) \<le> lim"
    using Bytes by (auto simp: arr_holds_def arr_ok_def arr_val_def slots_def)
  then show ?thesis by blast
qed (auto simp: arr_holds_def arr_ok_def arr_val_def slots_def)

lemma slots_arr_holds: "slots a xs rest \<Longrightarrow> aicd a = icd \<Longrightarrow> unat (an a) \<le> lim \<Longrightarrow> arr_holds lim icd a xs"
  by (auto simp: arr_holds_def arr_ok_def arr_val_def slots_def unat_eq_0)

lemma slots_len: "slots a xs rest \<Longrightarrow> unat (ai a) = length xs"
  by (simp add: slots_def)

text \<open>Rewriting the block of an array: the elements in use become \<open>ys\<close>.\<close>

lemma slots_upd:
  assumes "slots a xs rest" and "unat i = length ys" and "length (ys @ zs) = length (xs @ rest)" and "ys @ zs \<noteq> []"
  shows "slots (a\<lparr>ad := Bytes (ys @ zs), ai := i\<rparr>) ys zs"
  using assms by (simp add: slots_def)

definition with_elements :: "('e, 'w) UT_array \<Rightarrow> 'e list \<Rightarrow> u32 \<Rightarrow> ('e, 'w) UT_array" where
  "with_elements a l i = a\<lparr>ad := Bytes l, ai := i\<rparr>"

lemma holds_with:
  assumes "slots a xs rest" and "unat i = length ys" and "length ys + length zs = length xs + length rest" and "ys @ zs \<noteq> []"
    and "aicd a = icd" and "unat (an a) \<le> lim"
  shows "arr_holds lim icd (with_elements a (ys @ zs) i) ys"
  using slots_arr_holds [OF slots_upd [OF assms(1,2) _ assms(4)]] assms(3,5,6) by (simp add: with_elements_def)

lemma unat_Suc32: "length xs < 2 ^ 31 \<Longrightarrow> unat i = length xs \<Longrightarrow> unat (i + 1 :: u32) = Suc (length xs)"
  by (subst unat_add32) auto

lemma small_len: "slots a xs rest \<Longrightarrow> unat (an a) \<le> lim \<Longrightarrow> lim \<le> 2 ^ 30 \<Longrightarrow> length xs + length rest \<le> 2 ^ 30"
  by (simp add: slots_def)

lemma arr_push:
  assumes "realloc_slots_ok lim ra" and "arr_holds lim icd a xs" and "copies icd [p] w = Some (ys, w')"
  shows "utarray_push_back ra a p w = Inl Oom \<or> (\<exists>a'. utarray_push_back ra a p w = Inr (a', w') \<and> arr_holds lim icd a' (xs @ ys))"
proof -
  obtain rest where r: "slots a xs rest" "aicd a = icd" "unat (an a) \<le> lim" using arr_holds_slots [OF assms(2)] by blast
  show ?thesis
  proof (rule reserve_slots [OF assms(1) r(1,3), of 1])
    assume "utarray_reserve ra a 1 = Inl Oom"
    then show ?thesis by (simp add: utarray_push_back_def)
  next
    fix a' rest'
    assume a': "utarray_reserve ra a 1 = Inr a'" "slots a' xs rest'" "unat (an a') \<le> lim" "unat (1 :: u32) \<le> length rest'" "aicd a' = aicd a"
    then obtain z zs where z: "rest' = z # zs" by (cases rest') auto
    have b: "ad (a'\<lparr>ai := ai a' + 1\<rparr>) = Bytes (xs @ z # zs)" using slots_BytesD [OF a'(2)] z by simp
    have y: "length ys = 1" using length_copies [OF assms(3)] by simp
    have "length xs < 2 ^ 31" using small_len [OF a'(2,3)] assms(1) by (simp add: realloc_slots_ok_def)
    then have i: "unat (ai a' + 1) = length (xs @ ys)" using y slots_len [OF a'(2)] by (subst unat_Suc32) auto
    have "copy_in (a'\<lparr>ai := ai a' + 1\<rparr>) (length xs) p w = Inr (with_elements a' ((xs @ ys) @ zs) (ai a' + 1), w')"
      using copy_in_run [OF _ b, of p w ys w' "length xs"] assms(3) a'(5) r(2) by (simp add: with_elements_def)
    then have "utarray_push_back ra a p w = Inr (with_elements a' ((xs @ ys) @ zs) (ai a' + 1), w')"
      using a'(1) slots_len [OF a'(2)] by (simp add: utarray_push_back_def Let_def)
    moreover have "arr_holds lim icd (with_elements a' ((xs @ ys) @ zs) (ai a' + 1)) (xs @ ys)"
      by (rule holds_with [OF a'(2) i]) (use y z a'(3,5) r(2) in auto)
    ultimately show ?thesis by blast
  qed simp
qed

lemma arr_pop:
  assumes "arr_holds lim icd a xs" and "xs \<noteq> []" and "destroys icd [last xs] w = Some w'"
  shows "\<exists>a'. utarray_pop_back a w = Inr (a', w') \<and> arr_holds lim icd a' (butlast xs)"
proof -
  obtain rest where r: "slots a xs rest" "aicd a = icd" "unat (an a) \<le> lim" using arr_holds_slots [OF assms(1)] by blast
  have b: "ad a = Bytes (xs @ rest)" using slots_BytesD [OF r(1)] assms(2) by simp
  have i: "unat (ai a - 1) = length (butlast xs)"
    using slots_len [OF r(1)] assms(2) by (subst unat_sub32) (auto simp: Suc_le_eq)
  have xs: "xs = butlast xs @ [last xs]" using assms(2) by simp
  then have split: "xs @ rest = butlast xs @ last xs # rest" by (metis append.assoc append_Cons append_Nil)
  have g: "get_block (a\<lparr>ai := ai a - 1\<rparr>) (length (butlast xs)) 1 = Inr [last xs]"
    using b unfolding get_block_def bytes_of_def split by simp
  have "arr_holds lim icd (a\<lparr>ai := ai a - 1\<rparr>) (butlast xs)"
    by (rule slots_arr_holds [of _ _ "last xs # rest"]) (use r b split i assms(2) in \<open>auto simp: slots_def\<close>)
  moreover have "utarray_pop_back a w = Inr (a\<lparr>ai := ai a - 1\<rparr>, w')"
    using assms(3) r(2) g i by (auto simp: utarray_pop_back_def Let_def call_dtor_def split: option.splits)
  ultimately show ?thesis by blast
qed

end
