(* ===== verification/Utarray_Edit.thy ===== *)
theory Utarray_Edit
  imports Utarray_Ops
begin

text \<open>
  The operations on dynamic arrays that open or close a gap: insertion of an element and of an
  array, erasing, resizing.
\<close>

section \<open>Opening a gap\<close>

lemma open_gap:
  assumes "ad a = Bytes (xs @ r)" and "g \<le> length r" and "j \<le> length xs" and "c \<longleftrightarrow> j < length xs"
  shows "\<exists>gap. length gap = g \<and> (if c then move_block a (j + g) j (length xs - j) else Inr a) =
    Inr (a\<lparr>ad := Bytes (take j xs @ gap @ drop j xs @ drop g r)\<rparr>)"
proof (cases "j < length xs")
  case False
  then have "xs @ r = take j xs @ take g r @ drop j xs @ drop g r" using assms(3) by simp
  then have "a\<lparr>ad := Bytes (take j xs @ take g r @ drop j xs @ drop g r)\<rparr> = a" using assms(1) by (cases a) simp
  then show ?thesis using False assms(2,4) by (intro exI [of _ "take g r"]) simp
next
  case True
  define gap where "gap = take g (drop j (xs @ r))"
  have "take (j + g) (xs @ r) = take j (xs @ r) @ gap" unfolding gap_def by (rule take_add)
  then have t: "take (j + g) (xs @ r) = take j xs @ gap" using assms(3) by simp
  have "length gap = g" using assms(2,3) by (simp add: gap_def)
  moreover have "get_block a j (length xs - j) = Inr (drop j xs)" using assms(1,3) by (simp add: get_block_def bytes_of_def)
  moreover have "drop (j + g + length (drop j xs)) (xs @ r) = drop g r" "j + g + length (drop j xs) \<le> length (xs @ r)"
    using assms(2,3) by simp_all
  then have "put_block a (j + g) (drop j xs) = Inr (a\<lparr>ad := Bytes (take j xs @ gap @ drop j xs @ drop g r)\<rparr>)"
    unfolding put_block_def bytes_of_def assms(1) buffer.case ut_bind_simps t by (simp only: if_True append_assoc)
  ultimately show ?thesis using True assms(4) by (intro exI [of _ gap]) (simp add: move_block_def)
qed

definition init1 :: "('e, 'w) UT_icd \<Rightarrow> 'e \<Rightarrow> 'w \<Rightarrow> 'e \<times> 'w" where
  "init1 icd zero w = (case icd_init icd of Some f \<Rightarrow> f w | None \<Rightarrow> (zero, w))"

lemma arr_extend:
  assumes "realloc_slots_ok lim ra" and "arr_holds lim icd a xs" and "init1 icd zero w = (e, w')"
  shows "utarray_extend_back zero ra a w = Inl Oom \<or>
    (\<exists>a'. utarray_extend_back zero ra a w = Inr (a', w') \<and> arr_holds lim icd a' (xs @ [e]))"
proof -
  obtain rest where r: "slots a xs rest" "aicd a = icd" "unat (an a) \<le> lim" using arr_holds_slots [OF assms(2)] by blast
  show ?thesis
  proof (rule reserve_slots [OF assms(1) r(1,3), of 1])
    assume "utarray_reserve ra a 1 = Inl Oom"
    then show ?thesis by (simp add: utarray_extend_back_def)
  next
    fix a' rest'
    assume a': "utarray_reserve ra a 1 = Inr a'" "slots a' xs rest'" "unat (an a') \<le> lim" "unat (1 :: u32) \<le> length rest'" "aicd a' = aicd a"
    then obtain z zs where z: "rest' = z # zs" by (cases rest') auto
    have b: "ad a' = Bytes (xs @ z # zs)" using slots_BytesD [OF a'(2)] z by simp
    have "length xs < 2 ^ 31" using small_len [OF a'(2,3)] assms(1) by (simp add: realloc_slots_ok_def)
    then have i: "unat (ai a' + 1) = length (xs @ [e])" using slots_len [OF a'(2)] by (subst unat_Suc32) auto
    have "put_block a' (length xs) [e] = Inr (a'\<lparr>ad := Bytes ((xs @ [e]) @ zs)\<rparr>)"
      using b by (simp add: put_block_def bytes_of_def)
    then have "utarray_extend_back zero ra a w = Inr (with_elements a' ((xs @ [e]) @ zs) (ai a' + 1), w')"
      using a'(1,5) slots_len [OF a'(2)] assms(3) r(2) by (simp add: utarray_extend_back_def init1_def with_elements_def split: option.splits)
    moreover have "arr_holds lim icd (with_elements a' ((xs @ [e]) @ zs) (ai a' + 1)) (xs @ [e])"
      by (rule holds_with [OF a'(2) i]) (use z a'(3,5) r(2) in auto)
    ultimately show ?thesis by blast
  qed simp
qed

lemma arr_insert:
  assumes "realloc_slots_ok lim ra" and "arr_holds lim icd a xs" and "copies icd [p] w = Some (ys, w')" and "unat j \<le> length xs"
  shows "utarray_insert ra a p j w = Inl Oom \<or>
    (\<exists>a'. utarray_insert ra a p j w = Inr (a', w') \<and> arr_holds lim icd a' (take (unat j) xs @ ys @ drop (unat j) xs))"
proof -
  obtain rest where r: "slots a xs rest" "aicd a = icd" "unat (an a) \<le> lim" using arr_holds_slots [OF assms(2)] by blast
  show ?thesis
  proof (rule reserve_slots [OF assms(1) r(1,3), of 1])
    assume "utarray_reserve ra a 1 = Inl Oom"
    then show ?thesis by (simp add: utarray_insert_def)
  next
    fix a' rest'
    assume a': "utarray_reserve ra a 1 = Inr a'" "slots a' xs rest'" "unat (an a') \<le> lim" "unat (1 :: u32) \<le> length rest'" "aicd a' = aicd a"
    then obtain z zs where z: "rest' = z # zs" by (cases rest') auto
    have b: "ad a' = Bytes (xs @ z # zs)" using slots_BytesD [OF a'(2)] z by simp
    have small: "length xs < 2 ^ 31" using small_len [OF a'(2,3)] assms(1) by (simp add: realloc_slots_ok_def)
    have y: "length ys = 1" using length_copies [OF assms(3)] by simp
    have i: "unat (ai a' + 1) = length (take (unat j) xs @ ys @ drop (unat j) xs)"
      using y assms(4) slots_len [OF a'(2)] small by (subst unat_Suc32) auto
    have j1: "unat (j + 1) = unat j + 1" using assms(4) small by (subst unat_add32) auto
    have cmp: "\<not> j > ai a'" "j < ai a' \<longleftrightarrow> unat j < length xs" "unat (ai a' - j) = length xs - unat j"
      using slots_len [OF a'(2)] assms(4) by (auto simp: word_less_nat_alt unat_sub32)
    obtain gap where gap: "length gap = 1" "(if j < ai a' then move_block a' (unat (j + 1)) (unat j) (unat (ai a' - j)) else Inr a') =
        Inr (a'\<lparr>ad := Bytes (take (unat j) xs @ gap @ drop (unat j) xs @ zs)\<rparr>)"
      using open_gap [OF b _ assms(4) cmp(2), of 1] unfolding j1 cmp(3) by auto
    let ?g = "a'\<lparr>ad := Bytes (take (unat j) xs @ gap @ drop (unat j) xs @ zs)\<rparr>"
    obtain x where x: "gap = [x]" using gap(1) by (cases gap) auto
    have "copy_in ?g (unat j) p w = Inr (a'\<lparr>ad := Bytes ((take (unat j) xs @ ys @ drop (unat j) xs) @ zs)\<rparr>, w')"
      using copy_in_run [of ?g p w ys w' "take (unat j) xs @ gap @ drop (unat j) xs @ zs" "unat j"] assms(3,4) a'(5) r(2) x
      by simp
    then have "utarray_insert ra a p j w =
        Inr (with_elements a' ((take (unat j) xs @ ys @ drop (unat j) xs) @ zs) (ai a' + 1), w')"
      using cmp(1) by (simp add: utarray_insert_def a'(1) gap(2) with_elements_def)
    moreover have "arr_holds lim icd (with_elements a' ((take (unat j) xs @ ys @ drop (unat j) xs) @ zs) (ai a' + 1))
        (take (unat j) xs @ ys @ drop (unat j) xs)"
      by (rule holds_with [OF a'(2) i]) (use y z a'(3,5) r(2) assms(4) in auto)
    ultimately show ?thesis by blast
  qed simp
qed

text \<open>Beyond the end, only the space is reserved.\<close>

lemma arr_insert_beyond:
  assumes "realloc_slots_ok lim ra" and "arr_holds lim icd a xs" and "\<not> unat j \<le> length xs"
  shows "utarray_insert ra a p j w = Inl Oom \<or>
    (\<exists>a'. utarray_insert ra a p j w = Inr (a', w) \<and> arr_holds lim icd a' xs)"
proof -
  obtain rest where r: "slots a xs rest" "aicd a = icd" "unat (an a) \<le> lim" using arr_holds_slots [OF assms(2)] by blast
  show ?thesis
  proof (rule reserve_slots [OF assms(1) r(1,3), of 1])
    assume "utarray_reserve ra a 1 = Inl Oom"
    then show ?thesis by (simp add: utarray_insert_def)
  next
    fix a' rest'
    assume a': "utarray_reserve ra a 1 = Inr a'" "slots a' xs rest'" "unat (an a') \<le> lim" "aicd a' = aicd a"
    have "j > ai a'" using slots_len [OF a'(2)] assms(3) by (simp add: word_less_nat_alt)
    then have "utarray_insert ra a p j w = Inr (a', w)" by (simp add: utarray_insert_def a'(1))
    then show ?thesis using slots_arr_holds [OF a'(2)] a'(3,4) r(2) by simp
  qed simp
qed

section \<open>Shortening\<close>

text \<open>Fewer elements in use, in a block that stays.\<close>

lemma slots_shrink:
  assumes "slots a xs rest" and "xs @ rest = ys @ zs" and "unat i = length ys"
  shows "slots (a\<lparr>ai := i\<rparr>) ys zs"
proof -
  have "length xs + length rest = length ys + length zs" using arg_cong [OF assms(2), of length] by simp
  moreover have "xs = [] \<and> rest = [] \<longleftrightarrow> ys = [] \<and> zs = []" using assms(2) by (metis append_is_Nil_conv)
  ultimately show ?thesis using assms by (auto simp: slots_def)
qed

lemma arr_erase:
  assumes "arr_holds lim icd a xs" and "lim \<le> 2 ^ 30" and "unat pos + unat len \<le> length xs"
    and "destroys icd (take (unat len) (drop (unat pos) xs)) w = Some w'"
  shows "\<exists>a'. utarray_erase a pos len w = Inr (a', w') \<and> arr_holds lim icd a' (take (unat pos) xs @ drop (unat pos + unat len) xs)"
proof -
  obtain rest where r: "slots a xs rest" "aicd a = icd" "unat (an a) \<le> lim" using arr_holds_slots [OF assms(1)] by blast
  have small: "length xs < 2 ^ 31" using small_len [OF r(1,3) assms(2)] by simp
  have pl: "unat (pos + len) = unat pos + unat len" using assms(3) small by (subst unat_add32) auto
  have i: "unat (ai a - len) = length (take (unat pos) xs @ drop (unat pos + unat len) xs)"
    using assms(3) slots_len [OF r(1)] by (subst unat_sub32) auto
  have d: "dtor_for a [unat pos..<unat pos + unat len] w = Inr w'"
    using dtor_for_run [OF r(1) _ assms(3), of "unat pos" w w'] assms(4) r(2) by simp
  show ?thesis
  proof (cases "unat pos + unat len < length xs")
    case False
    have "slots (a\<lparr>ai := ai a - len\<rparr>) (take (unat pos) xs @ drop (unat pos + unat len) xs) (drop (unat pos) xs @ rest)"
      by (rule slots_shrink [OF r(1) _ i]) (use False in simp)
    moreover have "utarray_erase a pos len w = Inr (a\<lparr>ai := ai a - len\<rparr>, w')"
      using d False pl slots_len [OF r(1)] by (simp add: utarray_erase_def word_less_nat_alt)
    ultimately show ?thesis using slots_arr_holds r(2,3) by fastforce
  next
    case True
    have b: "ad a = Bytes (xs @ rest)" using slots_BytesD [OF r(1)] True by fastforce
    let ?n = "length xs - (unat pos + unat len)"
    let ?tail = "drop (unat pos + ?n) (xs @ rest)"
    have "get_block a (unat pos + unat len) ?n = Inr (drop (unat pos + unat len) xs)"
      using b True by (simp add: get_block_def bytes_of_def)
    then have mv: "move_block a (unat pos) (unat pos + unat len) ?n =
        Inr (a\<lparr>ad := Bytes ((take (unat pos) xs @ drop (unat pos + unat len) xs) @ ?tail)\<rparr>)"
      using b True by (simp add: move_block_def put_block_def bytes_of_def)
    have "unat (ai a - (pos + len)) = ?n" using True pl slots_len [OF r(1)] by (subst unat_sub32) auto
    then have "utarray_erase a pos len w =
        Inr (with_elements a ((take (unat pos) xs @ drop (unat pos + unat len) xs) @ ?tail) (ai a - len), w')"
      using d True pl slots_len [OF r(1)] mv by (simp add: utarray_erase_def word_less_nat_alt with_elements_def)
    moreover have "arr_holds lim icd (with_elements a ((take (unat pos) xs @ drop (unat pos + unat len) xs) @ ?tail) (ai a - len))
        (take (unat pos) xs @ drop (unat pos + unat len) xs)"
      by (rule holds_with [OF r(1) i _ _ r(2,3)]) (use True in auto)
    ultimately show ?thesis by blast
  qed
qed

lemma arr_clear:
  assumes "arr_holds lim icd a xs" and "destroys icd xs w = Some w'"
  shows "\<exists>a'. utarray_clear a w = Inr (a', w') \<and> arr_holds lim icd a' []"
proof -
  obtain rest where r: "slots a xs rest" "aicd a = icd" "unat (an a) \<le> lim" using arr_holds_slots [OF assms(1)] by blast
  have d: "dtor_for a [0..<length xs] w = Inr w'" using dtor_for_run [OF r(1), of "length xs" 0 w w'] assms(2) r(2) by simp
  have "slots (a\<lparr>ai := 0\<rparr>) [] (xs @ rest)" by (rule slots_shrink [OF r(1)]) simp_all
  then have "arr_holds lim icd (a\<lparr>ai := 0\<rparr>) []" using slots_arr_holds r(2,3) by fastforce
  moreover have "utarray_clear a w = Inr (a\<lparr>ai := 0\<rparr>, w') \<or> xs = [] \<and> utarray_clear a w = Inr (a, w')"
    using d slots_len [OF r(1)] assms(2) by (auto simp: utarray_clear_def word_gt_0 unat_eq_0)
  ultimately show ?thesis using assms(1) by blast
qed

lemma arr_done:
  assumes "arr_holds lim icd a xs" and "destroys icd xs w = Some w'"
  shows "\<exists>a'. utarray_done a w = Inr (a', w') \<and> an a' = 0 \<and> ai a' = ai a \<and> (an a \<noteq> 0 \<longrightarrow> ad a' = Freed)"
proof -
  obtain rest where r: "slots a xs rest" "aicd a = icd" "unat (an a) \<le> lim" using arr_holds_slots [OF assms(1)] by blast
  have d: "dtor_for a [0..<length xs] w = Inr w'" using dtor_for_run [OF r(1), of "length xs" 0 w w'] assms(2) r(2) by simp
  show ?thesis
  proof (cases "an a = 0")
    case True
    then have "xs = []" using r(1) by (simp add: slots_def)
    then show ?thesis using True assms(2) by (simp add: utarray_done_def)
  next
    case False
    then have "ad a = Bytes (xs @ rest)" using r(1) by (auto simp: slots_def unat_eq_0)
    then show ?thesis using False d slots_len [OF r(1)] by (simp add: utarray_done_def bytes_of_def)
  qed
qed

section \<open>Resizing\<close>

lemma arr_resize_down:
  assumes "arr_holds lim icd a xs" and "unat num \<le> length xs" and "destroys icd (drop (unat num) xs) w = Some w'"
  shows "\<exists>a'. utarray_resize zero ra a num w = Inr (a', w') \<and> arr_holds lim icd a' (take (unat num) xs)"
proof -
  obtain rest where r: "slots a xs rest" "aicd a = icd" "unat (an a) \<le> lim" using arr_holds_slots [OF assms(1)] by blast
  have d: "dtor_for a [unat num..<length xs] w = Inr w'"
    using dtor_for_run [OF r(1), of "length xs" "unat num" w w'] assms(3) r(2) by simp
  have "slots (a\<lparr>ai := num\<rparr>) (take (unat num) xs) (drop (unat num) xs @ rest)"
    by (rule slots_shrink [OF r(1)]) (use assms(2) in simp_all)
  then have "arr_holds lim icd (a\<lparr>ai := num\<rparr>) (take (unat num) xs)" using slots_arr_holds r(2,3) by fastforce
  moreover have "utarray_resize zero ra a num w = Inr (a\<lparr>ai := num\<rparr>, w')"
  proof (cases "unat num < length xs")
    case True
    then show ?thesis using d slots_len [OF r(1)] by (simp add: utarray_resize_def word_less_nat_alt)
  next
    case False
    then have "\<not> ai a > num" "\<not> ai a < num" using slots_len [OF r(1)] assms(2) by (simp_all add: word_less_nat_alt)
    then show ?thesis using False assms(2,3) by (simp add: utarray_resize_def)
  qed
  ultimately show ?thesis by blast
qed

lemma arr_resize_up:
  assumes "realloc_slots_ok lim ra" and "arr_holds lim icd a xs" and "length xs < unat num" and "unat num \<le> 2 ^ 30"
    and "icd_init icd = None"
  shows "utarray_resize zero ra a num w = Inl Oom \<or>
    (\<exists>a'. utarray_resize zero ra a num w = Inr (a', w) \<and> arr_holds lim icd a' (xs @ replicate (unat num - length xs) zero))"
proof -
  obtain rest where r: "slots a xs rest" "aicd a = icd" "unat (an a) \<le> lim" using arr_holds_slots [OF assms(2)] by blast
  have c: "\<not> ai a > num" "ai a < num" using slots_len [OF r(1)] assms(3) by (simp_all add: word_less_nat_alt)
  have n: "unat (num - ai a) = unat num - length xs" using slots_len [OF r(1)] assms(3) by (subst unat_sub32) auto
  show ?thesis
  proof (rule reserve_slots [OF assms(1) r(1,3), of "num - ai a"])
    assume "utarray_reserve ra a (num - ai a) = Inl Oom"
    then show ?thesis using c by (simp add: utarray_resize_def)
  next
    fix a' rest'
    assume a': "utarray_reserve ra a (num - ai a) = Inr a'" "slots a' xs rest'" "unat (an a') \<le> lim"
      "unat (num - ai a) \<le> length rest'" "aicd a' = aicd a"
    let ?z = "replicate (unat num - length xs) zero"
    have n': "unat (num - ai a') = unat num - length xs" using slots_len [OF a'(2)] assms(3) by (subst unat_sub32) auto
    have "ad a' = Bytes (xs @ rest')" using slots_BytesD [OF a'(2)] a'(4) n assms(3) by fastforce
    then have "put_block a' (length xs) ?z = Inr (a'\<lparr>ad := Bytes ((xs @ ?z) @ drop (unat num - length xs) rest')\<rparr>)"
      using a'(4) n by (simp add: put_block_def bytes_of_def)
    then have "utarray_resize zero ra a num w =
        Inr (with_elements a' ((xs @ ?z) @ drop (unat num - length xs) rest') num, w)"
      using c a'(5) r(2) assms(5) slots_len [OF a'(2)] n' by (simp add: utarray_resize_def a'(1) with_elements_def)
    moreover have "arr_holds lim icd (with_elements a' ((xs @ ?z) @ drop (unat num - length xs) rest') num) (xs @ ?z)"
      by (rule holds_with [OF a'(2)]) (use a'(3,4,5) r(2) n assms(3) in auto)
    ultimately show ?thesis by blast
  qed (use n assms(4) in simp)
qed

section \<open>Inserting an array\<close>

lemma arr_inserta:
  assumes "realloc_slots_ok lim ra" and "arr_holds lim icd (S d) xs" and "arr_holds lim icd (S c) ys" and "ys \<noteq> []"
    and "unat j \<le> length xs" and "c = d \<longrightarrow> unat j = length xs" and "copies icd ys w = Some (zs, w')"
  shows "utarray_inserta ra S d c j w = Inl Oom \<or>
    (\<exists>a'. utarray_inserta ra S d c j w = Inr (S(d := a'), w') \<and> arr_holds lim icd a' (take (unat j) xs @ zs @ drop (unat j) xs))"
proof -
  obtain rest rc where r: "slots (S d) xs rest" "aicd (S d) = icd" "unat (an (S d)) \<le> lim"
    and rc: "slots (S c) ys rc" "unat (an (S c)) \<le> lim" using arr_holds_slots [OF assms(2)] arr_holds_slots [OF assms(3)] by blast
  have lim: "lim \<le> 2 ^ 30" using assms(1) by (simp add: realloc_slots_ok_def)
  define l where "l = ai (S c)"
  have l: "unat l = length ys" "length ys \<le> 2 ^ 30" using slots_len [OF rc(1)] small_len [OF rc lim] by (simp_all add: l_def)
  have l0: "l \<noteq> 0" "\<not> j > ai (S d)" using l(1) assms(4,5) slots_len [OF r(1)] by (auto simp: word_less_nat_alt)
  show ?thesis
  proof (rule reserve_slots [OF assms(1) r(1,3), of l])
    assume "utarray_reserve ra (S d) l = Inl Oom"
    then show ?thesis using l0 by (simp add: utarray_inserta_def utarray_len_def l_def)
  next
    fix a' rest'
    assume a': "utarray_reserve ra (S d) l = Inr a'" "slots a' xs rest'" "unat (an a') \<le> lim" "unat l \<le> length rest'" "aicd a' = aicd (S d)"
    have b: "ad a' = Bytes (xs @ rest')" using slots_BytesD [OF a'(2)] a'(4) l(1) assms(4) by fastforce
    have small: "length xs \<le> 2 ^ 30" using small_len [OF a'(2,3) lim] by simp
    have jl: "unat (j + l) = unat j + length ys" using assms(5) small l by (subst unat_add32) auto
    have cmp: "j < ai a' \<longleftrightarrow> unat j < length xs" "unat (ai a' - j) = length xs - unat j"
      using slots_len [OF a'(2)] assms(5) by (auto simp: word_less_nat_alt unat_sub32)
    obtain gap where gap: "length gap = length ys" "(if j < ai a' then move_block a' (unat (j + l)) (unat j) (unat (ai a' - j)) else Inr a') =
        Inr (a'\<lparr>ad := Bytes (take (unat j) xs @ gap @ drop (unat j) xs @ drop (length ys) rest')\<rparr>)"
      using open_gap [OF b _ assms(5) cmp(1), of "length ys"] a'(4) l(1) unfolding jl cmp(2) by auto
    define la where "la = take (unat j) xs @ gap @ drop (unat j) xs @ drop (length ys) rest'"
    define T where "T = S(d := a'\<lparr>ad := Bytes la\<rparr>)"
    define res where "res = take (unat j) xs @ zs @ drop (unat j) xs @ drop (length ys) rest'"
    define lb where "lb = (if c = d then la else ys @ rc)"
    have xy: "c = d \<Longrightarrow> xs = ys" using assms(2,3) by (simp add: arr_holds_def)
    have al: "c = d \<Longrightarrow> ai a' = l" using xy slots_len [OF a'(2)] l(1) by (simp add: word_unat_eq_iff)
    have len: "utarray_len ((S(d := x)) c) = l" if "ai x = ai a'" for x
      using that al by (auto simp: utarray_len_def l_def)
    have adT: "ad (T d) = Bytes la" "ad (T c) = Bytes lb" "aicd (T d) = icd"
      using slots_BytesD [OF rc(1)] assms(4) a'(5) r(2) by (auto simp: T_def lb_def)
    have tk: "take (length ys) lb = ys" "length ys \<le> length lb" "unat j + length ys \<le> length la"
      "take (unat j) la = take (unat j) xs" "drop (unat j + length ys) la = drop (unat j) xs @ drop (length ys) rest'"
      using assms(5,6) xy gap(1) by (auto simp: lb_def la_def)
    have "(case icd_copy (aicd (T d)) of
         Some f \<Rightarrow> inserta_for T d c (unat j) [0..<length ys] w
       | None \<Rightarrow> ut_bind (get_block (T c) 0 (length ys)) (\<lambda>ys. ut_bind (put_block (T d) (unat j) ys) (\<lambda>s. Inr (T(d := s), w)))) =
       Inr (T(d := (T d)\<lparr>ad := Bytes res\<rparr>), w')"
    proof (cases "icd_copy (aicd (T d))")
      case None
      then have "zs = ys" "w' = w" using copies_none [OF None] assms(7) adT(3) by simp_all
      then show ?thesis using None adT tk by (simp add: get_block_def put_block_def bytes_of_def res_def)
    next
      case (Some f)
      then show ?thesis
        using inserta_for_run [OF adT(1,2) tk(2,1,3), of 0 w zs w'] assms(5-7) adT(3) xy tk(4,5)
        by (auto simp: res_def)
    qed
    note copy = this
    have eqs: "utarray_len (S c) = l" "utarray_len ((S(d := a')) c) = l" "utarray_len (T c) = l" "unat (ai (T c)) = length ys"
      "(S(d := a')) d = a'" "(S(d := a'))(d := a'\<lparr>ad := Bytes la\<rparr>) = T"
      "utarray_len ((T(d := (T d)\<lparr>ad := Bytes res\<rparr>)) c) = l" "(T(d := x)) d = x" "T(d := x) = S(d := x)" "ai (T d) = ai a'" for x
      using len [of a'] len [of "a'\<lparr>ad := Bytes la\<rparr>"] len [of "a'\<lparr>ad := Bytes res\<rparr>"] l(1)
      by (simp_all add: T_def utarray_len_def l_def del: fun_upd_apply) (simp_all add: utarray_len_def)
    have "utarray_inserta ra S d c j w =
        Inr (S(d := with_elements a' ((take (unat j) xs @ zs @ drop (unat j) xs) @ drop (length ys) rest') (ai a' + l)), w')"
      unfolding utarray_inserta_def eqs(1) if_not_P [OF l0(1)] if_not_P [OF l0(2)] a'(1) ut_bind_simps Let_def eqs(2,5)
        gap(2) [folded la_def] eqs(3,4,6) l(1) copy
      unfolding ut_bind_simps prod.case eqs(7)
      unfolding eqs(8-10)
      by (simp add: res_def with_elements_def T_def)
    moreover have "arr_holds lim icd (with_elements a' ((take (unat j) xs @ zs @ drop (unat j) xs) @ drop (length ys) rest') (ai a' + l))
        (take (unat j) xs @ zs @ drop (unat j) xs)"
    proof (rule holds_with [OF a'(2)])
      have "unat (ai a' + l) = length xs + length ys" using slots_len [OF a'(2)] l small by (subst unat_add32) auto
      then show "unat (ai a' + l) = length (take (unat j) xs @ zs @ drop (unat j) xs)"
        using length_copies [OF assms(7)] assms(5) by simp
    qed (use length_copies [OF assms(7)] assms(4,5) l(1) a'(3,4,5) r(2) in auto)
    ultimately show ?thesis by blast
  qed (use l in simp)
qed

end
