(* ===== verification/Utarray_Props.thy ===== *)
theory Utarray_Props
  imports Utarray_Edit
begin

text \<open>
  The dynamic arrays are lists: every legal sequence of operations on a store of arrays has the
  effect of the operations on lists of elements, with the elements copied and destroyed by the
  functions of the arrays.
\<close>

section \<open>Sequences of operations\<close>

datatype 'e arr_cmd = APush nat 'e | APop nat | AExtend nat | AInsert nat 'e u32 | AInserta nat nat u32 |
  AConcat nat nat | AResize nat u32 | AErase nat u32 u32 | AClear nat

type_synonym ('e, 'w) arr_store = "(nat \<Rightarrow> ('e, 'w) UT_array) \<times> 'w"

definition on_arr :: "(('e, 'w) UT_array \<Rightarrow> 'w \<Rightarrow> (('e, 'w) UT_array \<times> 'w) ut) \<Rightarrow> nat \<Rightarrow> ('e, 'w) arr_store \<Rightarrow> ('e, 'w) arr_store ut" where
  "on_arr f k st = (let (S, w) = st in ut_bind (f (S k) w) (\<lambda>(a, w). Inr (S(k := a), w)))"

definition arr_step :: "'e \<Rightarrow> 'e slots_realloc \<Rightarrow> 'e arr_cmd \<Rightarrow> ('e, 'w) arr_store \<Rightarrow> ('e, 'w) arr_store ut" where
  "arr_step zero realloc c st = (case c of
     APush k p \<Rightarrow> on_arr (\<lambda>a. utarray_push_back realloc a p) k st
   | APop k \<Rightarrow> on_arr utarray_pop_back k st
   | AExtend k \<Rightarrow> on_arr (utarray_extend_back zero realloc) k st
   | AInsert k p j \<Rightarrow> on_arr (\<lambda>a. utarray_insert realloc a p j) k st
   | AInserta k b j \<Rightarrow> utarray_inserta realloc (fst st) k b j (snd st)
   | AConcat k b \<Rightarrow> utarray_concat realloc (fst st) k b (snd st)
   | AResize k num \<Rightarrow> on_arr (\<lambda>a. utarray_resize zero realloc a num) k st
   | AErase k pos len \<Rightarrow> on_arr (\<lambda>a. utarray_erase a pos len) k st
   | AClear k \<Rightarrow> on_arr utarray_clear k st)"

primrec arr_run :: "'e \<Rightarrow> 'e slots_realloc \<Rightarrow> 'e arr_cmd list \<Rightarrow> ('e, 'w) arr_store \<Rightarrow> ('e, 'w) arr_store ut" where
  "arr_run zero realloc [] st = Inr st"
| "arr_run zero realloc (c # cs) st = ut_bind (arr_step zero realloc c st) (arr_run zero realloc cs)"

text \<open>What the lengths \<open>L\<close> must be for an operation, and what they are afterwards.\<close>

definition arr_legal :: "('e, 'w) UT_icd \<Rightarrow> 'e arr_cmd \<Rightarrow> (nat \<Rightarrow> nat) \<Rightarrow> bool" where
  "arr_legal icd c L = (case c of
     APop k \<Rightarrow> L k \<noteq> 0
   | AInserta k b j \<Rightarrow> k \<noteq> b \<or> L k \<le> unat j
   | AResize k num \<Rightarrow> unat num \<le> L k \<or> icd_init icd = None \<and> unat num \<le> 2 ^ 30
   | AErase k pos len \<Rightarrow> unat pos + unat len \<le> L k
   | _ \<Rightarrow> True)"

definition arr_spec :: "('e, 'w) UT_icd \<Rightarrow> 'e \<Rightarrow> 'e arr_cmd \<Rightarrow> (nat \<Rightarrow> 'e list) \<times> 'w \<Rightarrow> ((nat \<Rightarrow> 'e list) \<times> 'w) option" where
  "arr_spec icd zero c st = (let (V, w) = st in
     if \<not> arr_legal icd c (\<lambda>k. length (V k)) then None else case c of
     APush k p \<Rightarrow> map_option (\<lambda>(ys, w). (V(k := V k @ ys), w)) (copies icd [p] w)
   | APop k \<Rightarrow> map_option (\<lambda>w. (V(k := butlast (V k)), w)) (destroys icd [last (V k)] w)
   | AExtend k \<Rightarrow> (let (e, w) = init1 icd zero w in Some (V(k := V k @ [e]), w))
   | AInsert k p j \<Rightarrow>
       if unat j \<le> length (V k)
       then map_option (\<lambda>(ys, w). (V(k := take (unat j) (V k) @ ys @ drop (unat j) (V k)), w)) (copies icd [p] w)
       else Some (V, w)
   | AInserta k b j \<Rightarrow>
       if V b \<noteq> [] \<and> unat j \<le> length (V k)
       then map_option (\<lambda>(ys, w). (V(k := take (unat j) (V k) @ ys @ drop (unat j) (V k)), w)) (copies icd (V b) w)
       else Some (V, w)
   | AConcat k b \<Rightarrow> map_option (\<lambda>(ys, w). (V(k := V k @ ys), w)) (copies icd (V b) w)
   | AResize k num \<Rightarrow>
       if unat num \<le> length (V k)
       then map_option (\<lambda>w. (V(k := take (unat num) (V k)), w)) (destroys icd (drop (unat num) (V k)) w)
       else Some (V(k := V k @ replicate (unat num - length (V k)) zero), w)
   | AErase k pos len \<Rightarrow>
       map_option (\<lambda>w. (V(k := take (unat pos) (V k) @ drop (unat pos + unat len) (V k)), w))
         (destroys icd (take (unat len) (drop (unat pos) (V k))) w)
   | AClear k \<Rightarrow> map_option (\<lambda>w. (V(k := []), w)) (destroys icd (V k) w))"

primrec arr_spec_run :: "('e, 'w) UT_icd \<Rightarrow> 'e \<Rightarrow> 'e arr_cmd list \<Rightarrow> (nat \<Rightarrow> 'e list) \<times> 'w \<Rightarrow> ((nat \<Rightarrow> 'e list) \<times> 'w) option" where
  "arr_spec_run icd zero [] st = Some st"
| "arr_spec_run icd zero (c # cs) st = Option.bind (arr_spec icd zero c st) (arr_spec_run icd zero cs)"

definition arrs_hold :: "nat \<Rightarrow> ('e, 'w) UT_icd \<Rightarrow> (nat \<Rightarrow> ('e, 'w) UT_array) \<Rightarrow> (nat \<Rightarrow> 'e list) \<Rightarrow> bool" where
  "arrs_hold lim icd S V \<longleftrightarrow> (\<forall>k. arr_holds lim icd (S k) (V k))"

lemma arrs_holdD: "arrs_hold lim icd S V \<Longrightarrow> arr_holds lim icd (S k) (V k)"
  by (simp add: arrs_hold_def)

lemma arrs_hold_upd: "arrs_hold lim icd S V \<Longrightarrow> arr_holds lim icd a xs \<Longrightarrow> arrs_hold lim icd (S(k := a)) (V(k := xs))"
  by (simp add: arrs_hold_def)

lemma arrs_hold_same: "arrs_hold lim icd S V \<Longrightarrow> arr_holds lim icd a (V k) \<Longrightarrow> arrs_hold lim icd (S(k := a)) V"
  using arrs_hold_upd [of lim icd S V a "V k" k] by simp

text \<open>An operation on the array \<open>k\<close> that gives the elements \<open>ys\<close> and the world \<open>w'\<close>, if there is memory.\<close>

definition does :: "nat \<Rightarrow> ('e, 'w) UT_icd \<Rightarrow> (('e, 'w) UT_array \<times> 'w) ut \<Rightarrow> 'e list \<Rightarrow> 'w \<Rightarrow> bool" where
  "does lim icd r ys w' \<longleftrightarrow> r = Inl Oom \<or> (\<exists>a'. r = Inr (a', w') \<and> arr_holds lim icd a' ys)"

lemma on_arr_does:
  assumes "arrs_hold lim icd S V" and "does lim icd (f (S k) w) ys w'"
  shows "on_arr f k (S, w) = Inl Oom \<or> (\<exists>S'. on_arr f k (S, w) = Inr (S', w') \<and> arrs_hold lim icd S' (V(k := ys)))"
  using assms(2) arrs_hold_upd [OF assms(1)] by (auto simp: does_def on_arr_def)

lemma arr_step_inserta:
  assumes "realloc_slots_ok lim ra" and "arrs_hold lim icd S V" and "k \<noteq> b \<or> length (V k) \<le> unat j"
    and "V b \<noteq> [] \<and> unat j \<le> length (V k)" and "copies icd (V b) w = Some (ys, w')"
  shows "utarray_inserta ra S k b j w = Inl Oom \<or> (\<exists>S'. utarray_inserta ra S k b j w = Inr (S', w') \<and>
    arrs_hold lim icd S' (V(k := take (unat j) (V k) @ ys @ drop (unat j) (V k))))"
proof -
  have "b = k \<longrightarrow> unat j = length (V k)" using assms(3,4) by auto
  from arr_inserta [OF assms(1) arrs_holdD [OF assms(2)] arrs_holdD [OF assms(2)] _ _ this assms(5)]
  show ?thesis using assms(4) arrs_hold_upd [OF assms(2)] by blast
qed

lemma inserta_none:
  assumes "arrs_hold lim icd S V" and "\<not> (V b \<noteq> [] \<and> unat j \<le> length (V k))"
  shows "utarray_inserta ra S k b j w = Inr (S, w)"
proof -
  have "unat (ai (S k)) = length (V k)" for k using arr_holds_slots [OF arrs_holdD [OF assms(1)]] slots_len by blast
  then show ?thesis using assms(2) by (auto simp: utarray_inserta_def utarray_len_def word_less_nat_alt unat_eq_0 [symmetric])
qed

lemma concat_index:
  assumes "arrs_hold lim icd S V"
  shows "unat (utarray_len (S k)) = length (V k)"
  using arr_holds_slots [OF arrs_holdD [OF assms, of k]] slots_len by (auto simp: utarray_len_def)

text \<open>A step on the store that stops for lack of memory or gives arrays that hold \<open>V'\<close>.\<close>

abbreviation gives :: "nat \<Rightarrow> ('e, 'w) UT_icd \<Rightarrow> ((nat \<Rightarrow> ('e, 'w) UT_array) \<times> 'w) ut \<Rightarrow> (nat \<Rightarrow> 'e list) \<Rightarrow> 'w \<Rightarrow> bool" where
  "gives lim icd r V' w' \<equiv> r = Inl Oom \<or> (\<exists>S'. r = Inr (S', w') \<and> arrs_hold lim icd S' V')"

lemma arr_spec_legal: "arr_spec icd zero c (V, w) = Some r \<Longrightarrow> arr_legal icd c (\<lambda>k. length (V k))"
  by (simp add: arr_spec_def split: if_splits)

lemma step_insert:
  assumes "realloc_slots_ok lim ra" and "arrs_hold lim icd S V" and spec: "arr_spec icd zero (AInsert k p j) (V, w) = Some (V', w')"
  shows "gives lim icd (arr_step zero ra (AInsert k p j) (S, w)) V' w'"
proof -
  note legal = arr_spec_legal [OF spec]
  note sp = spec [unfolded arr_spec_def Let_def prod.case, simplified legal, simplified]
  note H = arrs_holdD [OF assms(2)]
  note on = on_arr_does [OF assms(2)]
  show ?thesis
  proof (cases "unat j \<le> length (V k)")
    case True
    then obtain ys where ys: "copies icd [p] w = Some (ys, w')" "V' = V(k := take (unat j) (V k) @ ys @ drop (unat j) (V k))"
      using sp by auto
    have "does lim icd (utarray_insert ra (S k) p j w) (take (unat j) (V k) @ ys @ drop (unat j) (V k)) w'"
      using arr_insert [OF assms(1) H ys(1) True] by (simp add: does_def)
    then show ?thesis using on [of "\<lambda>a. utarray_insert ra a p j" k w] ys(2) by (simp add: arr_step_def)
  next
    case False
    then have "V' = V" "w' = w" using sp by auto
    moreover have "does lim icd (utarray_insert ra (S k) p j w) (V k) w"
      using arr_insert_beyond [OF assms(1) H False] by (simp add: does_def)
    ultimately show ?thesis using on [of "\<lambda>a. utarray_insert ra a p j" k w "V k" w] by (simp add: arr_step_def)
  qed
qed

lemma step_inserta:
  assumes "realloc_slots_ok lim ra" and "arrs_hold lim icd S V" and spec: "arr_spec icd zero (AInserta k b j) (V, w) = Some (V', w')"
  shows "gives lim icd (arr_step zero ra (AInserta k b j) (S, w)) V' w'"
proof -
  note legal = arr_spec_legal [OF spec]
  note sp = spec [unfolded arr_spec_def Let_def prod.case, simplified legal, simplified]
  show ?thesis
  proof (cases "V b \<noteq> [] \<and> unat j \<le> length (V k)")
    case True
    then obtain ys where "copies icd (V b) w = Some (ys, w')" "V' = V(k := take (unat j) (V k) @ ys @ drop (unat j) (V k))"
      using sp by auto
    moreover have "k \<noteq> b \<or> length (V k) \<le> unat j" using legal by (simp add: arr_legal_def)
    ultimately show ?thesis using arr_step_inserta [OF assms(1,2) _ True] by (simp add: arr_step_def)
  next
    case False
    then have "V' = V" "w' = w" using sp by (auto split: if_splits)
    then show ?thesis using inserta_none [OF assms(2) False] assms(2) by (simp add: arr_step_def)
  qed
qed

lemma step_concat:
  assumes "realloc_slots_ok lim ra" and "arrs_hold lim icd S V" and spec: "arr_spec icd zero (AConcat k b) (V, w) = Some (V', w')"
  shows "gives lim icd (arr_step zero ra (AConcat k b) (S, w)) V' w'"
proof -
  note legal = arr_spec_legal [OF spec]
  note sp = spec [unfolded arr_spec_def Let_def prod.case, simplified legal, simplified]
  obtain ys where ys: "copies icd (V b) w = Some (ys, w')" "V' = V(k := V k @ ys)" using sp by auto
  have j: "unat (utarray_len (S k)) = length (V k)" by (rule concat_index [OF assms(2)])
  show ?thesis
  proof (cases "V b = []")
    case True
    then have "V' = V" "w' = w" using ys by auto
    then show ?thesis using inserta_none [OF assms(2), of b] True assms(2) by (simp add: arr_step_def utarray_concat_def)
  next
    case False
    then show ?thesis using arr_step_inserta [OF assms(1,2), of k b "utarray_len (S k)" w ys w'] ys j
      by (simp add: arr_step_def utarray_concat_def)
  qed
qed

lemma step_resize:
  assumes "realloc_slots_ok lim ra" and "arrs_hold lim icd S V" and spec: "arr_spec icd zero (AResize k num) (V, w) = Some (V', w')"
  shows "gives lim icd (arr_step zero ra (AResize k num) (S, w)) V' w'"
proof -
  note legal = arr_spec_legal [OF spec]
  note sp = spec [unfolded arr_spec_def Let_def prod.case, simplified legal, simplified]
  note H = arrs_holdD [OF assms(2)]
  note on = on_arr_does [OF assms(2)]
  show ?thesis
  proof (cases "unat num \<le> length (V k)")
    case True
    then have d: "destroys icd (drop (unat num) (V k)) w = Some w'" "V' = V(k := take (unat num) (V k))" using sp by auto
    have "does lim icd (utarray_resize zero ra (S k) num w) (take (unat num) (V k)) w'"
      using arr_resize_down [OF H True d(1)] by (simp add: does_def)
    then show ?thesis using on [of "\<lambda>a. utarray_resize zero ra a num" k w] d(2) by (simp add: arr_step_def)
  next
    case False
    then have v: "w' = w" "V' = V(k := V k @ replicate (unat num - length (V k)) zero)" using sp by auto
    have "icd_init icd = None" "unat num \<le> 2 ^ 30" using legal False by (simp_all add: arr_legal_def)
    then have "does lim icd (utarray_resize zero ra (S k) num w) (V k @ replicate (unat num - length (V k)) zero) w'"
      using arr_resize_up [OF assms(1) H] False v(1) by (simp add: does_def)
    then show ?thesis using on [of "\<lambda>a. utarray_resize zero ra a num" k w] v(2) by (simp add: arr_step_def)
  qed
qed

lemma arr_step_spec:
  assumes "realloc_slots_ok lim ra" and "arrs_hold lim icd S V" and "arr_spec icd zero c (V, w) = Some (V', w')"
  shows "gives lim icd (arr_step zero ra c (S, w)) V' w'"
proof -
  have lim: "lim \<le> 2 ^ 30" using assms(1) by (simp add: realloc_slots_ok_def)
  have legal: "arr_legal icd c (\<lambda>k. length (V k))" using assms(3) by (simp add: arr_spec_def split: if_splits)
  note spec = assms(3) [unfolded arr_spec_def Let_def prod.case, simplified legal, simplified]
  note H = arrs_holdD [OF assms(2)]
  note on = on_arr_does [OF assms(2)]
  show ?thesis
  proof (cases c)
    case (APush k p)
    then obtain ys where ys: "copies icd [p] w = Some (ys, w')" "V' = V(k := V k @ ys)" using spec by auto
    have "does lim icd (utarray_push_back ra (S k) p w) (V k @ ys) w'"
      using arr_push [OF assms(1) H ys(1)] by (simp add: does_def)
    then show ?thesis using on [of "\<lambda>a. utarray_push_back ra a p" k w] APush ys(2) by (simp add: arr_step_def)
  next
    case (APop k)
    then have d: "destroys icd [last (V k)] w = Some w'" "V' = V(k := butlast (V k))" using spec by auto
    have "V k \<noteq> []" using legal APop by (simp add: arr_legal_def)
    then have "does lim icd (utarray_pop_back (S k) w) (butlast (V k)) w'"
      using arr_pop [OF H _ d(1)] by (simp add: does_def)
    then show ?thesis using on [of utarray_pop_back k w] APop d(2) by (simp add: arr_step_def)
  next
    case (AExtend k)
    obtain e w1 where e: "init1 icd zero w = (e, w1)" by fastforce
    then have "w1 = w'" "V' = V(k := V k @ [e])" using spec AExtend by auto
    moreover from this have "does lim icd (utarray_extend_back zero ra (S k) w) (V k @ [e]) w'"
      using arr_extend [OF assms(1) H e] by (simp add: does_def)
    ultimately show ?thesis using on [of "utarray_extend_back zero ra" k w] AExtend by (simp add: arr_step_def)
  next
    case (AInsert k p j)
    then show ?thesis using step_insert [OF assms(1,2)] assms(3) by simp
  next
    case (AInserta k b j)
    then show ?thesis using step_inserta [OF assms(1,2)] assms(3) by simp
  next
    case (AConcat k b)
    then show ?thesis using step_concat [OF assms(1,2)] assms(3) by simp
  next
    case (AResize k num)
    then show ?thesis using step_resize [OF assms(1,2)] assms(3) by simp
  next
    case (AErase k pos len)
    then have d: "destroys icd (take (unat len) (drop (unat pos) (V k))) w = Some w'"
      "V' = V(k := take (unat pos) (V k) @ drop (unat pos + unat len) (V k))" using spec by auto
    have "unat pos + unat len \<le> length (V k)" using legal AErase by (simp add: arr_legal_def)
    then have "does lim icd (utarray_erase (S k) pos len w) (take (unat pos) (V k) @ drop (unat pos + unat len) (V k)) w'"
      using arr_erase [OF H lim _ d(1)] by (simp add: does_def)
    then show ?thesis using on [of "\<lambda>a. utarray_erase a pos len" k w] AErase d(2) by (simp add: arr_step_def)
  next
    case (AClear k)
    then have d: "destroys icd (V k) w = Some w'" "V' = V(k := [])" using spec by auto
    have "does lim icd (utarray_clear (S k) w) [] w'" using arr_clear [OF H d(1)] by (simp add: does_def)
    then show ?thesis using on [of utarray_clear k w] AClear d(2) by (simp add: arr_step_def)
  qed
qed

lemma arr_run_spec:
  assumes "realloc_slots_ok lim ra" and "arrs_hold lim icd S V" and "arr_spec_run icd zero cs (V, w) = Some (V', w')"
  shows "arr_run zero ra cs (S, w) = Inl Oom \<or> (\<exists>S'. arr_run zero ra cs (S, w) = Inr (S', w') \<and> arrs_hold lim icd S' V')"
  using assms(2,3)
proof (induction cs arbitrary: S V w)
  case (Cons c cs)
  then obtain V1 w1 where 1: "arr_spec icd zero c (V, w) = Some (V1, w1)" "arr_spec_run icd zero cs (V1, w1) = Some (V', w')"
    by (auto elim!: bind_eq_SomeE)
  from arr_step_spec [OF assms(1) Cons.prems(1) 1(1)] show ?case
  proof
    assume "\<exists>S'. arr_step zero ra c (S, w) = Inr (S', w1) \<and> arrs_hold lim icd S' V1"
    then obtain S1 where S1: "arr_step zero ra c (S, w) = Inr (S1, w1)" "arrs_hold lim icd S1 V1" by blast
    show ?thesis using Cons.IH [OF S1(2) 1(2)] S1(1) by simp
  qed simp
qed simp


definition demo_slots :: "int slots_realloc" where
  "demo_slots xs n = (if unat n \<le> 16 then Some (take (unat n) xs @ replicate (unat n - length xs) 7) else None)"

lemma demo_slots_ok: "realloc_slots_ok 16 demo_slots"
  by (auto simp: realloc_slots_ok_def demo_slots_def min_def split: if_splits)

definition demo_arr_cmds :: "int arr_cmd list" where
  "demo_arr_cmds = [APush 0 1, APush 0 2, AInsert 0 5 1, AConcat 0 0, AErase 0 1 2, AConcat 1 0, AResize 1 5]"

definition demo_arrays :: "nat \<Rightarrow> (int, unit) UT_array" where
  "demo_arrays k = utarray_init ut_int_icd"

lemma init_holds: "arr_holds lim icd (utarray_init icd) []"
  by (simp add: arr_holds_def arr_ok_def arr_val_def utarray_init_def)

lemma demo_arrays_hold: "arrs_hold 16 ut_int_icd demo_arrays (\<lambda>_. [])"
  by (simp add: arrs_hold_def demo_arrays_def init_holds)

lemma demo_arr_runs: "case arr_run 0 demo_slots demo_arr_cmds (demo_arrays, ()) of Inr _ \<Rightarrow> True | Inl _ \<Rightarrow> False"
  by code_simp


text \<open>Growing an array that has an init function by utarray_resize goes wrong: the new elements are
  addressed by utarray_eltptr, which gives NULL for what is not yet in use, and the function is called
  with NULL.
\<close>

theorem resize_init_null:
  assumes "realloc_slots_ok lim realloc" and "arr_ok a" and "unat (an a) \<le> lim" and "icd_init (aicd a) = Some f"
    and "ai a < num" and "unat num \<le> 2 ^ 30"
  shows "utarray_resize zero realloc a num w \<in> {Inl Oom, Inl Overrun}"
proof -
  have "arr_holds lim (aicd a) a (arr_val a)" using assms(2,3) by (simp add: arr_holds_def)
  then obtain xs rest where r: "slots a xs rest" "unat (an a) \<le> lim" using arr_holds_slots by blast
  have n: "length xs < unat num" "\<not> num < ai a" using assms(5) slots_len [OF r(1)] by (simp_all add: word_less_nat_alt)
  have m: "unat (num - ai a) \<le> 2 ^ 30" using slots_len [OF r(1)] n(1) assms(6) by (subst unat_sub32) auto
  show ?thesis
  proof (rule reserve_slots [OF assms(1) r m])
    assume "utarray_reserve realloc a (num - ai a) = Inl Oom"
    then show ?thesis using assms(5) n(2) by (simp add: utarray_resize_def)
  next
    fix a' rest' assume a': "utarray_reserve realloc a (num - ai a) = Inr a'" "slots a' xs rest'" "aicd a' = aicd a"
    have "init_for a' f [unat (ai a')..<unat num] w = Inl Overrun"
      using slots_len [OF a'(2)] n(1) by (simp add: upt_conv_Cons utarray_eltptr_def)
    then show ?thesis using assms(4,5) n(2) a' by (simp add: utarray_resize_def)
  qed
qed

theorem resize_init_null_witness:
  "utarray_resize 0 demo_slots (utarray_init \<lparr>icd_init = Some (\<lambda>w. (3, w)), icd_copy = None, icd_dtor = None\<rparr>) 2 () \<in> {Inl Oom, Inl Overrun}"
  by (rule resize_init_null [OF demo_slots_ok]) (simp_all add: utarray_init_def arr_ok_def)

lemma unat_2_pow: "k < 32 \<Longrightarrow> unat (2 ^ k :: u32) = 2 ^ k"
proof -
  assume "k < 32"
  then have "(2 :: nat) ^ k < 2 ^ 32" by (rule power_strict_increasing) simp
  then have "unat (word_of_nat (2 ^ k) :: u32) = 2 ^ k" by (simp only: unat_of_nat take_bit_nat_eq_self_iff) (simp add: take_bit_nat_eq_self)
  then show ?thesis by simp
qed

lemma doubled_power:
  assumes "n = 0 \<or> (\<exists>k. 3 \<le> k \<and> k < 32 \<and> n = (2 ^ k :: u32))"
  shows "(if n \<noteq> 0 then 2 * n else 8) = 0 \<or> (\<exists>k. 3 \<le> k \<and> k < 32 \<and> (if n \<noteq> 0 then 2 * n else 8) = (2 ^ k :: u32))"
proof (cases "n = 0")
  case True
  then show ?thesis by (intro disjI2 exI [of _ 3]) simp
next
  case False
  then obtain k where k: "3 \<le> k" "k < 32" "n = 2 ^ k" using assms by blast
  show ?thesis
  proof (cases "k = 31")
    case True
    then show ?thesis using k by simp
  next
    case False
    then show ?thesis using k \<open>n \<noteq> 0\<close> by (intro disjI2 exI [of _ "Suc k"]) simp
  qed
qed

text \<open>C40: utarray_reserve does not end exactly when more than 2 ^ 31 slots are needed and not yet there:
  the number of slots, a power of two, is doubled to 2 ^ 31, then to 0, then set to 8 again.
\<close>

theorem reserve_hangs:
  assumes "an a = 0 \<or> (\<exists>k. 3 \<le> k \<and> k < 32 \<and> an a = 2 ^ k)"
  shows "utarray_reserve realloc a m = Inl Hangs \<longleftrightarrow> 2 ^ 31 < unat (ai a + m) \<and> an a < ai a + m"
proof -
  have never: "reserve_while need n \<noteq> Some r" if "n = 0 \<or> (\<exists>k. 3 \<le> k \<and> k < 32 \<and> n = 2 ^ k)" "2 ^ 31 < unat need" for need n r
  proof
    assume run: "reserve_while need n = Some r"
    have "(n = 0 \<or> (\<exists>k. 3 \<le> k \<and> k < 32 \<and> n = 2 ^ k)) \<longrightarrow> 2 ^ 31 < unat need \<longrightarrow> False"
    proof (rule reserve_while.raw_induct [where P = "\<lambda>need n r. (n = 0 \<or> (\<exists>k. 3 \<le> k \<and> k < 32 \<and> n = 2 ^ k)) \<longrightarrow>
        2 ^ 31 < unat need \<longrightarrow> False", OF _ run], intro impI)
      fix rec and need n r :: u32
      assume ih: "\<And>need n r. rec need n = Some r \<Longrightarrow> (n = 0 \<or> (\<exists>k. 3 \<le> k \<and> k < 32 \<and> n = 2 ^ k)) \<longrightarrow> 2 ^ 31 < unat need \<longrightarrow> False"
        and s: "(if n < need then rec need (if n \<noteq> 0 then 2 * n else 8) else Some n) = Some r"
        and n: "n = 0 \<or> (\<exists>k. 3 \<le> k \<and> k < 32 \<and> n = 2 ^ k)" and need: "2 ^ 31 < unat need"
      have pow: "unat (2 ^ k :: u32) \<le> 2 ^ 31" if "k < 32" for k
        unfolding unat_2_pow [OF that] by (rule power_increasing) (use that in simp_all)
      have "unat n \<le> 2 ^ 31" using n pow by auto
      then have "n < need" using need by (simp add: word_less_nat_alt)
      then have "rec need (if n \<noteq> 0 then 2 * n else 8) = Some r" using s by simp
      moreover have "(if n \<noteq> 0 then 2 * n else 8) = 0 \<or> (\<exists>k. 3 \<le> k \<and> k < 32 \<and> (if n \<noteq> 0 then 2 * n else 8) = 2 ^ k)"
        using n by (rule doubled_power)
      ultimately show False using ih need by blast
    qed
    then show False using that by blast
  qed
  have "realloc_buffer realloc (ad a) n \<noteq> Inl Hangs" for n
    by (auto simp: realloc_buffer_def bytes_of_def ut_bind_def split: buffer.splits option.splits)
  then have "utarray_reserve realloc a m = Inl Hangs \<longleftrightarrow> an a < ai a + m \<and> reserve_while (ai a + m) (an a) = None"
    by (auto simp: utarray_reserve_def ut_bind_def split: option.splits sum.splits)
  moreover have "reserve_while (ai a + m) (an a) = None \<longleftrightarrow> 2 ^ 31 < unat (ai a + m)" if "an a < ai a + m"
  proof (cases "2 ^ 31 < unat (ai a + m)")
    case True
    then show ?thesis using never [OF assms True] by (cases "reserve_while (ai a + m) (an a)") auto
  next
    case False
    then show ?thesis using reserve_while_ends [of "ai a + m" "an a"] by auto
  qed
  ultimately show ?thesis by blast
qed

theorem reserve_hangs_witness:
  "utarray_reserve demo_slots (utarray_init ut_int_icd) 2147483649 = Inl Hangs"
  using reserve_hangs [of "utarray_init ut_int_icd" demo_slots 2147483649]
  by (simp add: utarray_init_def)

end
