(* ===== verification/Utarray_Strings.thy ===== *)
theory Utarray_Strings
  imports Utarray_Props
begin

text \<open>
  Arrays of strings: the elements are pointers, copying an element duplicates its string, destroying
  it frees the string. The strings on the heap are at all times those that were there before and one
  for each element; no string is freed twice or used after it was freed.
\<close>

section \<open>Pointers in a list of elements\<close>

primrec ptrs :: "nat option list \<Rightarrow> nat list" where
  "ptrs [] = []"
| "ptrs (x # xs) = (case x of None \<Rightarrow> ptrs xs | Some p \<Rightarrow> p # ptrs xs)"

lemma ptrs_append [simp]: "ptrs (xs @ ys) = ptrs xs @ ptrs ys"
  by (induction xs) (auto split: option.splits)

lemma ptrs_replicate [simp]: "ptrs (replicate n None) = []"
  by (induction n) auto

lemma ptrs_split: "ptrs xs = ptrs (take j xs) @ ptrs (drop j xs)"
  by (metis append_take_drop_id ptrs_append)

definition fresh_ok :: "(str_heap \<Rightarrow> nat option) \<Rightarrow> bool" where
  "fresh_ok fresh \<longleftrightarrow> (\<forall>h q. fresh h = Some q \<longrightarrow> h q = None)"

lemma copies_strings:
  assumes "fresh_ok fresh" and "set (ptrs xs) \<subseteq> dom h"
  shows "\<exists>ys h'. copies (ut_str_icd fresh) xs h = Some (ys, h') \<and> distinct (ptrs ys) \<and> set (ptrs ys) \<inter> dom h = {} \<and>
    dom h' = dom h \<union> set (ptrs ys) \<and> (\<forall>p\<in>dom h. h' p = h p)"
  using assms(2)
proof (induction xs arbitrary: h)
  case (Cons x xs)
  have "\<exists>y h1. utarray_str_cpy fresh x h = Some (y, h1) \<and> set (ptrs [y]) \<inter> dom h = {} \<and> dom h1 = dom h \<union> set (ptrs [y]) \<and>
      (\<forall>p\<in>dom h. h1 p = h p)"
  proof (cases x)
    case (Some p)
    then obtain str where str: "h p = Some str" using Cons.prems by auto
    show ?thesis
    proof (cases "fresh h")
      case (Some q)
      then have "h q = None" using assms(1) by (simp add: fresh_ok_def)
      then show ?thesis using \<open>x = Some p\<close> str Some by (auto simp: utarray_str_cpy_def intro!: exI [of _ "Some q"])
    qed (simp add: \<open>x = Some p\<close> str utarray_str_cpy_def)
  qed (simp add: utarray_str_cpy_def)
  then obtain y h1 where y: "utarray_str_cpy fresh x h = Some (y, h1)" "set (ptrs [y]) \<inter> dom h = {}" "dom h1 = dom h \<union> set (ptrs [y])"
    "\<forall>p\<in>dom h. h1 p = h p" by blast
  have "set (ptrs xs) \<subseteq> dom h1" using Cons.prems y(3) by (cases x) auto
  from Cons.IH [OF this] obtain ys h' where ys: "copies (ut_str_icd fresh) xs h1 = Some (ys, h')" "distinct (ptrs ys)"
    "set (ptrs ys) \<inter> dom h1 = {}" "dom h' = dom h1 \<union> set (ptrs ys)" "\<forall>p\<in>dom h1. h' p = h1 p" by blast
  have p: "set (ptrs (y # ys)) = set (ptrs [y]) \<union> set (ptrs ys)" by (cases y) auto
  have "copies (ut_str_icd fresh) (x # xs) h = Some (y # ys, h')" using y(1) ys(1) by (simp add: ut_str_icd_def)
  moreover have "distinct (ptrs (y # ys))" using ys(2,3) y(3) by (cases y) auto
  ultimately show ?case using y ys p by (intro exI [of _ "y # ys"] exI [of _ h']) auto
qed simp

lemma destroys_strings:
  assumes "distinct (ptrs xs)" and "set (ptrs xs) \<subseteq> dom h"
  shows "\<exists>h'. destroys (ut_str_icd fresh) xs h = Some h' \<and> dom h' = dom h - set (ptrs xs) \<and> (\<forall>p. p \<notin> set (ptrs xs) \<longrightarrow> h' p = h p)"
  using assms
proof (induction xs arbitrary: h)
  case (Cons x xs)
  show ?case
  proof (cases x)
    case None
    then show ?thesis using Cons by (simp add: ut_str_icd_def utarray_str_dtor_def)
  next
    case (Some p)
    then obtain str where str: "h p = Some str" using Cons.prems(2) by auto
    have "set (ptrs xs) \<subseteq> dom (h(p := None))" "distinct (ptrs xs)" using Cons.prems Some by auto
    from Cons.IH [OF this(2,1)] obtain h' where h': "destroys (ut_str_icd fresh) xs (h(p := None)) = Some h'"
      "dom h' = dom (h(p := None)) - set (ptrs xs)" "\<forall>q. q \<notin> set (ptrs xs) \<longrightarrow> h' q = (h(p := None)) q" by blast
    have "destroys (ut_str_icd fresh) (x # xs) h = Some h'" using Some str h'(1) by (simp add: ut_str_icd_def utarray_str_dtor_def)
    then show ?thesis using h'(2,3) Some by (intro exI [of _ h']) auto
  qed
qed simp

section \<open>Who owns which string\<close>

text \<open>The strings of \<open>h\<close> are those of \<open>h0\<close>, untouched, and one for each element of an array of \<open>V\<close>.\<close>

definition owns :: "str_heap \<Rightarrow> (nat \<Rightarrow> nat option list) \<Rightarrow> str_heap \<Rightarrow> bool" where
  "owns h0 V h \<longleftrightarrow>
     (\<forall>k. distinct (ptrs (V k)) \<and> set (ptrs (V k)) \<inter> dom h0 = {}) \<and>
     (\<forall>k k'. k \<noteq> k' \<longrightarrow> set (ptrs (V k)) \<inter> set (ptrs (V k')) = {}) \<and>
     dom h = dom h0 \<union> (\<Union>k. set (ptrs (V k))) \<and> (\<forall>p\<in>dom h0. h p = h0 p)"

lemma owns_change:
  assumes "owns h0 V h" and "distinct (ptrs xs)" and "set (ptrs xs) = (set (ptrs (V k)) - D) \<union> N" and "D \<subseteq> set (ptrs (V k))"
    and "N \<inter> dom h = {}" and "dom h' = (dom h - D) \<union> N" and "\<And>p. p \<in> dom h0 \<Longrightarrow> h' p = h p"
  shows "owns h0 (V(k := xs)) h'"
proof -
  let ?P = "\<lambda>k. set (ptrs (V k))"
  have d: "dom h = dom h0 \<union> (\<Union>k. ?P k)" and dis: "\<And>k k'. k \<noteq> k' \<Longrightarrow> ?P k \<inter> ?P k' = {}"
    and h0: "\<And>k. ?P k \<inter> dom h0 = {}" "\<And>p. p \<in> dom h0 \<Longrightarrow> h p = h0 p"
    using assms(1) by (auto simp: owns_def)
  have up: "(\<Union>k'. set (ptrs ((V(k := xs)) k'))) = (\<Union>k'\<in>-{k}. ?P k') \<union> set (ptrs xs)" by (auto split: if_splits)
  have uk: "(\<Union>k. ?P k) = (\<Union>k'\<in>-{k}. ?P k') \<union> ?P k" by auto
  have "(\<Union>k'\<in>-{k}. ?P k') \<inter> D = {}" using dis assms(4) by fastforce
  then have "dom h' = dom h0 \<union> (\<Union>k'. set (ptrs ((V(k := xs)) k')))"
    unfolding up assms(3,6) d uk using h0(1) [of k] assms(4) by blast
  moreover have "set (ptrs xs) \<inter> dom h0 = {}" using assms(3,5) h0(1) d by blast
  moreover have "set (ptrs xs) \<inter> ?P k' = {}" "?P k' \<inter> set (ptrs xs) = {}" if "k' \<noteq> k" for k'
    using assms(3,5) dis that d by blast+
  ultimately show ?thesis using assms(1,2,7) h0(2) dis by (auto simp: owns_def)
qed

text \<open>Elements that are copied into an array, and elements that are destroyed.\<close>

lemma owns_add:
  assumes "fresh_ok fresh" and "owns h0 V h" and "set (ptrs src) \<subseteq> dom h"
  shows "\<exists>ys h'. copies (ut_str_icd fresh) src h = Some (ys, h') \<and> owns h0 (V(k := take j (V k) @ ys @ drop j (V k))) h'"
proof -
  obtain ys h' where c: "copies (ut_str_icd fresh) src h = Some (ys, h')" "distinct (ptrs ys)" "set (ptrs ys) \<inter> dom h = {}"
    "dom h' = dom h \<union> set (ptrs ys)" "\<forall>p\<in>dom h. h' p = h p" using copies_strings [OF assms(1,3)] by blast
  have "set (ptrs (V k)) \<subseteq> dom h" "distinct (ptrs (V k))" using assms(2) by (auto simp: owns_def)
  then have "distinct (ptrs (take j (V k) @ ys @ drop j (V k)))"
    using c(2,3) unfolding ptrs_split [of "V k" j] by auto
  moreover have "set (ptrs (take j (V k) @ ys @ drop j (V k))) = (set (ptrs (V k)) - {}) \<union> set (ptrs ys)"
    unfolding ptrs_split [of "V k" j] by auto
  ultimately have "owns h0 (V(k := take j (V k) @ ys @ drop j (V k))) h'"
    using owns_change [OF assms(2), of _ k "{}" "set (ptrs ys)" h'] c(3,4,5) assms(2) by (auto simp: owns_def)
  then show ?thesis using c(1) by blast
qed

lemma owns_drop:
  assumes "owns h0 V h" and "V k = xs @ ys @ zs"
  shows "\<exists>h'. destroys (ut_str_icd fresh) ys h = Some h' \<and> owns h0 (V(k := xs @ zs)) h'"
proof -
  have v: "distinct (ptrs xs @ ptrs ys @ ptrs zs)" "set (ptrs xs @ ptrs ys @ ptrs zs) \<subseteq> dom h"
    "set (ptrs xs @ ptrs ys @ ptrs zs) \<inter> dom h0 = {}"
    using assms(1) unfolding owns_def by (metis assms(2) ptrs_append, metis (no_types, lifting) UN_upper UNIV_I assms(2) le_supI2 ptrs_append, metis assms(2) ptrs_append)
  then obtain h' where d: "destroys (ut_str_icd fresh) ys h = Some h'" "dom h' = dom h - set (ptrs ys)"
    "\<forall>p. p \<notin> set (ptrs ys) \<longrightarrow> h' p = h p" using destroys_strings [of ys h fresh] by auto
  have "owns h0 (V(k := xs @ zs)) h'"
    using v d(2,3) by (intro owns_change [OF assms(1), of _ k "set (ptrs ys)" "{}"]) (auto simp: assms(2))
  then show ?thesis using d(1) by blast
qed

lemma owns_nulls: "owns h0 V h \<Longrightarrow> ptrs ys = [] \<Longrightarrow> owns h0 (V(k := V k @ ys)) h"
  using owns_change [of h0 V h "V k @ ys" k "{}" "{}" h] by (auto simp: owns_def)

definition arg_ok :: "nat set \<Rightarrow> nat option arr_cmd \<Rightarrow> bool" where
  "arg_ok D c = (case c of APush k p \<Rightarrow> set (ptrs [p]) \<subseteq> D | AInsert k p j \<Rightarrow> set (ptrs [p]) \<subseteq> D | _ \<Rightarrow> True)"

lemma owns_step:
  assumes "fresh_ok fresh" and "owns h0 V h" and "arr_legal (ut_str_icd fresh) c (\<lambda>k. length (V k))" and "arg_ok (dom h0) c"
  shows "\<exists>V' h'. arr_spec (ut_str_icd fresh) None c (V, h) = Some (V', h') \<and> owns h0 V' h'"
proof -
  let ?icd = "ut_str_icd fresh"
  have dom: "dom h0 \<subseteq> dom h" "\<And>k. set (ptrs (V k)) \<subseteq> dom h" using assms(2) by (auto simp: owns_def)
  have spec: "arr_spec ?icd None c (V, h) = (case c of
     APush k p \<Rightarrow> map_option (\<lambda>(ys, w). (V(k := V k @ ys), w)) (copies ?icd [p] h)
   | APop k \<Rightarrow> map_option (\<lambda>w. (V(k := butlast (V k)), w)) (destroys ?icd [last (V k)] h)
   | AExtend k \<Rightarrow> Some (V(k := V k @ [None]), h)
   | AInsert k p j \<Rightarrow>
       if unat j \<le> length (V k)
       then map_option (\<lambda>(ys, w). (V(k := take (unat j) (V k) @ ys @ drop (unat j) (V k)), w)) (copies ?icd [p] h)
       else Some (V, h)
   | AInserta k b j \<Rightarrow>
       if V b \<noteq> [] \<and> unat j \<le> length (V k)
       then map_option (\<lambda>(ys, w). (V(k := take (unat j) (V k) @ ys @ drop (unat j) (V k)), w)) (copies ?icd (V b) h)
       else Some (V, h)
   | AConcat k b \<Rightarrow> map_option (\<lambda>(ys, w). (V(k := V k @ ys), w)) (copies ?icd (V b) h)
   | AResize k num \<Rightarrow>
       if unat num \<le> length (V k)
       then map_option (\<lambda>w. (V(k := take (unat num) (V k)), w)) (destroys ?icd (drop (unat num) (V k)) h)
       else Some (V(k := V k @ replicate (unat num - length (V k)) None), h)
   | AErase k pos len \<Rightarrow>
       map_option (\<lambda>w. (V(k := take (unat pos) (V k) @ drop (unat pos + unat len) (V k)), w))
         (destroys ?icd (take (unat len) (drop (unat pos) (V k))) h)
   | AClear k \<Rightarrow> map_option (\<lambda>w. (V(k := []), w)) (destroys ?icd (V k) h))"
    unfolding arr_spec_def Let_def prod.case using assms(3)
    by (simp add: init1_def ut_str_icd_def del: copies.simps destroys.simps cong: arr_cmd.case_cong)
  have add: "\<exists>V' h'. map_option (\<lambda>(ys, w). (V(k := take j (V k) @ ys @ drop j (V k)), w)) (copies ?icd src h) = Some (V', h') \<and>
      owns h0 V' h'" if "set (ptrs src) \<subseteq> dom h" for src k j
    using owns_add [OF assms(1,2) that, of k j] by auto
  have del: "\<exists>V' h'. map_option (\<lambda>w. (V(k := xs @ zs), w)) (destroys ?icd ys h) = Some (V', h') \<and> owns h0 V' h'"
    if "V k = xs @ ys @ zs" for k xs ys zs
    using owns_drop [OF assms(2) that, of fresh] by auto
  show ?thesis
  proof (cases c)
    case (APush k p)
    then have "set (ptrs [p]) \<subseteq> dom h" using assms(4) dom(1) by (auto simp: arg_ok_def)
    then show ?thesis unfolding spec using APush add [of "[p]" k "length (V k)"] by simp
  next
    case (APop k)
    then have "V k \<noteq> []" using assms(3) by (simp add: arr_legal_def)
    then have "V k = butlast (V k) @ [last (V k)] @ []" by simp
    from del [OF this] show ?thesis unfolding spec using APop by simp
  next
    case (AExtend k)
    then show ?thesis unfolding spec using owns_nulls [OF assms(2), of "[None]" k] by simp
  next
    case (AInsert k p j)
    then have "set (ptrs [p]) \<subseteq> dom h" using assms(4) dom(1) by (auto simp: arg_ok_def)
    then show ?thesis unfolding spec using AInsert add [of "[p]" k "unat j"] assms(2) by (cases "unat j \<le> length (V k)") simp_all
  next
    case (AInserta k b j)
    then show ?thesis unfolding spec using add [OF dom(2) [of b], of k "unat j"] assms(2)
      by (cases "V b \<noteq> [] \<and> unat j \<le> length (V k)") simp_all
  next
    case (AConcat k b)
    then show ?thesis unfolding spec using add [OF dom(2) [of b], of k "length (V k)"] by simp
  next
    case (AResize k num)
    have "V k = take (unat num) (V k) @ drop (unat num) (V k) @ []" by simp
    from del [OF this] show ?thesis unfolding spec using AResize owns_nulls [OF assms(2), of "replicate (unat num - length (V k)) None" k]
      by (cases "unat num \<le> length (V k)") simp_all
  next
    case (AErase k pos len)
    have "V k = take (unat pos) (V k) @ take (unat len) (drop (unat pos) (V k)) @ drop (unat pos + unat len) (V k)"
      by (metis add.commute append_take_drop_id drop_drop)
    from del [OF this] show ?thesis unfolding spec using AErase by simp
  next
    case (AClear k)
    have "V k = [] @ V k @ []" by simp
    from del [OF this] show ?thesis unfolding spec using AClear by simp
  qed
qed

primrec legal_run :: "('e, 'w) UT_icd \<Rightarrow> 'e \<Rightarrow> 'e arr_cmd list \<Rightarrow> (nat \<Rightarrow> 'e list) \<times> 'w \<Rightarrow> bool" where
  "legal_run icd zero [] st \<longleftrightarrow> True"
| "legal_run icd zero (c # cs) st \<longleftrightarrow> arr_legal icd c (\<lambda>k. length (fst st k)) \<and>
     (case arr_spec icd zero c st of None \<Rightarrow> True | Some st \<Rightarrow> legal_run icd zero cs st)"

lemma owns_run:
  assumes "fresh_ok fresh" and "owns h0 V h" and "legal_run (ut_str_icd fresh) None cs (V, h)" and "list_all (arg_ok (dom h0)) cs"
  shows "\<exists>V' h'. arr_spec_run (ut_str_icd fresh) None cs (V, h) = Some (V', h') \<and> owns h0 V' h'"
  using assms(2-4)
proof (induction cs arbitrary: V h)
  case (Cons c cs)
  then obtain V1 h1 where "arr_spec (ut_str_icd fresh) None c (V, h) = Some (V1, h1)" "owns h0 V1 h1"
    using owns_step [OF assms(1) Cons.prems(1), of c] by auto
  then show ?case using Cons.IH [of V1 h1] Cons.prems(2,3) by simp
qed auto

text \<open>C19: For utarrays of strings (ut_str_icd): after every sequence of operations on arrays that were
  initialised, each legal in its place, with arguments that are NULL or strings of the caller, the
  strings on the heap are the caller's, untouched, and exactly one for each non-NULL element. So no
  string is freed twice, used after it was freed, shared or leaked; once the arrays are empty again,
  the heap is as before.
\<close>

theorem str_arrays_own:
  assumes "realloc_slots_ok lim realloc" and "fresh_ok fresh"
    and "legal_run (ut_str_icd fresh) None cs (\<lambda>_. [], h0)" and "list_all (arg_ok (dom h0)) cs"
  shows "arr_run None realloc cs (\<lambda>_. utarray_init (ut_str_icd fresh), h0) = Inl Oom \<or>
    (\<exists>S h. arr_run None realloc cs (\<lambda>_. utarray_init (ut_str_icd fresh), h0) = Inr (S, h) \<and>
      owns h0 (\<lambda>k. arr_val (S k)) h \<and> ((\<forall>k. arr_val (S k) = []) \<longrightarrow> h = h0))"
proof -
  have "owns h0 (\<lambda>_. []) h0" by (simp add: owns_def)
  from owns_run [OF assms(2) this assms(3,4)] obtain V h where
    V: "arr_spec_run (ut_str_icd fresh) None cs (\<lambda>_. [], h0) = Some (V, h)" "owns h0 V h" by blast
  have "h = h0" if "\<forall>k. V k = []"
  proof
    fix p show "h p = h0 p" using V(2) that by (cases "p \<in> dom h0") (auto simp: owns_def domIff)
  qed
  moreover have "arrs_hold lim (ut_str_icd fresh) (\<lambda>_. utarray_init (ut_str_icd fresh)) (\<lambda>_. [])"
    by (simp add: arrs_hold_def init_holds)
  from arr_run_spec [OF assms(1) this V(1)] have "arr_run None realloc cs (\<lambda>_. utarray_init (ut_str_icd fresh), h0) = Inl Oom \<or>
    (\<exists>S. arr_run None realloc cs (\<lambda>_. utarray_init (ut_str_icd fresh), h0) = Inr (S, h) \<and> (\<forall>k. arr_val (S k) = V k))"
    by (auto simp: arrs_hold_def arr_holds_def)
  ultimately show ?thesis using V(2) by fastforce
qed

definition demo_str_slots :: "nat option slots_realloc" where
  "demo_str_slots xs n = (if unat n \<le> 16 then Some (take (unat n) xs @ replicate (unat n - length xs) None) else None)"

definition demo_fresh :: "str_heap \<Rightarrow> nat option" where
  "demo_fresh h = find (\<lambda>q. h q = None) [0..<9]"

definition demo_strings :: str_heap where
  "demo_strings = Map.empty(0 \<mapsto> ''ab'')"

definition demo_str_cmds :: "nat option arr_cmd list" where
  "demo_str_cmds = [APush 0 (Some 0), AConcat 0 0, APush 0 None, APop 0, AErase 0 0 1]"

lemma demo_str_runs:
  "case arr_run None demo_str_slots demo_str_cmds (\<lambda>_. utarray_init (ut_str_icd demo_fresh), demo_strings) of
    Inr (S, h) \<Rightarrow> arr_val (S 0) = [Some 2] \<and> h 2 = Some ''ab'' \<and> h 1 = None | Inl _ \<Rightarrow> False"
  by code_simp

theorem str_arrays_own_witness:
  "\<exists>S h. arr_run None demo_str_slots demo_str_cmds (\<lambda>_. utarray_init (ut_str_icd demo_fresh), demo_strings) = Inr (S, h) \<and>
    owns demo_strings (\<lambda>k. arr_val (S k)) h"
proof -
  have "realloc_slots_ok 16 demo_str_slots" by (auto simp: realloc_slots_ok_def demo_str_slots_def min_def split: if_splits)
  moreover have "fresh_ok demo_fresh" by (auto simp: fresh_ok_def demo_fresh_def find_Some_iff)
  moreover have "legal_run (ut_str_icd demo_fresh) None demo_str_cmds (\<lambda>_. [], demo_strings)" by code_simp
  moreover have "list_all (arg_ok (dom demo_strings)) demo_str_cmds" by (simp add: demo_str_cmds_def arg_ok_def demo_strings_def)
  ultimately show ?thesis
    using str_arrays_own [of 16 demo_str_slots demo_fresh demo_str_cmds demo_strings] demo_str_runs by (auto split: sum.splits)
qed

end
