(* ===== verification/Rt_Sem.thy ===== *)
theory Rt_Sem
  imports Main
begin

text \<open>
  Programs of several real-time tasks that synchronise with semaphores, as the exercises of the
  repository are. A task is a function that makes its next step, or \<open>None\<close> while it is blocked
  or after it has ended; a run interleaves the steps of the tasks in any order. Steps are
  labelled: units taken from and given to semaphores, and what the program does that can
  be seen.
\<close>

section \<open>Semaphores\<close>

text \<open>
  The semaphores of Xenomai's native interface. Waiting has no time limit in the exercises
  (their second argument is 0), so \<open>rt_sem_p\<close> either returns or the caller stays blocked,
  \<open>None\<close>. \<open>sem_value\<close> is the count that \<open>rt_sem_inquire\<close> reports; no code reads it.
\<close>

record ('sem, 's) sem_env =
  rt_sem_create :: "'sem \<Rightarrow> nat \<Rightarrow> 's \<Rightarrow> 's"
  rt_sem_p :: "'sem \<Rightarrow> 's \<Rightarrow> 's option"
  rt_sem_v :: "'sem \<Rightarrow> 's \<Rightarrow> 's"
  sem_value :: "'s \<Rightarrow> 'sem \<Rightarrow> nat"

definition sem_ok :: "('sem, 's, 'm) sem_env_scheme \<Rightarrow> bool" where
  "sem_ok env \<longleftrightarrow>
     (\<forall>x n s. sem_value env (rt_sem_create env x n s) = (sem_value env s)(x := n)) \<and>
     (\<forall>x s. rt_sem_p env x s = None \<longleftrightarrow> sem_value env s x = 0) \<and>
     (\<forall>x s s'. rt_sem_p env x s = Some s' \<longrightarrow> sem_value env s' = (sem_value env s)(x := sem_value env s x - 1)) \<and>
     (\<forall>x s. sem_value env (rt_sem_v env x s) = (sem_value env s)(x := sem_value env s x + 1))"

lemma sem_okD:
  assumes "sem_ok env"
  shows "sem_value env (rt_sem_create env x n s) = (sem_value env s)(x := n)"
    and "rt_sem_p env x s = None \<longleftrightarrow> sem_value env s x = 0"
    and "rt_sem_p env x s = Some s' \<Longrightarrow> 0 < sem_value env s x \<and> sem_value env s' = (sem_value env s)(x := sem_value env s x - 1)"
    and "sem_value env (rt_sem_v env x s) = (sem_value env s)(x := sem_value env s x + 1)"
proof -
  show "rt_sem_p env x s = None \<longleftrightarrow> sem_value env s x = 0" using assms by (simp add: sem_ok_def)
  then show "rt_sem_p env x s = Some s' \<Longrightarrow> 0 < sem_value env s x \<and> sem_value env s' = (sem_value env s)(x := sem_value env s x - 1)"
    using assms by (cases "sem_value env s x = 0") (auto simp: sem_ok_def)
qed (use assms in \<open>simp_all add: sem_ok_def\<close>)

text \<open>Semaphores that are nothing but their counts, for the witnesses.\<close>

definition plain_sems :: "('sem, 'sem \<Rightarrow> nat) sem_env" where
  "plain_sems = \<lparr>rt_sem_create = (\<lambda>x n s. s(x := n)),
     rt_sem_p = (\<lambda>x s. if s x = 0 then None else Some (s(x := s x - 1))),
     rt_sem_v = (\<lambda>x s. s(x := s x + 1)), sem_value = (\<lambda>s. s)\<rparr>"

lemma plain_sems_ok: "sem_ok plain_sems"
  by (simp add: sem_ok_def plain_sems_def)

section \<open>Runs\<close>

datatype ('sem, 'o) event = Pass 'sem | Post 'sem | is_Out: Out 'o | Internal

inductive run :: "('t \<Rightarrow> 'st \<Rightarrow> (('sem, 'o) event \<times> 'st) option) \<Rightarrow> 'st \<Rightarrow>
    ('t \<times> ('sem, 'o) event) list \<Rightarrow> 'st \<Rightarrow> bool" for step and st where
  run_init: "run step st [] st"
| run_step: "run step st tr st1 \<Longrightarrow> step t st1 = Some (e, st2) \<Longrightarrow> run step st (tr @ [(t, e)]) st2"

inductive_cases run_snocE: "run step st (tr @ [x]) st2"

text \<open>A schedule, the order in which tasks make steps, is a way to compute a run.\<close>

fun schedule :: "('t \<Rightarrow> 'st \<Rightarrow> (('sem, 'o) event \<times> 'st) option) \<Rightarrow> 't list \<Rightarrow>
    ('t \<times> ('sem, 'o) event) list \<times> 'st \<Rightarrow> (('t \<times> ('sem, 'o) event) list \<times> 'st) option" where
  "schedule step [] r = Some r"
| "schedule step (t # ts) (tr, st) = (case step t st of None \<Rightarrow> None
     | Some (e, st') \<Rightarrow> schedule step ts (tr @ [(t, e)], st'))"

lemma schedule_run: "schedule step ts (tr, st1) = Some (tr', st2) \<Longrightarrow> run step st tr st1 \<Longrightarrow> run step st tr' st2"
  by (induction ts arbitrary: tr st1) (auto split: option.splits intro: run_step)

lemma run_invariant:
  assumes "run step st tr st'" and "P [] st"
    and "\<And>tr st1 t e st2. P tr st1 \<Longrightarrow> step t st1 = Some (e, st2) \<Longrightarrow> P (tr @ [(t, e)]) st2"
  shows "P tr st'"
  using assms(1) by induction (use assms(2,3) in auto)

definition outputs :: "('t \<times> ('sem, 'o) event) list \<Rightarrow> ('t \<times> 'o) list" where
  "outputs tr = List.map_filter (\<lambda>(t, e). case e of Out v \<Rightarrow> Some (t, v) | _ \<Rightarrow> None) tr"

lemma outputs_simps [simp]: "outputs [] = []"
    "outputs (tr @ [(t, e)]) = outputs tr @ (case e of Out v \<Rightarrow> [(t, v)] | _ \<Rightarrow> [])"
  by (auto simp: outputs_def List.map_filter_def split: event.splits)

section \<open>Counting\<close>

text \<open>
  The interface between the semaphores and a program: what the labels of its steps say
  about the counts. Then a semaphore's count is what it was created with, plus the units given,
  less the units taken.
\<close>

locale sem_program =
  fixes ok :: "'env \<Rightarrow> bool"
    and step :: "'env \<Rightarrow> 't \<Rightarrow> 'st \<Rightarrow> (('sem, 'o) event \<times> 'st) option"
    and val :: "'env \<Rightarrow> 'st \<Rightarrow> 'sem \<Rightarrow> nat"
  assumes pass: "ok env \<Longrightarrow> step env t st = Some (Pass x, st') \<Longrightarrow>
      0 < val env st x \<and> val env st' = (val env st)(x := val env st x - 1)"
    and post: "ok env \<Longrightarrow> step env t st = Some (Post x, st') \<Longrightarrow>
      val env st' = (val env st)(x := val env st x + 1)"
    and out: "ok env \<Longrightarrow> step env t st = Some (Out v, st') \<Longrightarrow> val env st' = val env st"
    and internal: "ok env \<Longrightarrow> step env t st = Some (Internal, st') \<Longrightarrow> val env st' = val env st"
begin

lemma val_step:
  assumes "ok env" and "step env t st = Some (e, st')"
  shows "val env st' x + (if e = Pass x then 1 else 0) = val env st x + (if e = Post x then 1 else 0)"
proof (cases e)
  case (Pass y)
  then show ?thesis using pass [of env t st y st'] assms by auto
next
  case (Post y)
  then show ?thesis using post [of env t st y st'] assms by auto
qed (use out internal assms in auto)

lemma balance:
  assumes "ok env" and "run (step env) st tr st'"
  shows "val env st' x + count_list (map snd tr) (Pass x) = val env st x + count_list (map snd tr) (Post x)"
  using assms(2)
proof induction
  case (run_step tr st1 t e st2)
  then show ?case using val_step [OF assms(1) run_step(2), of x] by auto
qed simp

lemma passes_le:
  assumes "ok env" and "run (step env) st tr st'" and "val env st x = 0"
  shows "count_list (map snd tr) (Pass x) \<le> count_list (map snd tr) (Post x)"
  using balance [OF assms(1,2), of x] assms(3) by simp

end

end
