(* ===== verification/Exercise_Rover.thy ===== *)
theory Exercise_Rover
  imports Rt_Sem Edf_App
begin

text \<open>
  exercise-edfomai/mars_rover.c: a sensor, a processor and an actuator in a pipeline, and a
  communicator that reports, scheduled by the library. Two semaphores pass the turn along the
  pipeline, a third one, \<open>exLock\<close>, protects \<open>sharedResource\<close>. A task's place is the statement it
  is about to execute; a step executes it. Reading and writing the variables are steps of their
  own. The messages that a task prints about itself are left out; those of the communicator
  are the labels of its steps.
\<close>

section \<open>State and external calls\<close>

datatype rover_sem = SensingDone | ProcessingDone | ExLock

datatype rover_task = Sensor | Processor | Actuator | Comunicator

datatype actor = Task rover_task | Main | Signal

datatype rover_place = Off | Entry | Loop | P_data | Spin nat | P_lock | Load | Store int | V_lock | V_data
  | Announce | Transmit | Report | Sleep | Exit

datatype main_place = Main_start nat | Main_signals | Main_pause | Main_cleanup | Main_return

datatype rover_out = SharedResource int | Shared int | Sending int | Sent int

record 's rover =
  sharedResource :: int
  shared :: int
  stopped :: bool
  descr :: RT_TASK
  place_of :: "rover_task \<Rightarrow> rover_place"
  res :: "rover_task \<Rightarrow> int"
  main_at :: main_place
  process :: app
  world :: 's

text \<open>\<open>lib env a\<close> is the system as the library finds it when the actor \<open>a\<close> calls it.\<close>

record 's rover_env = "(rover_sem, 's) sem_env" +
  lib :: "actor \<Rightarrow> 's app_env"
  rt_task_create :: "char list \<Rightarrow> int \<Rightarrow> RT_TASK \<Rightarrow> 's \<Rightarrow> RT_TASK \<times> 's"
  rt_task_set_periodic :: "rover_task \<Rightarrow> u64 \<Rightarrow> 's \<Rightarrow> 's"
  rt_timer_spin :: "u64 \<Rightarrow> 's \<Rightarrow> 's"

section \<open>Parameters\<close>

definition timeUnit :: u64 where "timeUnit = 1000000000"

text \<open>Period, busy time and deadline of the three tasks of the pipeline, in units of time.\<close>

fun params :: "rover_task \<Rightarrow> u64 \<times> u64 \<times> u64" where
  "params Sensor = (11, 2, 3)"
| "params Processor = (11, 3, 7)"
| "params Actuator = (11, 2, 10)"
| "params Comunicator = (66, 0, 65)"

definition period :: "rover_task \<Rightarrow> u64" where "period t = fst (params t) * timeUnit"
definition busy_time :: "rover_task \<Rightarrow> nat" where "busy_time t = unat (fst (snd (params t)))"
definition start_deadline :: "rover_task \<Rightarrow> u64" where "start_deadline t = snd (snd (params t)) * timeUnit"

definition startup_tasks :: "(rover_task \<times> char list \<times> int) list" where
  "startup_tasks = [(Sensor, ''sensor'', 90), (Processor, ''processor'', 89), (Actuator, ''actuator'', 88),
     (Comunicator, ''comunicator'', 87)]"

section \<open>Steps\<close>

type_synonym 's rover_step = "((rover_sem, rover_out) event \<times> 's rover) option"

definition go :: "rover_task \<Rightarrow> rover_place \<Rightarrow> 's rover \<Rightarrow> 's rover" where
  "go t p st = st\<lparr>place_of := (place_of st)(t := p)\<rparr>"

definition take_sem :: "'s rover_env \<Rightarrow> rover_sem \<Rightarrow> rover_task \<Rightarrow> rover_place \<Rightarrow> 's rover \<Rightarrow> 's rover_step" where
  "take_sem env x t p st = (case rt_sem_p env x (world st) of None \<Rightarrow> None
     | Some s \<Rightarrow> Some (Pass x, go t p (st\<lparr>world := s\<rparr>)))"

definition give_sem :: "'s rover_env \<Rightarrow> rover_sem \<Rightarrow> rover_task \<Rightarrow> rover_place \<Rightarrow> 's rover \<Rightarrow> 's rover_step" where
  "give_sem env x t p st = Some (Post x, go t p (st\<lparr>world := rt_sem_v env x (world st)\<rparr>))"

definition enter :: "'s rover_env \<Rightarrow> rover_task \<Rightarrow> 's rover \<Rightarrow> 's rover_step" where
  "enter env t st = Some (Internal, go t Loop (st\<lparr>world := rt_task_set_periodic env t (period t) (world st)\<rparr>))"

definition spin :: "'s rover_env \<Rightarrow> rover_task \<Rightarrow> nat \<Rightarrow> rover_place \<Rightarrow> 's rover \<Rightarrow> 's rover_step" where
  "spin env t i p st =
     (if i < busy_time t then Some (Internal, go t (Spin (i + 1)) (st\<lparr>world := rt_timer_spin env timeUnit (world st)\<rparr>))
      else Some (Internal, go t p st))"

definition sleep_period :: "'s rover_env \<Rightarrow> rover_task \<Rightarrow> 's rover \<Rightarrow> 's rover_step" where
  "sleep_period env t st = (case edf_task_wait_period (lib env (Task t)) (process st, world st) of None \<Rightarrow> None
     | Some (_, p, s) \<Rightarrow> Some (Internal, go t Loop (st\<lparr>process := p, world := s\<rparr>)))"

definition sense :: "'s rover_env \<Rightarrow> 's rover \<Rightarrow> 's rover_step" where
  "sense env st = (case place_of st Sensor of
       Entry \<Rightarrow> enter env Sensor st
     | Loop \<Rightarrow> Some (Internal, go Sensor (if stopped st then Exit else Spin 0) st)
     | Spin i \<Rightarrow> spin env Sensor i P_lock st
     | P_lock \<Rightarrow> take_sem env ExLock Sensor Load st
     | Load \<Rightarrow> Some (Internal, go Sensor (Store (shared st)) st)
     | Store v \<Rightarrow> Some (Out (SharedResource v), go Sensor V_lock (st\<lparr>sharedResource := v\<rparr>))
     | V_lock \<Rightarrow> give_sem env ExLock Sensor V_data st
     | V_data \<Rightarrow> give_sem env SensingDone Sensor Sleep st
     | Sleep \<Rightarrow> sleep_period env Sensor st
     | _ \<Rightarrow> None)"

definition process_data :: "'s rover_env \<Rightarrow> 's rover \<Rightarrow> 's rover_step" where
  "process_data env st = (case place_of st Processor of
       Entry \<Rightarrow> enter env Processor st
     | Loop \<Rightarrow> Some (Internal, go Processor (if stopped st then Exit else P_data) st)
     | P_data \<Rightarrow> take_sem env SensingDone Processor (Spin 0) st
     | Spin i \<Rightarrow> spin env Processor i P_lock st
     | P_lock \<Rightarrow> take_sem env ExLock Processor Load st
     | Load \<Rightarrow> Some (Internal, go Processor (Store (sharedResource st + 1)) st)
     | Store v \<Rightarrow> Some (Out (SharedResource v), go Processor V_lock (st\<lparr>sharedResource := v\<rparr>))
     | V_lock \<Rightarrow> give_sem env ExLock Processor V_data st
     | V_data \<Rightarrow> give_sem env ProcessingDone Processor Sleep st
     | Sleep \<Rightarrow> sleep_period env Processor st
     | _ \<Rightarrow> None)"

definition act :: "'s rover_env \<Rightarrow> 's rover \<Rightarrow> 's rover_step" where
  "act env st = (case place_of st Actuator of
       Entry \<Rightarrow> enter env Actuator st
     | Loop \<Rightarrow> Some (Internal, go Actuator (if stopped st then Exit else P_data) st)
     | P_data \<Rightarrow> take_sem env ProcessingDone Actuator P_lock st
     | P_lock \<Rightarrow> take_sem env ExLock Actuator Load st
     | Load \<Rightarrow> Some (Internal, go Actuator V_lock (st\<lparr>res := (res st)(Actuator := sharedResource st)\<rparr>))
     | V_lock \<Rightarrow> give_sem env ExLock Actuator (Spin 0) st
     | Spin i \<Rightarrow> spin env Actuator i (Store (res st Actuator)) st
     | Store v \<Rightarrow> Some (Out (Shared v), go Actuator Sleep (st\<lparr>shared := v\<rparr>))
     | Sleep \<Rightarrow> sleep_period env Actuator st
     | _ \<Rightarrow> None)"

definition comunicate :: "'s rover_env \<Rightarrow> 's rover \<Rightarrow> 's rover_step" where
  "comunicate env st = (case place_of st Comunicator of
       Entry \<Rightarrow> enter env Comunicator st
     | Loop \<Rightarrow> Some (Internal, go Comunicator (if stopped st then Exit else P_lock) st)
     | P_lock \<Rightarrow> take_sem env ExLock Comunicator Load st
     | Load \<Rightarrow> Some (Internal, go Comunicator V_lock (st\<lparr>res := (res st)(Comunicator := sharedResource st)\<rparr>))
     | V_lock \<Rightarrow> give_sem env ExLock Comunicator Announce st
     | Announce \<Rightarrow> Some (Out (Sending (res st Comunicator)), go Comunicator Transmit st)
     | Transmit \<Rightarrow> Some (Internal, go Comunicator Report (st\<lparr>world := rt_timer_spin env (6 * timeUnit) (world st)\<rparr>))
     | Report \<Rightarrow> Some (Out (Sent (res st Comunicator)), go Comunicator Sleep st)
     | Sleep \<Rightarrow> sleep_period env Comunicator st
     | _ \<Rightarrow> None)"

fun task_body :: "'s rover_env \<Rightarrow> rover_task \<Rightarrow> 's rover \<Rightarrow> 's rover_step" where
  "task_body env Sensor st = sense env st"
| "task_body env Processor st = process_data env st"
| "task_body env Actuator st = act env st"
| "task_body env Comunicator st = comunicate env st"

section \<open>The main program\<close>

text \<open>One task of \<open>startup\<close> is created and started; its body runs if starting it succeeded.\<close>

definition startup_one :: "'s rover_env \<Rightarrow> rover_task \<times> char list \<times> int \<Rightarrow> 's rover \<Rightarrow> 's rover option" where
  "startup_one env x st = (let (t, name, prio) = x;
       (d, s) = rt_task_create env name prio (descr st) (world st)
     in case edf_task_start (lib env Main) d (start_deadline t) (process st, s) of None \<Rightarrow> None
        | Some (ret, p, s) \<Rightarrow> Some (go t (if ret = 0 then Entry else Off) (st\<lparr>descr := d, process := p, world := s\<rparr>)))"

fun rover_main :: "'s rover_env \<Rightarrow> main_place \<Rightarrow> 's rover \<Rightarrow> 's rover_step" where
  "rover_main env (Main_start k) st =
     (if k < length startup_tasks
      then map_option (\<lambda>st. (Internal, st\<lparr>main_at := Main_start (k + 1)\<rparr>)) (startup_one env (startup_tasks ! k) st)
      else Some (Internal, st\<lparr>main_at := Main_signals\<rparr>))"
| "rover_main env Main_signals st = Some (Internal, st\<lparr>main_at := Main_pause\<rparr>)"
| "rover_main env Main_pause st = None"
| "rover_main env Main_cleanup st =
     (let (_, p, s) = edf_dispose (lib env Main) (process st, world st)
      in Some (Internal, st\<lparr>process := p, world := s, main_at := Main_return\<rparr>))"
| "rover_main env Main_return st = None"

text \<open>
  A signal runs the handler, and ends \<open>pause\<close> when the main program is there; one that comes
  between the installation of the handlers and \<open>pause\<close> does not.
\<close>

definition catch_signal :: "'s rover \<Rightarrow> 's rover_step" where
  "catch_signal st = (case main_at st of
       Main_signals \<Rightarrow> Some (Internal, st\<lparr>stopped := True\<rparr>)
     | Main_pause \<Rightarrow> Some (Internal, st\<lparr>stopped := True, main_at := Main_cleanup\<rparr>)
     | Main_cleanup \<Rightarrow> Some (Internal, st\<lparr>stopped := True\<rparr>)
     | _ \<Rightarrow> None)"

text \<open>Nothing runs after the main program has returned: the process has ended.\<close>

fun rover_step :: "'s rover_env \<Rightarrow> actor \<Rightarrow> 's rover \<Rightarrow> 's rover_step" where
  "rover_step env (Task t) st = (if main_at st = Main_return then None else task_body env t st)"
| "rover_step env Main st = rover_main env (main_at st) st"
| "rover_step env Signal st = catch_signal st"

definition startup_sems :: "'s rover_env \<Rightarrow> 's \<Rightarrow> 's" where
  "startup_sems env s = rt_sem_create env ExLock 1 (rt_sem_create env ProcessingDone 0 (rt_sem_create env SensingDone 0 s))"

text \<open>The start of \<open>main\<close>: without the device it returns; otherwise \<open>startup\<close> creates the semaphores.\<close>

definition mars_rover :: "'s rover_env \<Rightarrow> app \<times> 's \<Rightarrow> 's rover option" where
  "mars_rover env ps = (let (ret, p, s) = edf_init (lib env Main) ps
     in if ret \<noteq> 0 then None
        else Some \<lparr>sharedResource = 0, shared = 0, stopped = False, descr = 0, place_of = (\<lambda>_. Off), res = (\<lambda>_. 0),
          main_at = Main_start 0, process = p,
          world = startup_sems env s\<rparr>)"

end
