(* ===== verification/Edf_App_Frame.thy ===== *)
theory Edf_App_Frame
  imports Edf_App
begin

text \<open>
  What the library's operations leave alone when the calls they make leave it alone: \<open>c\<close> is
  some part of the system, such as the counts of semaphores or the open descriptors.
\<close>

definition calls_keep :: "('s \<Rightarrow> 'c) \<Rightarrow> 's app_env \<Rightarrow> bool" where
  "calls_keep c env \<longleftrightarrow>
     (\<forall>fd m n s r s'. rt_dev_write env fd m n s = Some (r, s') \<longrightarrow> c s' = c s) \<and>
     (\<forall>s. c (snd (rt_task_wait_period env s)) = c s) \<and> (\<forall>t s. c (snd (rt_task_start env t s)) = c s)"

definition lib_keeps :: "('s \<Rightarrow> 'c) \<Rightarrow> 's app_env \<Rightarrow> bool" where
  "lib_keeps c env \<longleftrightarrow> calls_keep c env \<and>
     (\<forall>s. c (snd (rt_dev_open env s)) = c s) \<and> (\<forall>fd s. c (snd (rt_dev_close env fd s)) = c s)"

lemma calls_keepD:
  assumes "calls_keep c env"
  shows "rt_dev_write env fd m n s = Some (r, s') \<Longrightarrow> c s' = c s"
    "c (snd (rt_task_wait_period env s)) = c s" "c (snd (rt_task_start env t s)) = c s"
  using assms by (auto simp: calls_keep_def)

lemmas lib_calls = app_mtx_acquire_def app_mtx_release_def app_mtx_create_def app_mtx_delete_def
  case_prod_unfold Let_def

lemma edf_task_wait_period_frame:
  assumes "edf_task_wait_period env (p, s) = Some (r, p', s')"
  shows "device p' = device p" and "calls_keep c env \<Longrightarrow> c s' = c s"
  using assms calls_keepD(1) [of c env] calls_keepD(2) [of c env]
  by (auto simp: edf_task_wait_period_def wait_period_def app_malloc_def app_free_def lib_calls
      split: option.splits sum.splits if_splits elim!: bind_eq_SomeE)

lemma edf_task_start_frame:
  assumes "edf_task_start env t dl (p, s) = Some (r, p', s')"
  shows "device p' = device p" and "calls_keep c env \<Longrightarrow> c s' = c s"
  using assms calls_keepD(1) [of c env] calls_keepD(3) [of c env]
  by (auto simp: edf_task_start_def app_malloc_def app_free_def lib_calls
      split: option.splits sum.splits if_splits elim!: bind_eq_SomeE)

lemma edf_init_keeps: "lib_keeps c env \<Longrightarrow> c (snd (snd (edf_init env (p, s)))) = c s"
  by (simp add: edf_init_def lib_calls lib_keeps_def)

lemma edf_dispose_keeps: "lib_keeps c env \<Longrightarrow> c (snd (snd (edf_dispose env (p, s)))) = c s"
  by (simp add: edf_dispose_def lib_calls lib_keeps_def)

lemma edf_task_wait_period_keeps:
  "lib_keeps c env \<Longrightarrow> edf_task_wait_period env (p, s) = Some (r, p', s') \<Longrightarrow> c s' = c s"
  using edf_task_wait_period_frame(2) [of env p s r p' s' c] by (simp add: lib_keeps_def)

lemma edf_task_start_keeps:
  "lib_keeps c env \<Longrightarrow> edf_task_start env t dl (p, s) = Some (r, p', s') \<Longrightarrow> c s' = c s"
  using edf_task_start_frame(2) [of env t dl p s r p' s' c] by (simp add: lib_keeps_def)

end
