(* ===== verification/Exercise_Rover_Props.thy ===== *)
theory Exercise_Rover_Props
  imports Exercise_Rover Edf_App_Frame
begin

text \<open>
  What holds in every run of the rover, whatever order the tasks run in: the lock excludes,
  no update of the shared resource is lost, and the pipeline keeps its order.
\<close>

section \<open>What the external calls leave alone\<close>

text \<open>No call but those on semaphores changes their counts.\<close>

definition rover_env_ok :: "'s rover_env \<Rightarrow> bool" where
  "rover_env_ok env \<longleftrightarrow> sem_ok env \<and> (\<forall>a. lib_keeps (sem_value env) (lib env a)) \<and>
     (\<forall>nm pr d s. sem_value env (snd (rt_task_create env nm pr d s)) = sem_value env s) \<and>
     (\<forall>t p s. sem_value env (rt_task_set_periodic env t p s) = sem_value env s) \<and>
     (\<forall>n s. sem_value env (rt_timer_spin env n s) = sem_value env s)"

section \<open>The steps, by their effect on the counts\<close>

text \<open>The counts a step's label stands for.\<close>

fun after_event :: "('sem, 'o) event \<Rightarrow> ('sem \<Rightarrow> nat) \<Rightarrow> ('sem \<Rightarrow> nat)" where
  "after_event (Pass x) v = v(x := v x - 1)"
| "after_event (Post x) v = v(x := v x + 1)"
| "after_event (Out _) v = v"
| "after_event Internal v = v"

definition counted :: "'s rover_env \<Rightarrow> 's rover \<Rightarrow> 's rover_step \<Rightarrow> bool" where
  "counted env st r \<longleftrightarrow> (\<forall>e st'. r = Some (e, st') \<longrightarrow>
     sem_value env (world st') = after_event e (sem_value env (world st)) \<and>
     (\<forall>x. e = Pass x \<longrightarrow> 0 < sem_value env (world st) x))"

named_theorems counted

lemma world_go [simp]: "world (go t p st) = world st"
  by (simp add: go_def)

lemma counted_silent [counted]:
  "counted env st None"
  "world st' = world st \<Longrightarrow> counted env st (Some (Internal, st'))"
  "world st' = world st \<Longrightarrow> counted env st (Some (Out v, st'))"
  by (simp_all add: counted_def)

lemma counted_calls [counted]:
  assumes "rover_env_ok env"
  shows "counted env st (take_sem env x t p st)" and "counted env st (give_sem env x t p st)"
    and "counted env st (enter env t st)" and "counted env st (spin env t i p st)"
    and "counted env st (sleep_period env t st)"
    and "counted env st (Some (Internal, go t p (st\<lparr>world := rt_timer_spin env n (world st)\<rparr>)))"
proof -
  have s: "sem_ok env" and l: "\<And>a. lib_keeps (sem_value env) (lib env a)"
    using assms by (simp_all add: rover_env_ok_def)
  show "counted env st (take_sem env x t p st)"
    by (auto simp: counted_def take_sem_def split: option.splits dest!: sem_okD(3) [OF s])
  show "counted env st (give_sem env x t p st)" using sem_okD(4) [OF s] by (auto simp: counted_def give_sem_def)
  show "counted env st (sleep_period env t st)"
    by (auto simp: counted_def sleep_period_def split: option.splits dest!: edf_task_wait_period_keeps [OF l])
  show "counted env st (enter env t st)" "counted env st (spin env t i p st)"
    "counted env st (Some (Internal, go t p (st\<lparr>world := rt_timer_spin env n (world st)\<rparr>)))"
    using assms by (auto simp: counted_def rover_env_ok_def enter_def spin_def)
qed

lemma counted_body:
  assumes "rover_env_ok env"
  shows "counted env st (task_body env t st)"
proof (cases t)
  case Sensor
  then show ?thesis by (cases "place_of st Sensor") (simp_all add: sense_def counted assms)
next
  case Processor
  then show ?thesis by (cases "place_of st Processor") (simp_all add: process_data_def counted assms)
next
  case Actuator
  then show ?thesis by (cases "place_of st Actuator") (simp_all add: act_def counted assms)
next
  case Comunicator
  then show ?thesis by (cases "place_of st Comunicator") (simp_all add: comunicate_def counted assms)
qed

lemma startup_one_world:
  assumes "rover_env_ok env" and "startup_one env x st = Some st'"
  shows "sem_value env (world st') = sem_value env (world st)"
proof -
  have l: "lib_keeps (sem_value env) (lib env Main)" using assms(1) by (simp add: rover_env_ok_def)
  obtain t nm pr where x: "x = (t, nm, pr)" by (cases x)
  obtain d s where c: "rt_task_create env nm pr (descr st) (world st) = (d, s)" by fastforce
  have "sem_value env s = sem_value env (world st)" using assms(1) c unfolding rover_env_ok_def by (metis snd_conv)
  then show ?thesis using assms(2) c x
    by (auto simp: startup_one_def split: option.splits dest!: edf_task_start_keeps [OF l])
qed

lemma counted_step:
  assumes "rover_env_ok env"
  shows "counted env st (rover_step env a st)"
proof (cases a)
  case (Task t)
  then show ?thesis using counted_body [OF assms] by (simp add: counted_silent)
next
  case Main
  have l: "lib_keeps (sem_value env) (lib env Main)" using assms by (simp add: rover_env_ok_def)
  show ?thesis
  proof (cases "main_at st")
    case (Main_start k)
    then show ?thesis using Main by (auto simp: counted_def dest!: startup_one_world [OF assms])
  next
    case Main_cleanup
    then show ?thesis using Main edf_dispose_keeps [OF l] by (auto simp: counted_def case_prod_unfold Let_def)
  qed (use Main in \<open>simp_all add: counted_silent\<close>)
next
  case Signal
  then show ?thesis by (cases "main_at st") (simp_all add: catch_signal_def counted_silent)
qed

lemma counted_stepD:
  assumes "rover_env_ok env" and "rover_step env a st = Some (e, st')"
  shows "sem_value env (world st') = after_event e (sem_value env (world st))"
    and "e = Pass x \<Longrightarrow> 0 < sem_value env (world st) x"
  using counted_step [OF assms(1), of st a] assms(2) by (auto simp: counted_def)

interpretation rover: sem_program rover_env_ok rover_step "\<lambda>env st. sem_value env (world st)"
proof
  fix env :: "'a rover_env" and a st st' x and v :: rover_out
  assume ok: "rover_env_ok env"
  show "0 < sem_value env (world st) x \<and> sem_value env (world st') = (sem_value env (world st))(x := sem_value env (world st) x - 1)"
    if "rover_step env a st = Some (Pass x, st')"
    using counted_stepD [OF ok that] by simp
  show "sem_value env (world st') = (sem_value env (world st))(x := sem_value env (world st) x + 1)"
    if "rover_step env a st = Some (Post x, st')"
    using counted_stepD(1) [OF ok that] by simp
  show "sem_value env (world st') = sem_value env (world st)" if "rover_step env a st = Some (Out v, st')"
    using counted_stepD(1) [OF ok that] by simp
  show "sem_value env (world st') = sem_value env (world st)" if "rover_step env a st = Some (Internal, st')"
    using counted_stepD(1) [OF ok that] by simp
qed

lemma mars_rover_start:
  assumes "rover_env_ok env" and "mars_rover env ps = Some st"
  shows "sem_value env (world st) = (\<lambda>x. if x = ExLock then 1 else 0)"
    and "place_of st t = Off" and "main_at st = Main_start 0"
    and "sharedResource st = 0" and "shared st = 0" and "res st t = 0"
proof -
  have "sem_value env (world st) = (sem_value env (snd (snd (edf_init (lib env Main) ps))))
      (SensingDone := 0, ProcessingDone := 0, ExLock := 1)"
    using assms by (auto simp: mars_rover_def startup_sems_def rover_env_ok_def sem_okD(1) case_prod_unfold Let_def split: if_splits)
  then have "sem_value env (world st) x = (if x = ExLock then 1 else 0)" for x by (cases x) simp_all
  then show "sem_value env (world st) = (\<lambda>x. if x = ExLock then 1 else 0)" by auto
qed (use assms(2) in \<open>auto simp: mars_rover_def case_prod_unfold Let_def split: if_splits\<close>)

section \<open>Mutual exclusion\<close>

fun holds_lock :: "rover_task \<Rightarrow> rover_place \<Rightarrow> bool" where
  "holds_lock t Load \<longleftrightarrow> True"
| "holds_lock t (Store v) \<longleftrightarrow> t \<noteq> Actuator"
| "holds_lock t V_lock \<longleftrightarrow> True"
| "holds_lock t _ \<longleftrightarrow> False"

definition all_tasks :: "rover_task list" where
  "all_tasks = [Sensor, Processor, Actuator, Comunicator]"

lemma all_tasks_complete: "set all_tasks = UNIV"
  using rover_task.exhaust by (auto simp: all_tasks_def)

definition holders :: "'s rover \<Rightarrow> rover_task list" where
  "holders st = filter (\<lambda>t. holds_lock t (place_of st t)) all_tasks"

text \<open>Tasks that are not started yet are at no place of their code.\<close>

definition waiting_tasks_off :: "'s rover \<Rightarrow> bool" where
  "waiting_tasks_off st \<longleftrightarrow> (\<forall>k j. main_at st = Main_start k \<longrightarrow> k \<le> j \<longrightarrow> j < length startup_tasks \<longrightarrow>
     place_of st (fst (startup_tasks ! j)) = Off)"

lemmas rover_parts = go_def take_sem_def give_sem_def enter_def spin_def sleep_period_def
lemmas rover_bodies = sense_def process_data_def act_def comunicate_def

lemma body_main: "task_body env t st = Some (e, st') \<Longrightarrow> main_at st' = main_at st"
  by (cases t; cases "place_of st t")
    (auto simp: rover_bodies rover_parts split: option.splits if_splits)

lemma body_places: "task_body env t st = Some (e, st') \<Longrightarrow> u \<noteq> t \<Longrightarrow> place_of st' u = place_of st u"
  by (cases t; cases "place_of st t")
    (auto simp: rover_bodies rover_parts split: option.splits if_splits)

lemma body_not_off: "task_body env t st = Some (e, st') \<Longrightarrow> place_of st t \<noteq> Off"
  by (cases t) (auto simp: rover_bodies)

text \<open>
  What the main program and the signal do to the tasks: at most, one that has not been started
  enters its body.
\<close>

definition starts_only :: "'s rover \<Rightarrow> 's rover \<Rightarrow> bool" where
  "starts_only st st' \<longleftrightarrow> sharedResource st' = sharedResource st \<and> shared st' = shared st \<and> res st' = res st \<and>
     (\<forall>t. place_of st' t = place_of st t \<or> place_of st t = Off \<and> place_of st' t = Entry)"

lemma starts_place: "starts_only st st' \<Longrightarrow>
    place_of st' t = place_of st t \<or> place_of st t = Off \<and> place_of st' t = Entry"
  by (simp add: starts_only_def)

lemma startup_distinct: "j < length startup_tasks \<Longrightarrow> k < length startup_tasks \<Longrightarrow>
    fst (startup_tasks ! j) = fst (startup_tasks ! k) \<longleftrightarrow> j = k"
  by (auto simp: startup_tasks_def nth_Cons split: nat.splits)

lemma startup_one_starts:
  assumes "startup_one env x st = Some st'" and "place_of st (fst x) = Off"
  shows "starts_only st st' \<and> main_at st' = main_at st \<and> (\<forall>u. u \<noteq> fst x \<longrightarrow> place_of st' u = place_of st u)"
  using assms by (cases x) (auto simp: startup_one_def starts_only_def go_def case_prod_unfold Let_def split: option.splits if_splits)

lemma other_step:
  assumes "waiting_tasks_off st" and "rover_step env a st = Some (e, st')" and "\<forall>t. a \<noteq> Task t"
  shows "e = Internal" and "starts_only st st'" and "waiting_tasks_off st'"
proof -
  have "e = Internal \<and> starts_only st st' \<and> waiting_tasks_off st'"
  proof (cases a)
    case Main
    show ?thesis
    proof (cases "main_at st")
      case (Main_start k)
      show ?thesis
      proof (cases "k < length startup_tasks")
        case True
        let ?x = "startup_tasks ! k"
        obtain st1 where st1: "startup_one env ?x st = Some st1" "e = Internal" "st' = st1\<lparr>main_at := Main_start (k + 1)\<rparr>"
          using assms(2) Main Main_start True by auto
        have "place_of st (fst ?x) = Off" using assms(1) Main_start True by (simp add: waiting_tasks_off_def)
        from startup_one_starts [OF st1(1) this] have s: "starts_only st st1"
          "\<And>u. u \<noteq> fst ?x \<Longrightarrow> place_of st1 u = place_of st u" by blast+
        have "place_of st1 (fst (startup_tasks ! j)) = Off" if "k + 1 \<le> j" "j < length startup_tasks" for j
          using s(2) startup_distinct [OF that(2) True] assms(1) Main_start that by (simp add: waiting_tasks_off_def)
        then show ?thesis using s(1) st1(2,3) by (simp add: starts_only_def waiting_tasks_off_def)
      qed (use assms Main Main_start in \<open>auto simp: starts_only_def waiting_tasks_off_def\<close>)
    qed (use assms Main in \<open>auto simp: starts_only_def waiting_tasks_off_def case_prod_unfold Let_def\<close>)
  next
    case Signal
    then show ?thesis using assms
      by (cases "main_at st") (auto simp: catch_signal_def starts_only_def waiting_tasks_off_def)
  qed (use assms(3) in simp)
  then show "e = Internal" and "starts_only st st'" and "waiting_tasks_off st'" by blast+
qed

lemma task_step:
  assumes "rover_step env (Task t) st = Some (e, st')"
  shows "task_body env t st = Some (e, st')"
  using assms by (simp split: if_splits)

lemma body_waiting:
  assumes "waiting_tasks_off st" and "task_body env t st = Some (e, st')"
  shows "waiting_tasks_off st'"
proof -
  have "place_of st u = Off \<Longrightarrow> place_of st' u = Off" for u
    using body_places [OF assms(2)] body_not_off [OF assms(2)] by metis
  then show ?thesis using assms(1) body_main [OF assms(2)] by (simp add: waiting_tasks_off_def)
qed

lemma length_holders:
  "length (holders st) = (\<Sum>t\<leftarrow>all_tasks. of_bool (holds_lock t (place_of st t)))"
  by (simp add: holders_def all_tasks_def)

lemma body_lock:
  assumes "task_body env t st = Some (e, st')"
  shows "of_bool (holds_lock t (place_of st' t)) + of_bool (e = Post ExLock) =
    (of_bool (holds_lock t (place_of st t)) + of_bool (e = Pass ExLock) :: nat)"
  using assms by (cases t; cases "place_of st t")
    (auto simp: rover_bodies rover_parts split: option.splits if_splits)

lemma body_holders:
  assumes "task_body env t st = Some (e, st')"
  shows "length (holders st') + of_bool (e = Post ExLock) = length (holders st) + of_bool (e = Pass ExLock)"
  using body_lock [OF assms] body_places [OF assms]
  by (cases t) (simp_all add: length_holders all_tasks_def)

lemma starts_holders: "starts_only st st' \<Longrightarrow> holders st' = holders st"
proof -
  assume s: "starts_only st st'"
  have "holds_lock t (place_of st' t) = holds_lock t (place_of st t)" for t
    using s by (cases "place_of st' t = place_of st t") (auto simp: starts_only_def)
  then show ?thesis by (simp add: holders_def)
qed

text \<open>The lock is free or exactly one task has it.\<close>

definition lock_inv :: "'s rover_env \<Rightarrow> 's rover \<Rightarrow> bool" where
  "lock_inv env st \<longleftrightarrow> waiting_tasks_off st \<and> sem_value env (world st) ExLock + length (holders st) = 1"

lemma lock_step:
  assumes "rover_env_ok env" and "lock_inv env st" and "rover_step env a st = Some (e, st')"
  shows "lock_inv env st'"
proof (cases "\<exists>t. a = Task t")
  case True
  then obtain t where b: "task_body env t st = Some (e, st')" using assms(3) task_step by blast
  have v: "sem_value env (world st') = after_event e (sem_value env (world st))"
    "e = Pass ExLock \<Longrightarrow> 0 < sem_value env (world st) ExLock"
    using counted_stepD [OF assms(1,3)] by blast+
  have "sem_value env (world st') ExLock + length (holders st') = sem_value env (world st) ExLock + length (holders st)"
    using v body_holders [OF b] by (cases e) auto
  then show ?thesis using assms(2) body_waiting [OF _ b] by (simp add: lock_inv_def)
next
  case False
  then have o: "e = Internal" "starts_only st st'" "waiting_tasks_off st'"
    using other_step [OF _ assms(3)] assms(2) by (auto simp: lock_inv_def)
  then show ?thesis using assms(2) counted_stepD(1) [OF assms(1,3)] starts_holders [OF o(2)] by (simp add: lock_inv_def)
qed

lemma lock_run:
  assumes "rover_env_ok env" and "mars_rover env ps = Some st0" and "run (rover_step env) st0 tr st"
  shows "lock_inv env st"
  using assms(3)
proof (rule run_invariant [where P = "\<lambda>_. lock_inv env"])
  show "lock_inv env st0"
    using mars_rover_start [OF assms(1,2)] by (simp add: lock_inv_def waiting_tasks_off_def length_holders all_tasks_def)
qed (rule lock_step [OF assms(1)])

lemma lock_excludes:
  assumes "lock_inv env st" and "holds_lock t (place_of st t)" and "holds_lock u (place_of st u)"
  shows "t = u"
proof (rule ccontr)
  assume "t \<noteq> u"
  have "{t, u} \<subseteq> set (holders st)" using assms(2,3) all_tasks_complete by (simp add: holders_def)
  then have "card {t, u} \<le> length (holders st)" by (meson List.finite_set card_length card_mono le_trans)
  then show False using assms(1) \<open>t \<noteq> u\<close> by (simp add: lock_inv_def)
qed

section \<open>The pipeline\<close>

type_synonym rover_trace = "(actor \<times> (rover_sem, rover_out) event) list"

text \<open>How often a task has written its result.\<close>

definition made :: "rover_task \<Rightarrow> rover_trace \<Rightarrow> nat" where
  "made t tr = length (filter (\<lambda>(a, v). a = Task t) (outputs tr))"

definition posts :: "rover_sem \<Rightarrow> rover_trace \<Rightarrow> nat" where
  "posts x tr = count_list (map snd tr) (Post x)"

definition passes :: "rover_sem \<Rightarrow> rover_trace \<Rightarrow> nat" where
  "passes x tr = count_list (map snd tr) (Pass x)"

lemma trace_simps [simp]:
  "made t [] = 0" "posts x [] = 0" "passes x [] = 0"
  "made t (tr @ [(a, Out v)]) = made t tr + of_bool (a = Task t)"
  "made t (tr @ [(a, Pass y)]) = made t tr" "made t (tr @ [(a, Post y)]) = made t tr"
  "made t (tr @ [(a, Internal)]) = made t tr"
  "posts x (tr @ [(a, e)]) = posts x tr + of_bool (e = Post x)"
  "passes x (tr @ [(a, e)]) = passes x tr + of_bool (e = Pass x)"
  by (simp_all add: made_def posts_def passes_def)

text \<open>
  \<open>working\<close>: the task has taken its input and not written its result; \<open>finishing\<close>: it has
  written its result and not yet told the next task.
\<close>

fun working :: "rover_task \<Rightarrow> rover_place \<Rightarrow> bool" where
  "working t (Spin _) \<longleftrightarrow> True"
| "working t P_lock \<longleftrightarrow> True"
| "working t Load \<longleftrightarrow> True"
| "working t (Store _) \<longleftrightarrow> True"
| "working t V_lock \<longleftrightarrow> t = Actuator"
| "working t _ \<longleftrightarrow> False"

fun finishing :: "rover_place \<Rightarrow> bool" where
  "finishing V_lock \<longleftrightarrow> True"
| "finishing V_data \<longleftrightarrow> True"
| "finishing _ \<longleftrightarrow> False"

definition order_inv :: "rover_trace \<Rightarrow> 's rover \<Rightarrow> bool" where
  "order_inv tr st \<longleftrightarrow>
     made Sensor tr = posts SensingDone tr + of_bool (finishing (place_of st Sensor)) \<and>
     passes SensingDone tr = made Processor tr + of_bool (working Processor (place_of st Processor)) \<and>
     made Processor tr = posts ProcessingDone tr + of_bool (finishing (place_of st Processor)) \<and>
     passes ProcessingDone tr = made Actuator tr + of_bool (working Actuator (place_of st Actuator))"

lemma sensor_body:
  assumes "sense env st = Some (e, st')"
  shows "of_bool (is_Out e) + of_bool (finishing (place_of st Sensor)) =
      (of_bool (e = Post SensingDone) + of_bool (finishing (place_of st' Sensor)) :: nat)"
    and "e \<noteq> Pass SensingDone" "e \<noteq> Pass ProcessingDone" "e \<noteq> Post ProcessingDone"
  using assms by (cases "place_of st Sensor"; force simp: sense_def rover_parts split: option.splits if_splits)+

lemma processor_body:
  assumes "process_data env st = Some (e, st')"
  shows "of_bool (e = Pass SensingDone) + of_bool (working Processor (place_of st Processor)) =
      (of_bool (is_Out e) + of_bool (working Processor (place_of st' Processor)) :: nat)"
    and "of_bool (is_Out e) + of_bool (finishing (place_of st Processor)) =
      (of_bool (e = Post ProcessingDone) + of_bool (finishing (place_of st' Processor)) :: nat)"
    and "e \<noteq> Post SensingDone" "e \<noteq> Pass ProcessingDone"
  using assms by (cases "place_of st Processor"; force simp: process_data_def rover_parts split: option.splits if_splits)+

lemma actuator_body:
  assumes "act env st = Some (e, st')"
  shows "of_bool (e = Pass ProcessingDone) + of_bool (working Actuator (place_of st Actuator)) =
      (of_bool (is_Out e) + of_bool (working Actuator (place_of st' Actuator)) :: nat)"
    and "e \<noteq> Post SensingDone" "e \<noteq> Pass SensingDone" "e \<noteq> Post ProcessingDone"
  using assms by (cases "place_of st Actuator"; force simp: act_def rover_parts split: option.splits if_splits)+

lemma comunicator_body:
  assumes "comunicate env st = Some (e, st')"
  shows "e \<noteq> Post SensingDone" "e \<noteq> Pass SensingDone" "e \<noteq> Post ProcessingDone" "e \<noteq> Pass ProcessingDone"
  using assms by (cases "place_of st Comunicator"; force simp: comunicate_def rover_parts split: option.splits if_splits)+

lemma made_step: "made u (tr @ [(Task t, e)]) = made u tr + of_bool (t = u \<and> is_Out e)"
  by (cases e) auto

lemma order_body:
  assumes "order_inv tr st" and "task_body env t st = Some (e, st')"
  shows "order_inv (tr @ [(Task t, e)]) st'"
proof -
  note rest = assms(1) body_places [OF assms(2)]
  show ?thesis
  proof (cases t)
    case Sensor
    then show ?thesis using rest sensor_body [of env st e st'] assms(2) by (simp add: order_inv_def made_step)
  next
    case Processor
    then show ?thesis using rest processor_body [of env st e st'] assms(2) by (simp add: order_inv_def made_step)
  next
    case Actuator
    then show ?thesis using rest actuator_body [of env st e st'] assms(2) by (simp add: order_inv_def made_step)
  next
    case Comunicator
    then show ?thesis using rest comunicator_body [of env st e st'] assms(2) by (simp add: order_inv_def made_step)
  qed
qed

lemma order_starts:
  assumes "order_inv tr st" and "starts_only st st'"
  shows "order_inv (tr @ [(a, Internal)]) st'"
proof -
  have "finishing (place_of st' t) = finishing (place_of st t)" "working u (place_of st' t) = working u (place_of st t)" for t u
    using starts_place [OF assms(2), of t] by auto
  then show ?thesis using assms(1) by (simp add: order_inv_def)
qed

text \<open>
  The values: none exceeds the number of results the processor has written, what the
  processor is about to write is one more than the shared resource, and what the actuator is
  about to write is what it read.
\<close>

definition value_inv :: "rover_trace \<Rightarrow> 's rover \<Rightarrow> bool" where
  "value_inv tr st \<longleftrightarrow> (let n = int (made Processor tr) in
     0 \<le> shared st \<and> shared st \<le> n \<and> 0 \<le> sharedResource st \<and> sharedResource st \<le> n \<and>
     0 \<le> res st Actuator \<and> res st Actuator \<le> n \<and>
     (\<forall>v. place_of st Sensor = Store v \<longrightarrow> 0 \<le> v \<and> v \<le> n) \<and>
     (\<forall>v. place_of st Processor = Store v \<longrightarrow> v = sharedResource st + 1) \<and>
     (\<forall>v. place_of st Actuator = Store v \<longrightarrow> v = res st Actuator))"

lemma value_body:
  assumes "value_inv tr st" and "lock_inv env0 st" and "task_body env t st = Some (e, st')"
  shows "value_inv (tr @ [(Task t, e)]) st'"
proof (cases t)
  case Sensor
  have "\<not> (\<exists>v w. place_of st Sensor = Store v \<and> place_of st Processor = Store w)"
    using lock_excludes [OF assms(2), of Sensor Processor] by auto
  then show ?thesis using Sensor assms(1,3) unfolding value_inv_def Let_def
    by (cases "place_of st Sensor") (auto simp: sense_def rover_parts split: option.splits if_splits)
next
  case Processor
  then show ?thesis using assms(1,3) unfolding value_inv_def Let_def
    by (cases "place_of st Processor") (auto simp: process_data_def rover_parts split: option.splits if_splits)
next
  case Actuator
  then show ?thesis using assms(1,3) unfolding value_inv_def Let_def
    by (cases "place_of st Actuator") (auto simp: act_def rover_parts split: option.splits if_splits)
next
  case Comunicator
  then show ?thesis using assms(1,3) unfolding value_inv_def Let_def
    by (cases "place_of st Comunicator") (auto simp: comunicate_def rover_parts split: option.splits if_splits)
qed

lemma value_starts:
  assumes "value_inv tr st" and "starts_only st st'"
  shows "value_inv (tr @ [(a, Internal)]) st'"
proof -
  have "place_of st' t = Store v \<longleftrightarrow> place_of st t = Store v" for t v
    using starts_place [OF assms(2), of t] by auto
  then show ?thesis using assms by (simp add: value_inv_def starts_only_def)
qed

lemma rover_run:
  assumes "rover_env_ok env" and "mars_rover env ps = Some st0" and "run (rover_step env) st0 tr st"
  shows "lock_inv env st \<and> order_inv tr st \<and> value_inv tr st"
  using assms(3)
proof (rule run_invariant)
  show "lock_inv env st0 \<and> order_inv [] st0 \<and> value_inv [] st0"
    using lock_run [OF assms(1,2) run_init] mars_rover_start [OF assms(1,2)] by (simp add: order_inv_def value_inv_def)
next
  fix tr st1 a e st2
  assume i: "lock_inv env st1 \<and> order_inv tr st1 \<and> value_inv tr st1" and s: "rover_step env a st1 = Some (e, st2)"
  show "lock_inv env st2 \<and> order_inv (tr @ [(a, e)]) st2 \<and> value_inv (tr @ [(a, e)]) st2"
  proof (cases "\<exists>t. a = Task t")
    case True
    then show ?thesis using i s lock_step [OF assms(1)] order_body value_body task_step by metis
  next
    case False
    then have "e = Internal" "starts_only st1 st2" using other_step [OF _ s] i by (auto simp: lock_inv_def)
    then show ?thesis using i lock_step [OF assms(1) _ s] order_starts value_starts by blast
  qed
qed

section \<open>A concrete system\<close>

text \<open>Semaphores that are nothing but their counts; a device that accepts every message.\<close>

definition plain_lib :: "'s app_env" where
  "plain_lib = \<lparr>rt_dev_open = (\<lambda>s. (3, s)), rt_dev_close = (\<lambda>fd s. (0, s)), rt_dev_write = (\<lambda>fd m n s. Some (n, s)),
     app_inquire = (\<lambda>s t. Inr \<lparr>ti_name = ''T'' @ [CHR 0x00], ti_cprio = 50\<rparr>), rt_task_self = (\<lambda>s. Some 1),
     rt_task_wait_period = (\<lambda>s. (0, s)), rt_task_start = (\<lambda>t s. (0, s)), malloc = (\<lambda>bs. Some 1),
     raw_app_message = (\<lambda>s. \<lparr>command = 77, msg_task = replicate 25 (CHR ''#''), msg_deadline = 7\<rparr>)\<rparr>"

definition plain_rover :: "(rover_sem \<Rightarrow> nat) rover_env" where
  "plain_rover = \<lparr>rt_sem_create = (\<lambda>x n s. s(x := n)), rt_sem_p = (\<lambda>x s. if s x = 0 then None else Some (s(x := s x - 1))),
     rt_sem_v = (\<lambda>x s. s(x := s x + 1)), sem_value = (\<lambda>s. s), lib = (\<lambda>a. plain_lib),
     rt_task_create = (\<lambda>nm pr d s. (d + 1, s)), rt_task_set_periodic = (\<lambda>t p s. s), rt_timer_spin = (\<lambda>n s. s)\<rparr>"

definition idle_process :: app where
  "idle_process = \<lparr>device = 0, umem = []\<rparr>"

lemma plain_rover_ok: "rover_env_ok plain_rover"
  by (simp add: rover_env_ok_def sem_ok_def lib_keeps_def calls_keep_def plain_rover_def plain_lib_def)

lemma plain_lib_simps:
  "rt_dev_open plain_lib s = (3, s)" "rt_dev_write plain_lib fd m n s = Some (n, s)"
  "app_inquire plain_lib s t = Inr \<lparr>ti_name = ''T'' @ [CHR 0x00], ti_cprio = 50\<rparr>"
  "rt_task_self plain_lib s = Some 1" "rt_task_wait_period plain_lib s = (0, s)" "rt_task_start plain_lib t s = (0, s)"
  "malloc plain_lib bs = Some 1" "length (msg_task (raw_app_message plain_lib s)) = Suc TNAME_LEN"
  by (simp_all add: plain_lib_def TNAME_LEN_def)

lemma plain_lib_calls:
  "edf_init plain_lib (p, s) = (0, p\<lparr>device := 3\<rparr>, s)"
  "edf_task_start plain_lib t dl (\<lparr>device = 3, umem = []\<rparr>, s) = Some (0, \<lparr>device = 3, umem = []\<rparr>, s)"
  "edf_task_wait_period plain_lib (\<lparr>device = 3, umem = []\<rparr>, s) = Some (-1, \<lparr>device = 3, umem = []\<rparr>, s)"
proof -
  show "edf_init plain_lib (p, s) = (0, p\<lparr>device := 3\<rparr>, s)"
    by (cases p) (simp add: edf_init_def plain_lib_simps app_mtx_create_def)
  have "\<exists>msg. fill_message cmd d (''T'' @ [CHR 0x00]) (raw_app_message plain_lib s) = Some msg" for cmd d
    by (subst fill_message_eq) (simp_all add: plain_lib_simps c_terminated_def)
  then obtain m1 m2 where
    "fill_message CREATE_TASK dl (''T'' @ [CHR 0x00]) (raw_app_message plain_lib s) = Some m1"
    "fill_message STOP_WATCHD DEADLINENOTSET (''T'' @ [CHR 0x00]) (raw_app_message plain_lib s) = Some m2"
    by metis
  then show "edf_task_start plain_lib t dl (\<lparr>device = 3, umem = []\<rparr>, s) = Some (0, \<lparr>device = 3, umem = []\<rparr>, s)"
    "edf_task_wait_period plain_lib (\<lparr>device = 3, umem = []\<rparr>, s) = Some (-1, \<lparr>device = 3, umem = []\<rparr>, s)"
    by (simp_all add: edf_task_start_def edf_task_wait_period_def plain_lib_simps wait_period_def app_malloc_def app_free_def
        app_mtx_acquire_def app_mtx_release_def EWOULDBLOCK_def EINTR_def ETIMEDOUT_def EPERM_def sizeof_EDFMessage_def Let_def)
qed

definition plain_start :: "(rover_sem \<Rightarrow> nat) rover" where
  "plain_start = \<lparr>sharedResource = 0, shared = 0, stopped = False, descr = 0, place_of = (\<lambda>_. Off), res = (\<lambda>_. 0),
     main_at = Main_start 0, process = \<lparr>device = 3, umem = []\<rparr>,
     world = ((\<lambda>_. 0)(SensingDone := 0, ProcessingDone := 0, ExLock := 1))\<rparr>"

lemma plain_main: "mars_rover plain_rover (idle_process, \<lambda>_. 0) = Some plain_start"
  by (simp add: mars_rover_def startup_sems_def plain_rover_def plain_start_def plain_lib_calls idle_process_def)

lemma busy_times: "busy_time Sensor = 2" "busy_time Processor = 3" "busy_time Actuator = 2"
  by (simp_all add: busy_time_def)

lemmas plain_eval = numeral_nat all_tasks_def startup_tasks_def startup_one_def plain_start_def plain_lib_calls busy_times
  sense_def process_data_def act_def rover_parts

lemma outputs_Cons: "outputs ((t, e) # tr) = (case e of Out v \<Rightarrow> [(t, v)] | _ \<Rightarrow> []) @ outputs tr"
  by (simp_all add: outputs_def List.map_filter_def split: event.splits)

text \<open>One sensing, one processing, one actuation, in this order.\<close>

definition one_cycle :: "actor list" where
  "one_cycle = replicate 4 Main @ replicate 10 (Task Sensor) @ replicate 12 (Task Processor) @ replicate 10 (Task Actuator)"

lemma one_cycle_run:
  obtains tr st where "run (rover_step plain_rover) plain_start tr st" and "shared st = 1"
    and "outputs tr = [(Task Sensor, SharedResource 0), (Task Processor, SharedResource 1), (Task Actuator, Shared 1)]"
proof -
  have "map_option (\<lambda>(tr, st). (outputs tr, shared st)) (schedule (rover_step plain_rover) one_cycle ([], plain_start)) =
      Some ([(Task Sensor, SharedResource 0), (Task Processor, SharedResource 1), (Task Actuator, Shared 1)], 1)"
    by (simp add: one_cycle_def plain_rover_def plain_eval outputs_Cons)
  then obtain tr tst where "schedule (rover_step plain_rover) one_cycle ([], plain_start) = Some (tr, tst)"
    "outputs tr = [(Task Sensor, SharedResource 0), (Task Processor, SharedResource 1), (Task Actuator, Shared 1)]" "shared tst = 1"
    by auto
  then show thesis using that [OF schedule_run [OF _ run_init]] by blast
qed

text \<open>
  The sensor copies \<open>shared\<close> into the shared resource under the lock, but the actuator writes
  \<open>shared\<close> without it, and nothing makes the sensor wait for the actuator. When the sensor runs
  a second time before the actuator has read the processor's result, the result is lost.
\<close>

definition overtaking :: "actor list" where
  "overtaking = replicate 4 Main @ replicate 10 (Task Sensor) @ replicate 12 (Task Processor) @
     replicate 7 (Task Sensor) @ replicate 3 (Task Sensor) @ replicate 10 (Task Actuator)"

lemma rover_lost_result:
  obtains tr st where "run (rover_step plain_rover) plain_start tr st" and "shared st = 0"
    and "outputs tr = [(Task Sensor, SharedResource 0), (Task Processor, SharedResource 1),
      (Task Sensor, SharedResource 0), (Task Actuator, Shared 0)]"
proof -
  have "map_option (\<lambda>(tr, st). (outputs tr, shared st)) (schedule (rover_step plain_rover) overtaking ([], plain_start)) =
      Some ([(Task Sensor, SharedResource 0), (Task Processor, SharedResource 1),
        (Task Sensor, SharedResource 0), (Task Actuator, Shared 0)], 0)"
    by (simp add: overtaking_def plain_rover_def plain_eval outputs_Cons)
  then obtain tr tst where "schedule (rover_step plain_rover) overtaking ([], plain_start) = Some (tr, tst)"
    "outputs tr = [(Task Sensor, SharedResource 0), (Task Processor, SharedResource 1),
      (Task Sensor, SharedResource 0), (Task Actuator, Shared 0)]" "shared tst = 0"
    by auto
  then show thesis using that [OF schedule_run [OF _ run_init]] by blast
qed

section \<open>The property\<close>

text \<open>C14: The rover, in every interleaving of its tasks. At most one task is between taking and
  giving back the lock, so that what the processor is about to write is always one more than the
  shared resource: no update of it is lost. The pipeline keeps its order: there are never more
  actuations than processings nor more processings than sensings. And neither variable
  exceeds the number of processings.\<close>

theorem rover_pipeline:
  assumes "rover_env_ok env" and "mars_rover env ps = Some st0" and "run (rover_step env) st0 tr st"
  shows "length (holders st) \<le> 1 \<and>
    (\<forall>v. place_of st Processor = Store v \<longrightarrow> v = sharedResource st + 1) \<and>
    made Actuator tr \<le> made Processor tr \<and> made Processor tr \<le> made Sensor tr \<and>
    {sharedResource st, shared st} \<subseteq> {0..int (made Processor tr)}"
proof -
  have i: "lock_inv env st" "order_inv tr st" "value_inv tr st" using rover_run [OF assms] by blast+
  have "passes x tr \<le> posts x tr" if "x \<noteq> ExLock" for x
    unfolding passes_def posts_def using mars_rover_start(1) [OF assms(1,2)] that
    by (intro rover.passes_le [OF assms(1,3)]) simp
  from this [of SensingDone] this [of ProcessingDone] have
    "made Actuator tr \<le> made Processor tr \<and> made Processor tr \<le> made Sensor tr"
    using i(2) by (simp add: order_inv_def)
  then show ?thesis using i(1,3) by (simp add: lock_inv_def value_inv_def Let_def)
qed

theorem rover_pipeline_witness:
  "\<exists>tr st. run (rover_step plain_rover) plain_start tr st \<and> shared st = 1 \<and> made Sensor tr = 1 \<and>
    length (holders st) \<le> 1 \<and> {sharedResource st, shared st} \<subseteq> {0..int (made Processor tr)}"
proof -
  obtain tr st where r: "run (rover_step plain_rover) plain_start tr st" "shared st = 1"
    "outputs tr = [(Task Sensor, SharedResource 0), (Task Processor, SharedResource 1), (Task Actuator, Shared 1)]"
    by (rule one_cycle_run)
  have "made Sensor tr = 1" using r(3) by (simp add: made_def)
  then show ?thesis using rover_pipeline [OF plain_rover_ok plain_main r(1)] r(1,2) by blast
qed

end
