(* ===== verification/Exercise_Semaphore.thy ===== *)
theory Exercise_Semaphore
  imports Rt_Sem
begin

text \<open>
  exercise-xenomai/semaphore.c: two tasks that take turns with two semaphores, one
  incrementing and one decrementing a global variable. \<open>++global\<close> is a load and a store, as the
  compiler makes it; the loop counters and the position in the loop body are the tasks' own.
\<close>

section \<open>The code\<close>

datatype sem_id = SemGlobal1 | SemGlobal2

datatype demo_task = TaskOne | TaskTwo

datatype place = At_for | At_p | At_load | At_store int | At_print int | At_v | At_exit

record 's semaphore_st =
  glob :: int
  i1 :: nat
  at1 :: place
  i2 :: nat
  at2 :: place
  sys :: 's

definition ITER :: nat where "ITER = 10"

definition taskOne :: "(sem_id, 's) sem_env \<Rightarrow> 's semaphore_st \<Rightarrow> ((sem_id, int) event \<times> 's semaphore_st) option" where
  "taskOne env st = (case at1 st of
       At_for \<Rightarrow> Some (Internal, st\<lparr>at1 := (if i1 st < ITER then At_p else At_exit)\<rparr>)
     | At_p \<Rightarrow> (case rt_sem_p env SemGlobal1 (sys st) of None \<Rightarrow> None
         | Some s \<Rightarrow> Some (Pass SemGlobal1, st\<lparr>at1 := At_load, sys := s\<rparr>))
     | At_load \<Rightarrow> Some (Internal, st\<lparr>at1 := At_store (glob st + 1)\<rparr>)
     | At_store v \<Rightarrow> Some (Internal, st\<lparr>at1 := At_print v, glob := v\<rparr>)
     | At_print v \<Rightarrow> Some (Out v, st\<lparr>at1 := At_v\<rparr>)
     | At_v \<Rightarrow> Some (Post SemGlobal2, st\<lparr>at1 := At_for, i1 := i1 st + 1, sys := rt_sem_v env SemGlobal2 (sys st)\<rparr>)
     | At_exit \<Rightarrow> None)"

definition taskTwo :: "(sem_id, 's) sem_env \<Rightarrow> 's semaphore_st \<Rightarrow> ((sem_id, int) event \<times> 's semaphore_st) option" where
  "taskTwo env st = (case at2 st of
       At_for \<Rightarrow> Some (Internal, st\<lparr>at2 := (if i2 st < ITER then At_p else At_exit)\<rparr>)
     | At_p \<Rightarrow> (case rt_sem_p env SemGlobal2 (sys st) of None \<Rightarrow> None
         | Some s \<Rightarrow> Some (Pass SemGlobal2, st\<lparr>at2 := At_load, sys := s\<rparr>))
     | At_load \<Rightarrow> Some (Internal, st\<lparr>at2 := At_store (glob st - 1)\<rparr>)
     | At_store v \<Rightarrow> Some (Internal, st\<lparr>at2 := At_print v, glob := v\<rparr>)
     | At_print v \<Rightarrow> Some (Out v, st\<lparr>at2 := At_v\<rparr>)
     | At_v \<Rightarrow> Some (Post SemGlobal1, st\<lparr>at2 := At_for, i2 := i2 st + 1, sys := rt_sem_v env SemGlobal1 (sys st)\<rparr>)
     | At_exit \<Rightarrow> None)"

fun semaphore_step :: "(sem_id, 's) sem_env \<Rightarrow> demo_task \<Rightarrow> 's semaphore_st \<Rightarrow>
    ((sem_id, int) event \<times> 's semaphore_st) option" where
  "semaphore_step env TaskOne st = taskOne env st"
| "semaphore_step env TaskTwo st = taskTwo env st"

text \<open>\<open>main\<close> creates the semaphores and starts the two tasks.\<close>

definition semaphore_main :: "(sem_id, 's) sem_env \<Rightarrow> 's \<Rightarrow> 's semaphore_st" where
  "semaphore_main env s = \<lparr>glob = 0, i1 = 0, at1 = At_for, i2 = 0, at2 = At_for,
     sys = rt_sem_create env SemGlobal2 0 (rt_sem_create env SemGlobal1 1 s)\<rparr>"

section \<open>Taking turns\<close>

text \<open>
  What the two tasks print, in the order they should: the value 1 by the first and 0 by the
  second, \<open>ITER\<close> times.
\<close>

definition turns :: "(demo_task \<times> int) list" where
  "turns = concat (replicate ITER [(TaskOne, 1), (TaskTwo, 0)])"

lemma length_turns: "length turns = 2 * ITER"
  by (simp add: turns_def length_concat sum_list_replicate)

lemma turns_nth:
  assumes "n < ITER"
  shows "turns ! (2 * n) = (TaskOne, 1)" and "turns ! Suc (2 * n) = (TaskTwo, 0)"
proof -
  have "concat (replicate m [(TaskOne, 1), (TaskTwo, 0)]) ! (2 * n) = (TaskOne, 1) \<and>
    concat (replicate m [(TaskOne, 1), (TaskTwo, 0)]) ! Suc (2 * n) = (TaskTwo, 0 :: int)" if "n < m" for m
    using that
  proof (induction m arbitrary: n)
    case (Suc m)
    then show ?case by (cases n) auto
  qed simp
  then show "turns ! (2 * n) = (TaskOne, 1)" and "turns ! Suc (2 * n) = (TaskTwo, 0)"
    using assms by (auto simp: turns_def)
qed

lemma turns_take:
  assumes "n < ITER"
  shows "take (2 * n) turns @ [(TaskOne, 1)] = take (Suc (2 * n)) turns"
    and "take (Suc (2 * n)) turns @ [(TaskTwo, 0)] = take (2 * Suc n) turns"
  using take_Suc_conv_app_nth [of "2 * n" turns] take_Suc_conv_app_nth [of "Suc (2 * n)" turns]
    turns_nth [OF assms] assms by (simp_all add: length_turns)

text \<open>
  Positions of a task that does not hold the unit, and of one that does: the global variable
  is \<open>g\<close> on the way from \<open>v\<close> to \<open>v'\<close>, and \<open>k\<close> lines have been printed on the way.
\<close>

fun idle :: "nat \<Rightarrow> place \<Rightarrow> bool" where
  "idle i At_for \<longleftrightarrow> i \<le> ITER"
| "idle i At_p \<longleftrightarrow> i < ITER"
| "idle i At_exit \<longleftrightarrow> i = ITER"
| "idle i _ \<longleftrightarrow> False"

fun busy :: "int \<Rightarrow> int \<Rightarrow> int \<Rightarrow> place \<Rightarrow> nat \<Rightarrow> bool" where
  "busy v v' g At_load k \<longleftrightarrow> g = v \<and> k = 0"
| "busy v v' g (At_store w) k \<longleftrightarrow> g = v \<and> w = v' \<and> k = 0"
| "busy v v' g (At_print w) k \<longleftrightarrow> g = v' \<and> w = v' \<and> k = 0"
| "busy v v' g At_v k \<longleftrightarrow> g = v' \<and> k = 1"
| "busy v v' g _ k \<longleftrightarrow> False"

text \<open>
  One unit goes round: it is in the first semaphore, with the first task, in the second
  semaphore, or with the second task.
\<close>

inductive baton :: "(sem_id, 's) sem_env \<Rightarrow> 's semaphore_st \<Rightarrow> (demo_task \<times> int) list \<Rightarrow> bool" for env st where
  in_sem1: "sem_value env (sys st) SemGlobal1 = 1 \<Longrightarrow> sem_value env (sys st) SemGlobal2 = 0 \<Longrightarrow>
    i1 st = n \<Longrightarrow> i2 st = n \<Longrightarrow> idle n (at1 st) \<Longrightarrow> idle n (at2 st) \<Longrightarrow> glob st = 0 \<Longrightarrow>
    baton env st (take (2 * n) turns)"
| with_one: "sem_value env (sys st) SemGlobal1 = 0 \<Longrightarrow> sem_value env (sys st) SemGlobal2 = 0 \<Longrightarrow>
    i1 st = n \<Longrightarrow> i2 st = n \<Longrightarrow> n < ITER \<Longrightarrow> busy 0 1 (glob st) (at1 st) k \<Longrightarrow> idle n (at2 st) \<Longrightarrow>
    baton env st (take (2 * n + k) turns)"
| in_sem2: "sem_value env (sys st) SemGlobal1 = 0 \<Longrightarrow> sem_value env (sys st) SemGlobal2 = 1 \<Longrightarrow>
    i1 st = Suc n \<Longrightarrow> i2 st = n \<Longrightarrow> idle (Suc n) (at1 st) \<Longrightarrow> idle n (at2 st) \<Longrightarrow> glob st = 1 \<Longrightarrow>
    baton env st (take (Suc (2 * n)) turns)"
| with_two: "sem_value env (sys st) SemGlobal1 = 0 \<Longrightarrow> sem_value env (sys st) SemGlobal2 = 0 \<Longrightarrow>
    i1 st = Suc n \<Longrightarrow> i2 st = n \<Longrightarrow> n < ITER \<Longrightarrow> idle (Suc n) (at1 st) \<Longrightarrow> busy 1 0 (glob st) (at2 st) k \<Longrightarrow>
    baton env st (take (Suc (2 * n) + k) turns)"

lemma idle_busyE:
  assumes "idle i p" and "busy v v' g p k"
  shows False
  using assms by (cases p) auto

lemma baton_init: "sem_ok env \<Longrightarrow> baton env (semaphore_main env s) []"
  using in_sem1 [of env "semaphore_main env s" 0]
  by (simp add: semaphore_main_def sem_okD(1))

lemma idle_le: "idle i p \<Longrightarrow> i \<le> ITER"
  by (cases p) auto

lemma baton_step:
  assumes "sem_ok env" and "baton env st os" and "semaphore_step env t st = Some (e, st')"
  shows "baton env st' (os @ (case e of Out v \<Rightarrow> [(t, v)] | _ \<Rightarrow> []))"
  using assms(2)
proof cases
  case (in_sem1 n)
  then show ?thesis
  proof (cases t)
    case TaskOne
    then show ?thesis using in_sem1 assms(1,3) baton.in_sem1 [of env st' n] baton.with_one [of env st' n 0]
      by (cases "at1 st") (auto simp: taskOne_def dest!: sem_okD(3) split: option.splits if_splits)
  next
    case TaskTwo
    then show ?thesis using in_sem1 assms(1,3) baton.in_sem1 [of env st' n]
      by (cases "at2 st") (auto simp: taskTwo_def sem_okD(2) dest!: sem_okD(3) split: option.splits if_splits)
  qed
next
  case (with_one n k)
  then show ?thesis
  proof (cases t)
    case TaskOne
    then show ?thesis using with_one assms(1,3) baton.with_one [of env st' n k] baton.with_one [of env st' n 1]
        baton.in_sem2 [of env st' n] turns_take [of n]
      by (cases "at1 st") (auto simp: taskOne_def sem_okD(4) split: option.splits if_splits)
  next
    case TaskTwo
    then show ?thesis using with_one assms(1,3) baton.with_one [of env st' n k]
      by (cases "at2 st") (auto simp: taskTwo_def sem_okD(2) dest!: sem_okD(3) split: option.splits if_splits)
  qed
next
  case (in_sem2 n)
  then show ?thesis
  proof (cases t)
    case TaskOne
    then show ?thesis using in_sem2 assms(1,3) baton.in_sem2 [of env st' n]
      by (cases "at1 st") (auto simp: taskOne_def sem_okD(2) dest!: sem_okD(3) split: option.splits if_splits)
  next
    case TaskTwo
    then show ?thesis using in_sem2 assms(1,3) baton.in_sem2 [of env st' n] baton.with_two [of env st' n 0]
      by (cases "at2 st") (auto simp: taskTwo_def dest!: sem_okD(3) split: option.splits if_splits)
  qed
next
  case (with_two n k)
  then show ?thesis
  proof (cases t)
    case TaskOne
    then show ?thesis using with_two assms(1,3) baton.with_two [of env st' n k]
      by (cases "at1 st") (auto simp: taskOne_def sem_okD(2) dest!: sem_okD(3) split: option.splits if_splits)
  next
    case TaskTwo
    then show ?thesis using with_two assms(1,3) baton.with_two [of env st' n k] baton.with_two [of env st' n 1]
        baton.in_sem1 [of env st' "Suc n"] turns_take [of n]
      by (cases "at2 st") (auto simp: taskTwo_def sem_okD(4) split: option.splits if_splits)
  qed
qed

section \<open>Termination\<close>

text \<open>How many steps a task has left in its \<open>i\<close>-th iteration.\<close>

fun left :: "nat \<Rightarrow> place \<Rightarrow> nat" where
  "left i At_for = 6 * (ITER - i) + 1"
| "left i At_p = 6 * (ITER - i)"
| "left i At_load = 6 * (ITER - i) - 1"
| "left i (At_store _) = 6 * (ITER - i) - 2"
| "left i (At_print _) = 6 * (ITER - i) - 3"
| "left i At_v = 6 * (ITER - i) - 4"
| "left i At_exit = 0"

lemma baton_one: "baton env st os \<Longrightarrow> idle (i1 st) (at1 st) \<or> (i1 st < ITER \<and> (\<exists>k. busy 0 1 (glob st) (at1 st) k))"
  by (erule baton.cases) auto

lemma baton_two: "baton env st os \<Longrightarrow> idle (i2 st) (at2 st) \<or> (i2 st < ITER \<and> (\<exists>k. busy 1 0 (glob st) (at2 st) k))"
  by (erule baton.cases) auto

lemma left_step:
  assumes "baton env st os" and "semaphore_step env t st = Some (e, st')"
  shows "left (i1 st) (at1 st) + left (i2 st) (at2 st) = Suc (left (i1 st') (at1 st') + left (i2 st') (at2 st'))"
proof (cases t)
  case TaskOne
  then show ?thesis using assms(2) baton_one [OF assms(1)]
    by (cases "at1 st") (auto simp: taskOne_def split: option.splits if_splits)
next
  case TaskTwo
  then show ?thesis using assms(2) baton_two [OF assms(1)]
    by (cases "at2 st") (auto simp: taskTwo_def split: option.splits if_splits)
qed

lemma run_baton:
  assumes "sem_ok env" and "run (semaphore_step env) (semaphore_main env s) tr st"
  shows "baton env st (outputs tr) \<and>
    length tr + left (i1 st) (at1 st) + left (i2 st) (at2 st) = 2 * (6 * ITER + 1)"
  using assms(2)
proof (rule run_invariant)
  show "baton env (semaphore_main env s) (outputs []) \<and> length [] + left (i1 (semaphore_main env s)) (at1 (semaphore_main env s)) +
      left (i2 (semaphore_main env s)) (at2 (semaphore_main env s)) = 2 * (6 * ITER + 1)"
    using baton_init [OF assms(1), of s] by (simp add: semaphore_main_def)
qed (use baton_step [OF assms(1)] left_step in fastforce)

text \<open>Whatever way the unit went, somebody can make a step until both tasks have ended.\<close>

lemma baton_stuck:
  assumes "sem_ok env" and "baton env st os" and "semaphore_step env TaskOne st = None" and "semaphore_step env TaskTwo st = None"
  shows "os = turns \<and> at1 st = At_exit \<and> at2 st = At_exit"
  using assms(2)
proof cases
  case (in_sem1 n)
  then have "at1 st = At_exit" using assms(1,3)
    by (cases "at1 st") (auto simp: taskOne_def sem_okD(2) split: option.splits)
  moreover from this have "at2 st = At_exit" using assms(4) in_sem1
    by (cases "at2 st") (auto simp: taskTwo_def split: option.splits)
  ultimately show ?thesis using in_sem1 by (simp add: length_turns)
next
  case (with_one n k)
  then show ?thesis using assms(3) by (cases "at1 st") (auto simp: taskOne_def)
next
  case (in_sem2 n)
  then have "at2 st = At_exit" using assms(1,4)
    by (cases "at2 st") (auto simp: taskTwo_def sem_okD(2) split: option.splits)
  then show ?thesis using in_sem2 idle_le [of "Suc n" "at1 st"] by simp
next
  case (with_two n k)
  then show ?thesis using assms(4) by (cases "at2 st") (auto simp: taskTwo_def)
qed

lemma baton_prefix: "baton env st os \<Longrightarrow> os = take (length os) turns"
  by (erule baton.cases) (auto simp: min_def)

section \<open>The property\<close>


definition demo_schedule :: "demo_task list" where
  "demo_schedule = TaskTwo # concat (replicate 9 (replicate 6 TaskOne @ replicate 6 TaskTwo)) @
     replicate 7 TaskOne @ replicate 6 TaskTwo"


end
