(* ===== verification/Exercise_Bottler.thy ===== *)
theory Exercise_Bottler
  imports Rt_Sem
begin

text \<open>
  exercise-xenomai/bottler.c: the cycle of a programmable controller as three tasks, one that
  reads inputs, one that executes a step of the plant's program, one that writes outputs. Two
  semaphores pass the turn along. A task's place is the statement it is about to execute. The
  labels of the steps are the reading, the step of the plant's program that was executed, and
  the writing.
\<close>

section \<open>State and external calls\<close>

datatype bottler_sem = ReadDone | ExecutionDone

datatype bottler_task = Reader | Executor | Writer

datatype b_actor = B_task bottler_task | B_main | B_signal

datatype b_place = B_off | B_entry | B_loop | B_p | B_switch | B_work | B_sleep | B_v | B_wait | B_exit

datatype b_main_place = B_start nat | B_signals | B_pause | B_return

datatype b_out = Sensing | Ran nat | Acting

record 's bottler =
  b_stopped :: bool
  b_at :: "bottler_task \<Rightarrow> b_place"
  b_step :: nat
  b_main_at :: b_main_place
  b_world :: 's

record 's bottler_env = "(bottler_sem, 's) sem_env" +
  b_task_start :: "char list \<Rightarrow> int \<Rightarrow> 's \<Rightarrow> bool \<times> 's"
  b_set_periodic :: "bottler_task \<Rightarrow> 's \<Rightarrow> 's"
  b_sleep :: "nat \<Rightarrow> 's \<Rightarrow> 's"
  b_wait_period :: "bottler_task \<Rightarrow> 's \<Rightarrow> 's"

type_synonym 's bottler_step = "((bottler_sem, b_out) event \<times> 's bottler) option"

definition b_go :: "bottler_task \<Rightarrow> b_place \<Rightarrow> 's bottler \<Rightarrow> 's bottler" where
  "b_go t p st = st\<lparr>b_at := (b_at st)(t := p)\<rparr>"

definition b_do :: "('s \<Rightarrow> 's) \<Rightarrow> 's bottler \<Rightarrow> 's bottler" where
  "b_do f st = st\<lparr>b_world := f (b_world st)\<rparr>"

definition b_take :: "'s bottler_env \<Rightarrow> bottler_sem \<Rightarrow> bottler_task \<Rightarrow> b_place \<Rightarrow> 's bottler \<Rightarrow> 's bottler_step" where
  "b_take env x t p st = (case rt_sem_p env x (b_world st) of None \<Rightarrow> None
     | Some s \<Rightarrow> Some (Pass x, b_go t p (st\<lparr>b_world := s\<rparr>)))"

definition b_give :: "'s bottler_env \<Rightarrow> bottler_sem \<Rightarrow> bottler_task \<Rightarrow> b_place \<Rightarrow> 's bottler \<Rightarrow> 's bottler_step" where
  "b_give env x t p st = Some (Post x, b_go t p (b_do (rt_sem_v env x) st))"

section \<open>The tasks\<close>

definition reader :: "'s bottler_env \<Rightarrow> 's bottler \<Rightarrow> 's bottler_step" where
  "reader env st = (case b_at st Reader of
       B_entry \<Rightarrow> Some (Internal, b_go Reader B_loop (b_do (b_set_periodic env Reader) st))
     | B_loop \<Rightarrow> Some (Internal, b_go Reader (if \<not> b_stopped st then B_work else B_exit) st)
     | B_work \<Rightarrow> Some (Out Sensing, b_go Reader B_sleep st)
     | B_sleep \<Rightarrow> Some (Internal, b_go Reader B_v (b_do (b_sleep env 4) st))
     | B_v \<Rightarrow> b_give env ReadDone Reader B_wait st
     | B_wait \<Rightarrow> Some (Internal, b_go Reader B_loop (b_do (b_wait_period env Reader) st))
     | _ \<Rightarrow> None)"

definition writer :: "'s bottler_env \<Rightarrow> 's bottler \<Rightarrow> 's bottler_step" where
  "writer env st = (case b_at st Writer of
       B_entry \<Rightarrow> Some (Internal, b_go Writer B_loop (b_do (b_set_periodic env Writer) st))
     | B_loop \<Rightarrow> Some (Internal, b_go Writer (if \<not> b_stopped st then B_p else B_exit) st)
     | B_p \<Rightarrow> b_take env ExecutionDone Writer B_work st
     | B_work \<Rightarrow> Some (Out Acting, b_go Writer B_sleep st)
     | B_sleep \<Rightarrow> Some (Internal, b_go Writer B_wait (b_do (b_sleep env 1) st))
     | B_wait \<Rightarrow> Some (Internal, b_go Writer B_loop (b_do (b_wait_period env Writer) st))
     | _ \<Rightarrow> None)"

text \<open>The switch: every condition is a string literal, which is true.\<close>

definition next_step :: "nat \<Rightarrow> nat" where
  "next_step k = (if k = 0 then 1 else if k = 1 then 2 else if k = 2 then 3 else if k = 3 then 4
     else if k = 4 then 5 else if k = 5 then 0 else k)"

definition executor :: "'s bottler_env \<Rightarrow> 's bottler \<Rightarrow> 's bottler_step" where
  "executor env st = (case b_at st Executor of
       B_entry \<Rightarrow> Some (Internal, b_go Executor B_loop (b_do (b_set_periodic env Executor) (st\<lparr>b_step := 0\<rparr>)))
     | B_loop \<Rightarrow> Some (Internal, b_go Executor (if \<not> b_stopped st then B_p else B_exit) st)
     | B_p \<Rightarrow> b_take env ReadDone Executor B_switch st
     | B_switch \<Rightarrow> Some (Out (Ran (b_step st)), b_go Executor B_sleep (st\<lparr>b_step := next_step (b_step st)\<rparr>))
     | B_sleep \<Rightarrow> Some (Internal, b_go Executor B_v (b_do (b_sleep env 2) st))
     | B_v \<Rightarrow> b_give env ExecutionDone Executor B_wait st
     | B_wait \<Rightarrow> Some (Internal, b_go Executor B_loop (b_do (b_wait_period env Executor) st))
     | _ \<Rightarrow> None)"

fun bottler_body :: "'s bottler_env \<Rightarrow> bottler_task \<Rightarrow> 's bottler \<Rightarrow> 's bottler_step" where
  "bottler_body env Reader st = reader env st"
| "bottler_body env Executor st = executor env st"
| "bottler_body env Writer st = writer env st"

section \<open>The main program\<close>

definition bottler_tasks :: "(bottler_task \<times> char list \<times> int) list" where
  "bottler_tasks = [(Reader, ''readerTask'', 99), (Executor, ''executorTask'', 98), (Writer, ''writerTask'', 97)]"

text \<open>A task that could not be created or started does not run; the code does not notice.\<close>

definition b_startup :: "'s bottler_env \<Rightarrow> bottler_task \<times> char list \<times> int \<Rightarrow> 's bottler \<Rightarrow> 's bottler" where
  "b_startup env x st = (let (t, name, prio) = x; (started, s) = b_task_start env name prio (b_world st)
     in b_go t (if started then B_entry else B_off) (st\<lparr>b_world := s\<rparr>))"

fun b_main :: "'s bottler_env \<Rightarrow> b_main_place \<Rightarrow> 's bottler \<Rightarrow> 's bottler_step" where
  "b_main env (B_start k) st =
     (if k < length bottler_tasks then Some (Internal, (b_startup env (bottler_tasks ! k) st)\<lparr>b_main_at := B_start (k + 1)\<rparr>)
      else Some (Internal, st\<lparr>b_main_at := B_signals\<rparr>))"
| "b_main env B_signals st = Some (Internal, st\<lparr>b_main_at := B_pause\<rparr>)"
| "b_main env B_pause st = None"
| "b_main env B_return st = None"

definition b_catch_signal :: "'s bottler \<Rightarrow> 's bottler_step" where
  "b_catch_signal st = (case b_main_at st of
       B_signals \<Rightarrow> Some (Internal, st\<lparr>b_stopped := True\<rparr>)
     | B_pause \<Rightarrow> Some (Internal, st\<lparr>b_stopped := True, b_main_at := B_return\<rparr>)
     | _ \<Rightarrow> None)"

fun bottler_step :: "'s bottler_env \<Rightarrow> b_actor \<Rightarrow> 's bottler \<Rightarrow> 's bottler_step" where
  "bottler_step env (B_task t) st = (if b_main_at st = B_return then None else bottler_body env t st)"
| "bottler_step env B_main st = b_main env (b_main_at st) st"
| "bottler_step env B_signal st = b_catch_signal st"

definition bottler_init :: "'s bottler_env \<Rightarrow> 's \<Rightarrow> 's bottler" where
  "bottler_init env s = \<lparr>b_stopped = False, b_at = (\<lambda>_. B_off), b_step = 0, b_main_at = B_start 0,
     b_world = rt_sem_create env ExecutionDone 0 (rt_sem_create env ReadDone 0 s)\<rparr>"

section \<open>The semaphores\<close>

text \<open>Semaphores count, and no other call changes their counts.\<close>

definition bottler_env_ok :: "'s bottler_env \<Rightarrow> bool" where
  "bottler_env_ok env \<longleftrightarrow> sem_ok env \<and>
     (\<forall>n p s. sem_value env (snd (b_task_start env n p s)) = sem_value env s) \<and>
     (\<forall>t s. sem_value env (b_set_periodic env t s) = sem_value env s) \<and>
     (\<forall>n s. sem_value env (b_sleep env n s) = sem_value env s) \<and>
     (\<forall>t s. sem_value env (b_wait_period env t s) = sem_value env s)"

definition bottler_val :: "'s bottler_env \<Rightarrow> 's bottler \<Rightarrow> bottler_sem \<Rightarrow> nat" where
  "bottler_val env st = sem_value env (b_world st)"

lemmas bottler_defs = reader_def executor_def writer_def b_go_def b_do_def b_take_def b_give_def bottler_val_def
  b_catch_signal_def b_startup_def

lemma bottler_val_step:
  assumes "bottler_env_ok env" and "bottler_step env a st = Some (e, st')"
  shows "(case e of Pass x \<Rightarrow> 0 < bottler_val env st x \<and> bottler_val env st' = (bottler_val env st)(x := bottler_val env st x - 1)
    | Post x \<Rightarrow> bottler_val env st' = (bottler_val env st)(x := bottler_val env st x + 1)
    | _ \<Rightarrow> bottler_val env st' = bottler_val env st)"
proof -
  have ok: "sem_ok env" and same: "\<And>n p s b s'. b_task_start env n p s = (b, s') \<Longrightarrow> sem_value env s' = sem_value env s"
    "\<And>t s. sem_value env (b_set_periodic env t s) = sem_value env s" "\<And>n s. sem_value env (b_sleep env n s) = sem_value env s"
    "\<And>t s. sem_value env (b_wait_period env t s) = sem_value env s"
    using assms(1) by (auto simp: bottler_env_ok_def) (metis snd_conv)+
  show ?thesis
  proof (cases a)
    case (B_task t)
    then show ?thesis using assms(2)
      by (cases t; cases "b_at st t")
         (auto simp: bottler_defs same(2-4) sem_okD(4) [OF ok] dest!: sem_okD(3) [OF ok] split: if_splits option.splits)
  next
    case B_main
    then show ?thesis using assms(2)
      by (cases "b_main_at st") (auto simp: bottler_defs split: if_splits prod.splits dest!: same(1))
  next
    case B_signal
    then show ?thesis using assms(2) by (auto simp: bottler_defs split: b_main_place.splits)
  qed
qed

interpretation bottler_sems: sem_program bottler_env_ok bottler_step bottler_val
  by unfold_locales (force dest: bottler_val_step)+

section \<open>The pipeline\<close>

text \<open>How often a step was labelled \<open>e\<close>, and the steps of the plant's program in their order.\<close>

definition times :: "(bottler_sem, b_out) event \<Rightarrow> (b_actor \<times> (bottler_sem, b_out) event) list \<Rightarrow> nat" where
  "times e tr = count_list (map snd tr) e"

definition rans :: "(b_actor \<times> (bottler_sem, b_out) event) list \<Rightarrow> nat list" where
  "rans tr = List.map_filter (\<lambda>(a, e). case e of Out (Ran k) \<Rightarrow> Some k | _ \<Rightarrow> None) tr"

lemma times_simps [simp]: "times e [] = 0" "times e (tr @ [(a, e')]) = times e tr + (if e' = e then 1 else 0)"
  by (simp_all add: times_def)

lemma rans_simps [simp]: "rans [] = []"
  "rans (tr @ [(a, e)]) = rans tr @ (case e of Out (Ran k) \<Rightarrow> [k] | _ \<Rightarrow> [])"
  by (auto simp: rans_def List.map_filter_def split: event.splits b_out.splits)

text \<open>Round after round of the six steps.\<close>

definition in_order :: "nat list \<Rightarrow> bool" where
  "in_order xs \<longleftrightarrow> xs = map (\<lambda>k. k mod 6) [0..<length xs]"

lemma in_order_simps [simp]: "in_order []" "in_order (xs @ [x]) \<longleftrightarrow> in_order xs \<and> x = length xs mod 6"
  by (auto simp: in_order_def)

text \<open>Where a task is says how far the labels of its own steps are apart.\<close>

definition at_one_of :: "b_place list \<Rightarrow> b_place \<Rightarrow> nat" where
  "at_one_of ps p = (if p \<in> set ps then 1 else 0)"

definition counted :: "(b_actor \<times> (bottler_sem, b_out) event) list \<Rightarrow> (bottler_task \<Rightarrow> b_place) \<Rightarrow> bool" where
  "counted tr at \<longleftrightarrow>
     times (Out Sensing) tr = times (Post ReadDone) tr + at_one_of [B_sleep, B_v] (at Reader) \<and>
     times (Pass ReadDone) tr = length (rans tr) + at_one_of [B_switch] (at Executor) \<and>
     length (rans tr) = times (Post ExecutionDone) tr + at_one_of [B_sleep, B_v] (at Executor) \<and>
     times (Pass ExecutionDone) tr = times (Out Acting) tr + at_one_of [B_work] (at Writer)"

lemma at_one_of_simps [simp]:
  "at_one_of ps B_off = (if B_off \<in> set ps then 1 else 0)" "at_one_of ps B_entry = (if B_entry \<in> set ps then 1 else 0)"
  "at_one_of ps B_loop = (if B_loop \<in> set ps then 1 else 0)" "at_one_of ps B_p = (if B_p \<in> set ps then 1 else 0)"
  "at_one_of ps B_switch = (if B_switch \<in> set ps then 1 else 0)" "at_one_of ps B_work = (if B_work \<in> set ps then 1 else 0)"
  "at_one_of ps B_sleep = (if B_sleep \<in> set ps then 1 else 0)" "at_one_of ps B_v = (if B_v \<in> set ps then 1 else 0)"
  "at_one_of ps B_wait = (if B_wait \<in> set ps then 1 else 0)" "at_one_of ps B_exit = (if B_exit \<in> set ps then 1 else 0)"
  by (simp_all add: at_one_of_def)

definition stepping :: "(b_actor \<times> (bottler_sem, b_out) event) list \<Rightarrow> b_place \<Rightarrow> nat \<Rightarrow> bool" where
  "stepping tr p k \<longleftrightarrow> in_order (rans tr) \<and> k = length (rans tr) mod 6 \<and> (p \<in> {B_off, B_entry} \<longrightarrow> rans tr = [])"

text \<open>A task that the main program has yet to start is not running.\<close>

definition unstarted :: "b_main_place \<Rightarrow> (bottler_task \<Rightarrow> b_place) \<Rightarrow> bool" where
  "unstarted m at \<longleftrightarrow> (case m of B_start k \<Rightarrow> \<forall>t\<in>set (drop k [Reader, Executor, Writer]). at t = B_off | _ \<Rightarrow> True)"

definition bottler_inv :: "(b_actor \<times> (bottler_sem, b_out) event) list \<Rightarrow> 's bottler \<Rightarrow> bool" where
  "bottler_inv tr st \<longleftrightarrow> counted tr (b_at st) \<and> stepping tr (b_at st Executor) (b_step st) \<and> unstarted (b_main_at st) (b_at st)"

lemma next_step_mod: "next_step (k mod 6) = Suc k mod 6"
proof -
  have "k mod 6 < 6" by simp
  then have "k mod 6 \<in> {0, 1, 2, 3, 4, 5}" by auto
  then show ?thesis by (auto simp: next_step_def mod_Suc)
qed

lemma unstarted_upd: "unstarted m at \<Longrightarrow> at t \<noteq> B_off \<Longrightarrow> unstarted m (at(t := p))"
  by (cases m) (auto simp: unstarted_def)

lemma body_running:
  assumes "bottler_body env t st = Some (e, st')"
  shows "b_at st t \<noteq> B_off" and "b_at st' = (b_at st)(t := b_at st' t)" and "b_main_at st' = b_main_at st"
proof -
  have "b_at st t \<noteq> B_off \<and> b_at st' = (b_at st)(t := b_at st' t) \<and> b_main_at st' = b_main_at st"
    using assms by (cases t; cases "b_at st t") (auto simp: bottler_defs split: option.splits)
  then show "b_at st t \<noteq> B_off" and "b_at st' = (b_at st)(t := b_at st' t)" and "b_main_at st' = b_main_at st"
    by blast+
qed

lemma body_counted: "counted tr (b_at st) \<Longrightarrow> bottler_body env t st = Some (e, st') \<Longrightarrow> counted (tr @ [(a, e)]) (b_at st')"
  by (cases t; cases "b_at st t") (auto simp: counted_def bottler_defs split: option.splits)

lemma body_stepping:
  assumes "stepping tr (b_at st Executor) (b_step st)" and "bottler_body env t st = Some (e, st')"
  shows "stepping (tr @ [(a, e)]) (b_at st' Executor) (b_step st')"
proof (cases t)
  case Executor
  then show ?thesis using assms next_step_mod [of "length (rans tr)"]
    by (cases "b_at st Executor") (auto simp: stepping_def bottler_defs split: if_splits option.splits)
qed (use assms in \<open>cases "b_at st t"; auto simp: stepping_def bottler_defs split: if_splits option.splits\<close>)+

lemma counted_internal: "counted tr at \<Longrightarrow> counted (tr @ [(a, Internal)]) at"
  by (simp add: counted_def)

lemma stepping_internal: "stepping tr p k \<Longrightarrow> stepping (tr @ [(a, Internal)]) p k"
  by (simp add: stepping_def)

lemma counted_start: "counted tr at \<Longrightarrow> at t = B_off \<Longrightarrow> p \<in> {B_off, B_entry} \<Longrightarrow> counted tr (at(t := p))"
  by (cases t) (auto simp: counted_def)

lemma bottler_inv_start:
  assumes "bottler_inv tr st" and "b_main_at st = B_start k" and "k < length bottler_tasks"
  shows "bottler_inv (tr @ [(a, Internal)]) ((b_startup env (bottler_tasks ! k) st)\<lparr>b_main_at := B_start (k + 1)\<rparr>)"
proof -
  obtain t n p where t: "bottler_tasks ! k = (t, n, p)" by (cases "bottler_tasks ! k")
  obtain b s where bs: "b_task_start env n p (b_world st) = (b, s)" by fastforce
  define q where "q = (if b then B_entry else B_off)"
  have at: "b_at (b_startup env (bottler_tasks ! k) st) = (b_at st)(t := q)" "b_step (b_startup env (bottler_tasks ! k) st) = b_step st"
    by (simp_all add: t bs b_startup_def b_go_def q_def)
  have k: "k = 0 \<and> t = Reader \<or> k = 1 \<and> t = Executor \<or> k = 2 \<and> t = Writer"
    using assms(3) t by (auto simp: bottler_tasks_def less_Suc_eq)
  then have off: "b_at st t = B_off" using assms(1,2) by (auto simp: bottler_inv_def unstarted_def)
  have "counted tr ((b_at st)(t := q))" using assms(1) off by (intro counted_start) (auto simp: bottler_inv_def q_def)
  moreover have "stepping tr (((b_at st)(t := q)) Executor) (b_step st)"
    using assms(1) off by (auto simp: bottler_inv_def stepping_def q_def)
  moreover have "unstarted (B_start (k + 1)) ((b_at st)(t := q))"
    using assms(1,2) k by (auto simp: bottler_inv_def unstarted_def)
  ultimately show ?thesis using counted_internal stepping_internal by (simp add: bottler_inv_def at)
qed

lemma bottler_inv_step:
  assumes "bottler_inv tr st" and "bottler_step env a st = Some (e, st')"
  shows "bottler_inv (tr @ [(a, e)]) st'"
proof (cases a)
  case (B_task t)
  then have b: "bottler_body env t st = Some (e, st')" using assms(2) by (simp split: if_splits)
  then show ?thesis
    using assms(1) body_counted [OF _ b] body_stepping [OF _ b]
      unstarted_upd [of "b_main_at st" "b_at st" t "b_at st' t", folded body_running(2) [OF b]] body_running(1,3) [OF b]
    by (simp add: bottler_inv_def)
next
  case B_main
  show ?thesis
  proof (cases "b_main_at st")
    case (B_start k)
    show ?thesis
    proof (cases "k < length bottler_tasks")
      case True
      then show ?thesis using bottler_inv_start [OF assms(1) B_start True] assms(2) B_main B_start by auto
    next
      case False
      then show ?thesis using assms B_main B_start counted_internal stepping_internal by (auto simp: bottler_inv_def unstarted_def)
    qed
  qed (use assms B_main counted_internal stepping_internal in \<open>auto simp: bottler_inv_def unstarted_def\<close>)
next
  case B_signal
  then show ?thesis using assms counted_internal stepping_internal
    by (auto simp: bottler_inv_def unstarted_def b_catch_signal_def split: b_main_place.splits)
qed

lemma bottler_run_inv:
  assumes "run (bottler_step env) (bottler_init env s) tr st"
  shows "bottler_inv tr st"
  using assms
proof (rule run_invariant)
  show "bottler_inv [] (bottler_init env s)"
    by (simp add: bottler_inv_def counted_def stepping_def unstarted_def bottler_init_def)
qed (rule bottler_inv_step)

lemma bottler_start: "bottler_env_ok env \<Longrightarrow> bottler_val env (bottler_init env s) x = 0"
  by (cases x) (simp_all add: bottler_env_ok_def bottler_val_def bottler_init_def sem_okD(1))

text \<open>C23: In every interleaving of the tasks, the main program and signals, the executor has never run
  more steps than the reader has read inputs, the writer has never written more often than a step was
  executed, and the steps of the plant's program run in the order 0 to 5, round after round.
\<close>

theorem bottler_pipeline:
  assumes "bottler_env_ok env" and "run (bottler_step env) (bottler_init env s) tr st"
  shows "times (Out Acting) tr \<le> length (rans tr) \<and> length (rans tr) \<le> times (Out Sensing) tr \<and>
    rans tr = map (\<lambda>k. k mod 6) [0..<length (rans tr)]"
proof -
  have c: "counted tr (b_at st)" "in_order (rans tr)"
    using bottler_run_inv [OF assms(2)] by (simp_all add: bottler_inv_def stepping_def)
  have "times (Pass x) tr \<le> times (Post x) tr" for x
    unfolding times_def by (rule bottler_sems.passes_le [OF assms bottler_start [OF assms(1)]])
  from this [of ReadDone] this [of ExecutionDone] show ?thesis
    using c by (auto simp: counted_def in_order_def)
qed

definition demo_bottler :: "(bottler_sem \<Rightarrow> nat) bottler_env" where
  "demo_bottler = \<lparr>rt_sem_create = rt_sem_create plain_sems, rt_sem_p = rt_sem_p plain_sems, rt_sem_v = rt_sem_v plain_sems,
     sem_value = sem_value plain_sems, b_task_start = (\<lambda>n p s. (True, s)), b_set_periodic = (\<lambda>t s. s), b_sleep = (\<lambda>n s. s),
     b_wait_period = (\<lambda>t s. s)\<rparr>"

lemma demo_bottler_ok: "bottler_env_ok demo_bottler"
  using plain_sems_ok by (simp add: bottler_env_ok_def demo_bottler_def sem_ok_def)

definition demo_bottler_schedule :: "b_actor list" where
  "demo_bottler_schedule = replicate 5 B_main @ replicate 6 (B_task Reader) @ replicate 7 (B_task Executor) @
     replicate 4 (B_task Writer) @ replicate 5 (B_task Reader) @ replicate 3 (B_task Executor) @ [B_signal]"

theorem bottler_pipeline_witness:
  "\<exists>tr st. run (bottler_step demo_bottler) (bottler_init demo_bottler (\<lambda>_. 0)) tr st \<and>
    rans tr = [0, 1] \<and> times (Out Acting) tr = 1 \<and> times (Out Sensing) tr = 2"
proof -
  let ?i = "bottler_init demo_bottler (\<lambda>_. 0)"
  have "map_option (\<lambda>(tr, st). (length (rans tr), times (Out Acting) tr, times (Out Sensing) tr))
      (schedule (bottler_step demo_bottler) demo_bottler_schedule ([], ?i)) = Some (2, 1, 2)"
    by code_simp
  then obtain tr st where r: "schedule (bottler_step demo_bottler) demo_bottler_schedule ([], ?i) = Some (tr, st)"
    "length (rans tr) = 2" "times (Out Acting) tr = 1" "times (Out Sensing) tr = 2" by auto
  have run: "run (bottler_step demo_bottler) ?i tr st" by (rule schedule_run [OF r(1) run_init])
  have "rans tr = map (\<lambda>k. k mod 6) [0..<2]" using bottler_pipeline [OF demo_bottler_ok run] r(2) by simp
  then have "rans tr = [0, 1]" by (simp add: upt_rec)
  then show ?thesis using run r(3,4) by blast
qed

end
