(* ===== verification/Test_Programs.thy ===== *)
theory Test_Programs
  imports Rt_Sem Edf_App_Frame
begin

text \<open>
  periodic_test.c and sporadic_test.c: a main program starts three tasks with deadlines, waits for
  them and disposes of the library. A task spins in sessions; the periodic ones do so in ten periods,
  and open and close the library themselves. All tasks share the variable \<open>device\<close>. A place is the
  statement a task is about to execute; a call of the library is one step. The labels of the steps
  are the sessions and the results of opening and closing; the messages are left out.
\<close>

section \<open>State and external calls\<close>

datatype test_task = T1 | T2 | T3

datatype test_actor = TTask test_task | TMain

datatype test_place = D_off | D_entry | D_init | D_for nat | D_session nat int | D_wait nat | D_dispose | D_exit

datatype test_main_place = M_create nat | M_start nat | M_join nat | M_dispose | M_return

datatype test_out = Session | Opened int | Disposed int

record 's test =
  t_at :: "test_task \<Rightarrow> test_place"
  t_descr :: "test_task \<Rightarrow> RT_TASK"
  t_main_at :: test_main_place
  t_process :: app
  t_world :: 's

text \<open>
  \<open>t_join\<close> is the result of joining a task, 0 or an error. With 0 the call returns once the task
  has ended, with an error at once.
\<close>

record 's test_env =
  t_lib :: "test_actor \<Rightarrow> 's app_env"
  t_shadow :: "char list \<Rightarrow> int \<Rightarrow> 's \<Rightarrow> 's"
  t_create :: "char list \<Rightarrow> int \<Rightarrow> RT_TASK \<Rightarrow> 's \<Rightarrow> RT_TASK \<times> 's"
  t_join :: "test_task \<Rightarrow> 's \<Rightarrow> int"
  t_set_periodic :: "test_task \<Rightarrow> u64 \<Rightarrow> 's \<Rightarrow> 's"
  t_spin :: "int \<Rightarrow> 's \<Rightarrow> 's"

type_synonym 's test_step = "((unit, test_out) event \<times> 's test) option"

definition t_go :: "test_task \<Rightarrow> test_place \<Rightarrow> 's test \<Rightarrow> 's test" where
  "t_go t x st = st\<lparr>t_at := (t_at st)(t := x)\<rparr>"

section \<open>The periodic tasks\<close>

definition NPERIODS :: nat where "NPERIODS = 10"
definition NWAIT_SESSION :: int where "NWAIT_SESSION = 5"
definition periodic_WASTE_TIME :: int where "periodic_WASTE_TIME = 300000"
definition periodic_WAIT_SESSION :: int where "periodic_WAIT_SESSION = periodic_WASTE_TIME div NWAIT_SESSION"

fun periodic_deadline :: "test_task \<Rightarrow> u64" where
  "periodic_deadline T1 = 2000000"
| "periodic_deadline T2 = 3500000"
| "periodic_deadline T3 = 2500000"

definition periodic_demo :: "'s test_env \<Rightarrow> test_task \<Rightarrow> 's test \<Rightarrow> 's test_step" where
  "periodic_demo env t st = (case t_at st t of
       D_entry \<Rightarrow> Some (Internal, t_go t D_init (st\<lparr>t_world := t_set_periodic env t (periodic_deadline t) (t_world st)\<rparr>))
     | D_init \<Rightarrow> (let (ret, p, s) = edf_init (t_lib env (TTask t)) (t_process st, t_world st)
         in Some (Out (Opened ret), t_go t (D_for 0) (st\<lparr>t_process := p, t_world := s\<rparr>)))
     | D_for k \<Rightarrow> Some (Internal, t_go t (if k < NPERIODS then D_session k 0 else D_dispose) st)
     | D_session k i \<Rightarrow>
         (if i < periodic_WASTE_TIME
          then Some (Out Session, t_go t (D_session k (i + periodic_WAIT_SESSION))
                 (st\<lparr>t_world := t_spin env periodic_WAIT_SESSION (t_world st)\<rparr>))
          else Some (Internal, t_go t (D_wait k) st))
     | D_wait k \<Rightarrow> (case edf_task_wait_period (t_lib env (TTask t)) (t_process st, t_world st) of
           None \<Rightarrow> None
         | Some (_, p, s) \<Rightarrow> Some (Internal, t_go t (D_for (k + 1)) (st\<lparr>t_process := p, t_world := s\<rparr>)))
     | D_dispose \<Rightarrow> (let (ret, p, s) = edf_dispose (t_lib env (TTask t)) (t_process st, t_world st)
         in Some (Out (Disposed ret), t_go t D_exit (st\<lparr>t_process := p, t_world := s\<rparr>)))
     | _ \<Rightarrow> None)"

section \<open>The main program\<close>

fun test_name :: "test_task \<Rightarrow> char list" where
  "test_name T1 = ''T1''" | "test_name T2 = ''T2''" | "test_name T3 = ''T3''"

definition created :: "test_task list" where "created = [T1, T2, T3]"
definition joined :: "test_task list" where "joined = [T2, T1, T3]"

text \<open>What the two files have in common; \<open>dl\<close> gives the deadlines.\<close>

fun test_main :: "(test_task \<Rightarrow> u64) \<Rightarrow> 's test_env \<Rightarrow> test_main_place \<Rightarrow> 's test \<Rightarrow> 's test_step" where
  "test_main dl env (M_create k) st =
     (if k < length created
      then let t = created ! k; (d, s) = t_create env (test_name t) 25 (t_descr st t) (t_world st)
           in Some (Internal, st\<lparr>t_descr := (t_descr st)(t := d), t_world := s, t_main_at := M_create (k + 1)\<rparr>)
      else Some (Internal, st\<lparr>t_main_at := M_start 0\<rparr>))"
| "test_main dl env (M_start k) st =
     (if k < length created
      then let t = created ! k
           in case edf_task_start (t_lib env TMain) (t_descr st t) (dl t) (t_process st, t_world st) of
                None \<Rightarrow> None
              | Some (ret, p, s) \<Rightarrow> Some (Internal, t_go t (if ret = 0 then D_entry else D_off)
                  (st\<lparr>t_process := p, t_world := s, t_main_at := M_start (k + 1)\<rparr>))
      else Some (Internal, st\<lparr>t_main_at := M_join 0\<rparr>))"
| "test_main dl env (M_join k) st =
     (if k < length joined
      then let t = joined ! k
           in if t_join env t (t_world st) \<noteq> 0 \<or> t_at st t = D_exit
              then Some (Internal, st\<lparr>t_main_at := M_join (k + 1)\<rparr>) else None
      else Some (Internal, st\<lparr>t_main_at := M_dispose\<rparr>))"
| "test_main dl env M_dispose st =
     (let (ret, p, s) = edf_dispose (t_lib env TMain) (t_process st, t_world st)
      in Some (Out (Disposed ret), st\<lparr>t_process := p, t_world := s, t_main_at := M_return\<rparr>))"
| "test_main dl env M_return st = None"

text \<open>The start of \<open>main\<close>: without the device it returns.\<close>

definition test_begin :: "'s test_env \<Rightarrow> app \<times> 's \<Rightarrow> 's test option" where
  "test_begin env ps = (let (p, s) = ps;
       (ret, p, s) = edf_init (t_lib env TMain) (p, t_shadow env ''SPAWNER'' 50 s)
     in if ret \<noteq> 0 then None
        else Some \<lparr>t_at = (\<lambda>_. D_off), t_descr = (\<lambda>_. 0), t_main_at = M_create 0, t_process = p, t_world = s\<rparr>)"

text \<open>Nothing runs after the main program has returned.\<close>

fun periodic_test :: "'s test_env \<Rightarrow> test_actor \<Rightarrow> 's test \<Rightarrow> 's test_step" where
  "periodic_test env (TTask t) st = (if t_main_at st = M_return then None else periodic_demo env t st)"
| "periodic_test env TMain st = test_main periodic_deadline env (t_main_at st) st"

section \<open>The sporadic tasks\<close>

definition sporadic_WASTE_TIME :: int where "sporadic_WASTE_TIME = 360000"
definition sporadic_WAIT_SESSION :: int where "sporadic_WAIT_SESSION = sporadic_WASTE_TIME div NWAIT_SESSION"

fun sporadic_deadline :: "test_task \<Rightarrow> u64" where
  "sporadic_deadline T1 = 200000"
| "sporadic_deadline T2 = 350000"
| "sporadic_deadline T3 = 250000"

definition sporadic_demo :: "'s test_env \<Rightarrow> test_task \<Rightarrow> 's test \<Rightarrow> 's test_step" where
  "sporadic_demo env t st = (case t_at st t of
       D_entry \<Rightarrow> Some (Internal, t_go t (D_session 0 0) st)
     | D_session k i \<Rightarrow>
         (if i < sporadic_WASTE_TIME
          then Some (Out Session, t_go t (D_session k (i + sporadic_WAIT_SESSION))
                 (st\<lparr>t_world := t_spin env sporadic_WAIT_SESSION (t_world st)\<rparr>))
          else Some (Internal, t_go t D_exit st))
     | _ \<Rightarrow> None)"

definition sporadic_main :: "'s test_env \<Rightarrow> 's test \<Rightarrow> 's test_step" where
  "sporadic_main env st = test_main sporadic_deadline env (t_main_at st) st"

fun sporadic_test :: "'s test_env \<Rightarrow> test_actor \<Rightarrow> 's test \<Rightarrow> 's test_step" where
  "sporadic_test env (TTask t) st = (if t_main_at st = M_return then None else sporadic_demo env t st)"
| "sporadic_test env TMain st = sporadic_main env st"

end
