(* ===== verification/Test_Programs_Props.thy ===== *)
theory Test_Programs_Props
  imports Test_Programs
begin

text \<open>
  What holds in every run of the test programs, whatever order the tasks run in: which descriptors
  of the device are closed, and how often the tasks spin.
\<close>

section \<open>Descriptors\<close>

text \<open>
  \<open>fds\<close> gives the open descriptors. Opening gives one that is not open, closing succeeds on an open
  one only, and no other call changes them.
\<close>

definition fds_ok :: "('s \<Rightarrow> int set) \<Rightarrow> 's test_env \<Rightarrow> bool" where
  "fds_ok fds env \<longleftrightarrow>
     (\<forall>a s fd s'. rt_dev_open (t_lib env a) s = (fd, s') \<longrightarrow>
        (if fd < 0 then fds s' = fds s else fd \<notin> fds s \<and> fds s' = insert fd (fds s))) \<and>
     (\<forall>a fd s r s'. rt_dev_close (t_lib env a) fd s = (r, s') \<longrightarrow>
        (if r = 0 then fd \<in> fds s \<and> fds s' = fds s - {fd} else fds s' = fds s)) \<and>
     (\<forall>a. calls_keep fds (t_lib env a)) \<and>
     (\<forall>n p s. fds (t_shadow env n p s) = fds s) \<and> (\<forall>n p d s. fds (snd (t_create env n p d s)) = fds s) \<and>
     (\<forall>t d s. fds (t_set_periodic env t d s) = fds s) \<and> (\<forall>n s. fds (t_spin env n s) = fds s)"

lemma fds_okD:
  assumes "fds_ok fds env"
  shows "rt_dev_open (t_lib env a) s = (fd, s') \<Longrightarrow> if fd < 0 then fds s' = fds s else fd \<notin> fds s \<and> fds s' = insert fd (fds s)"
    and "rt_dev_close (t_lib env a) fd s = (r, s') \<Longrightarrow> if r = 0 then fd \<in> fds s \<and> fds s' = fds s - {fd} else fds s' = fds s"
    and "calls_keep fds (t_lib env a)" and "fds (t_shadow env n p s) = fds s"
    and "t_create env n p d s = (d', s') \<Longrightarrow> fds s' = fds s"
    and "fds (t_set_periodic env t dl s) = fds s" and "fds (t_spin env i s) = fds s"
proof -
  note ok = assms [unfolded fds_ok_def]
  note o = ok [THEN conjunct1, rule_format] and c = ok [THEN conjunct2, THEN conjunct1, rule_format]
    and rest = ok [THEN conjunct2, THEN conjunct2]
  show "rt_dev_open (t_lib env a) s = (fd, s') \<Longrightarrow> if fd < 0 then fds s' = fds s else fd \<notin> fds s \<and> fds s' = insert fd (fds s)"
    by (rule o)
  show "rt_dev_close (t_lib env a) fd s = (r, s') \<Longrightarrow> if r = 0 then fd \<in> fds s \<and> fds s' = fds s - {fd} else fds s' = fds s"
    by (rule c)
  show "t_create env n p d s = (d', s') \<Longrightarrow> fds s' = fds s" using rest by (metis snd_conv)
qed (use assms in \<open>simp_all add: fds_ok_def\<close>)

lemma init_fds:
  assumes "fds_ok fds env" and "edf_init (t_lib env a) (p, s) = (r, p', s')"
  shows "if r = 0 then device p' \<noteq> -1 \<and> device p' \<notin> fds s \<and> fds s' = insert (device p') (fds s)
    else device p' = -1 \<and> fds s' = fds s"
proof -
  obtain fd s1 where o: "rt_dev_open (t_lib env a) s = (fd, s1)" by fastforce
  show ?thesis using fds_okD(1) [OF assms(1) o] assms(2) unfolding edf_init_def lib_calls
    by (cases "fd < 0") (clarsimp simp: o)+
qed

lemma dispose_fds:
  assumes "fds_ok fds env" and "edf_dispose (t_lib env a) (p, s) = (r, p', s')"
  shows "if r = 0 then device p \<noteq> -1 \<and> device p' = device p \<and> device p \<in> fds s \<and> fds s' = fds s - {device p}
    else device p' = -1 \<and> fds s' = fds s"
proof -
  obtain r1 s1 where c: "rt_dev_close (t_lib env a) (device p) s = (r1, s1)" by fastforce
  show ?thesis using fds_okD(2) [OF assms(1) c] assms(2) unfolding edf_dispose_def lib_calls
    by (cases "device p = -1"; cases "r1 = 0") (clarsimp simp: c)+
qed

section \<open>Who has opened the device\<close>

definition opened :: "(test_actor \<times> (unit, test_out) event) list \<Rightarrow> bool" where
  "opened tr \<longleftrightarrow> (\<exists>t r. (TTask t, Out (Opened r)) \<in> set tr)"

fun active :: "test_place \<Rightarrow> bool" where
  "active (D_for _) = True" | "active (D_session _ _) = True" | "active (D_wait _) = True"
| "active D_dispose = True" | "active _ = False"

fun not_started :: "test_main_place \<Rightarrow> (test_task \<Rightarrow> test_place) \<Rightarrow> bool" where
  "not_started (M_create _) at = (\<forall>t. at t = D_off)"
| "not_started (M_start k) at = (\<forall>j. k \<le> j \<and> j < length created \<longrightarrow> at (created ! j) = D_off)"
| "not_started _ at = True"

definition closed_first :: "(test_actor \<times> (unit, test_out) event) list \<Rightarrow> bool" where
  "closed_first tr \<longleftrightarrow> (\<exists>tr1. tr = tr1 @ [(TMain, Out (Disposed 0))] \<and> \<not> opened tr1)"

text \<open>
  The descriptor \<open>fd\<close> that the main program opened stays open unless the main program closes it
  before a task has opened the device. While \<open>device\<close> is open and a task opened it, some task is
  yet to dispose of it.
\<close>

definition held :: "('s \<Rightarrow> int set) \<Rightarrow> int \<Rightarrow> (test_actor \<times> (unit, test_out) event) list \<Rightarrow> 's test \<Rightarrow> bool" where
  "held fds fd tr st \<longleftrightarrow>
     (if closed_first tr then t_main_at st = M_return
      else fd \<in> fds (t_world st) \<and> (device (t_process st) = fd \<longrightarrow> \<not> opened tr)) \<and>
     (\<forall>t. active (t_at st t) \<longrightarrow> opened tr) \<and>
     (device (t_process st) \<noteq> -1 \<and> device (t_process st) \<in> fds (t_world st) \<and> opened tr \<longrightarrow> (\<exists>t. active (t_at st t))) \<and>
     not_started (t_main_at st) (t_at st)"

lemma opened_simps [simp]: "\<not> opened []"
    "opened (tr @ [(a, e)]) \<longleftrightarrow> opened tr \<or> (\<exists>t r. a = TTask t \<and> e = Out (Opened r))"
  by (auto simp: opened_def)

lemma closed_first_simps [simp]: "\<not> closed_first []"
    "closed_first (tr @ [(a, e)]) \<longleftrightarrow> a = TMain \<and> e = Out (Disposed 0) \<and> \<not> opened tr"
  by (auto simp: closed_first_def)

lemma t_go_simps [simp]: "t_at (t_go t x st) = (t_at st)(t := x)" "t_descr (t_go t x st) = t_descr st"
    "t_main_at (t_go t x st) = t_main_at st" "t_process (t_go t x st) = t_process st" "t_world (t_go t x st) = t_world st"
  by (simp_all add: t_go_def)

text \<open>A step of a task opens the device, disposes of it or leaves the descriptors alone.\<close>

lemma periodic_demo_step:
  assumes "fds_ok fds env" and "periodic_demo env t st = Some (e, st')"
  shows "t_main_at st' = t_main_at st \<and> (\<exists>x. t_at st' = (t_at st)(t := x) \<and> t_at st t \<noteq> D_off \<and>
    ((\<exists>r. e = Out (Opened r) \<and> active x \<and>
        edf_init (t_lib env (TTask t)) (t_process st, t_world st) = (r, t_process st', t_world st')) \<or>
     (\<exists>r. e = Out (Disposed r) \<and> active (t_at st t) \<and> x = D_exit \<and>
        edf_dispose (t_lib env (TTask t)) (t_process st, t_world st) = (r, t_process st', t_world st')) \<or>
     (\<forall>r. e \<noteq> Out (Opened r)) \<and> active x = active (t_at st t) \<and>
        device (t_process st') = device (t_process st) \<and> fds (t_world st') = fds (t_world st)))"
proof (cases "t_at st t")
  case (D_wait k)
  then show ?thesis
    using assms(2) edf_task_wait_period_frame(1) edf_task_wait_period_frame(2) [OF _ fds_okD(3) [OF assms(1)]]
    by (fastforce simp: periodic_demo_def split: option.splits prod.splits)
qed (use assms(2) in \<open>auto simp: periodic_demo_def fds_okD(6,7) [OF assms(1)] split: prod.splits if_splits\<close>)

lemma held_task:
  assumes "fds_ok fds env" and "held fds fd tr st" and fd: "fd \<noteq> -1" and "t_main_at st \<noteq> M_return" and "periodic_demo env t st = Some (e, st')"
  shows "held fds fd (tr @ [(TTask t, e)]) st'"
proof -
  obtain x where m: "t_main_at st' = t_main_at st" and x: "t_at st' = (t_at st)(t := x)" "t_at st t \<noteq> D_off"
    and c: "(\<exists>r. e = Out (Opened r) \<and> active x \<and>
        edf_init (t_lib env (TTask t)) (t_process st, t_world st) = (r, t_process st', t_world st')) \<or>
     (\<exists>r. e = Out (Disposed r) \<and> active (t_at st t) \<and> x = D_exit \<and>
        edf_dispose (t_lib env (TTask t)) (t_process st, t_world st) = (r, t_process st', t_world st')) \<or>
     (\<forall>r. e \<noteq> Out (Opened r)) \<and> active x = active (t_at st t) \<and>
        device (t_process st') = device (t_process st) \<and> fds (t_world st') = fds (t_world st)"
    using periodic_demo_step [OF assms(1,5)] by blast
  have u: "not_started (t_main_at st') (t_at st')" using assms(2) m x by (cases "t_main_at st") (auto simp: held_def)
  have f: "fd \<in> fds (t_world st)" "device (t_process st) = fd \<Longrightarrow> \<not> opened tr" "\<And>t. active (t_at st t) \<Longrightarrow> opened tr"
    "device (t_process st) \<noteq> -1 \<Longrightarrow> device (t_process st) \<in> fds (t_world st) \<Longrightarrow> opened tr \<Longrightarrow> \<exists>t. active (t_at st t)"
    using assms(2,4) by (auto simp: held_def split: if_splits)
  from c show ?thesis
  proof (elim disjE exE conjE)
    fix r assume e: "e = Out (Opened r)" "active x"
      and "edf_init (t_lib env (TTask t)) (t_process st, t_world st) = (r, t_process st', t_world st')"
    from init_fds [OF assms(1) this(3)] have "fd \<in> fds (t_world st')" "device (t_process st') \<noteq> fd \<or> fd = -1"
      using f(1) by (auto split: if_splits)
    moreover have "opened (tr @ [(TTask t, e)])" using e by simp
    moreover have "\<exists>t. active (t_at st' t)" using e x by auto
    ultimately show ?thesis using u m fd by (simp add: held_def)
  next
    fix r assume e: "e = Out (Disposed r)" "active (t_at st t)" "x = D_exit"
      and dis: "edf_dispose (t_lib env (TTask t)) (t_process st, t_world st) = (r, t_process st', t_world st')"
    have o: "opened tr" using e f(3) by simp
    from dispose_fds [OF assms(1) dis] have "fd \<in> fds (t_world st')" "device (t_process st') \<noteq> fd \<or> fd = -1"
        "device (t_process st') = -1 \<or> device (t_process st') \<notin> fds (t_world st')"
      using f(1,2) o by (auto split: if_splits)
    then show ?thesis using u m o fd e x by (auto simp: held_def)
  next
    assume e: "\<forall>r. e \<noteq> Out (Opened r)" "active x = active (t_at st t)"
      and d: "device (t_process st') = device (t_process st)" "fds (t_world st') = fds (t_world st)"
    have o: "opened (tr @ [(TTask t, e)]) = opened tr" using e by simp
    have a: "active (t_at st' t') = active (t_at st t')" for t' using e x by simp
    show ?thesis using f u unfolding held_def o a d by simp
  qed
qed

lemma not_started_first: "not_started (M_start k) at \<Longrightarrow> k < length created \<Longrightarrow> at (created ! k) = D_off"
  by simp

lemma not_started_next:
  assumes "not_started (M_start k) at" and "k < length created"
  shows "not_started (M_start (k + 1)) (at(created ! k := x))"
proof -
  have "distinct created" by (simp add: created_def)
  then have "created ! j \<noteq> created ! k" if "k + 1 \<le> j" "j < length created" for j
    using that assms(2) by (simp add: nth_eq_iff_index_eq)
  then show ?thesis using assms(1) by simp
qed

lemma held_main:
  assumes ok: "fds_ok fds env" and "held fds fd tr st" and "test_main dl env (t_main_at st) st = Some (e, st')"
    and fd: "fd \<noteq> -1"
  shows "held fds fd (tr @ [(TMain, e)]) st'"
proof (cases "t_main_at st")
  case (M_create k)
  then show ?thesis using assms(2,3) fds_okD(5) [OF ok]
    by (auto simp: held_def Let_def split: if_splits prod.splits)
next
  case (M_start k)
  show ?thesis
  proof (cases "k < length created")
    case False
    then show ?thesis using assms(2,3) M_start by (auto simp: held_def split: if_splits)
  next
    case True
    let ?t = "created ! k"
    obtain ret p s where r: "edf_task_start (t_lib env TMain) (t_descr st ?t) (dl ?t) (t_process st, t_world st) = Some (ret, p, s)"
      and e: "e = Internal" and st': "st' = t_go ?t (if ret = 0 then D_entry else D_off)
          (st\<lparr>t_process := p, t_world := s, t_main_at := M_start (k + 1)\<rparr>)"
      using assms(3) True M_start by (auto simp: Let_def split: option.splits)
    have d: "device (t_process st') = device (t_process st)" "fds (t_world st') = fds (t_world st)"
      using edf_task_start_frame(1) [OF r] edf_task_start_frame(2) [OF r fds_okD(3) [OF ok]] by (simp_all add: st')
    have u: "not_started (M_start k) (t_at st)" using assms(2) M_start by (simp add: held_def)
    have a: "active (t_at st' t) = active (t_at st t)" for t using not_started_first [OF u True] by (simp add: st')
    have n: "not_started (t_main_at st') (t_at st')" using not_started_next [OF u True] by (simp add: st')
    have "t_main_at st \<noteq> M_return" using M_start by simp
    then show ?thesis using assms(2) n e unfolding held_def a d by (simp split: if_splits)
  qed
next
  case (M_join k)
  then show ?thesis using assms(2,3) by (auto simp: held_def Let_def split: if_splits)
next
  case M_dispose
  then obtain r where e: "e = Out (Disposed r)" and st': "t_at st' = t_at st" "t_main_at st' = M_return"
    and dis: "edf_dispose (t_lib env TMain) (t_process st, t_world st) = (r, t_process st', t_world st')"
    using assms(3) by (auto split: prod.splits)
  have f: "fd \<in> fds (t_world st)" "device (t_process st) = fd \<Longrightarrow> \<not> opened tr"
    using assms(2) M_dispose by (auto simp: held_def split: if_splits)
  from dispose_fds [OF ok dis] have "device (t_process st') = -1 \<or> device (t_process st') \<notin> fds (t_world st')"
    "r = 0 \<Longrightarrow> fd \<in> fds (t_world st') \<and> device (t_process st') \<noteq> fd \<or> \<not> opened tr"
    "r \<noteq> 0 \<Longrightarrow> fd \<in> fds (t_world st') \<and> device (t_process st') = -1"
    using f by (auto split: if_splits)
  then show ?thesis using assms(2) f e st' fd by (auto simp: held_def)
qed (use assms(3) in simp)

lemma held_begin:
  assumes "fds_ok fds env" and "test_begin env (p, s) = Some st"
  shows "held fds (device (t_process st)) [] st \<and> device (t_process st) \<noteq> -1"
proof -
  obtain r p' s' where i: "edf_init (t_lib env TMain) (p, t_shadow env ''SPAWNER'' 50 s) = (r, p', s')" by (metis prod_cases3)
  then have "r = 0" and st: "st = \<lparr>t_at = (\<lambda>_. D_off), t_descr = (\<lambda>_. 0), t_main_at = M_create 0, t_process = p', t_world = s'\<rparr>"
    using assms(2) by (auto simp: test_begin_def split: if_splits)
  then show ?thesis using init_fds [OF assms(1) i] by (simp add: held_def)
qed

lemma held_run:
  assumes "fds_ok fds env" and "test_begin env ps = Some st0" and "run (periodic_test env) st0 tr st"
  shows "held fds (device (t_process st0)) tr st"
proof -
  have b: "held fds (device (t_process st0)) [] st0" "device (t_process st0) \<noteq> -1"
    using held_begin [OF assms(1)] assms(2) by (cases ps; simp)+
  show ?thesis
    using assms(3) b(1)
  proof (rule run_invariant)
    fix tr st1 a e st2
    assume "held fds (device (t_process st0)) tr st1" "periodic_test env a st1 = Some (e, st2)"
    then show "held fds (device (t_process st0)) (tr @ [(a, e)]) st2"
      using held_main [OF assms(1) _ _ b(2)] held_task [OF assms(1) _ b(2)] by (cases a) (auto split: if_splits)
  qed
qed

text \<open>C22: In every run of periodic_test the descriptor that the main program opened stays open, unless
  the main program disposes of the library before any task has opened the device. When a task has
  opened it, a disposal by the main program can succeed only while a task is still running, that is
  when joining it failed: after all tasks have ended it fails, because \<open>device\<close> then is the descriptor
  a task has already closed.\<close>

theorem periodic_disposal:
  assumes "fds_ok fds env" and "test_begin env ps = Some st0" and "run (periodic_test env) st0 tr st"
  shows "(device (t_process st0) \<in> fds (t_world st) \<or> closed_first tr) \<and>
    (\<forall>tr1. tr = tr1 @ [(TMain, Out (Disposed 0))] \<and> opened tr1 \<longrightarrow> (\<exists>t. active (t_at st t)))"
proof (intro conjI allI impI)
  show "device (t_process st0) \<in> fds (t_world st) \<or> closed_first tr"
    using held_run [OF assms] by (auto simp: held_def split: if_splits)
  fix tr1 assume tr: "tr = tr1 @ [(TMain, Out (Disposed 0))] \<and> opened tr1"
  then obtain st1 where st1: "run (periodic_test env) st0 tr1 st1" "periodic_test env TMain st1 = Some (Out (Disposed 0), st)"
    using assms(3) by (auto elim: run_snocE)
  then have m: "t_main_at st1 = M_dispose" "t_at st = t_at st1"
    and dis: "edf_dispose (t_lib env TMain) (t_process st1, t_world st1) = (0, t_process st, t_world st)"
    by (cases "t_main_at st1"; auto simp: Let_def split: if_splits prod.splits option.splits)+
  show "\<exists>t. active (t_at st t)"
    using held_run [OF assms(1,2) st1(1)] dispose_fds [OF assms(1) dis] tr m(2) by (simp add: held_def)
qed

section \<open>A complete run\<close>

text \<open>The system: the open descriptors and the next one.\<close>

definition test_lib :: "(int list \<times> nat) app_env" where
  "test_lib = \<lparr>rt_dev_open = (\<lambda>(xs, n). (int n, int n # xs, n + 1)),
     rt_dev_close = (\<lambda>fd (xs, n). if fd \<in> set xs \<and> fd < int n then (0, removeAll fd xs, n) else (-9, xs, n)),
     rt_dev_write = (\<lambda>fd m n s. Some (n, s)),
     app_inquire = (\<lambda>s t. Inr \<lparr>ti_name = [CHR ''T'', CHR 0x00], ti_cprio = 25\<rparr>),
     rt_task_self = (\<lambda>s. Some 1), rt_task_wait_period = (\<lambda>s. (0, s)), rt_task_start = (\<lambda>t s. (0, s)),
     malloc = (\<lambda>bs. Some 1), raw_app_message = (\<lambda>s. \<lparr>command = 77, msg_task = replicate 25 CHR ''#'', msg_deadline = 7\<rparr>)\<rparr>"

definition test_system :: "(int list \<times> nat) test_env" where
  "test_system = \<lparr>t_lib = (\<lambda>a. test_lib), t_shadow = (\<lambda>n p s. s), t_create = (\<lambda>n p d s. (1, s)), t_join = (\<lambda>t s. 0),
     t_set_periodic = (\<lambda>t d s. s), t_spin = (\<lambda>n s. s)\<rparr>"

definition test_schedule :: "test_actor list" where
  "test_schedule = replicate 8 TMain @ concat (map (\<lambda>t. replicate 84 (TTask t)) [T2, T3, T1]) @ replicate 5 TMain"

theorem periodic_disposal_witness:
  "\<exists>st0 tr st. run (periodic_test test_system) st0 tr st \<and> last tr = (TMain, Out (Disposed (-2))) \<and>
    t_main_at st = M_return \<and> device (t_process st0) = 3 \<and> 3 \<in> set (fst (t_world st))"
proof -
  let ?ps = "(\<lparr>device = -1, umem = []\<rparr>, [], 3)"
  have "map_option (\<lambda>st. map_option (\<lambda>(tr, st'). (last tr, t_main_at st', device (t_process st)))
      (schedule (periodic_test test_system) test_schedule ([], st))) (test_begin test_system ?ps) =
    Some (Some ((TMain, Out (Disposed (-2))), M_return, 3))"
    by code_simp
  then obtain st0 tr st where b: "test_begin test_system ?ps = Some st0" "device (t_process st0) = 3"
    and r: "schedule (periodic_test test_system) test_schedule ([], st0) = Some (tr, st)" "last tr = (TMain, Out (Disposed (-2)))"
      "t_main_at st = M_return"
    by (auto simp: map_option_case split: option.splits prod.splits)
  have ok: "fds_ok (\<lambda>(xs, n). set xs \<inter> {..<int n}) test_system"
    by (auto simp: fds_ok_def calls_keep_def test_system_def test_lib_def split: if_splits)
  have run: "run (periodic_test test_system) st0 tr st" by (rule schedule_run [OF r(1) run_init])
  have "\<not> closed_first tr" using r(2) by (auto simp: closed_first_def)
  then have "3 \<in> set (fst (t_world st))" using periodic_disposal [OF ok b(1) run] b(2) by (cases "t_world st") simp
  then show ?thesis using run r(2,3) b(2) by blast
qed

section \<open>The tasks end\<close>

text \<open>The steps of the main program up to a place, and the steps of a run by their actors.\<close>

fun main_steps :: "test_main_place \<Rightarrow> nat" where
  "main_steps (M_create k) = k" | "main_steps (M_start k) = 4 + k" | "main_steps (M_join k) = 8 + k"
| "main_steps M_dispose = 12" | "main_steps M_return = 13"

fun main_valid :: "test_main_place \<Rightarrow> bool" where
  "main_valid (M_create k) = (k \<le> 3)" | "main_valid (M_start k) = (k \<le> 3)" | "main_valid (M_join k) = (k \<le> 3)"
| "main_valid _ = True"

lemma main_valid_steps: "main_valid m \<Longrightarrow> main_steps m \<le> 13"
  by (cases m) simp_all

lemma by_actor: "length tr = length (filter (\<lambda>x. fst x = TMain) tr) + (length (filter (\<lambda>x. fst x = TTask T1) tr) +
    length (filter (\<lambda>x. fst x = TTask T2) tr) + length (filter (\<lambda>x. fst x = TTask T3) tr))"
proof (induction tr)
  case (Cons x tr)
  then show ?case by (cases "fst x"; cases "\<exists>t. fst x = TTask t") (auto intro: test_task.exhaust)
qed simp

text \<open>
  What both programs need of their tasks: a step is one more of \<open>total\<close>, and \<open>spun\<close> counts the
  sessions among them.
\<close>

locale test_tasks =
  fixes program :: "'s test_env \<Rightarrow> test_actor \<Rightarrow> 's test \<Rightarrow> 's test_step"
    and demo :: "'s test_env \<Rightarrow> test_task \<Rightarrow> 's test \<Rightarrow> 's test_step"
    and dl :: "test_task \<Rightarrow> u64" and valid :: "test_place \<Rightarrow> bool"
    and steps :: "test_place \<Rightarrow> nat" and spun :: "test_place \<Rightarrow> nat" and total :: nat
  assumes program: "program env (TTask t) st = (if t_main_at st = M_return then None else demo env t st)"
      "program env TMain st = test_main dl env (t_main_at st) st"
    and start: "valid D_off" "valid D_entry" "steps D_off = 0" "steps D_entry = 0" "spun D_off = 0" "spun D_entry = 0"
    and demo_step: "demo env t st = Some (e, st') \<Longrightarrow> valid (t_at st t) \<Longrightarrow>
      t_main_at st' = t_main_at st \<and> (\<exists>x. t_at st' = (t_at st)(t := x) \<and> t_at st t \<noteq> D_off \<and> valid x \<and>
        steps x = steps (t_at st t) + 1 \<and> spun x = spun (t_at st t) + (if e = Out Session then 1 else 0))"
    and bound: "valid x \<Longrightarrow> steps x \<le> total"
begin

definition counts :: "(test_actor \<times> (unit, test_out) event) list \<Rightarrow> 's test \<Rightarrow> bool" where
  "counts tr st \<longleftrightarrow> not_started (t_main_at st) (t_at st) \<and>
     length (filter (\<lambda>x. fst x = TMain) tr) = main_steps (t_main_at st) \<and> main_valid (t_main_at st) \<and>
     (\<forall>t. valid (t_at st t) \<and> length (filter (\<lambda>x. fst x = TTask t) tr) = steps (t_at st t) \<and>
        count_list tr (TTask t, Out Session) = spun (t_at st t))"

lemma counts_task:
  assumes "counts tr st" and "demo env t st = Some (e, st')"
  shows "counts (tr @ [(TTask t, e)]) st'"
proof -
  obtain x where m: "t_main_at st' = t_main_at st" and x: "t_at st' = (t_at st)(t := x)" "t_at st t \<noteq> D_off" "valid x"
    "steps x = steps (t_at st t) + 1" "spun x = spun (t_at st t) + (if e = Out Session then 1 else 0)"
    using demo_step [OF assms(2)] assms(1) by (auto simp: counts_def)
  have "not_started (t_main_at st') (t_at st')" using assms(1) m x by (cases "t_main_at st") (auto simp: counts_def)
  then show ?thesis using assms(1) m x by (auto simp: counts_def)
qed

lemma counts_main:
  assumes "counts tr st" and "test_main dl env (t_main_at st) st = Some (e, st')"
  shows "counts (tr @ [(TMain, e)]) st'"
proof -
  have l: "length created = 3" "length joined = 3" by (simp_all add: created_def joined_def)
  show ?thesis
  proof (cases "t_main_at st")
    case (M_start k)
    show ?thesis
    proof (cases "k < length created")
      case True
      let ?t = "created ! k"
      have u: "not_started (M_start k) (t_at st)" using assms(1) M_start by (simp add: counts_def)
      obtain ret :: int where r: "t_at st' = (t_at st)(?t := if ret = 0 then D_entry else D_off)" "t_main_at st' = M_start (k + 1)" "e = Internal"
        using assms(2) True M_start by (auto simp: Let_def split: option.splits)
      define x where "x = (if ret = 0 then D_entry else D_off)"
      have x: "x \<in> {D_off, D_entry}" "t_at st' = (t_at st)(?t := x)" using r(1) by (simp_all add: x_def)
      then show ?thesis
        using assms(1) r(2,3) not_started_next [OF u True, of x] not_started_first [OF u True] M_start True start l
        by (auto simp: counts_def simp del: not_started.simps)
    qed (use assms M_start l in \<open>auto simp: counts_def\<close>)
  qed (use assms l in \<open>auto simp: counts_def Let_def split: if_splits prod.splits\<close>)
qed

lemma run_counts:
  assumes "test_begin env ps = Some st0" and "run (program env) st0 tr st"
  shows "counts tr st"
  using assms(2)
proof (rule run_invariant)
  show "counts [] st0" using assms(1) start by (auto simp: test_begin_def counts_def split: if_splits prod.splits)
  fix tr st1 a e st2
  assume "counts tr st1" "program env a st1 = Some (e, st2)"
  then show "counts (tr @ [(a, e)]) st2"
    using counts_main counts_task by (cases a) (auto simp: program split: if_splits)
qed

lemma run_ends:
  assumes "test_begin env ps = Some st0" and "run (program env) st0 tr st"
  shows "length tr \<le> 13 + 3 * total" and "count_list tr (TTask t, Out Session) = spun (t_at st t)"
proof -
  have c: "counts tr st" by (rule run_counts [OF assms])
  have t: "length (filter (\<lambda>x. fst x = TTask t) tr) \<le> total" for t using c bound by (simp add: counts_def)
  have "length (filter (\<lambda>x. fst x = TMain) tr) \<le> 13" using c main_valid_steps by (simp add: counts_def)
  then show "length tr \<le> 13 + 3 * total" using t [of T1] t [of T2] t [of T3] unfolding by_actor [of tr] by linarith
  show "count_list tr (TTask t, Out Session) = spun (t_at st t)" using c by (simp add: counts_def)
qed

end

section \<open>Both programs are such\<close>

fun periodic_valid :: "test_place \<Rightarrow> bool" where
  "periodic_valid (D_for k) = (k \<le> 10)"
| "periodic_valid (D_session k i) = (k < 10 \<and> i \<in> {0, 60000, 120000, 180000, 240000, 300000})"
| "periodic_valid (D_wait k) = (k < 10)"
| "periodic_valid _ = True"

fun periodic_spun :: "test_place \<Rightarrow> nat" where
  "periodic_spun (D_for k) = 5 * k" | "periodic_spun (D_session k i) = 5 * k + nat (i div 60000)"
| "periodic_spun (D_wait k) = 5 * k + 5" | "periodic_spun D_dispose = 50" | "periodic_spun D_exit = 50"
| "periodic_spun _ = 0"

fun periodic_steps :: "test_place \<Rightarrow> nat" where
  "periodic_steps D_init = 1" | "periodic_steps (D_for k) = 2 + 8 * k"
| "periodic_steps (D_session k i) = 3 + 8 * k + nat (i div 60000)" | "periodic_steps (D_wait k) = 9 + 8 * k"
| "periodic_steps D_dispose = 83" | "periodic_steps D_exit = 84" | "periodic_steps _ = 0"

interpretation periodic: test_tasks periodic_test periodic_demo periodic_deadline periodic_valid periodic_steps periodic_spun 84
proof unfold_locales
  fix env :: "'s test_env" and t and st :: "'s test" and e st'
  assume "periodic_demo env t st = Some (e, st')" "periodic_valid (t_at st t)"
  then show "t_main_at st' = t_main_at st \<and> (\<exists>x. t_at st' = (t_at st)(t := x) \<and> t_at st t \<noteq> D_off \<and> periodic_valid x \<and>
      periodic_steps x = periodic_steps (t_at st t) + 1 \<and>
      periodic_spun x = periodic_spun (t_at st t) + (if e = Out Session then 1 else 0))"
    by (cases "t_at st t")
       (auto simp: periodic_demo_def NPERIODS_def periodic_WASTE_TIME_def periodic_WAIT_SESSION_def NWAIT_SESSION_def
         split: prod.splits option.splits if_splits)
next
  fix x assume "periodic_valid x" then show "periodic_steps x \<le> 84" by (cases x) auto
qed simp_all

fun sporadic_valid :: "test_place \<Rightarrow> bool" where
  "sporadic_valid (D_session k i) = (i \<in> {0, 72000, 144000, 216000, 288000, 360000})"
| "sporadic_valid x = (x \<in> {D_off, D_entry, D_exit})"

fun sporadic_spun :: "test_place \<Rightarrow> nat" where
  "sporadic_spun (D_session k i) = nat (i div 72000)" | "sporadic_spun D_exit = 5" | "sporadic_spun _ = 0"

fun sporadic_steps :: "test_place \<Rightarrow> nat" where
  "sporadic_steps (D_session k i) = 1 + nat (i div 72000)" | "sporadic_steps D_exit = 7" | "sporadic_steps _ = 0"

interpretation sporadic: test_tasks sporadic_test sporadic_demo sporadic_deadline sporadic_valid sporadic_steps sporadic_spun 7
proof unfold_locales
  fix env :: "'s test_env" and t and st :: "'s test" and e st'
  assume "sporadic_demo env t st = Some (e, st')" "sporadic_valid (t_at st t)"
  then show "t_main_at st' = t_main_at st \<and> (\<exists>x. t_at st' = (t_at st)(t := x) \<and> t_at st t \<noteq> D_off \<and> sporadic_valid x \<and>
      sporadic_steps x = sporadic_steps (t_at st t) + 1 \<and>
      sporadic_spun x = sporadic_spun (t_at st t) + (if e = Out Session then 1 else 0))"
    by (cases "t_at st t")
       (auto simp: sporadic_demo_def sporadic_WASTE_TIME_def sporadic_WAIT_SESSION_def NWAIT_SESSION_def split: if_splits)
next
  fix x assume "sporadic_valid x" then show "sporadic_steps x \<le> 7" by (cases x) auto
qed (simp_all add: sporadic_main_def)



end
