(* ===== verification/Exercise_Example1.thy ===== *)
theory Exercise_Example1
  imports Rt_Sem Edf_App
begin

text \<open>
  exercise-edfomai/example1.c: a main program starts three periodic tasks with deadlines and pauses;
  each task spins and waits for its next period, for ever. A place is the statement that is executed
  next; a call of the library is one step.
\<close>

section \<open>State and external calls\<close>

datatype example1_actor = ETask nat | EMain

datatype example1_place = E_off | E_entry | E_spin | E_wait

datatype example1_main_place = EM_for nat | EM_pause

record 's example1 =
  e_at :: "nat \<Rightarrow> example1_place"
  e_main_at :: example1_main_place
  demo_task :: RT_TASK
  e_process :: app
  e_world :: 's

record 's example1_env =
  e_lib :: "example1_actor \<Rightarrow> 's app_env"
  e_create :: "char list \<Rightarrow> int \<Rightarrow> RT_TASK \<Rightarrow> 's \<Rightarrow> RT_TASK \<times> 's"
  e_set_periodic :: "nat \<Rightarrow> u64 \<Rightarrow> 's \<Rightarrow> 's"
  e_timer_spin :: "u64 \<Rightarrow> 's \<Rightarrow> 's"

type_synonym 's example1_step = "((unit, unit) event \<times> 's example1) option"

section \<open>The tasks\<close>

text \<open>Period, busy time and deadline of each task; \<open>p\<close> is the unit of the first two in nanoseconds.\<close>

definition periods :: "u64 list list" where
  "periods = [[8, 2, 8], [16, 3, 16], [12, 5, 12]]"

definition time_p :: u64 where "time_p = 100000000"

definition e_go :: "nat \<Rightarrow> example1_place \<Rightarrow> 's example1 \<Rightarrow> 's example1" where
  "e_go k x st = st\<lparr>e_at := (e_at st)(k := x)\<rparr>"

definition example1_demo :: "'s example1_env \<Rightarrow> nat \<Rightarrow> 's example1 \<Rightarrow> 's example1_step" where
  "example1_demo env k st = (case e_at st k of
       E_off \<Rightarrow> None
     | E_entry \<Rightarrow> Some (Internal, e_go k E_spin (st\<lparr>e_world := e_set_periodic env k (periods ! k ! 0 * time_p) (e_world st)\<rparr>))
     | E_spin \<Rightarrow> Some (Internal, e_go k E_wait (st\<lparr>e_world := e_timer_spin env (periods ! k ! 1 * time_p) (e_world st)\<rparr>))
     | E_wait \<Rightarrow> (case edf_task_wait_period (e_lib env (ETask k)) (e_process st, e_world st) of
           None \<Rightarrow> None
         | Some (_, p, s) \<Rightarrow> Some (Internal, e_go k E_spin (st\<lparr>e_process := p, e_world := s\<rparr>))))"

section \<open>The main program\<close>

text \<open>\<open>sprintf(str,"Task-%d",i)\<close>, for one digit.\<close>

definition example1_name :: "nat \<Rightarrow> char list" where
  "example1_name i = ''Task-'' @ [char_of (48 + i)]"

definition example1_start :: "'s example1_env \<Rightarrow> nat \<Rightarrow> 's example1 \<Rightarrow> 's example1 option" where
  "example1_start env i st =
     (let (d, s) = e_create env (example1_name i) 50 (demo_task st) (e_world st)
      in case edf_task_start (e_lib env EMain) d (periods ! i ! 2) (e_process st, s) of
           None \<Rightarrow> None
         | Some (ret, p, s) \<Rightarrow> Some (e_go i (if ret = 0 then E_entry else E_off)
             (st\<lparr>demo_task := d, e_process := p, e_world := s\<rparr>)))"

fun example1_main :: "'s example1_env \<Rightarrow> example1_main_place \<Rightarrow> 's example1 \<Rightarrow> 's example1_step" where
  "example1_main env (EM_for i) st =
     (if i < 3 then map_option (\<lambda>st. (Internal, st\<lparr>e_main_at := EM_for (i + 1)\<rparr>)) (example1_start env i st)
      else Some (Internal, st\<lparr>e_main_at := EM_pause\<rparr>))"
| "example1_main env EM_pause st = None"

fun example1_step :: "'s example1_env \<Rightarrow> example1_actor \<Rightarrow> 's example1 \<Rightarrow> 's example1_step" where
  "example1_step env (ETask k) st = example1_demo env k st"
| "example1_step env EMain st = example1_main env (e_main_at st) st"

text \<open>The result of \<open>edf_init\<close> is dropped.\<close>

definition example1_begin :: "'s example1_env \<Rightarrow> app \<times> 's \<Rightarrow> 's example1" where
  "example1_begin env ps = (let (_, p, s) = edf_init (e_lib env EMain) ps
     in \<lparr>e_at = (\<lambda>_. E_off), e_main_at = EM_for 0, demo_task = 0, e_process = p, e_world = s\<rparr>)"

end
