(* ===== verification/Edf_Contract.thy ===== *)
theory Edf_Contract
  imports Edf_App_Correct
begin

text \<open>
  Which tasks are registered, and with which relative deadlines: what the operations, the messages
  of the library and the module's own steps do to this part of the table.
\<close>

section \<open>The operations\<close>

definition contract :: "tasks \<Rightarrow> (RT_TASK option \<times> u64) list" where
  "contract ts = map (\<lambda>(a, d). (task d, relative_deadline d)) ts"

lemma contract_simps [simp]: "contract [] = []" "contract ((a, d) # ts) = (task d, relative_deadline d) # contract ts"
    "contract (ts @ ts') = contract ts @ contract ts'"
  by (simp_all add: contract_def)

lemma contract_upd [simp]:
  "(\<And>d. task (f d) = task d \<and> relative_deadline (f d) = relative_deadline d) \<Longrightarrow> contract (upd a f ts) = contract ts"
  by (induction ts) (auto simp: upd_def)

lemma contract_refresh_all: "contract (refresh_all env now h ts) = contract ts"
  by (induction env now h ts rule: refresh_all.induct) (auto simp: refresh_def)

lemma contract_recalc [simp]: "contract (fst (recalc_spec env (ts, h))) = contract ts"
proof -
  have "contract (map (\<lambda>(a, d). (a, settle d)) us) = contract us" for us
    by (induction us) (auto simp: settle_def)
  then show ?thesis by (simp add: recalc_spec_def Let_def contract_refresh_all)
qed

text \<open>No operation changes it but those that create, delete or set a deadline.\<close>

fun contract_kept :: "dtask_op \<Rightarrow> bool" where
  "contract_kept Recalculateprio = True" | "contract_kept (Updateinfo t) = True" | "contract_kept (Goingwaitp t) = True"
| "contract_kept (Stopwatchdog t) = True" | "contract_kept (Resetdeadline t) = True" | "contract_kept _ = False"

lemma contract_goingwaitp: "contract (fst (snd (goingwaitp_spec env t (ts, h)))) = contract ts"
  by (simp add: goingwaitp_spec_def close_with_def Let_def set_waiting_def split: option.split)

lemma contract_quiet:
  assumes "contract_kept c"
  shows "contract (fst (snd (op_spec env c (ts, h)))) = contract ts"
proof (cases c)
  case (Stopwatchdog t)
  then show ?thesis
    by (simp add: contract_goingwaitp stopwatchdog_spec_def close_with_def Let_def case_prod_unfold split: option.split)
qed (use assms in \<open>auto simp: contract_goingwaitp updateinfo_spec_def resetdeadline_spec_def close_with_def Let_def arm_def
    case_prod_unfold split: option.split\<close>)

lemma find_contract:
  assumes "tasks_ok env (ts, h)" and "\<forall>t\<in>fst ` set (contract ts). c_str (rname env (the t)) \<noteq> k"
  shows "find_task k ts = None"
  unfolding find_task_None
proof clarify
  fix a d assume "(a, d) \<in> set ts" "k = c_str (dname d)"
  moreover from this obtain t where "task d = Some t" "c_str (dname d) = c_str (rname env t)"
    using tasks_ok_member [OF assms(1)] by blast
  ultimately show False using assms(2) by (force simp: contract_def)
qed

lemma contract_create:
  assumes "xeno_ok env" and "task_ready env t" and "tasks_ok env (ts, h)"
    and "\<forall>u\<in>fst ` set (contract ts). c_str (rname env (the u)) \<noteq> c_str (rname env t)"
  shows "contract (fst (snd (create_spec env t dl (ts, h)))) = contract ts @ [(Some t, dl)]"
  using find_contract [OF assms(3,4)] new_dtask_name [OF assms(1,2)]
  by (simp add: create_spec_def Let_def new_dtask_fields)

section \<open>Messages of the library\<close>

lemma effect_quiet:
  assumes "command msg \<in> {EDFCommand_val STOP_WATCHD, EDFCommand_val RESET_DEADLINE}"
  shows "contract (fst (user_effect (kenv, place) msg a)) = contract (fst a)"
proof -
  obtain ts h where a: "a = (ts, h)" by (cases a)
  show ?thesis
  proof (cases "addressee kenv msg h")
    case (Some t)
    obtain c where "msg_op msg t = Some c" "contract_kept c" using assms by (auto simp: msg_op_def)
    then show ?thesis using contract_quiet [of c kenv ts] Some a by (simp add: msg_spec_def case_prod_unfold Let_def)
  qed (simp add: a)
qed

lemma effect_create:
  assumes "drv_env_ok kenv" and "tasks_ok kenv (ts, h)" and "command msg = EDFCommand_val CREATE_TASK"
    and "addressee kenv msg h = Some t"
    and "\<forall>u\<in>fst ` set (contract ts). c_str (rname kenv (the u)) \<noteq> c_str (rname kenv t)"
  shows "contract (fst (user_effect (kenv, place) msg (ts, h))) = contract ts @ [(Some t, msg_deadline msg)]"
proof -
  let ?b = "info_block kenv h"
  have x: "xeno_ok kenv" using assms(1) by (simp add: drv_env_ok_def)
  have "?b \<notin> set (live h)" using xeno_ok_malloc [OF x, of h] by auto
  then have "tasks_ok kenv (ts, h @ [Malloc ?b, Lock_get])" by (intro tasks_ok_more [OF assms(2)]) simp_all
  from contract_create [OF x registered_ready [OF assms(1)] this assms(5)] assms(4)
  have "contract (fst (snd (create_spec kenv t (msg_deadline msg) (ts, h @ [Malloc ?b, Lock_get])))) =
    contract ts @ [(Some t, msg_deadline msg)]" by simp
  then show ?thesis using assms(3,4) by (simp add: msg_spec_def msg_op_def case_prod_unfold Let_def)
qed

section \<open>Steps of the module\<close>

text \<open>The module's own steps are all but the messages and the deletion of a task.\<close>

fun own :: "drv_event \<Rightarrow> bool" where
  "own (Write buf nbyte) = False" | "own (Delete_task cookie) = False" | "own _ = True"

definition registers :: "'x drv_env_scheme \<Rightarrow> 'm drv_scheme \<Rightarrow> (RT_TASK option \<times> u64) list \<Rightarrow> bool" where
  "registers kenv s c \<longleftrightarrow> (\<exists>ts. edf_state kenv s ts \<and> contract ts = c)"

lemma own_step:
  assumes "xeno_ok kenv" and "registers kenv s c" and "own ev" and "drv_exec kenv ev s = Some s'"
  shows "registers kenv s' c"
proof -
  obtain ts where ts: "edf_state kenv s ts" "contract ts = c" using assms(2) by (auto simp: registers_def)
  show ?thesis
  proof (cases "ev = Service \<and> edf_svc s = Some Svc_recalc")
    case True
    obtain s1 where "rt_dtask_recalculateprio kenv s = Some (0, s1)" "edf_state kenv s1 (fst (recalc_spec kenv (ts, calls s)))"
      using op_run_more [OF assms(1) ts(1), of Recalculateprio] by auto
    then show ?thesis using True assms(4) ts(2) by (auto simp: registers_def edf_service_def intro!: exI)
  next
    case False
    then have "edf_state kenv s' ts" using ts(1) assms(3,4)
      by (cases ev) (auto simp: edf_rtdm_read_nrt_def edf_rtdm_open_nrt_def edf_rtdm_close_nrt_def edf_startswitch_hook_def
          edf_service_def mtx_acquire_def mtx_release_def split: option.splits svc_pc.splits if_splits)
    then show ?thesis using ts(2) by (auto simp: registers_def)
  qed
qed

end
