(* ===== verification/Exercise_Example1_Props.thy ===== *)
theory Exercise_Example1_Props
  imports Exercise_Example1 Edf_Contract Edf_App_Frame Edf_App_Props
begin

text \<open>
  The program example1.c over the library and the kernel module: in every interleaving of the main
  program, the tasks and the module's own steps, the table holds the tasks started so far with the
  deadlines they were given.
\<close>

section \<open>The program over the module\<close>

text \<open>A step of the module's own: the service, the start hook, opening, closing or reading.\<close>

inductive module_runs :: "'x drv_env_scheme \<Rightarrow> 'm drv_scheme \<Rightarrow> 'm drv_scheme \<Rightarrow> bool" for kenv where
  stay: "module_runs kenv s s"
| go_on: "module_runs kenv s s1 \<Longrightarrow> own ev \<Longrightarrow> drv_exec kenv ev s1 = Some s2 \<Longrightarrow> module_runs kenv s s2"

datatype system_actor = Prog example1_actor | Module drv_event

text \<open>A call of the library waits for the module's lock.\<close>

fun calls_module :: "example1_actor \<Rightarrow> 's example1 \<Rightarrow> bool" where
  "calls_module (ETask k) st = (e_at st k = E_wait)"
| "calls_module EMain st = (e_main_at st \<noteq> EM_pause)"

fun example1_system :: "'x drv_env_scheme \<Rightarrow> 'm drv_scheme example1_env \<Rightarrow> system_actor \<Rightarrow> 'm drv_scheme example1 \<Rightarrow>
    'm drv_scheme example1_step" where
  "example1_system kenv env (Prog x) st =
     (if calls_module x st \<and> edf_data_lock (e_world st) then None else example1_step env x st)"
| "example1_system kenv env (Module ev) st =
     (if own ev then map_option (\<lambda>s. (Internal, st\<lparr>e_world := s\<rparr>)) (drv_exec kenv ev (e_world st)) else None)"

text \<open>
  The device is the module; \<open>tid i\<close> is the task created with the i-th name, which the registry and
  inquiries give back; the program's own calls that do not go to the device leave the module alone,
  and while a task sleeps, the module makes steps of its own until it lets the task in.
\<close>

definition module_lib :: "'x drv_env_scheme \<Rightarrow> (EDFMessage \<Rightarrow> addr) \<Rightarrow> (nat \<Rightarrow> RT_TASK) \<Rightarrow> 'm drv_scheme app_env \<Rightarrow> bool" where
  "module_lib kenv place tid l \<longleftrightarrow>
     (\<forall>s. \<exists>fd\<ge>0. rt_dev_open l s = (fd, s)) \<and> (\<forall>fd. rt_dev_write l fd = user_write (kenv, place)) \<and>
     (\<forall>m. malloc l m \<noteq> None) \<and>
     (\<forall>s. \<forall>i<3. \<exists>info. app_inquire l s (tid i) = Inr info \<and> c_terminated (ti_name info) \<and> c_str (ti_name info) = example1_name i) \<and>
     (\<forall>s t. rt_task_start l t s = (0, s)) \<and>
     (\<forall>s. module_runs kenv s (snd (rt_task_wait_period l s)) \<and>
        (\<not> edf_data_lock s \<longrightarrow> \<not> edf_data_lock (snd (rt_task_wait_period l s)))) \<and>
     (\<forall>s. length (msg_task (raw_app_message l s)) = Suc TNAME_LEN)"

definition over_module :: "'x drv_env_scheme \<Rightarrow> (EDFMessage \<Rightarrow> addr) \<Rightarrow> (nat \<Rightarrow> RT_TASK) \<Rightarrow> 'm drv_scheme example1_env \<Rightarrow> bool" where
  "over_module kenv place tid env \<longleftrightarrow> user_env_ok (kenv, place) \<and>
     (\<forall>i<3. c_str (rname kenv (tid i)) = example1_name i) \<and>
     (\<forall>i<3. \<forall>msg h. c_str (msg_task msg) = example1_name i \<longrightarrow> addressee kenv msg h = Some (tid i)) \<and>
     (\<forall>i<3. \<forall>p d s. e_create env (example1_name i) p d s = (tid i, s)) \<and>
     (\<forall>k n s. e_set_periodic env k n s = s) \<and> (\<forall>n s. e_timer_spin env n s = s) \<and>
     (\<forall>x. module_lib kenv place tid (e_lib env x)) \<and>
     (\<forall>s. \<forall>k<3. rt_task_self (e_lib env (ETask k)) s = Some (tid k))"

lemma module_libD:
  assumes "module_lib kenv place tid l"
  shows "rt_dev_write l fd = user_write (kenv, place)" "\<exists>b. malloc l m = Some b"
    "i < 3 \<Longrightarrow> \<exists>info. app_inquire l s (tid i) = Inr info \<and> c_terminated (ti_name info) \<and> c_str (ti_name info) = example1_name i"
    "rt_task_start l t s = (0, s)" "\<not> edf_data_lock s \<Longrightarrow> \<not> edf_data_lock (snd (rt_task_wait_period l s))"
    "module_runs kenv s (snd (rt_task_wait_period l s))"
    "length (msg_task (raw_app_message l s)) = Suc TNAME_LEN" "\<exists>fd\<ge>0. rt_dev_open l s = (fd, s)"
  using assms by (auto simp: module_lib_def)

lemma example1_name_short: "take TNAME_LEN (example1_name i) = example1_name i"
  by (simp add: example1_name_def TNAME_LEN_def)

lemma example1_name_inj: "i < 3 \<Longrightarrow> j < 3 \<Longrightarrow> example1_name i = example1_name j \<longleftrightarrow> i = j"
  by (simp add: example1_name_def)

lemma module_runs_registers:
  assumes "module_runs kenv s s'" and "xeno_ok kenv" and "registers kenv s c"
  shows "registers kenv s' c"
  using assms by (induction) (auto intro: own_step)

section \<open>The calls of the library\<close>

text \<open>The tasks started so far, and what the state of the module is about them.\<close>

definition started :: "(nat \<Rightarrow> RT_TASK) \<Rightarrow> nat \<Rightarrow> (RT_TASK option \<times> u64) list" where
  "started tid n = map (\<lambda>i. (Some (tid i), periods ! i ! 2)) [0..<n]"

lemma started_Suc: "started tid (Suc n) = started tid n @ [(Some (tid n), periods ! n ! 2)]"
  by (simp add: started_def)

lemma start_registers:
  assumes m: "over_module kenv place tid env" and r: "registers kenv s (started tid i)" and "\<not> edf_data_lock s"
    and "i < 3" and "device p \<noteq> -1"
  shows "\<exists>s'. edf_task_start (e_lib env EMain) (tid i) (periods ! i ! 2) (p, s) = Some (0, p, s') \<and>
    registers kenv s' (started tid (Suc i)) \<and> \<not> edf_data_lock s'"
proof -
  let ?l = "e_lib env EMain" and ?e = "(kenv, place)"
  have l: "module_lib kenv place tid ?l" and u: "user_env_ok ?e" using m by (simp_all add: over_module_def)
  obtain ts where ts: "edf_state kenv s ts" "contract ts = started tid i" using r by (auto simp: registers_def)
  obtain info where info: "app_inquire ?l s (tid i) = Inr info" "c_terminated (ti_name info)" "c_str (ti_name info) = example1_name i"
    using module_libD(3) [OF l assms(4)] by blast
  obtain b where b: "malloc ?l (umem p) = Some b" using module_libD(2) [OF l] by blast
  obtain msg where msg: "fill_message CREATE_TASK (periods ! i ! 2) (ti_name info) (raw_app_message ?l s) = Some msg"
    "command msg = EDFCommand_val CREATE_TASK" "msg_deadline msg = periods ! i ! 2"
    "c_str (msg_task msg) = take TNAME_LEN (c_str (ti_name info))"
    using fill_message_name [OF info(2) module_libD(7) [OF l]] by blast
  have to: "addressee kenv msg (calls s) = Some (tid i)"
    using m assms(4) msg(4) info(3) example1_name_short by (simp add: over_module_def)
  have new: "\<forall>v\<in>fst ` set (contract ts). c_str (rname kenv (the v)) \<noteq> c_str (rname kenv (tid i))"
    using m assms(4) example1_name_inj unfolding ts(2) started_def over_module_def by auto
  have "driver_holds ?e s (ts, calls s)" using ts(1) assms(3) by simp
  from edfdev.task_start_run [OF u this module_libD(1) [OF l] assms(5) b info(1) msg(1)] obtain s' where
    s': "driver_holds ?e s' (user_effect ?e msg (ts, calls s))"
      "edf_task_start ?l (tid i) (periods ! i ! 2) (p, s) = Some (fst (rt_task_start ?l (tid i) s'), p, snd (rt_task_start ?l (tid i) s'))"
    by blast
  have "contract (fst (user_effect ?e msg (ts, calls s))) = started tid (Suc i)"
    using effect_create [OF _ edf_stateD(2) [OF ts(1)] msg(2) to new] u ts(2) msg(3) started_Suc by simp
  then show ?thesis using s' module_libD(4) [OF l]
    by (cases "user_effect ?e msg (ts, calls s)") (auto simp: registers_def simp del: user_effect.simps)
qed

lemma wait_registers:
  fixes s :: "'m drv_scheme"
  assumes m: "over_module kenv place tid env" and r: "registers kenv s c" and "\<not> edf_data_lock s"
    and "k < 3" and "device p \<noteq> -1"
  shows "\<exists>s'. edf_task_wait_period (e_lib env (ETask k)) (p, s) = Some (-1, p, s') \<and> registers kenv s' c \<and> \<not> edf_data_lock s'"
proof -
  let ?l = "e_lib env (ETask k)" and ?e = "(kenv, place)"
  have l: "module_lib kenv place tid ?l" and u: "user_env_ok ?e" using m by (simp_all add: over_module_def)
  then have x: "xeno_ok kenv" by (simp add: drv_env_ok_def)
  obtain ts where ts: "edf_state kenv s ts" "contract ts = c" using r by (auto simp: registers_def)
  obtain info where info: "app_inquire ?l s (tid k) = Inr info" "c_terminated (ti_name info)"
    using module_libD(3) [OF l assms(4)] by blast
  obtain b where b: "malloc ?l (umem p) = Some b" using module_libD(2) [OF l] by blast
  obtain msg where msg: "fill_message STOP_WATCHD DEADLINENOTSET (ti_name info) (raw_app_message ?l s) = Some msg"
    "command msg = EDFCommand_val STOP_WATCHD"
    using fill_message_name [OF info(2) module_libD(7) [OF l]] by blast
  define R :: "tasks \<times> history \<Rightarrow> tasks \<times> history \<Rightarrow> bool" where "R a a' \<longleftrightarrow> contract (fst a') = contract (fst a)" for a a'
  have sleep: "\<forall>s a. driver_holds ?e s a \<longrightarrow> (\<exists>a'. driver_holds ?e (snd (rt_task_wait_period ?l s)) a' \<and> R a a')"
  proof (intro allI impI)
    fix s :: "'m drv_scheme" and a assume "driver_holds ?e s a"
    then have "registers kenv s (contract (fst a))" and un: "\<not> edf_data_lock s" by (cases a; auto simp: registers_def)+
    from module_runs_registers [OF module_libD(6) [OF l] x this(1)]
    obtain ts' where "edf_state kenv (snd (rt_task_wait_period ?l s)) ts'" "contract ts' = contract (fst a)"
      by (auto simp: registers_def)
    then show "\<exists>a'. driver_holds ?e (snd (rt_task_wait_period ?l s)) a' \<and> R a a'"
      using module_libD(5) [OF l un] by (intro exI [of _ "(ts', calls (snd (rt_task_wait_period ?l s)))"]) (simp add: R_def)
  qed
  have self: "rt_task_self ?l s = Some (tid k)" using m assms(4) by (simp add: over_module_def)
  have "driver_holds ?e s (ts, calls s)" using ts(1) assms(3) by simp
  from edfdev.wait_period_sleeps [OF u this module_libD(1) [OF l] assms(5) b self info(1) msg(1) sleep] obtain a2 s' where
    w: "R (user_effect ?e msg (ts, calls s)) a2" "driver_holds ?e s' (user_effect ?e (msg\<lparr>command := EDFCommand_val RESET_DEADLINE\<rparr>) a2)"
      "edf_task_wait_period ?l (p, s) = Some (-1, p, s')"
    by blast
  let ?m = "msg\<lparr>command := EDFCommand_val RESET_DEADLINE\<rparr>"
  have "contract (fst (user_effect ?e ?m a2)) = c"
    using effect_quiet [of ?m kenv place a2] effect_quiet [of msg kenv place "(ts, calls s)"] w(1) msg(2) ts(2) by (simp add: R_def)
  then show ?thesis using w(2,3)
    by (cases "user_effect ?e ?m a2") (auto simp: registers_def simp del: user_effect.simps)
qed

section \<open>The invariant\<close>

fun main_count :: "example1_main_place \<Rightarrow> nat" where
  "main_count (EM_for i) = i" | "main_count EM_pause = 3"

definition system_inv :: "'x drv_env_scheme \<Rightarrow> (nat \<Rightarrow> RT_TASK) \<Rightarrow> 'm drv_scheme example1 \<Rightarrow> bool" where
  "system_inv kenv tid st \<longleftrightarrow> registers kenv (e_world st) (started tid (main_count (e_main_at st))) \<and>
     device (e_process st) \<noteq> -1 \<and> main_count (e_main_at st) \<le> 3 \<and>
     (\<forall>k. e_at st k \<noteq> E_off \<longrightarrow> k < main_count (e_main_at st))"

lemma e_go_simps [simp]: "e_at (e_go k x st) = (e_at st)(k := x)" "e_main_at (e_go k x st) = e_main_at st"
    "e_process (e_go k x st) = e_process st" "e_world (e_go k x st) = e_world st"
  by (simp_all add: e_go_def)

lemma system_inv_place:
  assumes "system_inv kenv tid st" and "e_at st k \<noteq> E_off"
  shows "k < main_count (e_main_at st)" and "k < 3"
proof -
  show k: "k < main_count (e_main_at st)" using assms by (simp add: system_inv_def)
  have "main_count (e_main_at st) \<le> 3" using assms(1) by (simp add: system_inv_def)
  with k show "k < 3" by (rule less_le_trans)
qed

lemma system_begin:
  assumes "over_module kenv place tid env" and "edf_state kenv s []"
  shows "system_inv kenv tid (example1_begin env (p, s))" and "e_world (example1_begin env (p, s)) = s"
proof -
  have "module_lib kenv place tid (e_lib env EMain)" using assms(1) by (simp add: over_module_def)
  from module_libD(8) [OF this, of s] obtain fd where fd: "0 \<le> fd" "rt_dev_open (e_lib env EMain) s = (fd, s)" by blast
  then have b: "edf_init (e_lib env EMain) (p, s) = (0, p\<lparr>device := fd\<rparr>, s)" by (simp add: edf_init_def lib_calls)
  show "e_world (example1_begin env (p, s)) = s" by (simp add: example1_begin_def b)
  have "registers kenv s []" using assms(2) by (auto simp: registers_def)
  then show "system_inv kenv tid (example1_begin env (p, s))"
    using fd(1) by (simp add: system_inv_def example1_begin_def b started_def)
qed

lemma main_step:
  assumes "over_module kenv place tid env" and "system_inv kenv tid st" and "\<not> edf_data_lock (e_world st)"
    and "e_main_at st = EM_for i"
  shows "\<exists>st'. example1_step env EMain st = Some (Internal, st') \<and> system_inv kenv tid st' \<and>
    \<not> edf_data_lock (e_world st') \<and> (i < 3 \<longrightarrow> e_main_at st' = EM_for (i + 1)) \<and> (i = 3 \<longrightarrow> e_main_at st' = EM_pause)"
proof (cases "i < 3")
  case True
  have "registers kenv (e_world st) (started tid i)" "device (e_process st) \<noteq> -1"
    using assms(2,4) by (simp_all add: system_inv_def)
  from start_registers [OF assms(1) this(1) assms(3) True this(2)] obtain s' where
    s': "edf_task_start (e_lib env EMain) (tid i) (periods ! i ! 2) (e_process st, e_world st) = Some (0, e_process st, s')"
    "registers kenv s' (started tid (Suc i))" "\<not> edf_data_lock s'" by blast
  have "e_create env (example1_name i) 50 (demo_task st) (e_world st) = (tid i, e_world st)"
    using assms(1) True by (simp add: over_module_def)
  then show ?thesis using s' True assms(2,4)
    by (auto simp: example1_start_def system_inv_def less_Suc_eq)
next
  case False
  then have "i = 3" using assms(2,4) by (simp add: system_inv_def)
  then show ?thesis using assms(2-4) by (simp add: system_inv_def)
qed

lemma demo_task_step:
  assumes "over_module kenv place tid env" and "system_inv kenv tid st" and "\<not> edf_data_lock (e_world st)"
    and "e_at st k = E_wait"
  shows "\<exists>st'. example1_step env (ETask k) st = Some (Internal, st') \<and> system_inv kenv tid st'"
proof -
  have r: "registers kenv (e_world st) (started tid (main_count (e_main_at st)))" "device (e_process st) \<noteq> -1" "k < 3"
    using assms(2) system_inv_place [OF assms(2), of k] assms(4) by (simp_all add: system_inv_def)
  obtain s' where "edf_task_wait_period (e_lib env (ETask k)) (e_process st, e_world st) = Some (-1, e_process st, s')"
    "registers kenv s' (started tid (main_count (e_main_at st)))"
    using wait_registers [OF assms(1) r(1) assms(3) r(3,2)] by blast
  then show ?thesis using assms(2,4) by (auto simp: example1_demo_def system_inv_def)
qed

lemma system_step:
  assumes m: "over_module kenv place tid env" and "system_inv kenv tid st" and "example1_system kenv env a st = Some (e, st')"
  shows "system_inv kenv tid st'"
proof (cases a)
  case (Module ev)
  have "xeno_ok kenv" using m by (simp add: over_module_def drv_env_ok_def)
  then show ?thesis using assms(2,3) Module own_step by (fastforce simp: system_inv_def split: if_splits)
next
  case (Prog x)
  then have st: "example1_step env x st = Some (e, st')" and un: "calls_module x st \<Longrightarrow> \<not> edf_data_lock (e_world st)"
    using assms(3) by (auto split: if_splits)
  show ?thesis
  proof (cases x)
    case EMain
    show ?thesis
    proof (cases "e_main_at st")
      case (EM_for i)
      then show ?thesis using main_step [OF m assms(2) _ EM_for] un EMain st by auto
    qed (use EMain st in simp)
  next
    case (ETask k)
    show ?thesis
    proof (cases "e_at st k = E_wait")
      case True
      then show ?thesis using demo_task_step [OF m assms(2) _ True] un ETask st by auto
    next
      case False
      have idle: "e_set_periodic env k n s = s" "e_timer_spin env n s = s" for n s using m by (simp_all add: over_module_def)
      have "st' = e_go k E_spin st \<or> st' = e_go k E_wait st" "e_at st k \<noteq> E_off"
        using ETask st False idle by (cases "e_at st k"; simp add: example1_demo_def)+
      then show ?thesis using assms(2) system_inv_place(1) [OF assms(2), of k] by (auto simp: system_inv_def split: if_splits)
    qed
  qed
qed

lemma system_run:
  assumes "over_module kenv place tid env" and "edf_state kenv s []"
    and "run (example1_system kenv env) (example1_begin env (p, s)) tr st"
  shows "system_inv kenv tid st"
  using assms(3) system_begin(1) [OF assms(1,2)]
  by (rule run_invariant) (rule system_step [OF assms(1)])


section \<open>A concrete run\<close>

definition e_rname :: "RT_TASK \<Rightarrow> char list" where
  "e_rname t = example1_name t @ [CHR 0x00]"

definition e_kernel :: drv_env where
  "e_kernel = demo_kernel\<lparr>rname := e_rname, rt_task_inquire := \<lambda>h t. Inr \<lparr>ti_name = e_rname t, ti_cprio = 50\<rparr>,
     xnregistry_bind := \<lambda>h nm. if c_str nm = example1_name 0 then Inr 0 else if c_str nm = example1_name 1 then Inr 1
       else if c_str nm = example1_name 2 then Inr 2 else Inl (-11)\<rparr>"

definition e_app :: "RT_TASK \<Rightarrow> drv app_env" where
  "e_app self = (demo_app self)\<lparr>rt_dev_write := \<lambda>fd. user_write (e_kernel, demo_place),
     app_inquire := \<lambda>s t. Inr \<lparr>ti_name = e_rname t, ti_cprio = 50\<rparr>\<rparr>"

definition e_env :: "drv example1_env" where
  "e_env = \<lparr>e_lib = (\<lambda>x. case x of EMain \<Rightarrow> e_app 0 | ETask k \<Rightarrow> e_app k),
     e_create = (\<lambda>nm p d s. (if nm = example1_name 0 then 0 else if nm = example1_name 1 then 1 else 2, s)),
     e_set_periodic = (\<lambda>k n s. s), e_timer_spin = (\<lambda>n s. s)\<rparr>"

lemma less_3: "(i :: nat) < 3 \<longleftrightarrow> i = 0 \<or> i = 1 \<or> i = 2"
  by auto

lemma e_rname_ok: "i < 3 \<Longrightarrow> c_terminated (e_rname i) \<and> c_str (e_rname i) = example1_name i \<and> c_strlen (e_rname i) < TNAME_LEN"
  by (auto simp: less_3 e_rname_def example1_name_def c_terminated_def c_str_def c_strlen_def TNAME_LEN_def char_of_def)

lemma e_kernel_ok: "user_env_ok (e_kernel, demo_place)"
proof -
  have "drv_env_ok demo_kernel" and c: "\<forall>h msg. rtdm_copy_from_user demo_kernel h (demo_place msg) = Inr msg"
    using demo_kernel_ok by simp_all
  moreover have "T_DESC demo_kernel = (\<lambda>t. t)" "xnregistry_fetch demo_kernel = (\<lambda>h t. Some t)"
    "rtdm_copy_from_user demo_kernel = (\<lambda>h b. Inr (demo_read b))"
    by (simp_all add: demo_kernel_def demo_drv_def)
  ultimately have "drv_env_ok e_kernel" using e_rname_ok
    by (auto simp: e_kernel_def drv_env_ok_def xeno_ok_def klib_ok_def task_ready_def rname_ok_def)
  then show ?thesis using c by (simp add: e_kernel_def)
qed

lemma e_over: "over_module e_kernel demo_place (\<lambda>i. i) e_env"
proof -
  have app: "module_lib e_kernel demo_place (\<lambda>i. i) (e_app t)" for t
    using e_rname_ok by (auto simp: module_lib_def e_app_def demo_app_def TNAME_LEN_def intro: stay)
  have "addressee e_kernel msg h = Some i" if "i < 3" "c_str (msg_task msg) = example1_name i" for i msg h
    using that example1_name_inj [of i] by (auto simp: less_3 registered_def e_kernel_def demo_kernel_def demo_drv_def)
  then show ?thesis using e_kernel_ok app e_rname_ok example1_name_inj
    by (auto simp: over_module_def e_env_def e_kernel_def e_app_def demo_app_def less_3 split: example1_actor.splits
        simp del: addressee.simps user_env_ok.simps)
qed

lemma e_state:
  obtains s :: drv where "edf_state e_kernel s []" and "\<not> edf_data_lock s"
proof -
  define s0 :: drv where "s0 = \<lparr>heap = Map.empty, head = None, tbl = None, calls = [], edf_data_lock = False, edf_event = False,
    edf_svc = None, edf_dmissed_q = True, device_registered = True, start_hook = True, delete_hook = True\<rparr>"
  define s where "s = snd (rt_dtask_init s0)"
  have "rep s ([], []) (edf.more s0)" using init_refines [of s0] by (simp add: s0_def s_def)
  from edf_stateI [OF this boot_ok] have "edf_state e_kernel s []" "edf.more s = edf.more s0" by blast+
  moreover from this have "\<not> edf_data_lock s" using drv_more(1) [of s s0] by (simp add: s0_def)
  ultimately show ?thesis using that by blast
qed

lemma main_runs:
  assumes "over_module kenv place tid env" and "edf_state kenv s []" and "\<not> edf_data_lock s" and "i \<le> 3"
  shows "\<exists>tr st. run (example1_system kenv env) (example1_begin env (p, s)) tr st \<and>
    e_main_at st = EM_for i \<and> \<not> edf_data_lock (e_world st)"
  using assms(4)
proof (induction i)
  case 0
  have "e_main_at (example1_begin env (p, s)) = EM_for 0" by (simp add: example1_begin_def case_prod_unfold Let_def)
  moreover have "\<not> edf_data_lock (e_world (example1_begin env (p, s)))" using assms(3) system_begin(2) [OF assms(1,2), of p] by simp
  ultimately show ?case
    by (intro exI [of _ "[]"] exI [of _ "example1_begin env (p, s)"] conjI run_init)
next
  case (Suc i)
  then obtain tr st where r: "run (example1_system kenv env) (example1_begin env (p, s)) tr st" "e_main_at st = EM_for i"
    "\<not> edf_data_lock (e_world st)" by auto
  from main_step [OF assms(1) system_run [OF assms(1,2) r(1)] r(3,2)] Suc.prems obtain st' where
    st': "example1_step env EMain st = Some (Internal, st')" "\<not> edf_data_lock (e_world st')" "e_main_at st' = EM_for (Suc i)" by auto
  have "example1_system kenv env (Prog EMain) st = Some (Internal, st')" using st'(1) r(3) by simp
  then show ?case using run_step [OF r(1)] st'(2,3) by blast
qed


end
