(* ===== verification/Exercise_Multitask.thy ===== *)
theory Exercise_Multitask
  imports Rt_Sem
begin

text \<open>
  exercise-xenomai/multitask.c and its stages multitask.c.a.c to multitask.c.d.c: a main program
  starts tasks in a loop, and each prints its parameter. In stages b and c the parameter is
  the address of the loop variable, later the address of the task's own entry of an array. A place
  is the statement that is executed next. The label of a step that prints is the parameter printed.
\<close>

section \<open>State and external calls\<close>

datatype stage = Stage_a | Stage_b | Stage_c | Stage_d | Multitask

datatype mt_sem = Print_sem

datatype mt_actor = MTask nat | MMain

datatype mt_place = Q_off | Q_sleep | Q_inquire | Q_read | Q_periodic int | Q_p int | Q_print "int option" | Q_v int
  | Q_wait int | Q_exit

datatype mt_main_place = Q_for | Q_next | Q_pause | Q_return

record 's mt =
  mt_i :: nat
  mt_periods :: "int list"
  mt_at :: "nat \<Rightarrow> mt_place"
  mt_main_at :: mt_main_place
  mt_world :: 's

record 's mt_env = "(mt_sem, 's) sem_env" +
  mt_create :: "char list \<Rightarrow> int \<Rightarrow> 's \<Rightarrow> 's"
  mt_start :: "nat \<Rightarrow> 's \<Rightarrow> bool \<times> 's"
  mt_inquire :: "nat \<Rightarrow> 's \<Rightarrow> bool"
  mt_sleep :: "nat \<Rightarrow> 's \<Rightarrow> 's"
  mt_set_periodic :: "nat \<Rightarrow> int \<Rightarrow> 's \<Rightarrow> 's"
  mt_wait_period :: "nat \<Rightarrow> 's \<Rightarrow> 's"

type_synonym 's mt_step = "((mt_sem, int option) event \<times> 's mt) option"

definition mt_go :: "nat \<Rightarrow> mt_place \<Rightarrow> 's mt \<Rightarrow> 's mt" where
  "mt_go k x st = st\<lparr>mt_at := (mt_at st)(k := x)\<rparr>"

section \<open>The tasks\<close>

text \<open>The first statement of a task, and what it does when the inquiry about itself fails.\<close>

definition mt_entry :: "stage \<Rightarrow> mt_place" where
  "mt_entry v = (if v \<in> {Stage_a, Stage_b} then Q_inquire else Q_sleep)"

definition mt_inquired :: "stage \<Rightarrow> bool \<Rightarrow> mt_place" where
  "mt_inquired v success = (if \<not> success \<and> v \<in> {Stage_a, Stage_b, Stage_c} then Q_exit
     else if v = Stage_a then Q_print None else Q_read)"

text \<open>The parameter is read where the argument points: to the loop variable or into the array.\<close>

definition mt_param :: "stage \<Rightarrow> nat \<Rightarrow> 's mt \<Rightarrow> int" where
  "mt_param v k st = (if v \<in> {Stage_b, Stage_c} then int (mt_i st) else mt_periods st ! k)"

definition mt_task :: "stage \<Rightarrow> 's mt_env \<Rightarrow> nat \<Rightarrow> 's mt \<Rightarrow> 's mt_step" where
  "mt_task v env k st = (case mt_at st k of
       Q_sleep \<Rightarrow> Some (Internal, mt_go k Q_inquire (st\<lparr>mt_world := mt_sleep env 1 (mt_world st)\<rparr>))
     | Q_inquire \<Rightarrow> Some (Internal, mt_go k (mt_inquired v (mt_inquire env k (mt_world st))) st)
     | Q_read \<Rightarrow> (let p = mt_param v k st
         in Some (Internal, mt_go k (if v \<in> {Stage_d, Multitask} then Q_periodic p else Q_print (Some p)) st))
     | Q_periodic p \<Rightarrow> Some (Internal, mt_go k (if v = Multitask then Q_p p else Q_print (Some p))
         (st\<lparr>mt_world := mt_set_periodic env k (1000000000 * p) (mt_world st)\<rparr>))
     | Q_p p \<Rightarrow> (case rt_sem_p env Print_sem (mt_world st) of None \<Rightarrow> None
         | Some s \<Rightarrow> Some (Pass Print_sem, mt_go k (Q_print (Some p)) (st\<lparr>mt_world := s\<rparr>)))
     | Q_print x \<Rightarrow> Some (Out x, mt_go k (case x of None \<Rightarrow> Q_exit
         | Some p \<Rightarrow> if v = Multitask then Q_v p else if v = Stage_d then Q_wait p else Q_exit) st)
     | Q_v p \<Rightarrow> Some (Post Print_sem, mt_go k (Q_wait p) (st\<lparr>mt_world := rt_sem_v env Print_sem (mt_world st)\<rparr>))
     | Q_wait p \<Rightarrow> Some (Internal, mt_go k (if v = Multitask then Q_p p else Q_print (Some p))
         (st\<lparr>mt_world := mt_wait_period env k (mt_world st)\<rparr>))
     | _ \<Rightarrow> None)"

section \<open>The main program\<close>

definition mt_tasks :: "stage \<Rightarrow> nat" where
  "mt_tasks v = (if v \<in> {Stage_d, Multitask} then 3 else 5)"

definition mt_prio :: "stage \<Rightarrow> nat \<Rightarrow> int" where
  "mt_prio v i = (if v \<in> {Stage_c, Multitask} then 50 + int i else 50)"

text \<open>The body of the loop up to the increment, which is a step of its own.\<close>

definition mt_loop :: "stage \<Rightarrow> 's mt_env \<Rightarrow> 's mt \<Rightarrow> 's mt" where
  "mt_loop v env st =
     (let i = mt_i st;
          st = (if v \<in> {Stage_d, Multitask} then st\<lparr>mt_periods := (mt_periods st)[i := int i + 1]\<rparr> else st);
          s = mt_create env (''Task-'' @ [char_of (48 + i)]) (mt_prio v i) (mt_world st);
          (started, s) = mt_start env i s
      in mt_go i (if started then mt_entry v else Q_off) (st\<lparr>mt_world := s, mt_main_at := Q_next\<rparr>))"

fun mt_main :: "stage \<Rightarrow> 's mt_env \<Rightarrow> mt_main_place \<Rightarrow> 's mt \<Rightarrow> 's mt_step" where
  "mt_main v env Q_for st =
     (if mt_i st < mt_tasks v then Some (Internal, mt_loop v env st)
      else Some (Internal, st\<lparr>mt_main_at := if v \<in> {Stage_a, Stage_b} then Q_return else Q_pause\<rparr>))"
| "mt_main v env Q_next st = Some (Internal, st\<lparr>mt_i := mt_i st + 1, mt_main_at := Q_for\<rparr>)"
| "mt_main v env Q_pause st = None"
| "mt_main v env Q_return st = None"

text \<open>Nothing runs after the main program has returned.\<close>

fun mt_step :: "stage \<Rightarrow> 's mt_env \<Rightarrow> mt_actor \<Rightarrow> 's mt \<Rightarrow> 's mt_step" where
  "mt_step v env (MTask k) st = (if mt_main_at st = Q_return then None else mt_task v env k st)"
| "mt_step v env MMain st = mt_main v env (mt_main_at st) st"

text \<open>\<open>raw\<close> is what was in the array.\<close>

definition mt_begin :: "stage \<Rightarrow> 's mt_env \<Rightarrow> int list \<Rightarrow> 's \<Rightarrow> 's mt" where
  "mt_begin v env raw s = \<lparr>mt_i = 0, mt_periods = raw, mt_at = (\<lambda>_. Q_off), mt_main_at = Q_for,
     mt_world = if v = Multitask then rt_sem_create env Print_sem 1 s else s\<rparr>"

section \<open>The semaphore\<close>

definition mt_env_ok :: "'s mt_env \<Rightarrow> bool" where
  "mt_env_ok env \<longleftrightarrow> sem_ok env \<and>
     (\<forall>n p s. sem_value env (mt_create env n p s) = sem_value env s) \<and>
     (\<forall>k s. sem_value env (snd (mt_start env k s)) = sem_value env s) \<and>
     (\<forall>n s. sem_value env (mt_sleep env n s) = sem_value env s) \<and>
     (\<forall>k n s. sem_value env (mt_set_periodic env k n s) = sem_value env s) \<and>
     (\<forall>k s. sem_value env (mt_wait_period env k s) = sem_value env s)"

lemma mt_go_simps [simp]: "mt_i (mt_go k x st) = mt_i st" "mt_periods (mt_go k x st) = mt_periods st"
    "mt_at (mt_go k x st) = (mt_at st)(k := x)" "mt_main_at (mt_go k x st) = mt_main_at st" "mt_world (mt_go k x st) = mt_world st"
  by (simp_all add: mt_go_def)

definition mt_val :: "stage \<times> 's mt_env \<Rightarrow> 's mt \<Rightarrow> mt_sem \<Rightarrow> nat" where
  "mt_val = (\<lambda>(v, env) st. sem_value env (mt_world st))"

lemma mt_loop_value: "mt_env_ok env \<Longrightarrow> sem_value env (mt_world (mt_loop v env st)) = sem_value env (mt_world st)"
  by (auto simp: mt_loop_def Let_def mt_env_ok_def split: prod.splits) (metis snd_conv)+

lemma mt_val_step:
  assumes "mt_env_ok env" and "mt_step v env a st = Some (e, st')"
  shows "(case e of Pass x \<Rightarrow> 0 < mt_val (v, env) st x \<and> mt_val (v, env) st' = (mt_val (v, env) st)(x := mt_val (v, env) st x - 1)
    | Post x \<Rightarrow> mt_val (v, env) st' = (mt_val (v, env) st)(x := mt_val (v, env) st x + 1)
    | _ \<Rightarrow> mt_val (v, env) st' = mt_val (v, env) st)"
proof -
  have ok: "sem_ok env" using assms(1) by (simp add: mt_env_ok_def)
  have same: "sem_value env (mt_sleep env n s) = sem_value env s" "sem_value env (mt_set_periodic env k p s) = sem_value env s"
    "sem_value env (mt_wait_period env k s) = sem_value env s" for n k p s
    using assms(1) by (simp_all add: mt_env_ok_def)
  show ?thesis
  proof (cases a)
    case (MTask k)
    then show ?thesis using assms(2)
      by (cases "mt_at st k")
         (auto simp: mt_task_def mt_val_def Let_def same sem_okD(4) [OF ok] dest!: sem_okD(3) [OF ok] split: if_splits option.splits)
  next
    case MMain
    then show ?thesis using assms(2) mt_loop_value [OF assms(1)]
      by (cases "mt_main_at st") (auto simp: mt_val_def split: if_splits)
  qed
qed

interpretation mt_sems: sem_program "\<lambda>(v, env). mt_env_ok env" "\<lambda>(v, env). mt_step v env" mt_val
  by unfold_locales (auto dest: mt_val_step)

end
