(* ===== verification/Exercise_Multitask_Props.thy ===== *)
theory Exercise_Multitask_Props
  imports Exercise_Multitask
begin

text \<open>What the tasks of multitask.c and its stages print, in every interleaving.\<close>

section \<open>Parameters\<close>

fun printable :: "stage \<Rightarrow> nat \<Rightarrow> int option \<Rightarrow> bool" where
  "printable v k None = (v = Stage_a)"
| "printable v k (Some p) = (if v \<in> {Stage_d, Multitask} then p = int k + 1
     else v \<noteq> Stage_a \<and> int k \<le> p \<and> p \<le> 5)"

fun carries :: "stage \<Rightarrow> nat \<Rightarrow> mt_place \<Rightarrow> bool" where
  "carries v k Q_read = (v \<noteq> Stage_a)" | "carries v k (Q_periodic p) = printable v k (Some p)"
| "carries v k (Q_p p) = printable v k (Some p)" | "carries v k (Q_print x) = printable v k x"
| "carries v k (Q_v p) = printable v k (Some p)" | "carries v k (Q_wait p) = printable v k (Some p)"
| "carries v k Q_exit = (v \<notin> {Stage_d, Multitask})" | "carries v k _ = True"

text \<open>How many tasks the main program has got to.\<close>

definition reached :: "'s mt \<Rightarrow> nat" where
  "reached st = mt_i st + (if mt_main_at st = Q_next then 1 else 0)"

definition params_ok :: "stage \<Rightarrow> 's mt \<Rightarrow> bool" where
  "params_ok v st \<longleftrightarrow> reached st \<le> mt_tasks v \<and> length (mt_periods st) = 3 \<and>
     (v \<in> {Stage_d, Multitask} \<longrightarrow> (\<forall>k<reached st. mt_periods st ! k = int k + 1)) \<and>
     (\<forall>k. mt_at st k \<noteq> Q_off \<longrightarrow> k < reached st) \<and> (\<forall>k. carries v k (mt_at st k))"

lemma mt_param_printable:
  assumes "params_ok v st" and "mt_at st k = Q_read"
  shows "printable v k (Some (mt_param v k st))"
proof -
  have "carries v k (mt_at st k)" "mt_at st k \<noteq> Q_off \<longrightarrow> k < reached st" using assms(1) by (auto simp: params_ok_def)
  with assms have k: "k < reached st" "reached st \<le> mt_tasks v" and a: "v \<noteq> Stage_a" by (auto simp: params_ok_def)
  have i: "int k \<le> int (mt_i st)" "mt_i st \<le> mt_tasks v" using k by (auto simp: reached_def split: if_splits)
  show ?thesis
  proof (cases "v \<in> {Stage_d, Multitask}")
    case True
    then show ?thesis using assms(1) k(1) by (auto simp: params_ok_def mt_param_def)
  next
    case False
    then have "mt_tasks v = 5" by (simp add: mt_tasks_def)
    then show ?thesis using False a i by (cases v) (simp_all add: mt_param_def)
  qed
qed

lemma params_task:
  assumes ok: "params_ok v st" and "mt_task v env k st = Some (e, st')"
  shows "params_ok v st'" and "e = Out x \<Longrightarrow> printable v k x"
proof -
  obtain y where y: "mt_at st' = (mt_at st)(k := y)" "mt_at st k \<noteq> Q_off" "carries v k y"
    and same: "mt_i st' = mt_i st" "mt_periods st' = mt_periods st" "mt_main_at st' = mt_main_at st"
  proof -
    have c: "carries v k (mt_at st k)" using ok by (simp add: params_ok_def)
    show thesis
    proof (cases "mt_at st k")
      case Q_read
      then show thesis using that assms(2) mt_param_printable [OF ok Q_read]
        by (auto simp: mt_task_def Let_def split: if_splits)
    qed (use that assms(2) c in \<open>auto simp: mt_task_def mt_inquired_def split: option.splits if_splits\<close>)
  qed
  then show "params_ok v st'" using ok by (auto simp: params_ok_def reached_def)
  have "carries v k (mt_at st k)" using ok by (simp add: params_ok_def)
  then show "e = Out x \<Longrightarrow> printable v k x"
    using assms(2) by (cases "mt_at st k") (auto simp: mt_task_def Let_def split: option.splits if_splits)
qed

lemma mt_task_main: "mt_task v env k st = Some (e, st') \<Longrightarrow> mt_main_at st' = mt_main_at st"
  by (cases "mt_at st k") (auto simp: mt_task_def Let_def split: option.splits)

lemma mt_main_stays: "mt_main Multitask env (mt_main_at st) st = Some (e, st') \<Longrightarrow> mt_main_at st' \<noteq> Q_return"
  by (cases "mt_main_at st") (auto simp: mt_loop_def Let_def split: if_splits prod.splits)

lemma mt_loop_at:
  "mt_at (mt_loop v env st) = (mt_at st)(mt_i st := mt_at (mt_loop v env st) (mt_i st))"
  "mt_at (mt_loop v env st) (mt_i st) \<in> {Q_off, Q_inquire, Q_sleep}"
  by (auto simp: mt_loop_def mt_entry_def Let_def split: prod.splits)

lemma params_loop:
  assumes "params_ok v st" and "mt_main_at st = Q_for" and "mt_i st < mt_tasks v"
  shows "params_ok v (mt_loop v env st)"
proof -
  let ?i = "mt_i st"
  obtain x where at: "mt_at (mt_loop v env st) = (mt_at st)(?i := x)" and x: "x \<in> {Q_off, Q_inquire, Q_sleep}"
    using mt_loop_at [of v env st] by metis
  have f: "mt_i (mt_loop v env st) = ?i" "mt_main_at (mt_loop v env st) = Q_next"
    "mt_periods (mt_loop v env st) = (if v \<in> {Stage_d, Multitask} then (mt_periods st)[?i := int ?i + 1] else mt_periods st)"
    by (auto simp: mt_loop_def Let_def split: prod.splits)
  have r: "reached (mt_loop v env st) = Suc ?i" "reached st = ?i" using f assms(2) by (simp_all add: reached_def)
  have "?i < 3" if "v \<in> {Stage_d, Multitask}" using that assms(3) by (auto simp: mt_tasks_def)
  then show ?thesis using assms(1,3) x unfolding params_ok_def r f(3) at
    by (auto simp: nth_list_update less_Suc_eq)
qed

lemma params_main:
  assumes "params_ok v st" and "mt_main v env (mt_main_at st) st = Some (e, st')"
  shows "params_ok v st'" and "e = Internal"
proof -
  show "e = Internal" using assms(2) by (cases "mt_main_at st") (auto split: if_splits)
  show "params_ok v st'"
  proof (cases "mt_main_at st")
    case Q_for
    then show ?thesis using assms params_loop [OF assms(1) Q_for, of env]
      by (auto simp: params_ok_def reached_def split: if_splits)
  qed (use assms in \<open>auto simp: params_ok_def reached_def\<close>)
qed

section \<open>Mutual exclusion\<close>

fun in_print :: "mt_place \<Rightarrow> nat" where
  "in_print (Q_print x) = 1" | "in_print (Q_v p) = 1" | "in_print _ = 0"

definition holders :: "'s mt \<Rightarrow> nat" where
  "holders st = in_print (mt_at st 0) + in_print (mt_at st 1) + in_print (mt_at st 2)"

lemma less_three: "(k :: nat) < 3 \<longleftrightarrow> k = 0 \<or> k = 1 \<or> k = 2"
  by auto

lemma holders_upd:
  assumes "k < 3" and "mt_at st' = (mt_at st)(k := x)"
  shows "holders st' + in_print (mt_at st k) = holders st + in_print x"
  using assms by (auto simp: less_three holders_def)

lemma section_task:
  assumes "mt_env_ok env" and "mt_task Multitask env k st = Some (e, st')" and "k < 3" and "mt_at st k \<noteq> Q_print None"
  shows "sem_value env (mt_world st') Print_sem + holders st' = sem_value env (mt_world st) Print_sem + holders st"
proof -
  have ok: "sem_ok env" using assms(1) by (simp add: mt_env_ok_def)
  have same: "sem_value env (mt_sleep env n s) = sem_value env s" "sem_value env (mt_set_periodic env k p s) = sem_value env s"
    "sem_value env (mt_wait_period env k s) = sem_value env s" for n k p s
    using assms(1) by (simp_all add: mt_env_ok_def)
  have h: "holders (st\<lparr>mt_at := (mt_at st)(k := x), mt_world := s\<rparr>) + in_print (mt_at st k) = holders st + in_print x" for x s
    by (rule holders_upd [OF assms(3)]) simp
  have at: "st' = st\<lparr>mt_at := (mt_at st)(k := mt_at st' k), mt_world := mt_world st'\<rparr>"
    using assms(2) by (cases "mt_at st k") (auto simp: mt_task_def mt_go_def Let_def split: option.splits if_splits)
  have "sem_value env (mt_world st') Print_sem + in_print (mt_at st' k) = sem_value env (mt_world st) Print_sem + in_print (mt_at st k)"
    using assms(2,4)
    by (cases "mt_at st k") (auto simp: mt_task_def mt_inquired_def Let_def same sem_okD(4) [OF ok]
        dest!: sem_okD(3) [OF ok] split: option.splits if_splits)
  moreover have "holders st' + in_print (mt_at st k) = holders st + in_print (mt_at st' k)"
    using h [where x = "mt_at st' k" and s = "mt_world st'"] at by simp
  ultimately show ?thesis by linarith
qed

lemma section_main:
  assumes "mt_env_ok env" and "params_ok Multitask st" and "mt_main Multitask env (mt_main_at st) st = Some (e, st')"
  shows "sem_value env (mt_world st') Print_sem + holders st' = sem_value env (mt_world st) Print_sem + holders st"
proof (cases "mt_main_at st")
  case Q_for
  show ?thesis
  proof (cases "mt_i st < 3")
    case True
    have st': "st' = mt_loop Multitask env st" using assms(3) Q_for True by (simp add: mt_tasks_def)
    note at = mt_loop_at(1) [of Multitask env st, folded st']
    have x: "in_print (mt_at st' (mt_i st)) = 0" using mt_loop_at(2) [of Multitask env st] by (auto simp: st')
    have "mt_at st (mt_i st) = Q_off" using assms(2) Q_for by (auto simp: params_ok_def reached_def)
    then have "holders st' = holders st" using holders_upd [OF True at] x by simp
    then show ?thesis using mt_loop_value [OF assms(1)] st' by simp
  next
    case False
    then show ?thesis using assms(3) Q_for by (auto simp: mt_tasks_def holders_def)
  qed
qed (use assms(3) in \<open>auto simp: holders_def\<close>)

section \<open>Every run\<close>

definition mt_inv :: "stage \<Rightarrow> 's mt_env \<Rightarrow> (mt_actor \<times> (mt_sem, int option) event) list \<Rightarrow> 's mt \<Rightarrow> bool" where
  "mt_inv v env tr st \<longleftrightarrow> params_ok v st \<and> (\<forall>k x. (MTask k, Out x) \<in> set tr \<longrightarrow> printable v k x) \<and>
     (v = Multitask \<longrightarrow> sem_value env (mt_world st) Print_sem + holders st = 1 \<and> mt_main_at st \<noteq> Q_return)"

lemma mt_inv_begin:
  assumes "mt_env_ok env" and "length raw = 3"
  shows "mt_inv v env [] (mt_begin v env raw s)"
proof -
  have ok: "sem_ok env" using assms(1) by (simp add: mt_env_ok_def)
  have "carries v k Q_off" for k by simp
  then show ?thesis using assms(2) sem_okD(1) [OF ok]
    by (simp add: mt_inv_def params_ok_def reached_def mt_begin_def holders_def)
qed

lemma mt_inv_step:
  assumes env: "mt_env_ok env" and inv: "mt_inv v env tr st" and step: "mt_step v env a st = Some (e, st')"
  shows "mt_inv v env (tr @ [(a, e)]) st'"
proof (cases a)
  case (MTask k)
  have p: "params_ok v st" using inv by (simp add: mt_inv_def)
  have t: "mt_task v env k st = Some (e, st')" using step MTask by (simp split: if_splits)
  have k: "k < 3" "mt_at st k \<noteq> Q_print None" if "v = Multitask"
  proof -
    have "mt_at st k \<noteq> Q_off" using t by (auto simp: mt_task_def)
    then show "k < 3" using p that by (auto simp: params_ok_def mt_tasks_def)
    have "carries v k (mt_at st k)" using p by (simp add: params_ok_def)
    then show "mt_at st k \<noteq> Q_print None" using that by auto
  qed
  show ?thesis using inv params_task [OF p t] section_task [OF env _ k] mt_task_main [OF t] t MTask by (auto simp: mt_inv_def)
next
  case MMain
  have p: "params_ok v st" using inv by (simp add: mt_inv_def)
  show ?thesis using inv params_main [OF p, of env e st'] section_main [OF env, of st e st'] mt_main_stays [of env st e st'] p step MMain by (auto simp: mt_inv_def)
qed

lemma mt_inv_run:
  assumes "mt_env_ok env" and "length raw = 3" and "run (mt_step v env) (mt_begin v env raw s) tr st"
  shows "mt_inv v env tr st"
  by (rule run_invariant [OF assms(3)]) (use mt_inv_begin [OF assms(1,2)] mt_inv_step [OF assms(1)] in auto)

lemma holders_task: "k < 3 \<Longrightarrow> l < 3 \<Longrightarrow> k \<noteq> l \<Longrightarrow> in_print (mt_at st k) + in_print (mt_at st l) \<le> holders st"
  by (auto simp: less_three holders_def)

lemma multitask_goes_on:
  assumes "mt_env_ok env" and inv: "mt_inv Multitask env tr st" and k: "mt_at st k \<noteq> Q_off"
  shows "\<exists>l. mt_step Multitask env (MTask l) st \<noteq> None"
proof -
  have ok: "sem_ok env" using assms(1) by (simp add: mt_env_ok_def)
  have main: "mt_main_at st \<noteq> Q_return" using inv by (simp add: mt_inv_def)
  have "carries Multitask k (mt_at st k)" using inv by (simp add: mt_inv_def params_ok_def)
  then have waits: "mt_task Multitask env k st = None \<Longrightarrow> \<exists>p. mt_at st k = Q_p p \<and> rt_sem_p env Print_sem (mt_world st) = None"
    using k by (cases "mt_at st k") (auto simp: mt_task_def Let_def split: option.splits)
  show ?thesis
  proof (cases "mt_task Multitask env k st = None")
    case True
    then have "sem_value env (mt_world st) Print_sem = 0" using waits sem_okD(2) [OF ok] by auto
    then have "holders st = 1" using inv by (simp add: mt_inv_def)
    then obtain l where "in_print (mt_at st l) \<noteq> 0" by (force simp: holders_def)
    then have "mt_task Multitask env l st \<noteq> None" by (cases "mt_at st l") (auto simp: mt_task_def)
    then show ?thesis using main by (intro exI [of _ l]) simp
  next
    case False
    then show ?thesis using main by (intro exI [of _ k]) simp
  qed
qed

text \<open>C27: In every interleaving of multitask.c and its stages a task prints only what it may: in
  multitask.c and stage d nothing but its own parameter, k + 1 for task k; in stages b and c, where the
  argument is the address of the loop variable, some value from k to 5; in stage a none. In
  multitask.c no two tasks are between taking and giving the semaphore at once, and once a task has
  been started there is always a task that can make a step.
\<close>

theorem multitask_prints:
  assumes "mt_env_ok env" and "length raw = 3" and "run (mt_step v env) (mt_begin v env raw s) tr st"
  shows "(\<forall>k x. (MTask k, Out x) \<in> set tr \<longrightarrow> printable v k x) \<and>
    (v = Multitask \<longrightarrow> (\<forall>k l. k \<noteq> l \<longrightarrow> in_print (mt_at st k) + in_print (mt_at st l) \<le> 1) \<and>
      (\<forall>k. mt_at st k \<noteq> Q_off \<longrightarrow> (\<exists>l. mt_step v env (MTask l) st \<noteq> None)))"
proof -
  have inv: "mt_inv v env tr st" by (rule mt_inv_run [OF assms])
  have "in_print (mt_at st k) + in_print (mt_at st l) \<le> 1" if v: "v = Multitask" and ne: "k \<noteq> l" for k l
  proof -
    have h: "holders st \<le> 1" and *: "3 \<le> k \<Longrightarrow> mt_at st k = Q_off" for k
      using inv v by (auto simp: mt_inv_def params_ok_def mt_tasks_def)
    have one: "in_print x \<le> 1" for x by (cases x) simp_all
    show ?thesis
    proof (cases "k < 3 \<and> l < 3")
      case True
      then show ?thesis using holders_task [of k l st] ne h by linarith
    next
      case False
      then show ?thesis using * [of k] * [of l] one by auto
    qed
  qed
  then show ?thesis using inv multitask_goes_on [OF assms(1)] by (auto simp: mt_inv_def)
qed

text \<open>A run of stage c in which task 0 prints 1, and one of multitask.c.\<close>

definition mt_plain :: "(mt_sem \<Rightarrow> nat) mt_env" where
  "mt_plain = \<lparr>rt_sem_create = rt_sem_create plain_sems, rt_sem_p = rt_sem_p plain_sems,
     rt_sem_v = rt_sem_v plain_sems, sem_value = sem_value plain_sems,
     mt_create = (\<lambda>_ _ s. s), mt_start = (\<lambda>_ s. (True, s)), mt_inquire = (\<lambda>_ _. True), mt_sleep = (\<lambda>_ s. s),
     mt_set_periodic = (\<lambda>_ _ s. s), mt_wait_period = (\<lambda>_ s. s)\<rparr>"

lemma mt_plain_ok: "mt_env_ok mt_plain"
  by (simp add: mt_env_ok_def sem_ok_def mt_plain_def plain_sems_def)

definition mt_schedule :: "stage \<Rightarrow> mt_actor list" where
  "mt_schedule v = (if v = Stage_c then [MMain, MTask 0, MTask 0, MMain, MTask 0, MTask 0]
     else [MMain, MMain, MMain, MTask 1, MTask 1, MTask 1, MTask 1, MTask 1, MTask 1, MTask 0, MTask 0, MTask 0, MTask 0])"

lemma mt_plain_loop:
  "mt_loop v mt_plain st = st\<lparr>mt_periods := (if v \<in> {Stage_d, Multitask} then (mt_periods st)[mt_i st := int (mt_i st) + 1] else mt_periods st),
     mt_at := (mt_at st)(mt_i st := mt_entry v), mt_main_at := Q_next\<rparr>"
  by (simp add: mt_loop_def mt_plain_def mt_go_def Let_def)

lemma plain_p [simp]: "rt_sem_p mt_plain x s = (if s x = 0 then None else Some (s(x := s x - 1)))"
    "mt_inquire mt_plain k s" "mt_sleep mt_plain n s = s" "mt_set_periodic mt_plain k p s = s"
    "rt_sem_create mt_plain x n s = s(x := n)"
  by (simp_all add: mt_plain_def plain_sems_def)

lemmas demo_simps = mt_schedule_def mt_begin_def mt_plain_loop mt_tasks_def mt_entry_def mt_task_def mt_go_def
  mt_inquired_def mt_param_def Let_def

lemma demo_multitask:
  obtains tr st where "run (mt_step Multitask mt_plain) (mt_begin Multitask mt_plain [0, 0, 0] (\<lambda>_. 0)) tr st"
    and "outputs tr = [(MTask 1, Some 2)]" and "mt_at st 0 = Q_p 1" and "mt_at st 1 = Q_v 2"
    and "mt_step Multitask mt_plain (MTask 0) st = None"
proof -
  have "map_option (\<lambda>(tr, st). (outputs tr, mt_at st 0, mt_at st 1, mt_step Multitask mt_plain (MTask 0) st = None))
      (schedule (mt_step Multitask mt_plain) (mt_schedule Multitask) ([], mt_begin Multitask mt_plain [0, 0, 0] (\<lambda>_. 0)))
    = Some ([(MTask 1, Some 2)], Q_p 1, Q_v 2, True)"
    by (simp add: demo_simps outputs_def List.map_filter_def)
  then show thesis by (auto simp del: mt_step.simps dest!: schedule_run [OF _ run_init] intro: that)
qed

theorem multitask_prints_witness:
  "\<exists>tr st. run (mt_step Multitask mt_plain) (mt_begin Multitask mt_plain [0, 0, 0] (\<lambda>_. 0)) tr st \<and>
    outputs tr = [(MTask 1, Some 2)] \<and> mt_step Multitask mt_plain (MTask 0) st = None \<and>
    in_print (mt_at st 0) = 0 \<and> (\<exists>l. mt_step Multitask mt_plain (MTask l) st \<noteq> None)"
proof -
  obtain tr st where r: "run (mt_step Multitask mt_plain) (mt_begin Multitask mt_plain [0, 0, 0] (\<lambda>_. 0)) tr st"
    "outputs tr = [(MTask 1, Some 2)]" "mt_at st 0 = Q_p 1" "mt_at st 1 = Q_v 2" "mt_step Multitask mt_plain (MTask 0) st = None"
    by (rule demo_multitask)
  have "\<exists>l. mt_step Multitask mt_plain (MTask l) st \<noteq> None"
    using multitask_prints [OF mt_plain_ok _ r(1)] r(3) by (metis (no_types, lifting) length_Cons list.size(3) mt_place.distinct(9) numeral_3_eq_3)
  then show ?thesis using r by (intro exI [of _ tr] exI [of _ st] conjI) simp_all
qed

text \<open>In stage c task 0 can print 1, task 1's number.\<close>

lemma stage_c_prints_other:
  "\<exists>tr st. run (mt_step Stage_c mt_plain) (mt_begin Stage_c mt_plain [0, 0, 0] (\<lambda>_. 0)) tr st \<and> outputs tr = [(MTask 0, Some 1)]"
proof -
  have "map_option (\<lambda>(tr, st). outputs tr)
      (schedule (mt_step Stage_c mt_plain) (mt_schedule Stage_c) ([], mt_begin Stage_c mt_plain [0, 0, 0] (\<lambda>_. 0)))
    = Some [(MTask 0, Some 1)]"
    by (simp add: demo_simps outputs_def List.map_filter_def)
  then show ?thesis by (auto dest!: schedule_run [OF _ run_init])
qed

end
