(* ===== verification/Spec2Isabelle.thy ===== *)
theory Spec2Isabelle
  imports Edf_Correct Edf_Notice Edf_Driver_Props Edf_App_Props Uthash_Murmur Uthash_Props Uthash_Bloom Utlist_Props
    Utstring_Find Utarray_Strings Exercise_Rover_Props Exercise_Semaphore Exercise_Bottler
    Test_Programs_Props Exercise_Example1_Props Exercise_Multitask_Props
begin

text \<open>
  EDFOMAI, an earliest-deadline-first scheduler on top of the Xenomai real-time kernel.

  \<^bold>\<open>The program.\<close> A kernel module keeps a table of the real-time tasks that have a deadline
  and gives each a Xenomai priority between 0 and 50 by its remaining time. Programs talk
  to the module by writing messages to an RTDM device, through a small library. The table
  is a hash table of the macro library uthash.

  \<^item> edfomai-data.h, edfomai-drv-data.h: constants, enumerations, structures.
  \<^item> edfomai-drv-data.c: the table of deadline tasks and its operations; the recalculation of
    the priorities.
  \<^item> edfomai-drv.c: the device's handlers, the service that recalculates when an event is
    signalled, the hooks on started and deleted tasks, loading and unloading.
  \<^item> edfomai-app.c: the library, which fills messages and writes them to the device.
  \<^item> datastructures/uthash.h: the hash table; datastructures/utlist.h, utstring.h and utarray.h:
    linked lists, strings and dynamic arrays, which come with it.
  \<^item> periodic_test.c, sporadic_test.c: programs that start three tasks with deadlines.
  \<^item> exercise-edfomai/mars_rover.c, example1.c: programs of four and of three tasks that use the library;
    exercise-xenomai/semaphore.c: two tasks that take turns; exercise-xenomai/bottler.c: a
    programmable controller of three tasks; exercise-xenomai/multitask.c and the stages
    multitask.c.a.c to multitask.c.d.c: a loop that starts tasks.

  \<^bold>\<open>Theories.\<close>

  \<^item> \<open>Edf_Prelude\<close>: the option monad, C strings in buffers, doubly linked lists in a heap.
  \<^item> \<open>Uthash_Jen\<close>, \<open>Uthash_Hashes\<close>: the hash functions, on 32-bit words; \<open>Uthash_Murmur\<close>: one of them
    on processors that do not read unaligned words.
  \<^item> \<open>Uthash\<close>: the table at the level of its pointers, one function per macro; \<open>Uthash_Inv\<close>
    and \<open>Uthash_Correct\<close>: the invariant of buckets and application order, and what each macro
    does under it; \<open>Uthash_Dict\<close>: the interface \<open>ordered_dict\<close>, interpreted by the macros, and
    the rule for \<open>HASH_ITER\<close>.
  \<^item> \<open>Uthash_Msort\<close>, \<open>Uthash_Sort\<close>: \<open>HASH_SRT\<close>, first the list function, then the pointers;
    \<open>Uthash_Fsck\<close>: \<open>HASH_FSCK\<close> and \<open>HASH_CLEAR\<close>; \<open>Uthash_Select\<close>:
    \<open>HASH_SELECT\<close> into a second table; \<open>Uthash_Bloom\<close>: the Bloom filter, and \<open>ordered_dict\<close>
    interpreted by the table that has one; \<open>Uthash_Props\<close>: the properties of the table.
  \<^item> \<open>Edf_Types\<close>: the data model and the external world; \<open>Edf_Prio\<close>: \<open>div64_64\<close> and
    \<open>_calculate_prio\<close> on 64-bit words.
  \<^item> \<open>Edf_Dtask\<close>: every function of edfomai-drv-data.c over the pointer-level table, and
    \<open>deadline_missed\<close>.
  \<^item> \<open>Edf_Spec\<close>, \<open>Edf_Spec_Inv\<close>: the abstract state, a list of addresses and tasks with the
    history of external calls, a specification of each operation on it, its invariant;
    \<open>Edf_Rep\<close>, \<open>Edf_Recalc\<close>, \<open>Edf_Refine\<close>: each operation refines its specification;
    \<open>Edf_Interface\<close>: the operations as a family, the contract as a locale.
  \<^item> \<open>Edf_Demo\<close>: a concrete external world, for the witnesses.
  \<^item> \<open>Edf_Ranking\<close>, \<open>Edf_Correct\<close>: recalculation puts earlier deadlines first. \<open>Edf_Ops\<close>,
    \<open>Edf_Notice\<close>, \<open>Edf_Memory\<close>: what the other operations do, what they leave allocated.
  \<^item> \<open>Edf_Driver\<close>: edfomai-drv.c; \<open>Edf_Driver_Correct\<close>, \<open>Edf_Driver_Props\<close>: the write handler;
    \<open>Edf_Driver_Steps\<close>, \<open>Edf_Driver_Life\<close>: the module as a state machine.
  \<^item> \<open>Edf_App\<close>: edfomai-app.c; \<open>Edf_App_Correct\<close>, \<open>Edf_App_Props\<close>: the library over the module.
  \<^item> \<open>Utlist\<close>: the macros of utlist.h over a heap of elements; \<open>Utlist_Rep\<close>: what lists of the three
    kinds are and what the macros do to them; \<open>Utlist_Ops\<close>: the interfaces \<open>linked_list\<close> and
    \<open>queue_list\<close>, interpreted by the macros; \<open>Utlist_Iter\<close>: the loops over a list;
    \<open>Utlist_Sort\<close>: the three sorting macros; \<open>Utlist_Props\<close>: their properties.
  \<^item> \<open>Utstring_Kmp\<close>: the search functions of utstring.h with the conversions between C's integers
    written out; \<open>Utstring_Forward\<close>, \<open>Utstring_Backward\<close>: they find the first and the last
    occurrence, the second by simulating the first on the mirrored strings. \<open>Utstring\<close>: the other
    operations, over buffers; \<open>Utstring_Ops\<close>: what each does to a well-formed string;
    \<open>Utstring_Props\<close>, \<open>Utstring_Printf\<close>, \<open>Utstring_Find\<close>: the properties.
  \<^item> \<open>Utarray\<close>: utarray.h over buffers of slots; \<open>Utarray_Ops\<close>, \<open>Utarray_Edit\<close>: what each operation
    does to a well-formed array; \<open>Utarray_Props\<close>: sequences of operations;
    \<open>Utarray_Strings\<close>: arrays that own strings on the heap.
  \<^item> \<open>Rt_Sem\<close>: tasks that synchronise with semaphores, their runs, the interface \<open>sem_program\<close> by
    which semaphores' counts follow from a run; \<open>Exercise_Rover\<close>, \<open>Exercise_Rover_Props\<close>:
    mars_rover.c, an instance of it; \<open>Exercise_Semaphore\<close>: semaphore.c; \<open>Exercise_Bottler\<close>:
    bottler.c, another instance; \<open>Exercise_Multitask\<close>, \<open>Exercise_Multitask_Props\<close>: multitask.c and
    its stages.
  \<^item> \<open>Test_Programs\<close>, \<open>Test_Programs_Props\<close>: the two test programs, and the interface \<open>test_tasks\<close> by
    which both end; \<open>Exercise_Example1\<close>: example1.c; \<open>Edf_Contract\<close>, \<open>Exercise_Example1_Props\<close>: its tasks,
    the library and the module running together; \<open>Edf_App_Frame\<close>: what the library leaves alone.

  \<^bold>\<open>How code becomes definitions.\<close> A structure is a record, an enumeration a datatype with the
  values of its enumerators, an \<open>unsigned long long\<close> a 64-bit and an \<open>unsigned\<close> a 32-bit word.
  A function of the module takes the external world \<open>env\<close> and the state and returns
  \<open>None\<close> when the code goes wrong (a NULL or dangling pointer, a buffer overrun, a block
  freed twice, a lock taken twice, a division by zero, a loop that does not end) and
  otherwise its return code and the new state. The state holds a heap of elements, the
  pointer to the first, the table, the history of external calls and, for the module,
  the lock, the event and the position of the service. Loops along pointers are
  \<open>partial_function (option)\<close>; that they end is part of the lemmas, since \<open>None\<close> would be
  the result otherwise. Strings and arrays say which of these it is: the result \<open>ut_error\<close> is
  \<open>Oom\<close> where the code exits for lack of memory, \<open>Overrun\<close> where it leaves a block or uses a freed
  one, \<open>Hangs\<close> where a loop does not end.

  The Linux, Xenomai and RTDM calls are fields of \<open>env\<close>; what they return may depend on the
  history of calls. \<open>klib_ok\<close>, \<open>xeno_ok\<close> and \<open>drv_env_ok\<close> state what the code relies on: \<open>fls\<close> and
  \<open>do_div\<close> compute what they document, an inquiry returns the task's name, allocation returns
  a block that is not in use, copying from user space fails with \<open>-EFAULT\<close>, the registry
  gives tasks whose names fit the buffers. \<open>sem_ok\<close> says the same of semaphores: waiting takes a
  unit or blocks, signalling gives one; \<open>rover_env_ok\<close> and \<open>bottler_env_ok\<close>, that no other call
  changes the counts; \<open>fds_ok\<close>, the same of open descriptors. \<open>realloc_ok\<close>, \<open>realloc_slots_ok\<close>, \<open>malloc_ok\<close> and \<open>fresh_ok\<close>: an allocation that
  succeeds gives a block of the size asked for, with the old contents at its start and arbitrary
  ones behind, or an address that is not in use. \<open>edf_state env s ts\<close> says that the pointers of \<open>s\<close>
  represent the consistent list of tasks \<open>ts\<close>.

  \<^bold>\<open>What is shown.\<close> Every sequence of operations refines the same sequence of specifications,
  so the code does not go wrong and keeps the table consistent. After a recalculation a
  task that is running with an earlier deadline has no lower priority than one with a
  later deadline, as long as the remaining times stay below the bound at which the
  priority's product wraps; missed deadlines are notified once. The
  module keeps its invariant in every order of its entry points. The lists of utlist.h refine
  lists of addresses, and both merge sorts are the library's stable sort. The strings of utstring.h
  refine lists of characters, the arrays of utarray.h lists of elements, also when they are appended
  to themselves and when the operating system refuses memory; searching by tables finds what the
  naive search finds; arrays of strings neither leak nor share a string;
  hash tables with a Bloom filter give the results of those without. In the exercises and test programs,
  the properties hold in every interleaving of the tasks. The remaining
  properties say what each operation does, what happens on its error paths, what is leaked,
  and where the code does not do what it means to: these are listed as findings.

  \<^bold>\<open>Granularity.\<close> A message is handled, and priorities are recalculated, in one step of the state
  machine; the service's wait, acquisition, release and clearing are steps of their own. The
  delete hook can therefore run between the steps of the service. In the middle of a
  recalculation, where the code does not exclude it either, the state machine does not run it;
  \<open>delete_hook_race\<close> shows what it does there.

  \<^bold>\<open>Bounds.\<close> Counters of the hash table are natural numbers: they count items and buckets in memory,
  which does not hold 2^32 of them. There is no fuel anywhere.

  In utstring.h and utarray.h, where sizes are the subject, they are 64-bit and 32-bit words; the
  theorems name the bound on what \<open>realloc\<close> grants, and \<open>reserve_hangs\<close> and \<open>utstring_printf_hangs\<close>
  say what happens beyond.

  \<^bold>\<open>Not modelled.\<close> Log messages and \<open>DEBUG\<close> blocks. Key emission in uthash.h, which writes
  keys to a file descriptor and is compiled out; the filter of a table that \<open>HASH_SELECT\<close> fills. The program in exercise-xenomai/SFC, which does not
  compile (it indexes and calls a \<open>short\<close> and starts tasks it does not declare); test.c, test_b.c and
  the slides of exercise-xenomai, which print from one task and keep no state.
\<close>

end
